(* ===== verification/Prelude.thy ===== *)
theory Prelude
  imports Main "HOL-Library.Word"
begin

unbundle bit_operations_syntax

text \<open>
  What every component shares: the names of the machine types, the ways a run of the C code
  can stop other than by returning, the error monad that sequences fallible steps, and the
  generic facts about lists, runs and words that the component proofs rest on.
\<close>

section \<open>Machine types\<close>

type_synonym u8 = "8 word"
type_synonym u16 = "16 word"
type_synonym u32 = "32 word"

section \<open>Faults and the error monad\<close>

text \<open>
  A run of the C code that does not return normally: a crash (null pointer, access outside
  an object), an arithmetic operation the C standard leaves undefined, a read of an
  uninitialised location that decides a branch, a call of \<^verbatim>\<open>exit\<close>, or a wait that does not end
  on the input supplied so far.
\<close>

datatype fault =
    NullDeref
  | OutOfBounds
  | SignedOverflow
  | DivByZero
  | FloatRange
  | UseAfterFree
  | Exit int
  | Blocked

type_synonym 'a res = "fault + 'a"

definition bindE :: "'e + 'a \<Rightarrow> ('a \<Rightarrow> 'e + 'b) \<Rightarrow> 'e + 'b" where
  "bindE m f = (case m of Inl e \<Rightarrow> Inl e | Inr x \<Rightarrow> f x)"

definition guardE :: "bool \<Rightarrow> 'e \<Rightarrow> 'e + unit" where
  "guardE b e = (if b then Inr () else Inl e)"

named_theorems res_simps "equations that push a result through the error monad"

lemma bindE_Inl [simp]: "bindE (Inl e) f = Inl e"
  by (simp add: bindE_def)

lemma bindE_Inr [simp]: "bindE (Inr x) f = f x"
  by (simp add: bindE_def)

lemma bindE_eq_Inr [res_simps]: "bindE m f = Inr y \<longleftrightarrow> (\<exists>x. m = Inr x \<and> f x = Inr y)"
  by (cases m) auto

lemma bindE_eq_Inl [res_simps]:
  "bindE m f = Inl e \<longleftrightarrow> m = Inl e \<or> (\<exists>x. m = Inr x \<and> f x = Inl e)"
  by (cases m) auto

lemma bindE_assoc: "bindE (bindE m f) g = bindE m (\<lambda>x. bindE (f x) g)"
  by (cases m) auto

lemma bindE_cong [fundef_cong]:
  "m = m' \<Longrightarrow> (\<And>x. m' = Inr x \<Longrightarrow> f x = f' x) \<Longrightarrow> bindE m f = bindE m' f'"
  by (cases m') auto

lemma guardE_eq_Inr [res_simps]: "guardE b e = Inr u \<longleftrightarrow> b"
  by (simp add: guardE_def)

lemma guardE_True [simp]: "guardE True e = Inr ()"
  by (simp add: guardE_def)

lemma guardE_False [simp]: "guardE False e = Inl e"
  by (simp add: guardE_def)

text \<open>A handler run over a list of inputs, stopped by the first fault.\<close>

fun runE :: "('s \<Rightarrow> 'a \<Rightarrow> 'e + 's) \<Rightarrow> 's \<Rightarrow> 'a list \<Rightarrow> 'e + 's" where
  "runE f s [] = Inr s"
| "runE f s (x # xs) = bindE (f s x) (\<lambda>s'. runE f s' xs)"

lemma runE_append: "runE f s (xs @ ys) = bindE (runE f s xs) (\<lambda>s'. runE f s' ys)"
  by (induction xs arbitrary: s) (auto simp: bindE_assoc)

lemma runE_invariant:
  assumes "runE f s xs = Inr s'" and "P s"
    and "\<And>s x s'. x \<in> set xs \<Longrightarrow> P s \<Longrightarrow> f s x = Inr s' \<Longrightarrow> P s'"
  shows "P s'"
  using assms
proof (induction xs arbitrary: s)
  case Nil
  then show ?case by simp
next
  case (Cons x xs)
  from Cons.prems(1) obtain t where t: "f s x = Inr t" "runE f t xs = Inr s'"
    by (auto simp: res_simps)
  with Cons.prems(2,3) have "P t" by auto
  with t(2) Cons.IH Cons.prems(3) show ?case by auto
qed

lemma runE_cong_fun:
  "(\<And>s x. x \<in> set xs \<Longrightarrow> f s x = g s x) \<Longrightarrow> runE f s xs = runE g s xs"
  by (induction xs arbitrary: s) (auto intro: bindE_cong)

lemma runE_map: "runE f s (map h xs) = runE (\<lambda>s x. f s (h x)) s xs"
  by (induction xs arbitrary: s) auto

section \<open>Words\<close>

named_theorems word_bits "bit-level facts about the words the code packs and masks"

lemma low_mask_mod [word_bits]: "unat (w AND mask n) = unat w mod 2 ^ n"
  for w :: "'a::len word"
  by (simp flip: take_bit_eq_mask add: unsigned_take_bit_eq take_bit_nat_def)

lemma masked_lt: "unat (w AND mask n) < 2 ^ n" for w :: "'a::len word"
  by (simp add: low_mask_mod)

lemma drop_bit_unat [word_bits]: "unat (drop_bit n w) = unat w div 2 ^ n" for w :: "'a::len word"
  by (simp add: unsigned_drop_bit_eq drop_bit_eq_div [where ?'a = nat] take_bit_nat_eq_self)

lemma drop_all_but:
  fixes w :: "'a::len word"
  assumes "n \<le> LENGTH('a)"
  shows "unat (drop_bit (LENGTH('a) - n) w) < 2 ^ n"
proof -
  have "unat w < 2 ^ (LENGTH('a) - n) * 2 ^ n"
    using unsigned_less [of w] assms by (simp flip: power_add)
  then show ?thesis
    by (simp add: drop_bit_unat less_mult_imp_div_less mult.commute)
qed

lemma and_not_mask_idem: "(w AND NOT m) AND NOT m = w AND NOT m" for w m :: "'a::len word"
  by (simp add: and.assoc)

lemma bit_or_set: "bit m k \<Longrightarrow> bit (w OR m) k" for w m :: "'a::len word"
  by (simp add: bit_or_iff)

lemma bit_and_not_clear: "bit m k \<Longrightarrow> \<not> bit (w AND NOT m) k" for w m :: "'a::len word"
  by (simp add: bit_and_iff bit_not_iff)

section \<open>Lists\<close>

lemma map_nth_upt_append:
  "i \<le> j \<Longrightarrow> j \<le> k \<Longrightarrow> map f [i..<j] @ map f [j..<k] = map f [i..<k]" for f :: "nat \<Rightarrow> 'a"
  by (metis map_append upt_add_eq_append le_add_diff_inverse)

end
