(* ===== verification/CArith.thy ===== *)
theory CArith
  imports Prelude "HOL-Library.Signed_Division"
begin

text \<open>
  Integer arithmetic of the C abstract machine on the target (32-bit ARM: \<^verbatim>\<open>int\<close> and \<^verbatim>\<open>long\<close> have
  32 bits, \<^verbatim>\<open>short\<close> 16). Signed values are mathematical integers; an operation whose result does
  not fit is \<open>SignedOverflow\<close>, a division by zero is \<open>DivByZero\<close>. Right shifts of negative values
  are arithmetic and conversions to a narrower signed type wrap, as the compiler used (gcc)
  documents.
\<close>

definition in_i32 :: "int \<Rightarrow> bool" where
  "in_i32 x \<longleftrightarrow> - (2 ^ 31) \<le> x \<and> x < 2 ^ 31"

definition ck32 :: "int \<Rightarrow> int res" where
  "ck32 x = (if in_i32 x then Inr x else Inl SignedOverflow)"

definition cadd :: "int \<Rightarrow> int \<Rightarrow> int res" where "cadd a b = ck32 (a + b)"
definition csub :: "int \<Rightarrow> int \<Rightarrow> int res" where "csub a b = ck32 (a - b)"
definition cmul :: "int \<Rightarrow> int \<Rightarrow> int res" where "cmul a b = ck32 (a * b)"

definition cdiv :: "int \<Rightarrow> int \<Rightarrow> int res" where
  "cdiv a b = (if b = 0 then Inl DivByZero else ck32 (a sdiv b))"

definition cshl :: "int \<Rightarrow> nat \<Rightarrow> int res" where "cshl a n = ck32 (a * 2 ^ n)"

definition cshr :: "int \<Rightarrow> nat \<Rightarrow> int" where "cshr a n = a div 2 ^ n"

text \<open>Conversions: to \<^verbatim>\<open>int16_t\<close>, to \<^verbatim>\<open>int32_t\<close>, to \<^verbatim>\<open>uint8_t\<close>.\<close>

definition to_i16 :: "int \<Rightarrow> int" where
  "to_i16 x = (x + 2 ^ 15) mod 2 ^ 16 - 2 ^ 15"

definition to_i32 :: "int \<Rightarrow> int" where
  "to_i32 x = (x + 2 ^ 31) mod 2 ^ 32 - 2 ^ 31"

definition to_u32 :: "int \<Rightarrow> int" where
  "to_u32 x = x mod 2 ^ 32"

definition to_u8 :: "int \<Rightarrow> int" where
  "to_u8 x = x mod 2 ^ 8"

named_theorems c_ops "the checked operations and conversions, unfolded"

lemmas c_op_defs [c_ops] = cadd_def csub_def cmul_def cdiv_def cshl_def cshr_def

lemma ck32_Inr [simp]: "in_i32 x \<Longrightarrow> ck32 x = Inr x"
  by (simp add: ck32_def)

lemma ck32_eq_Inr [res_simps]: "ck32 x = Inr y \<longleftrightarrow> in_i32 x \<and> y = x"
  by (auto simp: ck32_def)

lemma in_i32_iff: "in_i32 x \<longleftrightarrow> - 2147483648 \<le> x \<and> x \<le> 2147483647"
  by (simp add: in_i32_def) linarith

lemma to_i32_in [simp]: "in_i32 (to_i32 x)"
proof -
  have "0 \<le> (x + 2 ^ 31) mod 2 ^ 32" "(x + 2 ^ 31) mod 2 ^ 32 < 2 ^ 32"
    by simp_all
  then show ?thesis by (simp add: to_i32_def in_i32_def)
qed

lemma to_i32_cong: "a mod 4294967296 = b mod 4294967296 \<Longrightarrow> to_i32 a = to_i32 b"
  using mod_add_cong [of a 4294967296 b 2147483648 2147483648] by (simp add: to_i32_def)

lemma to_i32_id: "in_i32 x \<Longrightarrow> to_i32 x = x"
  by (simp add: to_i32_def in_i32_def)

lemma to_i16_id: "- (2 ^ 15) \<le> x \<Longrightarrow> x < 2 ^ 15 \<Longrightarrow> to_i16 x = x"
  by (simp add: to_i16_def)

lemma to_i16_range: "- (2 ^ 15) \<le> to_i16 x \<and> to_i16 x < 2 ^ 15"
proof -
  have "0 \<le> (x + 2 ^ 15) mod 2 ^ 16" "(x + 2 ^ 15) mod 2 ^ 16 < 2 ^ 16"
    by simp_all
  then show ?thesis by (simp add: to_i16_def)
qed

lemma to_i16_sint: "sint (word_of_int x :: u16) = to_i16 x"
  by (simp add: to_i16_def sint_word_ariths sint_sbintrunc' signed_take_bit_eq_take_bit_shift
      take_bit_eq_mod)

lemma to_i32_sint: "sint (word_of_int x :: u32) = to_i32 x"
  by (simp add: to_i32_def sint_sbintrunc' signed_take_bit_eq_take_bit_shift take_bit_eq_mod)

lemma sint_in_i32 [simp]: "in_i32 (sint (w :: u32))"
  using sint_range_size [of w] by (simp add: in_i32_def word_size)

lemma div_bounds: "0 < n \<Longrightarrow> n * (x div n) \<le> x \<and> x < n * (x div n) + n" for n x :: int
proof -
  assume "0 < n"
  then have "0 \<le> x mod n" "x mod n < n" by simp_all
  then show ?thesis using mult_div_mod_eq [of n x] by linarith
qed

lemma mod_mult_div: "0 < b \<Longrightarrow> 0 \<le> c \<Longrightarrow> x mod (b * c) div b = x div b mod c" for b c x :: int
  by (simp add: zmod_zmult2_eq)

lemma cshr_mono: "a \<le> b \<Longrightarrow> cshr a n \<le> cshr b n"
  by (simp add: cshr_def zdiv_mono1)

lemma cshr_bounds:
  assumes "lo * 2 ^ n \<le> a" and "a < hi * 2 ^ n"
  shows "lo \<le> cshr a n \<and> cshr a n < hi"
proof -
  have "lo = (lo * 2 ^ n) div 2 ^ n" by simp
  also have "\<dots> \<le> a div 2 ^ n" using assms(1) by (intro zdiv_mono1) auto
  finally have "lo \<le> a div 2 ^ n" .
  moreover have "a div 2 ^ n < hi"
  proof -
    have "a div 2 ^ n * 2 ^ n \<le> a"
      by (simp add: minus_mod_eq_div_mult [symmetric])
    with assms(2) have "a div 2 ^ n * 2 ^ n < hi * 2 ^ n" by linarith
    then show ?thesis by simp
  qed
  ultimately show ?thesis by (simp add: cshr_def)
qed

end
