(* ===== verification/CFloat.thy ===== *)
theory CFloat
  imports Complex_Main CArith
begin

text \<open>
  Binary floating point, as the \<^verbatim>\<open>float\<close> (24 significant bits) and \<^verbatim>\<open>double\<close> (53 bits) arithmetic of
  the target computes it: every operation yields the exact result rounded to nearest, ties to
  even. A value is a mantissa and an exponent of two; the programs modelled here stay far away
  from the largest and smallest exponents, so infinities, NaNs and subnormal numbers do not
  occur and are left out, and the two zeros are one.
\<close>

datatype flt = Flt (man: int) (expo: int)

definition fval :: "flt \<Rightarrow> real" where
  "fval x = of_int (man x) * 2 powi expo x"

abbreviation "FLOAT \<equiv> 24 :: nat"
abbreviation "DOUBLE \<equiv> 53 :: nat"

section \<open>Rounding\<close>

text \<open>Nearest integer to \<open>n / d\<close>, ties to even.\<close>

definition rne :: "int \<Rightarrow> int \<Rightarrow> int" where
  "rne n d = (let q = n div d; r = n mod d
              in if 2 * r < d \<or> (2 * r = d \<and> even q) then q else q + 1)"

function ilog2 :: "int \<Rightarrow> nat" where
  "ilog2 n = (if n < 2 then 0 else Suc (ilog2 (n div 2)))"
  by pat_completeness auto
termination by (relation "measure nat") auto

declare ilog2.simps [simp del]

text \<open>Powers of two with an integer exponent, split into the factors of a fraction.\<close>

definition p2 :: "int \<Rightarrow> int" where "p2 e = 2 ^ nat e"

text \<open>\<open>flog n d\<close> is the floor of the base-2 logarithm of \<open>n / d\<close>, for positive \<open>n\<close>, \<open>d\<close>.\<close>

definition flog :: "int \<Rightarrow> int \<Rightarrow> int" where
  "flog n d = (let k = int (ilog2 n) - int (ilog2 d)
               in if n * p2 (- k) < d * p2 k then k - 1 else k)"

definition fround :: "nat \<Rightarrow> int \<Rightarrow> int \<Rightarrow> flt" where
  "fround p n d =
     (if n = 0 then Flt 0 0
      else let e = flog \<bar>n\<bar> d - (int p - 1) in Flt (rne (n * p2 (- e)) (d * p2 e)) e)"

section \<open>Operations\<close>

definition fround_dy :: "nat \<Rightarrow> int \<Rightarrow> int \<Rightarrow> flt" where
  "fround_dy p m e = fround p (m * p2 e) (p2 (- e))"

definition fcvt :: "nat \<Rightarrow> flt \<Rightarrow> flt" where
  "fcvt p x = fround_dy p (man x) (expo x)"

definition f_of_int :: "nat \<Rightarrow> int \<Rightarrow> flt" where
  "f_of_int p n = fround p n 1"

definition fdec :: "int \<Rightarrow> nat \<Rightarrow> flt" where
  \<comment> \<open>the double constant \<open>n / 10 ^ k\<close>\<close>
  "fdec n k = fround DOUBLE n (10 ^ k)"

definition fmul :: "nat \<Rightarrow> flt \<Rightarrow> flt \<Rightarrow> flt" where
  "fmul p x y = fround_dy p (man x * man y) (expo x + expo y)"

definition fadd :: "nat \<Rightarrow> flt \<Rightarrow> flt \<Rightarrow> flt" where
  "fadd p x y =
     (let e = min (expo x) (expo y)
      in fround_dy p (man x * p2 (expo x - e) + man y * p2 (expo y - e)) e)"

definition fneg :: "flt \<Rightarrow> flt" where
  "fneg x = Flt (- man x) (expo x)"

definition fsub :: "nat \<Rightarrow> flt \<Rightarrow> flt \<Rightarrow> flt" where
  "fsub p x y = fadd p x (fneg y)"

definition fdiv :: "nat \<Rightarrow> flt \<Rightarrow> flt \<Rightarrow> flt res" where
  "fdiv p x y =
     (if man y = 0 then Inl DivByZero
      else let e = expo x - expo y
           in Inr (fround p (sgn (man y) * man x * p2 e) (\<bar>man y\<bar> * p2 (- e))))"

text \<open>Conversion to an integer drops the fraction; out of range it is undefined.\<close>

definition ftrunc :: "flt \<Rightarrow> int" where
  "ftrunc x = (man x * p2 (expo x)) sdiv p2 (- expo x)"

definition f_to_u32 :: "flt \<Rightarrow> u32 res" where
  "f_to_u32 x =
     (let t = ftrunc x in if 0 \<le> t \<and> t < 2 ^ 32 then Inr (word_of_int t) else Inl FloatRange)"

definition f_to_i32 :: "flt \<Rightarrow> int res" where
  "f_to_i32 x = (let t = ftrunc x in if in_i32 t then Inr t else Inl FloatRange)"

text \<open>\<open>round\<close> of the C library: to the nearest integer, ties away from zero.\<close>

definition c_round :: "flt \<Rightarrow> int" where
  "c_round x =
     (let n = man x * p2 (expo x); d = p2 (- expo x)
      in sgn n * ((2 * \<bar>n\<bar> + d) div (2 * d)))"

text \<open>The decimal digits \<open>printf\<close> shows for \<open>"%.kf"\<close>: the value scaled by \<open>10 ^ k\<close>, rounded.\<close>

definition fdigits :: "nat \<Rightarrow> flt \<Rightarrow> int" where
  "fdigits k x = rne (man x * p2 (expo x) * 10 ^ k) (p2 (- expo x))"

definition fpos :: "flt \<Rightarrow> bool" where "fpos x \<longleftrightarrow> 0 < man x"

lemmas f_ops = fround_def fround_dy_def fcvt_def f_of_int_def fdec_def fmul_def fadd_def fneg_def
  fsub_def fdiv_def ftrunc_def f_to_u32_def f_to_i32_def flog_def rne_def p2_def Let_def

section \<open>Accuracy\<close>

lemma p2_pos [simp]: "0 < p2 e"
  by (simp add: p2_def)

lemma p2_frac: "real_of_int (p2 e) / real_of_int (p2 (- e)) = 2 powi e"
  by (cases "0 \<le> e") (simp_all add: p2_def power_int_def field_simps)

lemma rne_error: "0 < d \<Longrightarrow> 2 * \<bar>n - d * rne n d\<bar> \<le> d"
proof -
  assume d: "0 < d"
  define q r where "q = n div d" and "r = n mod d"
  have n: "n = d * q + r" by (simp add: q_def r_def)
  have r: "0 \<le> r" "r < d" using d by (simp_all add: r_def)
  show ?thesis
  proof (cases "2 * r < d \<or> (2 * r = d \<and> even q)")
    case True
    then have "rne n d = q" by (simp add: rne_def q_def r_def Let_def)
    with True r show ?thesis by (auto simp: n)
  next
    case False
    then have "rne n d = q + 1" by (auto simp: rne_def q_def r_def Let_def)
    with False r show ?thesis by (auto simp: n algebra_simps)
  qed
qed

lemma rne_exact: "0 < d \<Longrightarrow> rne (d * q) d = q"
  by (simp add: rne_def Let_def)

lemma ilog2_bounds: "0 < n \<Longrightarrow> 2 ^ ilog2 n \<le> n \<and> n < 2 ^ (Suc (ilog2 n))"
proof (induction n rule: ilog2.induct)
  case (1 n)
  show ?case
  proof (cases "n < 2")
    case True
    with "1.prems" show ?thesis by (simp add: ilog2.simps [of n])
  next
    case False
    with "1.IH" have "2 ^ ilog2 (n div 2) \<le> n div 2" "n div 2 < 2 ^ Suc (ilog2 (n div 2))"
      by auto
    then have "2 * 2 ^ ilog2 (n div 2) \<le> n" "n < 2 * 2 ^ Suc (ilog2 (n div 2))"
      by linarith+
    with False show ?thesis by (simp add: ilog2.simps [of n])
  qed
qed

lemma ilog2_real:
  assumes "0 < n"
  shows "2 ^ ilog2 n \<le> real_of_int n" and "real_of_int n < 2 * 2 ^ ilog2 n"
proof -
  have b: "2 ^ ilog2 n \<le> n" "n < 2 ^ Suc (ilog2 n)"
    using ilog2_bounds [of n] assms by simp_all
  then have "real_of_int (2 ^ ilog2 n) \<le> real_of_int n" "real_of_int n < real_of_int (2 ^ Suc (ilog2 n))"
    by (simp_all only: of_int_le_iff of_int_less_iff)
  then show "2 ^ ilog2 n \<le> real_of_int n" "real_of_int n < 2 * 2 ^ ilog2 n"
    by simp_all
qed

lemma flog_bounds:
  assumes "0 < n" and "0 < d"
  shows "2 powi flog n d \<le> real_of_int n / real_of_int d"
    and "real_of_int n / real_of_int d < 2 powi (flog n d + 1)"
proof -
  define a b where "a = ilog2 n" and "b = ilog2 d"
  define k where "k = int a - int b"
  let ?x = "real_of_int n / real_of_int d"
  have n: "2 ^ a \<le> real_of_int n" "real_of_int n < 2 * 2 ^ a"
    and d: "2 ^ b \<le> real_of_int d" "real_of_int d < 2 * 2 ^ b"
    using ilog2_real assms by (simp_all add: a_def b_def)
  have ab: "2 powi k = (2 ^ a / 2 ^ b :: real)"
    by (simp add: k_def power_int_diff)
  have up: "?x < 2 * 2 powi k"
  proof -
    have "?x < (2 * 2 ^ a) / 2 ^ b"
      using n d assms by (intro frac_less) auto
    then show ?thesis by (simp add: ab)
  qed
  have lo: "2 powi k / 2 \<le> ?x"
  proof -
    have "2 ^ a / (2 * 2 ^ b) \<le> ?x"
      using n d assms by (intro frac_le) auto
    then show ?thesis by (simp add: ab)
  qed
  have cmp: "n * p2 (- k) < d * p2 k \<longleftrightarrow> ?x < 2 powi k"
  proof -
    have "?x < 2 powi k \<longleftrightarrow> real_of_int n / real_of_int d < real_of_int (p2 k) / real_of_int (p2 (- k))"
      by (simp add: p2_frac)
    also have "\<dots> \<longleftrightarrow> real_of_int (n * p2 (- k)) < real_of_int (d * p2 k)"
      using assms by (simp add: field_simps)
    finally show ?thesis by (simp only: of_int_less_iff)
  qed
  have flog: "flog n d = (if ?x < 2 powi k then k - 1 else k)"
    by (simp add: flog_def Let_def cmp [symmetric] flip: a_def b_def k_def)
  show "2 powi flog n d \<le> ?x" "?x < 2 powi (flog n d + 1)"
    using up lo by (auto simp: flog power_int_diff power_int_add)
qed

lemma fround_error:
  assumes d: "0 < d"
  shows "\<bar>fval (fround p n d) - real_of_int n / real_of_int d\<bar>
    \<le> \<bar>real_of_int n / real_of_int d\<bar> * 2 powi (- int p)"
proof (cases "n = 0")
  case True
  then show ?thesis by (simp add: fround_def fval_def)
next
  case False
  define e where "e = flog \<bar>n\<bar> d - (int p - 1)"
  define N D where "N = n * p2 (- e)" and "D = d * p2 e"
  let ?x = "real_of_int n / real_of_int d"
  have D: "0 < D" using d by (simp add: D_def)
  have x: "real_of_int N / real_of_int D * 2 powi e = ?x"
    using p2_frac [of e] p2_pos [of e] p2_pos [of "- e"]
    by (simp add: N_def D_def field_simps del: p2_pos)
  have h: "\<bar>real_of_int (rne N D) - real_of_int N / real_of_int D\<bar> \<le> 1 / 2"
  proof -
    have *: "real_of_int (2 * \<bar>N - D * rne N D\<bar>) \<le> real_of_int D"
      using rne_error [OF D, of N] by (simp only: of_int_le_iff)
    have "real_of_int (rne N D) - real_of_int N / real_of_int D
        = - (real_of_int (N - D * rne N D) / real_of_int D)"
      using D by (simp add: field_simps)
    then have "\<bar>real_of_int (rne N D) - real_of_int N / real_of_int D\<bar>
        = real_of_int \<bar>N - D * rne N D\<bar> / real_of_int D"
      using D by (simp add: abs_divide)
    with * D show ?thesis by (simp add: divide_le_eq)
  qed
  have "fval (fround p n d) - ?x = (real_of_int (rne N D) - real_of_int N / real_of_int D) * 2 powi e"
    using False x by (simp add: fround_def fval_def Let_def e_def N_def D_def algebra_simps)
  then have "\<bar>fval (fround p n d) - ?x\<bar>
      = \<bar>real_of_int (rne N D) - real_of_int N / real_of_int D\<bar> * 2 powi e"
    by (simp add: abs_mult)
  also have "\<dots> \<le> 1 / 2 * 2 powi e"
    using h by (intro mult_right_mono) auto
  also have "\<dots> = 2 powi flog \<bar>n\<bar> d * 2 powi (- int p)"
    by (simp add: e_def power_int_diff power_int_add power_int_minus field_simps)
  also have "\<dots> \<le> \<bar>?x\<bar> * 2 powi (- int p)"
    using flog_bounds(1) [of "\<bar>n\<bar>" d] False d
    by (intro mult_right_mono) auto
  finally show ?thesis .
qed

lemma scaled_frac: "real_of_int (m * p2 e) / real_of_int (p2 (- e)) = real_of_int m * 2 powi e"
  by (simp add: p2_frac [symmetric])

lemma fround_dy_error:
  "\<bar>fval (fround_dy p m e) - real_of_int m * 2 powi e\<bar>
     \<le> \<bar>real_of_int m * 2 powi e\<bar> * 2 powi (- int p)"
  using fround_error [of "p2 (- e)" p "m * p2 e"] by (simp only: fround_dy_def scaled_frac p2_pos)

lemma fcvt_error: "\<bar>fval (fcvt p x) - fval x\<bar> \<le> \<bar>fval x\<bar> * 2 powi (- int p)"
  using fround_dy_error by (simp add: fcvt_def fval_def)

lemma fmul_error:
  "\<bar>fval (fmul p x y) - fval x * fval y\<bar> \<le> \<bar>fval x * fval y\<bar> * 2 powi (- int p)"
proof -
  have "fval x * fval y = real_of_int (man x * man y) * 2 powi (expo x + expo y)"
    by (simp add: fval_def power_int_add)
  then show ?thesis using fround_dy_error by (simp only: fmul_def)
qed

lemma fval_align: "e \<le> expo x \<Longrightarrow> real_of_int (man x * p2 (expo x - e)) * 2 powi e = fval x"
proof -
  assume "e \<le> expo x"
  then have "real_of_int (p2 (expo x - e)) = 2 powi (expo x - e)"
    by (simp add: p2_def power_int_def)
  then show ?thesis by (simp add: fval_def power_int_diff)
qed

lemma fadd_error:
  "\<bar>fval (fadd p x y) - (fval x + fval y)\<bar> \<le> \<bar>fval x + fval y\<bar> * 2 powi (- int p)"
proof -
  define e where "e = min (expo x) (expo y)"
  have "fval x + fval y
      = real_of_int (man x * p2 (expo x - e) + man y * p2 (expo y - e)) * 2 powi e"
    using fval_align [of e x] fval_align [of e y] by (simp add: e_def algebra_simps)
  then show ?thesis using fround_dy_error by (simp only: fadd_def Let_def flip: e_def)
qed

lemma fval_fneg [simp]: "fval (fneg x) = - fval x"
  by (simp add: fneg_def fval_def)

lemma fsub_error:
  "\<bar>fval (fsub p x y) - (fval x - fval y)\<bar> \<le> \<bar>fval x - fval y\<bar> * 2 powi (- int p)"
  using fadd_error [of p x "fneg y"] by (simp add: fsub_def)

lemma fdiv_eq:
  assumes "man y \<noteq> 0"
  obtains n d where "0 < d" and "fdiv p x y = Inr (fround p n d)"
    and "real_of_int n / real_of_int d = fval x / fval y"
proof -
  define e where "e = expo x - expo y"
  define n d where "n = sgn (man y) * man x * p2 e" and "d = \<bar>man y\<bar> * p2 (- e)"
  have "0 < d" using assms by (simp add: d_def)
  have "real_of_int n / real_of_int d
      = (real_of_int (sgn (man y) * man x) / real_of_int \<bar>man y\<bar>) * (real_of_int (p2 e) / real_of_int (p2 (- e)))"
    by (simp add: n_def d_def)
  also have "\<dots> = (real_of_int (man x) / real_of_int (man y)) * 2 powi e"
    using assms by (simp add: p2_frac) (simp add: sgn_if)
  also have "\<dots> = fval x / fval y"
    by (simp add: fval_def e_def power_int_diff)
  finally have "real_of_int n / real_of_int d = fval x / fval y" .
  moreover have "fdiv p x y = Inr (fround p n d)"
    using assms by (simp add: fdiv_def Let_def n_def d_def e_def)
  ultimately show ?thesis using that \<open>0 < d\<close> by blast
qed

lemma fdiv_error:
  assumes "man y \<noteq> 0"
  obtains z where "fdiv p x y = Inr z"
    and "\<bar>fval z - fval x / fval y\<bar> \<le> \<bar>fval x / fval y\<bar> * 2 powi (- int p)"
  using fdiv_eq [OF assms, of p x] fround_error that by metis

text \<open>A result that has few enough significant bits is not rounded at all.\<close>

lemma fround_exact:
  assumes d: "0 < d" and eq: "real_of_int n / real_of_int d = real_of_int m * 2 powi k"
    and m: "\<bar>m\<bar> < 2 ^ p"
  shows "fval (fround p n d) = real_of_int m * 2 powi k"
proof (cases "n = 0")
  case True
  with eq show ?thesis by (simp add: fround_def fval_def)
next
  case False
  define e where "e = flog \<bar>n\<bar> d - (int p - 1)"
  have "2 powi flog \<bar>n\<bar> d \<le> \<bar>real_of_int n / real_of_int d\<bar>"
    using flog_bounds(1) [of "\<bar>n\<bar>" d] False d by simp
  also have "\<dots> = real_of_int \<bar>m\<bar> * 2 powi k" by (simp add: eq abs_mult)
  also have "\<dots> < real_of_int (2 ^ p) * 2 powi k"
    using m by (intro mult_strict_right_mono) (simp_all only: of_int_less_iff, simp)
  also have "\<dots> = 2 powi (int p + k)" by (simp add: power_int_add)
  finally have "flog \<bar>n\<bar> d < int p + k"
    using power_int_increasing [of "int p + k" "flog \<bar>n\<bar> d" "2 :: real"] by linarith
  then have e: "e \<le> k" by (simp add: e_def)
  have T: "2 powi k = (2 :: real) ^ nat (k - e) * 2 powi e"
  proof -
    have "(2 :: real) ^ nat (k - e) = 2 powi (k - e)" using e by (simp add: power_int_def)
    then show ?thesis by (simp flip: power_int_add)
  qed
  have "real_of_int (n * p2 (- e)) = real_of_int (d * p2 e * (m * 2 ^ nat (k - e)))"
  proof -
    have "real_of_int n = real_of_int d * (real_of_int m * 2 powi k)"
      using eq d by (simp add: field_simps)
    moreover have "real_of_int (p2 e) = 2 powi e * real_of_int (p2 (- e))"
      using p2_frac [of e] p2_pos [of "- e"] by (simp add: field_simps del: p2_pos)
    moreover have T: "2 powi k = (2 :: real) ^ nat (k - e) * 2 powi e"
      by (rule T)
    ultimately show ?thesis by (simp add: T)
  qed
  then have "n * p2 (- e) = d * p2 e * (m * 2 ^ nat (k - e))" by (simp only: of_int_eq_iff)
  then have "rne (n * p2 (- e)) (d * p2 e) = m * 2 ^ nat (k - e)"
    using rne_exact [of "d * p2 e"] d by simp
  then have "fval (fround p n d) = real_of_int m * (2 ^ nat (k - e) * 2 powi e)"
    using False by (simp add: fround_def Let_def fval_def flip: e_def)
  also have "\<dots> = real_of_int m * 2 powi k" by (simp only: T)
  finally show ?thesis .
qed

lemma fround_exact_le:
  assumes "0 < d" and eq: "real_of_int n / real_of_int d = real_of_int m * 2 powi k"
    and "\<bar>m\<bar> \<le> 2 ^ p" and "0 < p"
  shows "fval (fround p n d) = real_of_int m * 2 powi k"
proof (cases "\<bar>m\<bar> = 2 ^ p")
  case True
  define m' where "m' = sgn m * 2 ^ (p - 1)"
  have "m = 2 * m'"
    using True \<open>0 < p\<close> by (cases p) (auto simp: m'_def sgn_if abs_if split: if_splits)
  then have *: "real_of_int m * 2 powi k = real_of_int m' * 2 powi (k + 1)"
    by (simp add: power_int_add)
  have "\<bar>m'\<bar> < 2 ^ p" using True \<open>0 < p\<close> by (simp add: m'_def abs_mult power_strict_increasing)
  with fround_exact [OF assms(1) _ this] eq show ?thesis unfolding * by blast
next
  case False
  with assms fround_exact [OF assms(1,2)] show ?thesis by simp
qed

lemma fadd_exact:
  assumes "fval x + fval y = real_of_int m * 2 powi k" and "\<bar>m\<bar> \<le> 2 ^ p" and "0 < p"
  shows "fval (fadd p x y) = fval x + fval y"
proof -
  define e where "e = min (expo x) (expo y)"
  have "fval x + fval y
      = real_of_int (man x * p2 (expo x - e) + man y * p2 (expo y - e)) * 2 powi e"
    using fval_align [of e x] fval_align [of e y] by (simp add: e_def algebra_simps)
  then have "real_of_int ((man x * p2 (expo x - e) + man y * p2 (expo y - e)) * p2 e)
      / real_of_int (p2 (- e)) = real_of_int m * 2 powi k"
    using assms(1) by (simp only: scaled_frac)
  from fround_exact_le [OF p2_pos this assms(2,3)] assms(1) show ?thesis
    by (simp only: fadd_def Let_def fround_dy_def flip: e_def)
qed

lemma f_of_int_exact: "\<bar>n\<bar> < 2 ^ p \<Longrightarrow> fval (f_of_int p n) = real_of_int n"
  using fround_exact [of 1 n n 0 p] by (simp add: f_of_int_def)

lemma fdiv_exact:
  assumes "man y \<noteq> 0" and "fval x = real_of_int m * fval y" and "\<bar>m\<bar> < 2 ^ p"
    and "fdiv p x y = Inr z"
  shows "fval z = real_of_int m"
proof -
  obtain n d where nd: "0 < d" "fdiv p x y = Inr (fround p n d)"
    "real_of_int n / real_of_int d = fval x / fval y"
    using fdiv_eq [OF assms(1)] by blast
  have "fval y \<noteq> 0" using assms(1) by (simp add: fval_def)
  with nd assms(2) have "real_of_int n / real_of_int d = real_of_int m * 2 powi 0" by simp
  from fround_exact [OF nd(1) this assms(3)] nd(2) assms(4) show ?thesis by simp
qed

lemma c_round_error: "\<bar>real_of_int (c_round x) - fval x\<bar> \<le> 1 / 2"
proof -
  define n d where "n = man x * p2 (expo x)" and "d = p2 (- expo x)"
  have d: "0 < d" by (simp add: d_def)
  have x: "fval x = real_of_int n / real_of_int d"
    by (simp only: n_def d_def scaled_frac) (simp add: fval_def)
  define q where "q = (2 * \<bar>n\<bar> + d) div (2 * d)"
  have "2 * d * q \<le> 2 * \<bar>n\<bar> + d" "2 * \<bar>n\<bar> + d < 2 * d * q + 2 * d"
    using div_bounds [of "2 * d" "2 * \<bar>n\<bar> + d"] d by (simp_all add: q_def)
  then have "2 * (d * q) - 2 * \<bar>n\<bar> \<le> d" "2 * \<bar>n\<bar> - 2 * (d * q) \<le> d"
    by (simp_all add: mult.assoc)
  then have "real_of_int (2 * (d * q) - 2 * \<bar>n\<bar>) \<le> real_of_int d"
    "real_of_int (2 * \<bar>n\<bar> - 2 * (d * q)) \<le> real_of_int d"
    by (simp_all only: of_int_le_iff)
  then have "real_of_int q - \<bar>real_of_int n\<bar> / real_of_int d \<le> 1 / 2"
    "\<bar>real_of_int n\<bar> / real_of_int d - real_of_int q \<le> 1 / 2"
    using d by (simp_all add: field_simps)
  then have *: "\<bar>real_of_int q - \<bar>real_of_int n\<bar> / real_of_int d\<bar> \<le> 1 / 2"
    by linarith
  have c: "c_round x = sgn n * q" by (simp add: c_round_def Let_def n_def d_def q_def)
  have X: "\<bar>real_of_int n\<bar> / real_of_int d = \<bar>fval x\<bar>"
    using d by (simp add: x)
  show ?thesis
  proof (cases "n < 0")
    case True
    then have "fval x < 0" using d by (simp add: x divide_neg_pos)
    moreover have "real_of_int (c_round x) = - real_of_int q" using True by (simp add: c)
    ultimately show ?thesis using * unfolding X by linarith
  next
    case False
    then have "0 \<le> fval x" using d by (simp add: x)
    moreover have "n \<noteq> 0 \<Longrightarrow> c_round x = q" "n = 0 \<Longrightarrow> fval x = 0 \<and> c_round x = 0"
      using False by (simp_all add: c x)
    ultimately show ?thesis using * unfolding X by (cases "n = 0") auto
  qed
qed

lemma ftrunc_floor:
  assumes "0 \<le> fval x"
  shows "ftrunc x = \<lfloor>fval x\<rfloor>"
proof -
  have "0 < (2 :: real) powi expo x" by simp
  with assms have "0 \<le> man x" by (auto simp: fval_def zero_le_mult_iff)
  then have "ftrunc x = (man x * p2 (expo x)) div p2 (- expo x)"
    using p2_pos [of "expo x"] p2_pos [of "- expo x"]
    by (simp add: ftrunc_def signed_divide_int_def sgn_mult sgn_if abs_mult del: p2_pos)
  also have "\<dots> = \<lfloor>real_of_int (man x * p2 (expo x)) / real_of_int (p2 (- expo x))\<rfloor>"
    by (rule floor_divide_of_int_eq [symmetric])
  also have "\<dots> = \<lfloor>fval x\<rfloor>" by (simp only: scaled_frac) (simp add: fval_def)
  finally show ?thesis .
qed

lemma fsub_int_exact:
  assumes x: "0 \<le> man x" "man x \<le> 2 ^ 53" "expo x \<le> 0"
    and h: "0 \<le> h" "real_of_int h \<le> fval x"
  shows "fval (fsub DOUBLE x (f_of_int DOUBLE h)) = fval x - real_of_int h"
proof (cases "h = 0")
  case True
  then have "f_of_int DOUBLE h = Flt 0 0" by (simp add: f_of_int_def fround_def)
  moreover have "fval (Flt 0 0) = 0" by (simp add: fval_def)
  ultimately show ?thesis
    using fadd_exact [of x "Flt 0 0" "man x" "expo x" DOUBLE] x True
    by (simp add: fsub_def fneg_def fval_def)
next
  case False
  define m where "m = man x - h * 2 ^ nat (- expo x)"
  have sc: "real_of_int (h * 2 ^ nat (- expo x)) * 2 powi expo x = real_of_int h"
    using x(3) by (simp add: power_int_def power_mult_distrib [symmetric])
  have m: "real_of_int m * 2 powi expo x = fval x - real_of_int h"
    using sc by (simp add: m_def fval_def algebra_simps)
  have "fval x \<le> real_of_int (man x)"
    using x by (simp add: fval_def power_int_def mult_left_le power_le_one)
  with h(2) have "real_of_int h \<le> real_of_int (man x)" by linarith
  then have "h \<le> 2 ^ 53" using x(2) by linarith
  have "0 \<le> real_of_int m * 2 powi expo x" using m h(2) by simp
  moreover have "0 < (2 :: real) powi expo x" by simp
  ultimately have "0 \<le> m" by (auto simp: zero_le_mult_iff)
  moreover have "m \<le> man x" using h(1) by (simp add: m_def)
  ultimately have "\<bar>m\<bar> \<le> 2 ^ 53" using x(2) by linarith
  moreover have "fval (f_of_int DOUBLE h) = real_of_int h"
    using fround_exact_le [of 1 h h 0 DOUBLE] \<open>h \<le> 2 ^ 53\<close> h(1) by (simp add: f_of_int_def)
  ultimately show ?thesis
    using fadd_exact [of x "fneg (f_of_int DOUBLE h)" m "expo x" DOUBLE] m
    by (simp add: fsub_def)
qed

lemma fval_fdec_int: "\<bar>n\<bar> < 2 ^ 53 \<Longrightarrow> fval (fdec n 0) = real_of_int n"
  using f_of_int_exact [of n DOUBLE] by (simp add: fdec_def f_of_int_def)

lemma man_fdec_int: "\<bar>n\<bar> < 2 ^ 53 \<Longrightarrow> n \<noteq> 0 \<Longrightarrow> man (fdec n 0) \<noteq> 0"
  using fval_fdec_int [of n] by (auto simp: fval_def)

lemma rel_error: "\<bar>z - x\<bar> \<le> \<bar>x\<bar> * c \<Longrightarrow> \<bar>x\<bar> \<le> b \<Longrightarrow> 0 \<le> c \<Longrightarrow> \<bar>z - x\<bar> \<le> b * c" for z x b c :: real
  by (meson mult_right_mono order_trans)

section \<open>Symmetry\<close>

text \<open>Rounding to nearest treats both signs alike, and so do the operations.\<close>

named_theorems f_neg "negation pushed through the operations"

lemma rne_neg: "0 < d \<Longrightarrow> rne (- n) d = - rne n d"
proof -
  assume d: "0 < d"
  define q r where "q = n div d" and "r = n mod d"
  have r: "0 \<le> r" "r < d" using d by (simp_all add: r_def)
  show ?thesis
  proof (cases "r = 0")
    case True
    then have "(- n) div d = - q" "(- n) mod d = 0"
      using zdiv_zminus1_eq_if [of d n] zmod_zminus1_eq_if [of n d] d by (simp_all add: q_def r_def)
    with True d show ?thesis by (simp add: rne_def Let_def flip: q_def r_def)
  next
    case False
    then have "(- n) div d = - q - 1" "(- n) mod d = d - r"
      using zdiv_zminus1_eq_if [of d n] zmod_zminus1_eq_if [of n d] d by (simp_all add: q_def r_def)
    with False r show ?thesis by (auto simp: rne_def Let_def simp flip: q_def r_def)
  qed
qed

lemma fround_neg [f_neg]: "0 < d \<Longrightarrow> fround p (- n) d = fneg (fround p n d)"
  by (simp add: fround_def fneg_def Let_def rne_neg)

lemma fround_dy_neg [f_neg]: "fround_dy p (- m) e = fneg (fround_dy p m e)"
  by (simp add: fround_dy_def fround_neg)

lemma f_of_int_neg [f_neg]: "f_of_int p (- n) = fneg (f_of_int p n)"
  by (simp add: f_of_int_def fround_neg)

lemma fneg_sel [simp]: "man (fneg x) = - man x" "expo (fneg x) = expo x"
  by (simp_all add: fneg_def)

lemma fneg_fneg [simp]: "fneg (fneg x) = x"
  by (simp add: fneg_def)

lemma fmul_neg [f_neg]: "fmul p (fneg x) y = fneg (fmul p x y)"
  by (simp add: fmul_def fround_dy_neg)

lemma fadd_neg [f_neg]: "fadd p (fneg x) (fneg y) = fneg (fadd p x y)"
  by (simp add: fadd_def Let_def flip: fround_dy_neg)

lemma fsub_neg [f_neg]: "fsub p (fneg x) (fneg y) = fneg (fsub p x y)"
  using fadd_neg [of p x "fneg y"] by (simp add: fsub_def)

lemma fdiv_neg [f_neg]: "fdiv p x y = Inr z \<Longrightarrow> fdiv p (fneg x) y = Inr (fneg z)"
  by (auto simp: fdiv_def Let_def fround_neg split: if_splits)

lemma ftrunc_neg [f_neg]: "ftrunc (fneg x) = - ftrunc x"
  by (simp add: ftrunc_def signed_divide_int_def)

lemma c_round_neg [f_neg]: "c_round (fneg x) = - c_round x"
  by (simp add: c_round_def Let_def)

lemma half_step_less:
  fixes t u v d :: int
  assumes "t < u" and "2 * \<bar>t - v\<bar> \<le> d" and "0 < d"
  shows "2 * v < 2 * u + d * 2"
proof -
  have "v - t \<le> \<bar>t - v\<bar>" by simp
  with assms(2) have "2 * v - 2 * t \<le> d" by simp
  moreover have "2 * t < 2 * u" using assms(1) by simp
  ultimately show ?thesis using assms(3) by simp
qed

lemma fround_shape:
  assumes "0 \<le> n" and "0 < d" and "real_of_int n / real_of_int d < 2 powi (k + int p)"
  shows "0 \<le> man (fround p n d)" and "man (fround p n d) \<le> 2 ^ p" and "n \<noteq> 0 \<Longrightarrow> expo (fround p n d) \<le> k"
proof -
  define e where "e = flog n d - (int p - 1)"
  define N D where "N = n * p2 (- e)" and "D = d * p2 e"
  have D: "0 < D" using assms by (simp add: D_def)
  have f: "n \<noteq> 0 \<Longrightarrow> fround p n d = Flt (rne N D) e"
    using assms(1) by (simp add: fround_def Let_def e_def N_def D_def)
  have "0 \<le> N" using assms(1) p2_pos [of "- e"] by (simp add: N_def del: p2_pos)
  have "0 \<le> rne N D" using \<open>0 \<le> N\<close> D by (simp add: rne_def Let_def pos_imp_zdiv_nonneg_iff)
  then show "0 \<le> man (fround p n d)" using f by (cases "n = 0") (simp_all add: fround_def)
  show "man (fround p n d) \<le> 2 ^ p"
  proof (cases "n = 0")
    case True
    then show ?thesis by (simp add: fround_def)
  next
    case False
    have "real_of_int N / real_of_int D * 2 powi e = real_of_int n / real_of_int d"
      using p2_frac [of e] p2_pos [of e] p2_pos [of "- e"]
      by (simp add: N_def D_def field_simps del: p2_pos)
    also have "\<dots> < 2 powi (flog n d + 1)" using flog_bounds(2) [of n d] False assms by simp
    also have "\<dots> = 2 ^ p * 2 powi e" by (simp add: e_def flip: power_int_add power_int_of_nat)
    finally have "real_of_int N / real_of_int D < 2 ^ p"
      by (rule mult_right_less_imp_less) simp
    then have "real_of_int N < real_of_int (2 ^ p * D)" using D by (simp add: divide_less_eq)
    then have "N < 2 ^ p * D" by (simp only: of_int_less_iff)
    moreover note rne_error [OF D, of N]
    ultimately have "2 * (D * rne N D) < 2 * (2 ^ p * D) + D * 2"
      using D by (rule half_step_less)
    then have "D * rne N D < D * (2 ^ p + 1)" by (simp add: algebra_simps)
    then have "rne N D < 2 ^ p + 1" using D by simp
    then show ?thesis using False f by simp
  qed
  show "expo (fround p n d) \<le> k" if "n \<noteq> 0"
  proof -
    have "(2 :: real) powi flog n d < 2 powi (k + int p)"
      using flog_bounds(1) [of n d] that assms by simp
    then have "flog n d < k + int p"
      using power_int_increasing [of "k + int p" "flog n d" "2 :: real"] by linarith
    then show ?thesis using f that by (simp add: e_def)
  qed
qed

end
