(* ===== verification/CStrings.thy ===== *)
theory CStrings
  imports CFloat
begin

text \<open>
  The string functions of the C library that the programs call. A C string is its list of
  characters, without the terminating zero; a pointer into it is the rest of the list, and a
  null pointer is \<open>None\<close>. Numbers are read as the library reads them: leading white space, a
  sign, then the longest run of digits, out-of-range values saturating.
\<close>

section \<open>Searching and copying\<close>

fun strchr :: "string \<Rightarrow> char \<Rightarrow> string option" where
  "strchr [] c = None"
| "strchr (x # xs) c = (if x = c then Some (x # xs) else strchr xs c)"

fun prefix_of :: "string \<Rightarrow> string \<Rightarrow> bool" where
  "prefix_of [] ys = True"
| "prefix_of (x # xs) [] = False"
| "prefix_of (x # xs) (y # ys) = (x = y \<and> prefix_of xs ys)"

fun strstr :: "string \<Rightarrow> string \<Rightarrow> bool" where
  \<comment> \<open>whether the needle occurs, which is all the code asks\<close>
  "strstr [] n = prefix_of n []"
| "strstr (x # xs) n = (prefix_of n (x # xs) \<or> strstr xs n)"

text \<open>\<^verbatim>\<open>strchr(p, c) + 1\<close>, where a null result makes the next access crash.\<close>

definition after_char :: "string \<Rightarrow> char \<Rightarrow> string res" where
  "after_char s c = (case strchr s c of None \<Rightarrow> Inl NullDeref | Some t \<Rightarrow> Inr (tl t))"

text \<open>The characters the string functions see in an array: those before the first zero.\<close>

abbreviation "NUL \<equiv> CHR 0x00"

definition cstr :: "string \<Rightarrow> string" where
  "cstr b = takeWhile (\<lambda>c. c \<noteq> NUL) b"

section \<open>Reading numbers\<close>

definition isspace :: "char \<Rightarrow> bool" where
  "isspace c \<longleftrightarrow> of_char c \<in> {32 :: nat, 9, 10, 11, 12, 13}"

definition digit_val :: "char \<Rightarrow> nat option" where
  "digit_val c =
     (let n = of_char c :: nat
      in if 48 \<le> n \<and> n \<le> 57 then Some (n - 48)
         else if 97 \<le> n \<and> n \<le> 122 then Some (n - 87)
         else if 65 \<le> n \<and> n \<le> 90 then Some (n - 55)
         else None)"

definition is_digit :: "nat \<Rightarrow> char \<Rightarrow> bool" where
  "is_digit b c = (case digit_val c of None \<Rightarrow> False | Some d \<Rightarrow> d < b)"

definition digits_val :: "nat \<Rightarrow> string \<Rightarrow> int" where
  "digits_val b s =
     foldl (\<lambda>a c. a * int b + (case digit_val c of None \<Rightarrow> 0 | Some d \<Rightarrow> int d)) 0 s"

definition skip_ws :: "string \<Rightarrow> string" where
  "skip_ws s = dropWhile isspace s"

definition read_sign :: "string \<Rightarrow> int \<times> string" where
  "read_sign s =
     (case s of [] \<Rightarrow> (1, [])
      | c # t \<Rightarrow> if c = CHR ''-'' then (- 1, t) else if c = CHR ''+'' then (1, t) else (1, s))"

text \<open>Base 16 allows a prefix \<^verbatim>\<open>0x\<close>, which counts only when a hexadecimal digit follows.\<close>

definition skip_0x :: "string \<Rightarrow> string" where
  "skip_0x s =
     (case s of
        a # x # d # t \<Rightarrow>
          if a = CHR ''0'' \<and> (x = CHR ''x'' \<or> x = CHR ''X'') \<and> is_digit 16 d then d # t else s
      | _ \<Rightarrow> s)"

definition str_int :: "nat \<Rightarrow> string \<Rightarrow> int" where
  "str_int b s =
     (let (sg, t) = read_sign (skip_ws s); u = (if b = 16 then skip_0x t else t)
      in sg * digits_val b (takeWhile (is_digit b) u))"

definition clamp32 :: "int \<Rightarrow> int" where
  "clamp32 x = max (- (2 ^ 31)) (min (2 ^ 31 - 1) x)"

definition strtol :: "string \<Rightarrow> nat \<Rightarrow> int" where
  "strtol s b = clamp32 (str_int b s)"

definition atoi :: "string \<Rightarrow> int" where
  "atoi s = strtol s 10"

text \<open>\<^verbatim>\<open>strtoul\<close> negates modulo the width after the magnitude has saturated.\<close>

definition strtoul :: "string \<Rightarrow> nat \<Rightarrow> int" where
  "strtoul s b =
     (let x = str_int b s
      in if 2 ^ 32 \<le> \<bar>x\<bar> then 2 ^ 32 - 1 else x mod 2 ^ 32)"

text \<open>
  \<^verbatim>\<open>atof\<close> on decimal numerals (the programs read no other kind): digits, optionally a point and
  more digits, optionally an exponent.
\<close>

definition read_frac :: "string \<Rightarrow> string \<times> string" where
  "read_frac s =
     (case s of
        c # t \<Rightarrow> if c = CHR ''.'' then (takeWhile (is_digit 10) t, dropWhile (is_digit 10) t) else ([], s)
      | [] \<Rightarrow> ([], []))"

definition read_exp :: "string \<Rightarrow> int" where
  "read_exp s =
     (case s of
        c # t \<Rightarrow>
          if c = CHR ''e'' \<or> c = CHR ''E''
          then (let (sg, u) = read_sign t in sg * digits_val 10 (takeWhile (is_digit 10) u))
          else 0
      | [] \<Rightarrow> 0)"

definition scan_num :: "string \<Rightarrow> int \<times> int" where
  "scan_num s =
     (let (sg, t) = read_sign (skip_ws s);
          ip = takeWhile (is_digit 10) t; (fp, rest) = read_frac (dropWhile (is_digit 10) t);
          x = (if ip = [] \<and> fp = [] then 0 else read_exp rest) - int (length fp)
      in (sg * digits_val 10 (ip @ fp) * 10 ^ nat x, 10 ^ nat (- x)))"

definition atof :: "string \<Rightarrow> flt" where
  "atof s = (let (n, d) = scan_num s in fround DOUBLE n d)"

section \<open>Printing integers\<close>

definition dig :: "nat \<Rightarrow> char" where
  "dig d = (char_of (48 + d) :: char)"

fun show_nat :: "nat \<Rightarrow> string" where
  "show_nat n = (if n < 10 then [dig n] else show_nat (n div 10) @ [dig (n mod 10)])"

declare show_nat.simps [simp del]

definition show_int :: "int \<Rightarrow> string" where
  "show_int x = (if x < 0 then CHR ''-'' # show_nat (nat (- x)) else show_nat (nat x))"

definition hexdig :: "nat \<Rightarrow> char" where
  "hexdig d = (if d < 10 then char_of (48 + d) else char_of (87 + d))"

fun show_hex :: "nat \<Rightarrow> string" where
  "show_hex n = (if n < 16 then [hexdig n] else show_hex (n div 16) @ [hexdig (n mod 16)])"

declare show_hex.simps [simp del]

text \<open>Field widths: \<^verbatim>\<open>%5d\<close> pads with spaces, \<^verbatim>\<open>%02d\<close> with zeros after the sign.\<close>

definition pad :: "nat \<Rightarrow> string \<Rightarrow> string" where
  "pad w s = replicate (w - length s) CHR '' '' @ s"

definition show_int0 :: "nat \<Rightarrow> int \<Rightarrow> string" where
  "show_int0 w x =
     (let ds = show_nat (nat \<bar>x\<bar>); sg = (if x < 0 then ''-'' else [])
      in sg @ replicate (w - length sg - length ds) CHR ''0'' @ ds)"

text \<open>\<^verbatim>\<open>%.kf\<close>.\<close>

definition show_fix :: "nat \<Rightarrow> flt \<Rightarrow> string" where
  "show_fix k x =
     (let q = fdigits k x; a = nat \<bar>q\<bar>
      in (if man x < 0 then ''-'' else []) @ show_nat (a div 10 ^ k)
         @ (if k = 0 then [] else CHR ''.'' # show_int0 k (int (a mod 10 ^ k))))"

section \<open>What is printed is read back\<close>

lemma digit_val_dig: "d < 10 \<Longrightarrow> digit_val (dig d) = Some d"
  by (simp add: digit_val_def dig_def Let_def)

lemma is_digit_dig [simp]: "d < 10 \<Longrightarrow> is_digit 10 (dig d)"
  by (simp add: is_digit_def digit_val_dig)

lemma digits_val_snoc:
  "digits_val b (s @ [c]) = digits_val b s * int b + (case digit_val c of None \<Rightarrow> 0 | Some d \<Rightarrow> int d)"
  by (simp add: digits_val_def)

lemma show_nat_digits: "\<forall>c \<in> set (show_nat n). \<exists>d < 10. c = dig d"
proof (induction n rule: show_nat.induct)
  case (1 n)
  show ?case
  proof (cases "n < 10")
    case True
    then show ?thesis by (auto simp: show_nat.simps [of n])
  next
    case False
    with 1 show ?thesis by (auto simp: show_nat.simps [of n] intro: exI [of _ "n mod 10"])
  qed
qed

lemma show_nat_nonempty [simp]: "show_nat n \<noteq> []"
  by (simp add: show_nat.simps [of n])

lemma digits_val_show_nat: "digits_val 10 (show_nat n) = int n"
proof (induction n rule: show_nat.induct)
  case (1 n)
  show ?case
  proof (cases "n < 10")
    case True
    then show ?thesis by (simp add: show_nat.simps [of n] digits_val_def digit_val_dig)
  next
    case False
    with 1 have "digits_val 10 (show_nat n) = int (n div 10) * 10 + int (n mod 10)"
      by (simp add: show_nat.simps [of n] digits_val_snoc digit_val_dig)
    also have "\<dots> = int n" using div_mult_mod_eq [of n 10] by linarith
    finally show ?thesis .
  qed
qed

definition no_digit_first :: "string \<Rightarrow> bool" where
  "no_digit_first s \<longleftrightarrow> s = [] \<or> \<not> is_digit 10 (hd s)"

lemma takeWhile_show_nat:
  assumes "no_digit_first r"
  shows "takeWhile (is_digit 10) (show_nat n @ r) = show_nat n"
proof -
  have "\<forall>c \<in> set (show_nat n). is_digit 10 c" using show_nat_digits by force
  moreover have "takeWhile (is_digit 10) r = []"
    using assms by (cases r) (auto simp: no_digit_first_def)
  ultimately show ?thesis by (simp add: takeWhile_append)
qed

lemma dig_facts:
  "d < 10 \<Longrightarrow> \<not> isspace (dig d)" "d < 10 \<Longrightarrow> dig d \<noteq> CHR ''-''" "d < 10 \<Longrightarrow> dig d \<noteq> CHR ''+''"
proof -
  have "d < 10 \<Longrightarrow> (of_char (dig d) :: nat) = 48 + d" by (simp add: dig_def)
  moreover have "(of_char (CHR ''-'') :: nat) = 45" "(of_char (CHR ''+'') :: nat) = 43" by simp_all
  ultimately show "d < 10 \<Longrightarrow> \<not> isspace (dig d)" "d < 10 \<Longrightarrow> dig d \<noteq> CHR ''-''"
    "d < 10 \<Longrightarrow> dig d \<noteq> CHR ''+''"
    by (auto simp: isspace_def)
qed

lemma show_nat_start:
  obtains d t where "show_nat n = dig d # t" and "d < 10"
proof -
  obtain c t where ct: "show_nat n = c # t" by (cases "show_nat n") auto
  with show_nat_digits [of n] obtain d where "d < 10" "c = dig d" by auto
  with ct that show ?thesis by blast
qed

lemma str_int_show_int:
  assumes "no_digit_first r"
  shows "str_int 10 (replicate k CHR '' '' @ show_int x @ r) = x"
proof -
  have ws: "skip_ws (replicate k CHR '' '' @ s) = skip_ws s" for s
    by (induction k) (simp_all add: skip_ws_def isspace_def)
  obtain d t where s: "show_nat (nat \<bar>x\<bar>) = dig d # t" "d < 10" by (rule show_nat_start)
  have "skip_ws (show_int x @ r) = show_int x @ r"
    using s dig_facts [of d] by (cases "x < 0") (simp_all add: skip_ws_def show_int_def isspace_def)
  moreover have "read_sign (show_int x @ r) = (if x < 0 then - 1 else 1, show_nat (nat \<bar>x\<bar>) @ r)"
    using s dig_facts [of d] by (cases "x < 0") (simp_all add: read_sign_def show_int_def)
  ultimately show ?thesis
    using takeWhile_show_nat [OF assms, of "nat \<bar>x\<bar>"] ws [of "show_int x @ r"]
    by (simp add: str_int_def digits_val_show_nat)
qed

lemma atoi_show_int:
  assumes "in_i32 x" and "no_digit_first r"
  shows "atoi (replicate k CHR '' '' @ show_int x @ r) = x"
  using assms by (simp add: atoi_def strtol_def str_int_show_int clamp32_def in_i32_def)

lemma atoi_show_int_end: "in_i32 x \<Longrightarrow> atoi (show_int x) = x"
  using atoi_show_int [of x "[]" 0] by (simp add: no_digit_first_def)

lemma in_i32_atoi [simp]: "in_i32 (atoi s)"
  by (simp add: atoi_def strtol_def clamp32_def in_i32_def)

section \<open>Searching\<close>

lemma strchr_None [simp]: "strchr s c = None \<longleftrightarrow> c \<notin> set s"
  by (induction s) auto

lemma strchr_split: "c \<notin> set xs \<Longrightarrow> strchr (xs @ c # ys) c = Some (c # ys)"
  by (induction xs) auto

lemma after_char_split [simp]: "c \<notin> set xs \<Longrightarrow> after_char (xs @ c # ys) c = Inr ys"
  by (simp add: after_char_def strchr_split)

lemma strchr_SomeI: "c \<in> set s \<Longrightarrow> \<exists>t. strchr s c = Some t"
  by (metis not_Some_eq strchr_None)

lemma cstr_whole: "NUL \<notin> set b \<Longrightarrow> cstr b = b"
  by (simp add: cstr_def) (metis takeWhile_eq_all_conv)

lemma cstr_split: "NUL \<notin> set a \<Longrightarrow> cstr (a @ b) = a @ cstr b"
  by (induction a) (auto simp: cstr_def)

lemma cstr_simps [simp]: "cstr [] = []" "cstr (c # b) = (if c = NUL then [] else c # cstr b)"
  by (simp_all add: cstr_def)

lemma cstr_cut: "NUL \<in> set a \<Longrightarrow> cstr (a @ b) = cstr a"
  by (induction a) auto

lemma cstr_subset: "set (cstr b) \<subseteq> set b"
  by (auto simp: cstr_def dest: set_takeWhileD)

lemma after_char_none: "c \<notin> set s \<Longrightarrow> after_char s c = Inl NullDeref"
  by (simp add: after_char_def strchr_None [THEN iffD2])

lemma strchr_Some: "strchr s c = Some t \<Longrightarrow> \<exists>xs ys. s = xs @ c # ys \<and> c \<notin> set xs \<and> t = c # ys"
proof (induction s)
  case Nil
  then show ?case by simp
next
  case (Cons x s)
  show ?case
  proof (cases "x = c")
    case True
    with Cons.prems show ?thesis by (auto intro: exI [of _ "[]"])
  next
    case False
    with Cons obtain xs ys where "s = xs @ c # ys" "c \<notin> set xs" "t = c # ys" by auto
    with False show ?thesis by (auto intro!: exI [of _ "x # xs"])
  qed
qed

section \<open>Numbers end at a comma\<close>

lemma while_stop:
  "\<not> P c \<Longrightarrow> takeWhile P (f @ c # r) = takeWhile P f"
  "\<not> P c \<Longrightarrow> dropWhile P (f @ c # r) = dropWhile P f @ c # r"
  by (induction f) auto

lemma comma_facts [simp]: "\<not> is_digit 10 CHR '',''" "\<not> isspace CHR '',''"
  by code_simp+

lemma skip_ws_comma: "skip_ws (f @ CHR '','' # r) = skip_ws f @ CHR '','' # r"
  by (simp add: skip_ws_def while_stop)

lemma read_sign_comma:
  "read_sign (f @ CHR '','' # r) = (fst (read_sign f), snd (read_sign f) @ CHR '','' # r)"
  by (cases f) (auto simp: read_sign_def)

lemma read_frac_comma:
  "read_frac (f @ CHR '','' # r) = (fst (read_frac f), snd (read_frac f) @ CHR '','' # r)"
  by (cases f) (auto simp: read_frac_def while_stop)

lemma read_exp_comma: "read_exp (f @ CHR '','' # r) = read_exp f"
  by (cases f) (auto simp: read_exp_def read_sign_comma while_stop split: prod.splits)

lemma scan_num_comma: "scan_num (f @ CHR '','' # r) = scan_num f"
  by (simp add: scan_num_def skip_ws_comma read_sign_comma read_frac_comma read_exp_comma while_stop
      Let_def split: prod.splits)

lemma atof_before_comma: "atof (f @ CHR '','' # r) = atof f"
  by (simp add: atof_def scan_num_comma)

lemma atoi_before_comma: "atoi (f @ CHR '','' # r) = atoi f"
  by (simp add: atoi_def strtol_def str_int_def skip_ws_comma read_sign_comma while_stop Let_def
      split: prod.splits)

end
