(* ===== verification/Registers.thy ===== *)
theory Registers
  imports CStrings
begin

unbundle bit_operations_syntax

text \<open>
  The memory-mapped registers of the programmable logic, \<^verbatim>\<open>projects/lago_v1_2/src/zynq_io.h\<close> and the
  two accessors of \<^verbatim>\<open>zynq_io.c\<close>: the offsets, the five address spaces a process maps and what a
  32-bit access of one does. A space is storage: a register reads back what was last put
  there, by a write of the program or by the hardware between two calls, which then appears as
  a given content of the space. Every write is also recorded, in bus order.
\<close>

section \<open>Offsets and masks\<close>

definition XIL_AXI_INTC_ISR_OFFSET :: nat where "XIL_AXI_INTC_ISR_OFFSET = 0x0"
definition XIL_AXI_INTC_IPR_OFFSET :: nat where "XIL_AXI_INTC_IPR_OFFSET = 0x4"
definition XIL_AXI_INTC_IER_OFFSET :: nat where "XIL_AXI_INTC_IER_OFFSET = 0x8"
definition XIL_AXI_INTC_IAR_OFFSET :: nat where "XIL_AXI_INTC_IAR_OFFSET = 0xC"
definition XIL_AXI_INTC_MER_OFFSET :: nat where "XIL_AXI_INTC_MER_OFFSET = 0x1C"
definition XIL_AXI_INTC_MER_ME_MASK :: u32 where "XIL_AXI_INTC_MER_ME_MASK = 0x00000001"
definition XIL_AXI_INTC_MER_HIE_MASK :: u32 where "XIL_AXI_INTC_MER_HIE_MASK = 0x00000002"

definition CFG_RESET_GRAL_OFFSET :: nat where "CFG_RESET_GRAL_OFFSET = 0x0"
definition CFG_NSAMPLES_OFFSET :: nat where "CFG_NSAMPLES_OFFSET = 0x4"
definition CFG_TRLVL_1_OFFSET :: nat where "CFG_TRLVL_1_OFFSET = 0x8"
definition CFG_TRLVL_2_OFFSET :: nat where "CFG_TRLVL_2_OFFSET = 0xC"
definition CFG_STRLVL_1_OFFSET :: nat where "CFG_STRLVL_1_OFFSET = 0x10"
definition CFG_STRLVL_2_OFFSET :: nat where "CFG_STRLVL_2_OFFSET = 0x14"
definition CFG_TEMPERATURE_OFFSET :: nat where "CFG_TEMPERATURE_OFFSET = 0x18"
definition CFG_PRESSURE_OFFSET :: nat where "CFG_PRESSURE_OFFSET = 0x1C"
definition CFG_TIME_OFFSET :: nat where "CFG_TIME_OFFSET = 0x20"
definition CFG_DATE_OFFSET :: nat where "CFG_DATE_OFFSET = 0x24"
definition CFG_LATITUDE_OFFSET :: nat where "CFG_LATITUDE_OFFSET = 0x28"
definition CFG_LONGITUDE_OFFSET :: nat where "CFG_LONGITUDE_OFFSET = 0x2C"
definition CFG_ALTITUDE_OFFSET :: nat where "CFG_ALTITUDE_OFFSET = 0x30"
definition CFG_SATELLITE_OFFSET :: nat where "CFG_SATELLITE_OFFSET = 0x34"
definition CFG_TR_SCAL_A_OFFSET :: nat where "CFG_TR_SCAL_A_OFFSET = 0x38"
definition CFG_TR_SCAL_B_OFFSET :: nat where "CFG_TR_SCAL_B_OFFSET = 0x3C"
definition CFG_HV1_OFFSET :: nat where "CFG_HV1_OFFSET = 0x4C"
definition CFG_HV2_OFFSET :: nat where "CFG_HV2_OFFSET = 0x48"
definition CFG_HV3_OFFSET :: nat where "CFG_HV3_OFFSET = 0x40"
definition CFG_HV4_OFFSET :: nat where "CFG_HV4_OFFSET = 0x44"
definition FGPS_EN_MASK :: u32 where "FGPS_EN_MASK = 0x00000010"
definition STS_STATUS_OFFSET :: nat where "STS_STATUS_OFFSET = 0x0"
definition XADC_AI0_OFFSET :: nat where "XADC_AI0_OFFSET = 0x260"
definition XADC_AI1_OFFSET :: nat where "XADC_AI1_OFFSET = 0x240"
definition XADC_AI2_OFFSET :: nat where "XADC_AI2_OFFSET = 0x244"
definition XADC_AI3_OFFSET :: nat where "XADC_AI3_OFFSET = 0x264"

lemmas intc_offsets = XIL_AXI_INTC_ISR_OFFSET_def XIL_AXI_INTC_IPR_OFFSET_def
  XIL_AXI_INTC_IER_OFFSET_def XIL_AXI_INTC_IAR_OFFSET_def XIL_AXI_INTC_MER_OFFSET_def
  XIL_AXI_INTC_MER_ME_MASK_def XIL_AXI_INTC_MER_HIE_MASK_def

lemmas cfg_offsets = CFG_RESET_GRAL_OFFSET_def CFG_NSAMPLES_OFFSET_def CFG_TRLVL_1_OFFSET_def
  CFG_TRLVL_2_OFFSET_def CFG_STRLVL_1_OFFSET_def CFG_STRLVL_2_OFFSET_def
  CFG_TEMPERATURE_OFFSET_def CFG_PRESSURE_OFFSET_def CFG_TIME_OFFSET_def CFG_DATE_OFFSET_def
  CFG_LATITUDE_OFFSET_def CFG_LONGITUDE_OFFSET_def CFG_ALTITUDE_OFFSET_def
  CFG_SATELLITE_OFFSET_def CFG_TR_SCAL_A_OFFSET_def CFG_TR_SCAL_B_OFFSET_def
  CFG_HV1_OFFSET_def CFG_HV2_OFFSET_def CFG_HV3_OFFSET_def CFG_HV4_OFFSET_def FGPS_EN_MASK_def

lemmas sts_xadc_offsets = STS_STATUS_OFFSET_def XADC_AI0_OFFSET_def XADC_AI1_OFFSET_def
  XADC_AI2_OFFSET_def XADC_AI3_OFFSET_def

section \<open>Address spaces\<close>

datatype bank = INTC | CFG | STS | XADC | MEM

text \<open>
  \<open>io_map\<close> is the length of the mapping behind each of \<^verbatim>\<open>intc_ptr\<close> \dots \<^verbatim>\<open>mem_ptr\<close>, \<open>None\<close> as long
  as the pointer is null or \<^verbatim>\<open>MAP_FAILED\<close>. Lines printed to the standard output are collected.
\<close>

record io =
  io_fd :: "bank \<Rightarrow> int"
  io_map :: "bank \<Rightarrow> nat option"
  io_reg :: "bank \<Rightarrow> nat \<Rightarrow> u32"
  io_log :: "(bank \<times> nat \<times> u32) list"
  dev_size :: int
  io_out :: "string list"

definition peek :: "bank \<Rightarrow> io \<Rightarrow> nat \<Rightarrow> u32" where
  "peek b s off = io_reg s b off"

definition poke :: "bank \<Rightarrow> io \<Rightarrow> nat \<Rightarrow> u32 \<Rightarrow> io" where
  "poke b s off v = s\<lparr>io_reg := (io_reg s)(b := (io_reg s b)(off := v)),
                      io_log := io_log s @ [(b, off, v)]\<rparr>"

text \<open>A 32-bit access has to be aligned and to lie inside the mapping.\<close>

definition accessible :: "io \<Rightarrow> bank \<Rightarrow> nat \<Rightarrow> bool" where
  "accessible s b off \<longleftrightarrow>
     (case io_map s b of None \<Rightarrow> False | Some n \<Rightarrow> off mod 4 = 0 \<and> off + 4 \<le> n)"

definition access_fault :: "io \<Rightarrow> bank \<Rightarrow> fault" where
  "access_fault s b = (if io_map s b = None then NullDeref else OutOfBounds)"

definition dev_write :: "bank \<Rightarrow> nat \<Rightarrow> u32 \<Rightarrow> io \<Rightarrow> io res" where
  "dev_write b off v s =
     (if accessible s b off then Inr (poke b s off v) else Inl (access_fault s b))"

definition dev_read :: "bank \<Rightarrow> nat \<Rightarrow> io \<Rightarrow> u32 res" where
  "dev_read b off s =
     (if accessible s b off then Inr (peek b s off) else Inl (access_fault s b))"

definition put_line :: "string \<Rightarrow> io \<Rightarrow> io" where
  "put_line l s = s\<lparr>io_out := io_out s @ [l]\<rparr>"

section \<open>What a bank of registers promises\<close>

text \<open>
  The interface that the configuration sequences rely on: a register holds what was last
  written to it, and writing one leaves the others alone.
\<close>

locale regbank =
  fixes rd :: "'s \<Rightarrow> 'a \<Rightarrow> u32" and wr :: "'s \<Rightarrow> 'a \<Rightarrow> u32 \<Rightarrow> 's"
  assumes rd_wr_same: "rd (wr s a v) a = v"
    and rd_wr_other: "a \<noteq> b \<Longrightarrow> rd (wr s a v) b = rd s b"
begin

lemma rd_wr: "rd (wr s a v) b = (if a = b then v else rd s b)"
  by (simp add: rd_wr_same rd_wr_other)

lemma set_bits: "rd (wr s a (rd s a OR m)) a = rd s a OR m"
  by (simp add: rd_wr_same)

lemma clear_bits_twice:
  "rd (wr (wr s a (rd s a AND NOT m)) a (rd (wr s a (rd s a AND NOT m)) a AND NOT n)) a
    = rd s a AND NOT (m OR n)"
  by (simp add: rd_wr_same and.assoc)

lemma rd_writes:
  "rd (fold (\<lambda>(a, v) t. wr t a v) ws s) b
    = (case map_of (rev ws) b of None \<Rightarrow> rd s b | Some v \<Rightarrow> v)"
proof (induction ws arbitrary: s)
  case Nil
  then show ?case by simp
next
  case (Cons w ws)
  obtain a v where w: "w = (a, v)" by (cases w)
  show ?case by (simp add: Cons w rd_wr map_add_def map_of_append split: option.splits)
qed

lemma writes_untouched: "b \<notin> fst ` set ws \<Longrightarrow> rd (fold (\<lambda>(a, v) t. wr t a v) ws s) b = rd s b"
  by (simp add: rd_writes map_of_eq_None_iff [THEN iffD2])

end

interpretation bus: regbank "peek b" "poke b" for b
  by unfold_locales (simp_all add: peek_def poke_def)

section \<open>Accesses that succeed\<close>

text \<open>All five spaces are mapped, with at least one page.\<close>

definition io_ready :: "io \<Rightarrow> bool" where
  "io_ready s \<longleftrightarrow> (\<forall>b. \<exists>n. io_map s b = Some n \<and> 4096 \<le> n)"

named_theorems io_simps "register accesses of a process that has mapped its devices"

lemma accessible_ready [io_simps]: "io_ready s \<Longrightarrow> off mod 4 = 0 \<Longrightarrow> off + 4 \<le> 4096 \<Longrightarrow> accessible s b off"
  unfolding io_ready_def accessible_def by (fastforce dest: spec [of _ b])

lemma dev_read_ready [io_simps]:
  "io_ready s \<Longrightarrow> off mod 4 = 0 \<Longrightarrow> off + 4 \<le> 4096 \<Longrightarrow> dev_read b off s = Inr (peek b s off)"
  by (simp add: dev_read_def accessible_ready)

lemma dev_write_ready [io_simps]:
  "io_ready s \<Longrightarrow> off mod 4 = 0 \<Longrightarrow> off + 4 \<le> 4096 \<Longrightarrow> dev_write b off v s = Inr (poke b s off v)"
  by (simp add: dev_write_def accessible_ready)

lemma poke_sel [simp]:
  "io_map (poke b s off v) = io_map s" "io_fd (poke b s off v) = io_fd s"
  "io_out (poke b s off v) = io_out s" "io_log (poke b s off v) = io_log s @ [(b, off, v)]"
  by (simp_all add: poke_def)

lemma put_line_sel [simp]:
  "io_map (put_line l s) = io_map s" "io_reg (put_line l s) = io_reg s"
  "io_log (put_line l s) = io_log s" "io_out (put_line l s) = io_out s @ [l]"
  "io_fd (put_line l s) = io_fd s"
  by (simp_all add: put_line_def)

lemma ready_poke [simp]: "io_ready (poke b s off v) = io_ready s"
  by (simp add: io_ready_def)

lemma ready_put_line [simp]: "io_ready (put_line l s) = io_ready s"
  by (simp add: io_ready_def)

lemma peek_put_line [simp]: "peek b (put_line l s) off = peek b s off"
  by (simp add: peek_def)

lemma peek_poke [simp]:
  "peek b (poke c s off v) off' = (if b = c \<and> off' = off then v else peek b s off')"
  by (simp add: peek_def poke_def)

lemma accessible_word: "off mod 4 = 0 \<Longrightarrow> io_map s b = Some n \<Longrightarrow> off + 4 \<le> n \<Longrightarrow> accessible s b off"
  by (simp add: accessible_def)

end
