(* ===== verification/ZynqIO.thy ===== *)
theory ZynqIO
  imports Registers
begin

unbundle bit_operations_syntax

text \<open>
  \<^verbatim>\<open>projects/lago_v1_2/src/zynq_io.c\<close>: mapping the devices into the process, reading and writing
  single registers, the high-voltage and temperature scales, and the sequences that bring
  the acquisition hardware into its initial state.
\<close>

section \<open>Single registers\<close>

definition hex8 :: "u32 \<Rightarrow> string" where
  "hex8 v = (let h = show_hex (unat v) in replicate (8 - length h) CHR ''0'' @ h)"

definition bank_of :: "int \<Rightarrow> bank option" where
  "bank_of n_dev = (if n_dev = 0 then Some INTC else if n_dev = 1 then Some CFG
     else if n_dev = 2 then Some STS else if n_dev = 3 then Some XADC else None)"

definition rd_reg_value :: "int \<Rightarrow> nat \<Rightarrow> io \<Rightarrow> (int \<times> io) res" where
  "rd_reg_value n_dev off s =
     (case bank_of n_dev of
        None \<Rightarrow> Inr (- 1, put_line (''Invalid option: '' @ show_int n_dev) s)
      | Some b \<Rightarrow>
          bindE (dev_read b off s) (\<lambda>v.
          Inr (sint v, put_line (''Complete. Received data 0x'' @ hex8 v) s)))"

definition wr_reg_value :: "int \<Rightarrow> nat \<Rightarrow> u32 \<Rightarrow> io \<Rightarrow> (int \<times> io) res" where
  "wr_reg_value n_dev off v s =
     (case bank_of n_dev of
        None \<Rightarrow> Inr (- 1, put_line (''Invalid option: '' @ show_int n_dev) s)
      | Some b \<Rightarrow>
          bindE (dev_write b off v s) (\<lambda>s'.
          Inr (0, put_line (''Complete. Data written: 0x'' @ hex8 v) s')))"

section \<open>Scales\<close>

text \<open>The calibration line of the high voltage (gain 3.2) in single precision.\<close>

definition gain_a :: flt where "gain_a = fcvt FLOAT (fdec 882006 7)"
definition gain_b :: flt where "gain_b = fcvt FLOAT (fdec 773516 5)"

definition hv_of_dac :: "u32 \<Rightarrow> flt" where
  "hv_of_dac d = fadd FLOAT (fmul FLOAT gain_a (f_of_int FLOAT (uint d))) gain_b"

definition show_d :: "u32 \<Rightarrow> string" where "show_d v = show_int (sint v)"

definition rd_cfg_status :: "io \<Rightarrow> (int \<times> io) res" where
  "rd_cfg_status s =
     bindE (dev_read CFG CFG_TRLVL_1_OFFSET s) (\<lambda>t1.
     let s = put_line (''#Trigger Level Ch1 = '' @ show_d t1) s in
     bindE (dev_read CFG CFG_TRLVL_2_OFFSET s) (\<lambda>t2.
     let s = put_line (''#Trigger Level Ch2 = '' @ show_d t2) s in
     bindE (dev_read CFG CFG_HV1_OFFSET s) (\<lambda>h1.
     let s = put_line (''#High Voltage 1    = '' @ show_fix 1 (hv_of_dac h1) @ '' mV'') s in
     bindE (dev_read CFG CFG_HV2_OFFSET s) (\<lambda>h2.
     let s = put_line (''#High Voltage 2    = '' @ show_fix 1 (hv_of_dac h2) @ '' mV'') s in
     bindE (dev_read CFG CFG_TR_SCAL_A_OFFSET s) (\<lambda>sa.
     let s = put_line (''#Trigger Scaler 1  = '' @ show_d sa) s in
     bindE (dev_read CFG CFG_TR_SCAL_B_OFFSET s) (\<lambda>sb.
     let s = put_line (''#Trigger Scaler 2  = '' @ show_d sb) s in
     bindE (dev_read CFG CFG_RESET_GRAL_OFFSET s) (\<lambda>g.
     let s = (if drop_bit 4 g AND 1 = 1
              then put_line ''#No GPS device is present or enabled'' s
              else put_line ''#Using GPS data'' s) in
     bindE (dev_read CFG CFG_RESET_GRAL_OFFSET s) (\<lambda>m.
     let s = (if drop_bit 5 m AND 1 = 0
              then put_line ''#Working mode is SLAVE'' s
              else put_line ''#Working mode is MASTER'' s)
     in Inr (0, put_line ''Status from registers complete!'' (put_line [] s))))))))))"

definition XADC_CONV_VAL :: flt where "XADC_CONV_VAL = fdec 171191993362 14"
definition XADC_RDIV_VAL :: flt where "XADC_RDIV_VAL = fdec 1883236177 9"
definition XADC_BASE_HVDIV :: flt where "XADC_BASE_HVDIV = fdec 294088 8"

definition get_voltage :: "nat \<Rightarrow> io \<Rightarrow> flt res" where
  "get_voltage off s =
     bindE (dev_read XADC off s) (\<lambda>v.
     let val = to_i16 (uint v)
     in Inr (fcvt FLOAT (fmul DOUBLE (f_of_int DOUBLE (cshr val 4)) XADC_CONV_VAL)))"

definition get_temp_AD592 :: "nat \<Rightarrow> io \<Rightarrow> flt res" where
  "get_temp_AD592 off s =
     bindE (get_voltage off s) (\<lambda>val.
     Inr (fcvt FLOAT (fsub DOUBLE (fmul FLOAT val (f_of_int FLOAT 1000)) (fdec 27315 2))))"

text \<open>The cast binds tighter than the division: the millivolts above \<open>gain_b\<close> are truncated first.\<close>

definition dac_of_hv :: "int \<Rightarrow> u32 res" where
  "dac_of_hv v =
     bindE (f_to_u32 (fsub FLOAT (f_of_int FLOAT v) gain_b)) (\<lambda>u.
     bindE (fdiv FLOAT (f_of_int FLOAT (uint u)) gain_a) f_to_u32)"

definition set_voltage :: "nat \<Rightarrow> int \<Rightarrow> io \<Rightarrow> io res" where
  "set_voltage off v s =
     bindE (dac_of_hv v) (\<lambda>dac_val.
     bindE (dev_write CFG off dac_val s) (\<lambda>s'.
     Inr (put_line (''The DAC value is: '' @ show_d dac_val @ '' DACs'')
           (put_line (''The Voltage is: '' @ show_int v @ '' mV'') s'))))"

section \<open>Mapping the devices\<close>

text \<open>
  \<^verbatim>\<open>fscanf(size_fp, "0x%08X", \<dots>)\<close> on the content of the file: \<open>Inl ()\<close> is \<^verbatim>\<open>EOF\<close>, \<open>Inr None\<close> a
  conversion that fails and leaves the variable as it was.
\<close>

definition scan_hex8 :: "string \<Rightarrow> unit + u32 option" where
  "scan_hex8 t =
     (let u = take 8 (skip_ws t)
      in if u = [] then Inl ()
         else if takeWhile (is_digit 16) (skip_0x (snd (read_sign u))) = [] then Inr None
         else Inr (Some (word_of_int (str_int 16 u))))"

definition scan_size :: "string \<Rightarrow> unit + u32 option" where
  "scan_size f =
     (case f of [] \<Rightarrow> Inl ()
      | a # f1 \<Rightarrow> if a \<noteq> CHR ''0'' then Inr None
          else (case f1 of [] \<Rightarrow> Inl ()
                | x # f2 \<Rightarrow> if x \<noteq> CHR ''x'' then Inr None else scan_hex8 f2))"

definition get_memory_size :: "string option \<Rightarrow> u32 \<Rightarrow> u32 res" where
  \<comment> \<open>the content of the file, if it opens, and what the uninitialised \<^verbatim>\<open>size\<close> holds\<close>
  "get_memory_size content junk =
     (case content of None \<Rightarrow> Inl (Exit (- 1))
      | Some f \<Rightarrow> (case scan_size f of Inl _ \<Rightarrow> Inl (Exit (- 1))
                   | Inr None \<Rightarrow> Inr junk | Inr (Some v) \<Rightarrow> Inr v))"

definition page_up :: "nat \<Rightarrow> nat" where
  "page_up n = (n + 4095) div 4096 * 4096"

text \<open>What the system answers: the descriptor, the size file, and whether \<^verbatim>\<open>mmap\<close> succeeds.\<close>

record map_env =
  me_open :: int
  me_size :: "string option"
  me_junk :: u32
  me_mmap :: bool

definition mmap_dev :: "bank \<Rightarrow> bool \<Rightarrow> io \<Rightarrow> io" where
  "mmap_dev b ok s =
     s\<lparr>io_map := (io_map s)(b := if ok then Some (page_up (unat (word_of_int (dev_size s) :: u32))) else None)\<rparr>"

definition uio_init :: "bank \<Rightarrow> string \<Rightarrow> string \<Rightarrow> map_env \<Rightarrow> io \<Rightarrow> (int \<times> io) res" where
  "uio_init b who uiod e s =
     (let s1 = s\<lparr>io_fd := (io_fd s)(b := me_open e)\<rparr>
      in if me_open e < 1
         then Inr (- 1, put_line (who @ '': Invalid UIO device file:'' @ uiod @ ''.'') s1)
         else bindE (get_memory_size (me_size e) (me_junk e)) (\<lambda>sz.
              let s2 = mmap_dev b (me_mmap e) (s1\<lparr>dev_size := sint sz\<rparr>)
              in if \<not> me_mmap e then Inr (- 1, put_line (who @ '': mmap call failure.'') s2)
                 else Inr (0, s2)))"

definition intc_init :: "map_env \<Rightarrow> io \<Rightarrow> (int \<times> io) res" where
  "intc_init = uio_init INTC ''intc_init'' ''/dev/uio0''"

definition cfg_init :: "map_env \<Rightarrow> io \<Rightarrow> (int \<times> io) res" where
  "cfg_init = uio_init CFG ''cfg_init'' ''/dev/uio1''"

definition sts_init :: "map_env \<Rightarrow> io \<Rightarrow> (int \<times> io) res" where
  "sts_init = uio_init STS ''sts_init'' ''/dev/uio2''"

definition xadc_init :: "map_env \<Rightarrow> io \<Rightarrow> (int \<times> io) res" where
  "xadc_init = uio_init XADC ''xadc_init'' ''/dev/uio3''"

definition mem_init :: "int \<Rightarrow> int \<Rightarrow> bool \<Rightarrow> io \<Rightarrow> (int \<times> io) res" where
  \<comment> \<open>descriptor, page size and success of \<^verbatim>\<open>mmap\<close>\<close>
  "mem_init opened pagesize ok s =
     (let s1 = s\<lparr>io_fd := (io_fd s)(MEM := opened)\<rparr>
      in if opened < 1
         then Inr (- 1, put_line ''mem_init: Invalid device file:/dev/mem.'' s1)
         else bindE (cmul 2048 pagesize) (\<lambda>sz.
              let s2 = mmap_dev MEM ok (s1\<lparr>dev_size := sz\<rparr>)
              in if \<not> ok then Inr (- 1, put_line ''mem_init: mmap call failure.'' s2)
                 else Inr (0, s2)))"

section \<open>Configuration sequences\<close>

text \<open>Read the general reset register, change it, write it back.\<close>

definition reset_gral :: "(u32 \<Rightarrow> u32) \<Rightarrow> io \<Rightarrow> io res" where
  "reset_gral f s =
     bindE (dev_read CFG CFG_RESET_GRAL_OFFSET s) (\<lambda>reg_val.
     dev_write CFG CFG_RESET_GRAL_OFFSET (f reg_val) s)"

definition init_system :: "io \<Rightarrow> (int \<times> io) res" where
  "init_system s =
     bindE (dev_write CFG CFG_TRLVL_1_OFFSET 8190 s) (\<lambda>s.
     bindE (dev_write CFG CFG_TRLVL_2_OFFSET 8190 s) (\<lambda>s.
     bindE (dev_write CFG CFG_STRLVL_1_OFFSET 8190 s) (\<lambda>s.
     bindE (dev_write CFG CFG_STRLVL_2_OFFSET 8190 s) (\<lambda>s.
     bindE (dev_write CFG CFG_HV1_OFFSET 0 s) (\<lambda>s.
     bindE (dev_write CFG CFG_HV2_OFFSET 0 s) (\<lambda>s.
     bindE (reset_gral (\<lambda>r. r AND NOT 8) s) (\<lambda>s.
     bindE (reset_gral (\<lambda>r. r AND NOT 1) s) (\<lambda>s.
     bindE (reset_gral (\<lambda>r. r AND NOT 4) s) (\<lambda>s.
     bindE (reset_gral (\<lambda>r. r AND NOT 2) s) (\<lambda>s.
     bindE (dev_write CFG CFG_NSAMPLES_OFFSET (1024 * 1024) s) (\<lambda>s.
     bindE (dev_write CFG CFG_TR_SCAL_A_OFFSET 1 s) (\<lambda>s.
     bindE (dev_write CFG CFG_TR_SCAL_B_OFFSET 1 s) (\<lambda>s.
     bindE (reset_gral (\<lambda>r. r OR FGPS_EN_MASK) s) (\<lambda>s.
     bindE (reset_gral (\<lambda>r. r OR 8) s) (\<lambda>s.
     bindE (reset_gral (\<lambda>r. r OR 0x20) s) (\<lambda>s.
     Inr (0, s)))))))))))))))))"

definition enable_interrupt :: "io \<Rightarrow> (int \<times> io) res" where
  "enable_interrupt s =
     bindE (dev_write INTC XIL_AXI_INTC_IER_OFFSET 1 s) (\<lambda>s.
     bindE (dev_write INTC XIL_AXI_INTC_MER_OFFSET
              (XIL_AXI_INTC_MER_ME_MASK OR XIL_AXI_INTC_MER_HIE_MASK) s) (\<lambda>s.
     Inr (0, s)))"

definition disable_interrupt :: "io \<Rightarrow> (int \<times> io) res" where
  "disable_interrupt s =
     bindE (dev_write INTC XIL_AXI_INTC_IER_OFFSET 0 s) (\<lambda>s.
     bindE (dev_read INTC XIL_AXI_INTC_MER_OFFSET s) (\<lambda>val.
     bindE (dev_write INTC XIL_AXI_INTC_MER_OFFSET (val OR NOT 1) s) (\<lambda>s.
     bindE (dev_write INTC XIL_AXI_INTC_IAR_OFFSET 1 s) (\<lambda>s.
     Inr (0, s)))))"

section \<open>Correctness of the configuration\<close>

lemma reset_gral_ready [io_simps]:
  "io_ready s \<Longrightarrow> reset_gral f s
    = Inr (poke CFG s CFG_RESET_GRAL_OFFSET (f (peek CFG s CFG_RESET_GRAL_OFFSET)))"
  by (simp add: reset_gral_def io_simps CFG_RESET_GRAL_OFFSET_def)

lemma peek_poke_fun: "peek b (poke b s off v) = (peek b s)(off := v)"
  by (simp add: fun_eq_iff)

lemma peek_poke_bank: "b \<noteq> c \<Longrightarrow> peek b (poke c s off v) = peek b s"
  by (simp add: fun_eq_iff)

text \<open>
  C14. After \<^verbatim>\<open>init_system\<close> every configuration register has its documented value whatever it held
  before: trigger and sub-trigger levels at their maximum, no high voltage, scalers at one, and
  in the general reset register the acquisition in reset, ramp generators, simulated GPS and
  master mode on. The other registers and the other devices are not touched.
\<close>

theorem init_system_registers:
  assumes "io_ready s"
  shows "\<exists>s'. init_system s = Inr (0, s') \<and> io_ready s' \<and> (\<forall>b. b \<noteq> CFG \<longrightarrow> peek b s' = peek b s)
    \<and> peek CFG s' = (peek CFG s)(CFG_TRLVL_1_OFFSET := 8190, CFG_TRLVL_2_OFFSET := 8190,
         CFG_STRLVL_1_OFFSET := 8190, CFG_STRLVL_2_OFFSET := 8190, CFG_HV1_OFFSET := 0,
         CFG_HV2_OFFSET := 0, CFG_NSAMPLES_OFFSET := 1048576, CFG_TR_SCAL_A_OFFSET := 1,
         CFG_TR_SCAL_B_OFFSET := 1,
         CFG_RESET_GRAL_OFFSET := peek CFG s CFG_RESET_GRAL_OFFSET AND NOT 0xF OR 0x38)"
proof -
  let ?r = "peek CFG s CFG_RESET_GRAL_OFFSET"
  have r: "((((((?r AND NOT 8) AND NOT 1) AND NOT 4) AND NOT 2) OR FGPS_EN_MASK) OR 8) OR 0x20
      = ?r AND NOT 0xF OR 0x38"
    by (simp add: FGPS_EN_MASK_def and.assoc or.assoc)
  show ?thesis
    using assms r by (simp add: init_system_def io_simps cfg_offsets peek_poke_bank)
      (auto simp: fun_eq_iff)
qed

text \<open>
  \<^verbatim>\<open>disable_interrupt\<close> masks the interrupt source and acknowledges it, but the master enable
  bit keeps the value it had, because the complement of the mask is set instead of cleared:
  all the other bits of the master enable register become one.
\<close>

theorem disable_interrupt_keeps_master_enable:
  assumes "io_ready s"
  shows "\<exists>s'. disable_interrupt s = Inr (0, s') \<and> peek INTC s' XIL_AXI_INTC_IER_OFFSET = 0
    \<and> io_log s' = io_log s @ [(INTC, XIL_AXI_INTC_IER_OFFSET, 0),
         (INTC, XIL_AXI_INTC_MER_OFFSET, peek INTC s XIL_AXI_INTC_MER_OFFSET OR NOT 1),
         (INTC, XIL_AXI_INTC_IAR_OFFSET, 1)]
    \<and> bit (peek INTC s' XIL_AXI_INTC_MER_OFFSET) 0 = bit (peek INTC s XIL_AXI_INTC_MER_OFFSET) 0"
  using assms by (simp add: disable_interrupt_def io_simps intc_offsets bit_or_iff bit_not_iff)

section \<open>Accuracy of the high voltage\<close>

lemma gain_a_val: "gain_a = Flt 11838084 (- 27)" unfolding gain_a_def by code_simp
lemma gain_b_val: "gain_b = Flt 16221806 (- 21)" unfolding gain_b_def by code_simp

lemma gains: "fval gain_a = 11838084 / 134217728" "fval gain_b = 16221806 / 2097152"
  by (simp_all add: gain_a_val gain_b_val fval_def power_int_minus inverse_eq_divide)

lemma gain_bounds:
  "882 / 10000 \<le> fval gain_a" "fval gain_a \<le> 883 / 10000"
  "77351 / 10000 \<le> fval gain_b" "fval gain_b \<le> 77352 / 10000"
  unfolding gains by simp_all

abbreviation "epsf \<equiv> (2 :: real) powi - int FLOAT"

lemma epsf_bounds: "0 < epsf" "epsf \<le> 1 / 10000000"
  by (simp_all add: power_int_minus inverse_eq_divide)

lemma f_to_u32_floor:
  assumes "0 \<le> fval x" and "fval x < 4294967296"
  obtains w where "f_to_u32 x = Inr w" and "uint w = \<lfloor>fval x\<rfloor>"
proof -
  have t: "ftrunc x = \<lfloor>fval x\<rfloor>" using assms(1) by (rule ftrunc_floor)
  have r: "0 \<le> \<lfloor>fval x\<rfloor>" "\<lfloor>fval x\<rfloor> < 4294967296" using assms by (simp, linarith)
  then have "f_to_u32 x = Inr (word_of_int \<lfloor>fval x\<rfloor>)" by (simp add: f_to_u32_def Let_def t)
  moreover have "uint (word_of_int \<lfloor>fval x\<rfloor> :: u32) = \<lfloor>fval x\<rfloor>"
    using r by (simp add: take_bit_int_eq_self unsigned_of_int)
  ultimately show ?thesis using that by blast
qed

lemma uint_real_nonneg: "0 \<le> real_of_int (uint w)" for w :: "'a::len word"
  by (simp only: of_int_0_le_iff unsigned_greater_eq)

text \<open>
  A calibration line with gain \<open>a\<close> and offset \<open>b\<close>, whose integer part is \<open>k - 1\<close>: the cast keeps the
  voltage less \<open>k\<close>.
\<close>

lemma hv_offset:
  fixes k v :: int
  assumes "k \<le> v" and "1 \<le> k" and "v \<le> 2500" and b: "k - 999 / 1000 \<le> fval b" "fval b \<le> k - 1 / 1000"
  shows "\<lfloor>fval (fsub FLOAT (f_of_int FLOAT v) b)\<rfloor> = v - k"
    and "0 \<le> fval (fsub FLOAT (f_of_int FLOAT v) b)"
proof -
  have v: "fval (f_of_int FLOAT v) = real_of_int v" using assms by (simp add: f_of_int_exact)
  have r: "real_of_int k \<le> real_of_int v" "real_of_int v \<le> 2500" "1 \<le> real_of_int k" using assms by linarith+
  have "\<bar>real_of_int v - fval b\<bar> \<le> 2500" using r b by (simp only: abs_le_iff) linarith
  then have "\<bar>fval (fsub FLOAT (f_of_int FLOAT v) b) - (real_of_int v - fval b)\<bar> \<le> 2500 * epsf"
    using rel_error [OF fsub_error [of FLOAT "f_of_int FLOAT v" b], of 2500] epsf_bounds(1)
    unfolding v by (meson less_imp_le)
  then have "\<bar>fval (fsub FLOAT (f_of_int FLOAT v) b) - (real_of_int v - fval b)\<bar> \<le> 1 / 2000"
    using epsf_bounds by linarith
  then have *: "real_of_int (v - k) \<le> fval (fsub FLOAT (f_of_int FLOAT v) b)"
    "fval (fsub FLOAT (f_of_int FLOAT v) b) < real_of_int (v - k) + 1"
    using b by linarith+
  then show "\<lfloor>fval (fsub FLOAT (f_of_int FLOAT v) b)\<rfloor> = v - k" by (rule floor_unique)
  show "0 \<le> fval (fsub FLOAT (f_of_int FLOAT v) b)" using * assms by linarith
qed

lemma dac_close:
  fixes k v :: int
  assumes "k \<le> v" and "1 \<le> k" and "v \<le> 2500" and b: "k - 999 / 1000 \<le> fval b" "fval b \<le> k - 1 / 1000"
    and a: "38 / 1000 \<le> fval a" "fval a \<le> 1 / 10" "man a \<noteq> 0"
  obtains d where "bindE (f_to_u32 (fsub FLOAT (f_of_int FLOAT v) b)) (\<lambda>u.
      bindE (fdiv FLOAT (f_of_int FLOAT (uint u)) a) f_to_u32) = Inr d"
    and "fval a * uint d \<le> real_of_int v - k + 1 / 1000" and "real_of_int v - k - fval a - 1 / 1000 \<le> fval a * uint d"
proof -
  note off = hv_offset [OF assms(1-5)]
  have "real_of_int \<lfloor>fval (fsub FLOAT (f_of_int FLOAT v) b)\<rfloor> \<le> 2500"
    unfolding off(1) using assms(2,3) by linarith
  then have "fval (fsub FLOAT (f_of_int FLOAT v) b) < 4294967296" by linarith
  then obtain u where u: "f_to_u32 (fsub FLOAT (f_of_int FLOAT v) b) = Inr u" "uint u = v - k"
    using f_to_u32_floor [OF off(2)] off(1) by metis
  have uv: "fval (f_of_int FLOAT (uint u)) = v - k" using assms u by (simp add: f_of_int_exact)
  obtain q where q: "fdiv FLOAT (f_of_int FLOAT (uint u)) a = Inr q"
    and qr: "\<bar>fval q - (v - k) / fval a\<bar> \<le> \<bar>(v - k) / fval a\<bar> * epsf"
    using fdiv_error [OF a(3), of FLOAT "f_of_int FLOAT (uint u)"] uv by metis
  define x where "x = (v - k) / fval a"
  have "0 \<le> real_of_int (v - k)" "real_of_int (v - k) \<le> 2500" using assms(1-3) by linarith+
  then have x: "0 \<le> x" "x \<le> 66000"
    using a(1) by (simp_all add: x_def divide_le_eq)
  have qx: "\<bar>fval q - x\<bar> \<le> x * epsf" using qr x(1) unfolding x_def [symmetric] by (simp only: abs_of_nonneg)
  have "x * epsf \<le> x" using x(1) epsf_bounds by (intro mult_left_le) linarith+
  with qx have q0: "0 \<le> fval q" by linarith
  have "x * epsf \<le> 66000 * epsf" using x epsf_bounds by (intro mult_right_mono) linarith+
  with qx epsf_bounds have qe: "\<bar>fval q - x\<bar> \<le> 7 / 1000" by linarith
  with x have "fval q < 4294967296" by linarith
  from f_to_u32_floor [OF q0 this] obtain d where d: "f_to_u32 q = Inr d" "uint d = \<lfloor>fval q\<rfloor>" .
  have fl: "real_of_int (uint d) \<le> fval q" "fval q < real_of_int (uint d) + 1"
    unfolding d(2) by linarith+
  have "fval a * x = real_of_int (v - k)" using a(1) by (simp add: x_def)
  moreover have "bindE (f_to_u32 (fsub FLOAT (f_of_int FLOAT v) b)) (\<lambda>u.
      bindE (fdiv FLOAT (f_of_int FLOAT (uint u)) a) f_to_u32) = Inr d" using u q d by simp
  moreover have "fval a * uint d \<le> fval a * (x + 7 / 1000)"
    "fval a * (x - 7 / 1000 - 1) \<le> fval a * uint d"
    using fl qe a(1) by (intro mult_left_mono; linarith)+
  ultimately show ?thesis using that [of d] a(1,2) by (simp add: algebra_simps)
qed

text \<open>Reading back what was written.\<close>

lemma hv_readback:
  assumes "fval gain_a * uint d \<le> 2493"
  shows "\<bar>fval (hv_of_dac d) - (fval gain_a * uint d + fval gain_b)\<bar> \<le> 1 / 1000"
proof -
  have "real_of_int (uint d) \<le> 30000" using assms unfolding gains by linarith
  then have d: "uint d \<le> 30000" by linarith
  then have v: "fval (f_of_int FLOAT (uint d)) = uint d"
    by (intro f_of_int_exact) simp
  let ?y = "fval gain_a * uint d" and ?m = "fmul FLOAT gain_a (f_of_int FLOAT (uint d))"
  have y: "0 \<le> ?y" using gain_bounds(1) uint_real_nonneg [of d] by (intro mult_nonneg_nonneg) linarith+
  have "\<bar>fval ?m - ?y\<bar> \<le> 2493 * epsf"
    using rel_error [OF fmul_error [of FLOAT gain_a "f_of_int FLOAT (uint d)"], of 2493] v y assms
      epsf_bounds(1) by (metis abs_of_nonneg less_imp_le)
  then have m: "\<bar>fval ?m - ?y\<bar> \<le> 1 / 4000" using epsf_bounds by linarith
  have "\<bar>fval ?m + fval gain_b\<bar> \<le> 2502" using m y assms gains(2) by linarith
  then have "\<bar>fval (hv_of_dac d) - (fval ?m + fval gain_b)\<bar> \<le> 2502 * epsf"
    unfolding hv_of_dac_def using epsf_bounds(1) by (intro rel_error [OF fadd_error]) simp_all
  then show ?thesis using m epsf_bounds by linarith
qed

text \<open>
  C13. Setting a high voltage between 8 and 2500 mV succeeds, and the value the status command
  then computes from the register is 0.26 to 0.36 mV below the requested one: the offset is
  truncated to whole millivolts before it is scaled, so the result is always too low.
\<close>

theorem set_voltage_error_band:
  assumes "io_ready s" and "off mod 4 = 0" and "off + 4 \<le> 4096" and "8 \<le> v" and "v \<le> 2500"
  shows "\<exists>s'. set_voltage off v s = Inr s' \<and>
    v - 36 / 100 \<le> fval (hv_of_dac (peek CFG s' off)) \<and> fval (hv_of_dac (peek CFG s' off)) \<le> v - 26 / 100"
proof -
  obtain d where d: "dac_of_hv v = Inr d" "fval gain_a * uint d \<le> real_of_int v - 8 + 1 / 1000"
    "real_of_int v - 8 - fval gain_a - 1 / 1000 \<le> fval gain_a * uint d"
  proof -
    have g: "real_of_int 8 - 999 / 1000 \<le> fval gain_b" "fval gain_b \<le> real_of_int 8 - 1 / 1000"
      "38 / 1000 \<le> fval gain_a" "fval gain_a \<le> 1 / 10"
      using gain_bounds by simp_all
    have n: "man gain_a \<noteq> 0" by (simp add: gain_a_val)
    show thesis
      using dac_close [OF assms(4) _ assms(5) g n] that unfolding dac_of_hv_def by auto
  qed
  define y where "y = fval gain_a * uint d"
  note y = d(2,3) [folded y_def]
  have "y \<le> 2493" using y(1) assms(5) by linarith
  then have "\<bar>fval (hv_of_dac d) - (y + fval gain_b)\<bar> \<le> 1 / 1000"
    using hv_readback [of d] by (simp only: y_def)
  with y gain_bounds have "v - 36 / 100 \<le> fval (hv_of_dac d)" "fval (hv_of_dac d) \<le> v - 26 / 100"
    by linarith+
  with d(1) show ?thesis using assms(1-3) by (simp add: set_voltage_def io_simps)
qed

theorem set_voltage_error_band_witness:
  "\<exists>s'. set_voltage CFG_HV1_OFFSET 900 \<lparr>io_fd = \<lambda>_. 3, io_map = \<lambda>_. Some 4096, io_reg = \<lambda>_ _. 0,
        io_log = [], dev_size = 4096, io_out = []\<rparr> = Inr s' \<and>
    900 - 36 / 100 \<le> fval (hv_of_dac (peek CFG s' CFG_HV1_OFFSET))
    \<and> fval (hv_of_dac (peek CFG s' CFG_HV1_OFFSET)) \<le> 900 - 26 / 100"
  using set_voltage_error_band [of "\<lparr>io_fd = \<lambda>_. 3, io_map = \<lambda>_. Some 4096, io_reg = \<lambda>_ _. 0,
      io_log = [], dev_size = 4096, io_out = []\<rparr>" CFG_HV1_OFFSET 900]
  by (simp add: io_ready_def CFG_HV1_OFFSET_def)

lemma f_to_u32_negative: "fval x \<le> - 1 \<Longrightarrow> f_to_u32 x = Inl FloatRange"
proof -
  assume x: "fval x \<le> - 1"
  then have "ftrunc (fneg x) = \<lfloor>- fval x\<rfloor>" using ftrunc_floor [of "fneg x"] by simp
  then have "ftrunc x = - \<lfloor>- fval x\<rfloor>" using ftrunc_neg [of "fneg x"] by simp
  moreover have "1 \<le> \<lfloor>- fval x\<rfloor>" using x by linarith
  ultimately show ?thesis by (simp add: f_to_u32_def Let_def)
qed

text \<open>
  A request of at most 6 mV, and so every negative one, which the option parser lets through,
  reaches a conversion of a negative number to an unsigned type, which the language leaves
  undefined.
\<close>

theorem set_voltage_undefined_below:
  assumes "v \<le> 6"
  shows "set_voltage off v s = Inl FloatRange"
proof -
  have y: "fval (f_of_int FLOAT v) \<le> 6"
  proof (cases "\<bar>v\<bar> < 2 ^ 24")
    case True
    with assms show ?thesis by (simp add: f_of_int_exact)
  next
    case False
    then have v: "v < 0" using assms by simp
    have "\<bar>fval (f_of_int FLOAT v) - real_of_int v\<bar> \<le> \<bar>real_of_int v\<bar> * epsf"
      using fround_error [of 1 FLOAT v] by (simp add: f_of_int_def)
    moreover have "\<bar>real_of_int v\<bar> * epsf \<le> \<bar>real_of_int v\<bar> * 1"
      using epsf_bounds by (intro mult_left_mono) linarith+
    ultimately show ?thesis using v by linarith
  qed
  define w where "w = fval (f_of_int FLOAT v) - fval gain_b"
  have w: "w \<le> - 17 / 10" using y gain_bounds(3) by (simp add: w_def)
  have "\<bar>fval (fsub FLOAT (f_of_int FLOAT v) gain_b) - w\<bar> \<le> \<bar>w\<bar> * epsf"
    unfolding w_def by (rule fsub_error)
  also have "\<dots> \<le> \<bar>w\<bar> * (1 / 10)"
    using epsf_bounds by (intro mult_left_mono) linarith+
  finally have "fval (fsub FLOAT (f_of_int FLOAT v) gain_b) \<le> - 1" using w by (simp add: abs_le_iff)
  then show ?thesis by (simp add: set_voltage_def dac_of_hv_def f_to_u32_negative)
qed

theorem set_voltage_undefined_below_witness:
  "set_voltage CFG_HV2_OFFSET (- 500) \<lparr>io_fd = \<lambda>_. 3, io_map = \<lambda>_. None, io_reg = \<lambda>_ _. 0,
      io_log = [], dev_size = 0, io_out = []\<rparr> = Inl FloatRange"
  by (rule set_voltage_undefined_below) simp

theorem init_system_registers_witness:
  "\<exists>s'. init_system \<lparr>io_fd = \<lambda>_. 3, io_map = \<lambda>_. Some 4096, io_reg = \<lambda>_ _. 0xFFFFFFFF,
        io_log = [], dev_size = 4096, io_out = []\<rparr> = Inr (0, s')
    \<and> peek CFG s' CFG_RESET_GRAL_OFFSET = 0xFFFFFFF8"
proof -
  let ?s = "\<lparr>io_fd = \<lambda>_. 3, io_map = \<lambda>_. Some 4096, io_reg = \<lambda>_ _. 0xFFFFFFFF, io_log = [],
    dev_size = 4096, io_out = []\<rparr>"
  have "io_ready ?s" "peek CFG ?s CFG_RESET_GRAL_OFFSET = 0xFFFFFFFF"
    by (simp_all add: io_ready_def peek_def)
  with init_system_registers [of ?s] show ?thesis by auto
qed

theorem disable_interrupt_keeps_master_enable_witness:
  "\<exists>s'. disable_interrupt \<lparr>io_fd = \<lambda>_. 3, io_map = \<lambda>_. Some 4096, io_reg = \<lambda>_ _. 3,
        io_log = [], dev_size = 4096, io_out = []\<rparr> = Inr (0, s')
    \<and> bit (peek INTC s' XIL_AXI_INTC_MER_OFFSET) 0"
  using disable_interrupt_keeps_master_enable [of "\<lparr>io_fd = \<lambda>_. 3, io_map = \<lambda>_. Some 4096,
      io_reg = \<lambda>_ _. 3, io_log = [], dev_size = 4096, io_out = []\<rparr>"]
  by (auto simp: io_ready_def peek_def bit_numeral_rec)

text \<open>
  A value written through the command for single registers is the one the read command then
  shows, for the four devices that can be selected; any other device number changes nothing and
  is reported by -1.
\<close>

theorem reg_value_roundtrip:
  "(bank_of n_dev \<noteq> None \<and> wr_reg_value n_dev off v s = Inr (r, s1) \<longrightarrow>
      r = 0 \<and> (\<exists>s2. rd_reg_value n_dev off s1 = Inr (sint v, s2)))
   \<and> (bank_of n_dev = None \<longrightarrow> (\<exists>s1. wr_reg_value n_dev off v s = Inr (- 1, s1) \<and> io_reg s1 = io_reg s))"
  by (auto simp: wr_reg_value_def rd_reg_value_def dev_write_def dev_read_def accessible_def
      bus.rd_wr_same res_simps split: option.splits if_splits)

theorem reg_value_roundtrip_witness:
  "\<exists>s1 s2. wr_reg_value 1 CFG_TRLVL_1_OFFSET 100 \<lparr>io_fd = \<lambda>_. 3, io_map = \<lambda>_. Some 4096,
        io_reg = \<lambda>_ _. 3, io_log = [], dev_size = 4096, io_out = []\<rparr> = Inr (0, s1)
    \<and> rd_reg_value 1 CFG_TRLVL_1_OFFSET s1 = Inr (100, s2)"
proof -
  let ?s = "\<lparr>io_fd = \<lambda>_. 3, io_map = \<lambda>_. Some 4096, io_reg = \<lambda>_ _. 3, io_log = [],
    dev_size = 4096, io_out = []\<rparr>"
  obtain s1 where s1: "wr_reg_value 1 CFG_TRLVL_1_OFFSET 100 ?s = Inr (0, s1)"
    by (simp add: wr_reg_value_def bank_of_def dev_write_def accessible_def CFG_TRLVL_1_OFFSET_def)
  have "bank_of 1 \<noteq> None" by (simp add: bank_of_def)
  with s1 reg_value_roundtrip [of 1 CFG_TRLVL_1_OFFSET 100 ?s 0 s1] show ?thesis by auto
qed

end
