(* ===== verification/Uart.thy ===== *)
theory Uart
  imports CStrings
begin

text \<open>
  The serial port of the GPS receiver, \<^verbatim>\<open>projects/lago_v1_2/src/uart_rp.c\<close>. The file descriptor
  is the module's only variable. Results of system calls are arguments: what \<^verbatim>\<open>open\<close>, \<^verbatim>\<open>malloc\<close> and
  \<^verbatim>\<open>write\<close> return, and the list of what successive one-byte \<^verbatim>\<open>read\<close> calls deliver, \<open>None\<close> for a
  call that brings no byte. The calls that configure the line are recorded in order.
\<close>

datatype tty_flag = B9600 | CS8 | CLOCAL | CREAD | IGNPAR

record termios =
  c_cflag :: "tty_flag set"
  c_iflag :: "tty_flag set"
  c_oflag :: int
  c_lflag :: int

datatype tty_call =
    TcGetAttr
  | TcFlushInput
  | TcSetAttrNow termios
  | CloseFd

record uart =
  uart_fd :: int
  tty_calls :: "tty_call list"
  errors :: "string list"

definition uart_reset :: uart where
  "uart_reset = \<lparr>uart_fd = - 1, tty_calls = [], errors = []\<rparr>"

definition rp_UartInit :: "int \<Rightarrow> uart \<Rightarrow> int \<times> uart" where
  "rp_UartInit opened u =
     (let u1 = u\<lparr>uart_fd := opened\<rparr>
      in if uart_fd u1 = - 1
         then (- 1, u1\<lparr>errors := errors u1 @ [''Failed to open uart.'']\<rparr>)
         else (0, u1))"

definition rp_UartConfig :: "termios \<Rightarrow> uart \<Rightarrow> uart" where
  \<comment> \<open>the first argument is what \<^verbatim>\<open>tcgetattr\<close> stores into the local variable\<close>
  "rp_UartConfig options u =
     (let o1 = options\<lparr>c_cflag := {B9600, CS8, CLOCAL, CREAD}, c_iflag := {IGNPAR},
                       c_oflag := 0, c_lflag := 0\<rparr>
      in u\<lparr>tty_calls := tty_calls u @ [TcGetAttr, TcFlushInput, TcSetAttrNow o1]\<rparr>)"

text \<open>
  \<^verbatim>\<open>rp_UartPrintln\<close>: the line is copied into a fresh block of \<open>len + 1\<close> bytes whose last two are
  then overwritten by carriage return and line feed; \<open>junk\<close> is what the block held before.
  The result is the return value with the bytes handed to \<^verbatim>\<open>write\<close>.
\<close>

abbreviation "CR \<equiv> CHR 0x0D"
abbreviation "LF \<equiv> CHR 0x0A"

definition rp_UartPrintln ::
  "bool \<Rightarrow> (nat \<Rightarrow> char) \<Rightarrow> int \<Rightarrow> string \<Rightarrow> int \<Rightarrow> uart \<Rightarrow> ((int \<times> string) \<times> uart) res" where
  "rp_UartPrintln malloc_ok junk wrote line len u =
     (if uart_fd u \<noteq> - 1
      then bindE (guardE malloc_ok NullDeref) (\<lambda>_.
           bindE (guardE (int (length line) \<le> len \<and> 1 \<le> len) OutOfBounds) (\<lambda>_.
           let cpstr = take (nat len - 1) (line @ NUL # map junk [length line + 1..<nat len + 1])
                         @ [CR, LF]
           in if wrote < 0
              then Inr ((- 1, cpstr), u\<lparr>errors := errors u @ [''UART TX error.'']\<rparr>)
              else Inr ((0, cpstr), u)))
      else Inr ((0, []), u))"

text \<open>
  \<^verbatim>\<open>rp_UartReadln\<close>: bytes are appended to the buffer until a line feed, which is stored as the
  terminating zero. The parameter \<open>len\<close> is never looked at; \<open>cap\<close> is the number of bytes the
  buffer really has. Without a line feed the loop goes on waiting.
\<close>

fun readln_from :: "nat \<Rightarrow> int \<Rightarrow> string \<Rightarrow> char option list \<Rightarrow> (string \<times> char option list) res" where
  "readln_from cap len b [] = Inl Blocked"
| "readln_from cap len b (None # rx) = readln_from cap len b rx"
| "readln_from cap len b (Some c # rx) =
     (if cap \<le> length b then Inl OutOfBounds
      else if c = LF then Inr (b, rx)
      else readln_from cap len (b @ [c]) rx)"

definition rp_UartReadln :: "nat \<Rightarrow> int \<Rightarrow> char option list \<Rightarrow> (string \<times> char option list) res" where
  "rp_UartReadln cap len rx = readln_from cap len [] rx"

definition rp_UartClose :: "uart \<Rightarrow> uart" where
  "rp_UartClose u = u\<lparr>tty_calls := tty_calls u @ [TcFlushInput, CloseFd]\<rparr>"

section \<open>Lines\<close>

text \<open>The bytes a list of read results delivers.\<close>

definition bytes_of :: "char option list \<Rightarrow> string" where
  "bytes_of rx = map the (filter (\<lambda>r. r \<noteq> None) rx)"

lemma bytes_of_simps [simp]:
  "bytes_of [] = []" "bytes_of (None # rx) = bytes_of rx" "bytes_of (Some c # rx) = c # bytes_of rx"
  by (simp_all add: bytes_of_def)

lemma bytes_of_append [simp]: "bytes_of (xs @ ys) = bytes_of xs @ bytes_of ys"
  by (simp add: bytes_of_def)

lemma bytes_of_map_Some [simp]: "bytes_of (map Some s) = s"
  by (induction s) auto

lemma readln_from_shorter:
  "readln_from cap len b rx = Inr (s, rx') \<Longrightarrow> length rx' < length rx"
  by (induction cap len b rx rule: readln_from.induct) (auto split: if_splits)

lemma readln_from_line:
  assumes "bytes_of rx = l @ LF # r" and "LF \<notin> set l" and "length b + length l < cap"
  shows "\<exists>rx'. readln_from cap len b rx = Inr (b @ l, rx') \<and> bytes_of rx' = r"
  using assms
proof (induction cap len b rx arbitrary: l rule: readln_from.induct)
  case (1 cap len b)
  then show ?case by simp
next
  case (2 cap len b rx)
  then show ?case by simp
next
  case (3 cap len b c rx)
  show ?case
  proof (cases l)
    case Nil
    with 3 show ?thesis by auto
  next
    case (Cons a l')
    with "3.prems" have "c = a" "c \<noteq> LF" "bytes_of rx = l' @ LF # r" by auto
    with "3.IH" [of l'] "3.prems" Cons show ?thesis by auto
  qed
qed

lemma readln_from_overrun:
  assumes "bytes_of rx = l @ r" and "LF \<notin> set l" and "length b + length l = Suc cap"
    and "length b \<le> cap"
  shows "readln_from cap len b rx = Inl OutOfBounds"
  using assms
proof (induction cap len b rx arbitrary: l rule: readln_from.induct)
  case (1 cap len b)
  then show ?case by simp
next
  case (2 cap len b rx)
  then show ?case by simp
next
  case (3 cap len b c rx)
  then obtain l' where l: "l = c # l'" by (cases l) auto
  show ?case
  proof (cases "cap \<le> length b")
    case True
    then show ?thesis by simp
  next
    case False
    with 3 l show ?thesis by auto
  qed
qed

lemma rp_UartReadln_shorter:
  "rp_UartReadln cap len rx = Inr (s, rx') \<Longrightarrow> length rx' < length rx"
  unfolding rp_UartReadln_def by (rule readln_from_shorter)

lemma rp_UartReadln_Some:
  assumes "LF \<notin> set l" and "length l < cap"
  shows "rp_UartReadln cap len (map Some l @ Some LF # rx) = Inr (l, rx)"
proof -
  have "readln_from cap len b (map Some l @ Some LF # rx) = Inr (b @ l, rx)"
    if "length b + length l < cap" for b
    using that assms(1) by (induction l arbitrary: b) auto
  then show ?thesis using assms(2) by (simp add: rp_UartReadln_def)
qed

text \<open>
  Reading a line. When the bytes that arrive are a line of fewer characters than the buffer
  holds, a line feed and more, the line is delivered, whatever pauses lie between the bytes, and
  exactly the bytes after the line feed are left for the next call.
\<close>

theorem readln_delivers_line:
  assumes "bytes_of rx = l @ LF # r" and "LF \<notin> set l" and "length l < cap"
  shows "\<exists>rx'. rp_UartReadln cap len rx = Inr (l, rx') \<and> bytes_of rx' = r"
  using readln_from_line [OF assms(1,2), of "[]" cap len] assms(3)
  by (simp add: rp_UartReadln_def)

theorem readln_delivers_line_witness:
  "\<exists>rx'. rp_UartReadln 256 256 [Some CHR ''o'', None, Some CHR ''k'', Some LF, Some CHR ''x'']
      = Inr (''ok'', rx') \<and> bytes_of rx' = ''x''"
  by (rule readln_delivers_line) simp_all

text \<open>
  C28. The length argument does not protect the buffer: as soon as more bytes than the buffer
  holds arrive before a line feed, the call writes past the end, however small \<open>len\<close> is.
\<close>

theorem readln_overruns_buffer:
  assumes "bytes_of rx = l @ r" and "LF \<notin> set l" and "cap < length l"
  shows "rp_UartReadln cap len rx = Inl OutOfBounds"
proof -
  have "bytes_of rx = take (Suc cap) l @ (drop (Suc cap) l @ r)" using assms(1) by simp
  moreover have "LF \<notin> set (take (Suc cap) l)" using assms(2) by (auto dest: in_set_takeD)
  ultimately show ?thesis
    using readln_from_overrun [of rx "take (Suc cap) l" "drop (Suc cap) l @ r" "[]" cap len] assms(3)
    by (simp add: rp_UartReadln_def)
qed

theorem readln_overruns_buffer_witness:
  "rp_UartReadln 2 2 (map Some ''$GPGGA'') = Inl OutOfBounds"
  by (rule readln_overruns_buffer [of _ "''$GPGGA''" "[]"]) simp_all

end
