(* ===== verification/Nmea.thy ===== *)
theory Nmea
  imports Uart
begin

unbundle bit_operations_syntax

text \<open>
  NMEA sentences, \<^verbatim>\<open>projects/lago_v1_2/src/nmea_rp.c\<close>: the checksum, the kind of a sentence and
  the extraction of the fields of a GGA and an RMC sentence. A field is found by looking for the
  next comma; when there is none, \<^verbatim>\<open>strchr\<close> returns a null pointer that the code increments and
  reads through.
\<close>

definition EMPTY_CODE :: u8 where "EMPTY_CODE = 0x00"
definition NMEA_GPRMC :: u8 where "NMEA_GPRMC = 0x01"
definition NMEA_GPGGA :: u8 where "NMEA_GPGGA = 0x02"
definition NMEA_UNKNOWN :: u8 where "NMEA_UNKNOWN = 0x00"
definition NMEA_COMPLETED :: u8 where "NMEA_COMPLETED = 0x03"
definition NMEA_CHECKSUM_ERR :: u8 where "NMEA_CHECKSUM_ERR = 0x80"
definition NMEA_GPRMC_STR :: string where "NMEA_GPRMC_STR = ''$GPRMC''"
definition NMEA_GPGGA_STR :: string where "NMEA_GPGGA_STR = ''$GPGGA''"

lemmas nmea_codes = EMPTY_CODE_def NMEA_GPRMC_def NMEA_GPGGA_def NMEA_UNKNOWN_def
  NMEA_COMPLETED_def NMEA_CHECKSUM_ERR_def

record gpgga_t =
  gga_times :: flt
  gga_latitude :: flt
  gga_lat :: char
  gga_longitude :: flt
  gga_lon :: char
  gga_quality :: int
  gga_satellites :: int
  gga_altitude :: flt

record gprmc_t =
  rmc_times :: flt
  rmc_latitude :: flt
  rmc_lat :: char
  rmc_longitude :: flt
  rmc_lon :: char
  rmc_speed :: flt
  rmc_course :: flt
  rmc_date :: flt

section \<open>Checksum and sentence kind\<close>

text \<open>
  The loop that XORs the characters up to the star. Without a star it runs over the terminating
  zero into memory that does not belong to the sentence.
\<close>

fun xor_to_star :: "u8 \<Rightarrow> string \<Rightarrow> u8 res" where
  "xor_to_star a [] = Inl OutOfBounds"
| "xor_to_star a (p # m) =
     (if p \<noteq> CHR ''*'' then xor_to_star (a XOR of_char p) m else Inr a)"

text \<open>
  The message is the content of an array: \<^verbatim>\<open>strchr\<close>, \<^verbatim>\<open>strstr\<close> and \<^verbatim>\<open>strtol\<close> stop at its first zero.
\<close>

definition rp_NmeaValidChecksum :: "string \<Rightarrow> u8 res" where
  "rp_NmeaValidChecksum message =
     bindE (after_char (cstr message) CHR ''*'') (\<lambda>hex.
     let checksum = word_of_int (strtol hex 16) :: u8
     in bindE (xor_to_star 0 (tl message)) (\<lambda>a.
        if a \<noteq> checksum then Inr NMEA_CHECKSUM_ERR else Inr EMPTY_CODE))"

definition rp_NmeaGetMessageType :: "string \<Rightarrow> u8 res" where
  "rp_NmeaGetMessageType message =
     bindE (rp_NmeaValidChecksum message) (\<lambda>checksum.
     if checksum \<noteq> EMPTY_CODE then Inr checksum
     else if strstr (cstr message) NMEA_GPGGA_STR then Inr NMEA_GPGGA
     else if strstr (cstr message) NMEA_GPRMC_STR then Inr NMEA_GPRMC
     else Inr NMEA_UNKNOWN)"

section \<open>Fields\<close>

text \<open>\<^verbatim>\<open>ptr = strchr(ptr, ',')+1\<close> and the character \<^verbatim>\<open>ptr[0]\<close>, zero at the end of the string.\<close>

definition next_field :: "string \<Rightarrow> string res" where
  "next_field ptr = after_char ptr CHR '',''"

definition at0 :: "string \<Rightarrow> char" where
  "at0 ptr = (case ptr of [] \<Rightarrow> NUL | c # _ \<Rightarrow> c)"

text \<open>The hemisphere switches keep the old value when the letter is none of the expected ones.\<close>

definition ns_letter :: "char \<Rightarrow> char \<Rightarrow> char" where
  "ns_letter c old = (if c = CHR ''N'' then CHR ''N'' else if c = CHR ''S'' then CHR ''S''
     else if c = CHR '','' then NUL else old)"

definition we_letter :: "char \<Rightarrow> char \<Rightarrow> char" where
  "we_letter c old = (if c = CHR ''W'' then CHR ''W'' else if c = CHR ''E'' then CHR ''E''
     else if c = CHR '','' then NUL else old)"

definition rp_NmeaParseGpgga :: "string \<Rightarrow> gpgga_t \<Rightarrow> gpgga_t res" where
  "rp_NmeaParseGpgga nmea loc =
     bindE (next_field (cstr nmea)) (\<lambda>p1. let loc = loc\<lparr>gga_times := atof p1\<rparr> in
     bindE (next_field p1) (\<lambda>p2. let loc = loc\<lparr>gga_latitude := atof p2\<rparr> in
     bindE (next_field p2) (\<lambda>p3. let loc = loc\<lparr>gga_lat := ns_letter (at0 p3) (gga_lat loc)\<rparr> in
     bindE (next_field p3) (\<lambda>p4. let loc = loc\<lparr>gga_longitude := atof p4\<rparr> in
     bindE (next_field p4) (\<lambda>p5. let loc = loc\<lparr>gga_lon := we_letter (at0 p5) (gga_lon loc)\<rparr> in
     bindE (next_field p5) (\<lambda>p6. let loc = loc\<lparr>gga_quality := to_u8 (atoi p6)\<rparr> in
     bindE (next_field p6) (\<lambda>p7. let loc = loc\<lparr>gga_satellites := to_u8 (atoi p7)\<rparr> in
     bindE (next_field p7) (\<lambda>p8.
     bindE (next_field p8) (\<lambda>p9. Inr (loc\<lparr>gga_altitude := atof p9\<rparr>))))))))))"

definition rp_NmeaParseGprmc :: "string \<Rightarrow> gprmc_t \<Rightarrow> gprmc_t res" where
  "rp_NmeaParseGprmc nmea loc =
     bindE (next_field (cstr nmea)) (\<lambda>p1. let loc = loc\<lparr>rmc_times := atof p1\<rparr> in
     bindE (next_field p1) (\<lambda>p2.
     bindE (next_field p2) (\<lambda>p3. let loc = loc\<lparr>rmc_latitude := atof p3\<rparr> in
     bindE (next_field p3) (\<lambda>p4. let loc = loc\<lparr>rmc_lat := ns_letter (at0 p4) (rmc_lat loc)\<rparr> in
     bindE (next_field p4) (\<lambda>p5. let loc = loc\<lparr>rmc_longitude := atof p5\<rparr> in
     bindE (next_field p5) (\<lambda>p6. let loc = loc\<lparr>rmc_lon := we_letter (at0 p6) (rmc_lon loc)\<rparr> in
     bindE (next_field p6) (\<lambda>p7. let loc = loc\<lparr>rmc_speed := atof p7\<rparr> in
     bindE (next_field p7) (\<lambda>p8. let loc = loc\<lparr>rmc_course := atof p8\<rparr> in
     bindE (next_field p8) (\<lambda>p9. Inr (loc\<lparr>rmc_date := atof p9\<rparr>))))))))))"

section \<open>Correctness of the checksum\<close>

definition xor_sum :: "string \<Rightarrow> u8" where
  "xor_sum s = foldr (\<lambda>c a. of_char c XOR a) s 0"

lemma xor_sum_simps [simp]: "xor_sum [] = 0" "xor_sum (c # s) = of_char c XOR xor_sum s"
  by (simp_all add: xor_sum_def)

lemma xor_sum_append [simp]: "xor_sum (s @ t) = xor_sum s XOR xor_sum t"
  by (induction s) (auto simp: xor.assoc)

lemma xor_to_star_spec:
  "CHR ''*'' \<notin> set b \<Longrightarrow> xor_to_star s (b @ CHR ''*'' # t) = Inr (s XOR xor_sum b)"
  by (induction b arbitrary: s) (auto simp: xor.assoc)

lemma valid_checksum_framed:
  assumes "CHR ''*'' \<notin> set body" and "NUL \<notin> set body" and "c \<noteq> CHR ''*''" and "c \<noteq> NUL"
  shows "rp_NmeaValidChecksum (c # body @ CHR ''*'' # hex) =
    Inr (if xor_sum body = word_of_int (strtol (cstr hex) 16) then EMPTY_CODE else NMEA_CHECKSUM_ERR)"
  using assms after_char_split [of "CHR ''*''" "c # body" "cstr hex"]
  by (simp add: rp_NmeaValidChecksum_def xor_to_star_spec cstr_split)

lemma valid_checksum_cut:
  assumes "CHR ''*'' \<notin> set body" and "NUL \<in> set body" and "c \<noteq> CHR ''*''"
  shows "rp_NmeaValidChecksum (c # body @ CHR ''*'' # hex) = Inl NullDeref"
proof -
  have "cstr (c # body @ CHR ''*'' # hex) = (if c = NUL then [] else c # cstr body)" using assms(2) by (simp add: cstr_cut)
  then have "CHR ''*'' \<notin> set (cstr (c # body @ CHR ''*'' # hex))" using assms(1,3) cstr_subset [of body] by auto
  then show ?thesis by (simp add: rp_NmeaValidChecksum_def after_char_none)
qed

lemma of_char_u8_inj: "(of_char c :: u8) = of_char d \<Longrightarrow> c = d"
proof -
  assume *: "(of_char c :: u8) = of_char d"
  have "unat (of_char x :: u8) = (of_char x :: nat)" for x
  proof -
    have "(of_char x :: nat) < 256" by (rule nat_of_char_less_256)
    moreover have "(of_char x :: u8) = of_nat (of_char x)" by (simp add: of_nat_of_char)
    ultimately show ?thesis by (simp add: unsigned_of_nat take_bit_nat_eq_self)
  qed
  with * have "(of_char c :: nat) = of_char d" by metis
  then show ?thesis by simp
qed

lemma xor_cancel: "a XOR b = a XOR c \<Longrightarrow> b = c" for a b c :: "'a::len word"
proof -
  assume "a XOR b = a XOR c"
  then have "a XOR (a XOR b) = a XOR (a XOR c)" by simp
  then show ?thesis by (simp flip: xor.assoc)
qed

lemma xor_sum_change:
  assumes "c \<noteq> d"
  shows "xor_sum (s @ c # t) \<noteq> xor_sum (s @ d # t)"
proof
  assume "xor_sum (s @ c # t) = xor_sum (s @ d # t)"
  then have "xor_sum t XOR (of_char c :: u8) = xor_sum t XOR of_char d"
    by (simp add: xor.commute) (rule xor_cancel)
  then have "(of_char c :: u8) = of_char d" by (rule xor_cancel)
  with assms show False by (blast dest: of_char_u8_inj)
qed

text \<open>
  C17. Detection of transmission errors. When a sentence with a correct checksum has any one character of its body
  replaced by another one that is neither a star nor the zero character, the receiver rejects it. A zero character is
  not rejected: the search for the star ends there, and the null pointer it returns is read through.
\<close>

theorem corrupted_sentence_rejected:
  assumes "rp_NmeaValidChecksum (CHR ''$'' # (s @ c # t) @ CHR ''*'' # hex) = Inr EMPTY_CODE"
    and "CHR ''*'' \<notin> set (s @ c # t)" and "d \<noteq> c" and "d \<noteq> CHR ''*''"
  shows "rp_NmeaGetMessageType (CHR ''$'' # (s @ d # t) @ CHR ''*'' # hex)
    = (if d = NUL then Inl NullDeref else Inr NMEA_CHECKSUM_ERR)"
proof -
  have nz: "NUL \<notin> set (s @ c # t)" using assms(1) valid_checksum_cut [OF assms(2), of "CHR ''$''" hex] by fastforce
  show ?thesis
  proof (cases "d = NUL")
    case True
    then show ?thesis
      using valid_checksum_cut [of "s @ d # t" "CHR ''$''" hex] assms(2,4) by (simp add: rp_NmeaGetMessageType_def)
  next
    case False
    have "xor_sum (s @ c # t) = word_of_int (strtol (cstr hex) 16)"
      using assms(1) valid_checksum_framed [OF assms(2) nz, of "CHR ''$''" hex]
      by (simp add: nmea_codes split: if_splits)
    then have "xor_sum (s @ d # t) \<noteq> word_of_int (strtol (cstr hex) 16)"
      using xor_sum_change [OF assms(3)] by metis
    then show ?thesis
      using valid_checksum_framed [of "s @ d # t" "CHR ''$''" hex] assms(2,4) nz False
      by (simp add: rp_NmeaGetMessageType_def nmea_codes)
  qed
qed

lemma corrupted_sentence_rejected_witness:
  "rp_NmeaGetMessageType (CHR ''$'' # (''GPGGA,1'' @ CHR ''2'' # ''3'') @ CHR ''*'' # ''48'') = Inr NMEA_CHECKSUM_ERR
   \<and> rp_NmeaGetMessageType (CHR ''$'' # (''GPGGA,1'' @ NUL # ''3'') @ CHR ''*'' # ''48'') = Inl NullDeref"
proof -
  have "rp_NmeaValidChecksum (CHR ''$'' # (''GPGGA,1'' @ CHR ''0'' # ''3'') @ CHR ''*'' # ''48'') = Inr EMPTY_CODE"
    by code_simp
  from corrupted_sentence_rejected [OF this, of "CHR ''2''"] corrupted_sentence_rejected [OF this, of NUL]
  show ?thesis by simp
qed

section \<open>Correctness of the field extraction\<close>

text \<open>A sentence is its fields, separated by commas.\<close>

fun join_fields :: "string list \<Rightarrow> string" where
  "join_fields [] = []"
| "join_fields [f] = f"
| "join_fields (f # g # fs) = f @ CHR '','' # join_fields (g # fs)"

lemma join_fields_Cons: "join_fields (f # g # fs) = f @ CHR '','' # join_fields (g # fs)"
  by simp

lemma next_field_join:
  "CHR '','' \<notin> set f \<Longrightarrow> next_field (f @ CHR '','' # r) = Inr r"
  by (simp add: next_field_def)

lemma next_field_iff:
  "(\<exists>q. next_field p = Inr q) \<longleftrightarrow> 0 < count_list p CHR '',''"
proof (cases "CHR '','' \<in> set p")
  case True
  then have "count_list p CHR '','' \<noteq> 0" by (simp add: count_list_0_iff)
  with True show ?thesis
    by (auto simp: next_field_def after_char_def dest!: strchr_SomeI)
next
  case False
  then show ?thesis by (simp add: next_field_def after_char_none)
qed

lemma at0_field: "at0 (f @ CHR '','' # r) = (if f = [] then CHR '','' else f ! 0)"
  by (cases f) (simp_all add: at0_def)

lemma next_field_count: "next_field p = Inr q \<Longrightarrow> count_list p CHR '','' = Suc (count_list q CHR '','')"
  by (auto simp: next_field_def after_char_def split: option.splits dest!: strchr_Some)

lemma next_field_Inl: "count_list p CHR '','' = 0 \<Longrightarrow> next_field p = Inl NullDeref"
  by (simp add: next_field_def count_list_0_iff after_char_none)

text \<open>A computation that goes on to the next field is defined when enough commas are left.\<close>

lemma next_field_bind:
  assumes "\<And>q. next_field p = Inr q \<Longrightarrow> (\<exists>r. k q = Inr r) \<longleftrightarrow> n \<le> count_list q CHR '',''"
  shows "(\<exists>r. bindE (next_field p) k = Inr r) \<longleftrightarrow> Suc n \<le> count_list p CHR '',''"
proof (cases "next_field p")
  case (Inl e)
  then have "count_list p CHR '','' = 0" using next_field_iff [of p] by auto
  with Inl show ?thesis by simp
next
  case (Inr q)
  with assms next_field_count [OF Inr] show ?thesis by simp
qed

lemma next_field_last: "(\<exists>r. bindE (next_field p) (\<lambda>q. Inr (k q)) = Inr r) \<longleftrightarrow> 1 \<le> count_list p CHR '',''"
  using next_field_bind [of p "\<lambda>q. Inr (k q)" 0] by simp

lemmas nmea_parse_defs = rp_NmeaParseGpgga_def rp_NmeaParseGprmc_def

text \<open>
  The numbers, letters and counts of a GGA sentence end up in the members they belong to: the
  second field is the time, the third the latitude, and so on; the fields after the altitude do
  not matter, and a hemisphere field that is empty clears the letter.
\<close>

theorem gpgga_fields:
  assumes "\<forall>f \<in> set [h, ti, la, ns, lo, ew, q, sa, dop, al]. CHR '','' \<notin> set f"
    and "NUL \<notin> set (join_fields (h # ti # la # ns # lo # ew # q # sa # dop # al # rest))"
  shows "rp_NmeaParseGpgga (join_fields (h # ti # la # ns # lo # ew # q # sa # dop # al # rest)) loc =
    Inr (loc\<lparr>gga_times := atof ti, gga_latitude := atof la,
           gga_lat := ns_letter (if ns = [] then CHR '','' else ns ! 0) (gga_lat loc),
           gga_longitude := atof lo,
           gga_lon := we_letter (if ew = [] then CHR '','' else ew ! 0) (gga_lon loc),
           gga_quality := to_u8 (atoi q), gga_satellites := to_u8 (atoi sa),
           gga_altitude := atof al\<rparr>)"
  using assms(1) cstr_whole [OF assms(2)]
  by (cases rest)
    (simp_all add: rp_NmeaParseGpgga_def next_field_join atof_before_comma atoi_before_comma at0_field Let_def)

lemma gpgga_fields_witness:
  "\<forall>loc. rp_NmeaParseGpgga ''$GPGGA,123519,4807.038,N,01131.000,E,1,08,0.9,545.4,M'' loc =
     Inr (loc\<lparr>gga_times := atof ''123519'', gga_latitude := atof ''4807.038'', gga_lat := CHR ''N'',
       gga_longitude := atof ''01131.000'', gga_lon := CHR ''E'', gga_quality := 1,
       gga_satellites := 8, gga_altitude := atof ''545.4''\<rparr>)"
proof -
  have a: "to_u8 (atoi ''1'') = 1" "to_u8 (atoi ''08'') = 8" by code_simp+
  show ?thesis
    using gpgga_fields [of "''$GPGGA''" "''123519''" "''4807.038''" "''N''" "''01131.000''" "''E''"
      "''1''" "''08''" "''0.9''" "''545.4''" "[''M'']"] a
    by (simp add: ns_letter_def we_letter_def)
qed

text \<open>
  Both parsers return exactly when the sentence has nine commas; on a shorter one, whose
  checksum may well be right, they run off the end of the string.
\<close>

theorem parsers_need_nine_commas:
  "((\<exists>r. rp_NmeaParseGpgga nmea gga = Inr r) \<longleftrightarrow> 9 \<le> count_list (cstr nmea) CHR '','')
   \<and> ((\<exists>r. rp_NmeaParseGprmc nmea rmc = Inr r) \<longleftrightarrow> 9 \<le> count_list (cstr nmea) CHR '','')"
  by (simp_all add: nmea_parse_defs Let_def eval_nat_numeral next_field_bind next_field_last)

end
