(* ===== verification/Gps.thy ===== *)
theory Gps
  imports Nmea
begin

unbundle bit_operations_syntax

text \<open>
  The position of the detector, \<^verbatim>\<open>projects/lago_v1_2/src/gps_rp.c\<close>: sentences are read from the serial
  port until one GGA and one RMC sentence have been decoded; degrees and minutes become decimal
  degrees. A local variable the code does not initialise is an argument.
\<close>

record loc_t =
  loc_times :: flt
  loc_date :: flt
  loc_latitude :: flt
  loc_longitude :: flt
  loc_speed :: flt
  loc_altitude :: flt
  loc_course :: flt
  loc_satellites :: flt

definition c_roundf :: "flt \<Rightarrow> flt" where
  "c_roundf x = f_of_int DOUBLE (c_round x)"

definition gps_deg_dec :: "flt \<Rightarrow> flt res" where
  "gps_deg_dec deg_point =
     (let ddeg = f_of_int DOUBLE (ftrunc deg_point);
          sec = fmul DOUBLE (fsub DOUBLE deg_point ddeg) (fdec 60 0)
      in bindE (fdiv DOUBLE ddeg (fdec 100 0)) (\<lambda>d100.
         bindE (f_to_i32 d100) (\<lambda>deg.
         bindE (cmul deg 100) (\<lambda>h.
         bindE (f_to_i32 (fsub DOUBLE deg_point (f_of_int DOUBLE h))) (\<lambda>m.
         let absdlat = c_roundf (fmul DOUBLE (f_of_int DOUBLE deg) (fdec 1000000 0));
             absmlat = c_roundf (fmul DOUBLE (f_of_int DOUBLE m) (fdec 1000000 0));
             absslat = c_roundf (fmul DOUBLE sec (fdec 1000000 0))
         in bindE (fdiv DOUBLE absmlat (fdec 60 0)) (\<lambda>a.
            bindE (fdiv DOUBLE absslat (fdec 3600 0)) (\<lambda>b.
            fdiv DOUBLE (c_roundf (fadd DOUBLE (fadd DOUBLE absdlat a) b)) (fdec 1000000 0))))))))"

definition gps_convert_deg_to_dec :: "flt \<Rightarrow> char \<Rightarrow> flt \<Rightarrow> char \<Rightarrow> (flt \<times> flt) res" where
  "gps_convert_deg_to_dec p_lat ns p_lon we =
     (let lat = (if ns = CHR ''N'' then p_lat else fmul DOUBLE (fdec (- 1) 0) p_lat);
          lon = (if we = CHR ''E'' then p_lon else fmul DOUBLE (fdec (- 1) 0) p_lon)
      in bindE (gps_deg_dec lat) (\<lambda>la. bindE (gps_deg_dec lon) (\<lambda>lo. Inr (la, lo))))"

definition gps_init :: "int \<Rightarrow> termios \<Rightarrow> uart \<Rightarrow> uart" where
  \<comment> \<open>the failure that \<open>rp_UartInit\<close> reports is ignored\<close>
  "gps_init opened options u = (let (r, u1) = rp_UartInit opened u in rp_UartConfig options u1)"

definition gps_on :: "uart \<Rightarrow> uart" where "gps_on u = u"

definition gps_off :: "uart \<Rightarrow> uart" where "gps_off u = rp_UartClose u"

section \<open>Waiting for a fix\<close>

text \<open>The body of the loop after a line has arrived: the status and the coordinates.\<close>

definition gps_sentence ::
  "gpgga_t \<Rightarrow> gprmc_t \<Rightarrow> string \<Rightarrow> u8 \<Rightarrow> loc_t \<Rightarrow> (u8 \<times> loc_t) res" where
  "gps_sentence gpgga0 gprmc0 buffer status coord =
     bindE (rp_NmeaGetMessageType buffer) (\<lambda>t.
     if t = NMEA_GPGGA then
       bindE (rp_NmeaParseGpgga buffer gpgga0) (\<lambda>g.
       bindE (gps_convert_deg_to_dec (gga_latitude g) (gga_lat g) (gga_longitude g) (gga_lon g)) (\<lambda>(la, lo).
       Inr (status OR NMEA_GPGGA,
            coord\<lparr>loc_times := gga_times g, loc_latitude := la, loc_longitude := lo, loc_altitude := gga_altitude g,
                  loc_satellites := f_of_int DOUBLE (gga_satellites g)\<rparr>)))
     else if t = NMEA_GPRMC then
       bindE (rp_NmeaParseGprmc buffer gprmc0) (\<lambda>g.
       Inr (status OR NMEA_GPRMC,
            coord\<lparr>loc_speed := rmc_speed g, loc_course := rmc_course g, loc_date := rmc_date g\<rparr>))
     else Inr (status, coord))"

function gps_loop ::
  "gpgga_t \<Rightarrow> gprmc_t \<Rightarrow> u8 \<Rightarrow> char option list \<Rightarrow> loc_t \<Rightarrow> (loc_t \<times> char option list) res" where
  "gps_loop gpgga0 gprmc0 status rx coord =
     (if status = NMEA_COMPLETED then Inr (coord, rx)
      else bindE (rp_UartReadln 256 256 rx) (\<lambda>p.
           bindE (gps_sentence gpgga0 gprmc0 (cstr (fst p)) status coord) (\<lambda>q.
           gps_loop gpgga0 gprmc0 (fst q) (snd p) (snd q))))"
  by pat_completeness auto
termination
  by (relation "measure (\<lambda>(_, _, _, rx, _). length rx)") (auto intro: rp_UartReadln_shorter)

declare gps_loop.simps [simp del]

definition gps_location ::
  "gpgga_t \<Rightarrow> gprmc_t \<Rightarrow> char option list \<Rightarrow> loc_t \<Rightarrow> (loc_t \<times> char option list) res" where
  "gps_location gpgga0 gprmc0 rx coord = gps_loop gpgga0 gprmc0 EMPTY_CODE rx coord"

definition show_u32 :: "nat \<Rightarrow> u32 \<Rightarrow> string" where
  \<comment> \<open>an unsigned number printed with \<^verbatim>\<open>%0wd\<close>\<close>
  "show_u32 w x = show_int0 w (sint x)"

definition gps_print_data ::
  "int \<Rightarrow> termios \<Rightarrow> gpgga_t \<Rightarrow> gprmc_t \<Rightarrow> loc_t \<Rightarrow> char option list \<Rightarrow> uart
     \<Rightarrow> (string list \<times> char option list \<times> uart) res" where
  "gps_print_data opened options gpgga0 gprmc0 data0 rx u =
     (let u1 = gps_init opened options u
      in bindE (gps_location gpgga0 gprmc0 rx data0) (\<lambda>(data, rx').
         bindE (f_to_u32 (loc_times data)) (\<lambda>t.
         bindE (f_to_u32 (loc_date data)) (\<lambda>d.
         bindE (f_to_u32 (loc_satellites data)) (\<lambda>s.
         Inr ([''Time      : '' @ show_u32 6 t,
               ''Date      : '' @ show_u32 6 d,
               ''Latitude  : '' @ show_fix 6 (loc_latitude data),
               ''Longitude : '' @ show_fix 6 (loc_longitude data),
               ''Altitude  : '' @ show_fix 1 (loc_altitude data),
               ''Satellites: '' @ show_u32 0 s], rx', u1))))))"

section \<open>Sentences on the line\<close>

definition wire :: "string \<Rightarrow> char option list" where
  "wire l = map Some l @ [Some LF]"

definition plain_line :: "string \<Rightarrow> bool" where
  "plain_line l \<longleftrightarrow> LF \<notin> set l \<and> NUL \<notin> set l \<and> length l < 256"

lemma cstr_plain: "plain_line l \<Longrightarrow> cstr l = l"
  by (simp add: cstr_whole plain_line_def)

lemma gps_loop_line:
  assumes "plain_line l" and "status \<noteq> NMEA_COMPLETED"
  shows "gps_loop g0 r0 status (wire l @ rx) coord =
    bindE (gps_sentence g0 r0 l status coord) (\<lambda>q. gps_loop g0 r0 (fst q) rx (snd q))"
  using assms rp_UartReadln_Some [of l 256 256 rx] cstr_plain [OF assms(1)]
  by (subst gps_loop.simps) (simp add: wire_def plain_line_def)

text \<open>A line that is neither of the two sentences, or whose checksum is wrong.\<close>

definition noise :: "string \<Rightarrow> bool" where
  "noise l \<longleftrightarrow> plain_line l \<and>
     (\<exists>t. rp_NmeaGetMessageType l = Inr t \<and> t \<noteq> NMEA_GPGGA \<and> t \<noteq> NMEA_GPRMC)"

lemma gps_loop_noise:
  assumes "\<forall>l \<in> set ls. noise l" and "status \<noteq> NMEA_COMPLETED"
  shows "gps_loop g0 r0 status (concat (map wire ls) @ rx) coord = gps_loop g0 r0 status rx coord"
  using assms
proof (induction ls)
  case Nil
  then show ?case by simp
next
  case (Cons l ls)
  then have "gps_sentence g0 r0 l status coord = Inr (status, coord)"
    by (auto simp: noise_def gps_sentence_def)
  with Cons show ?case by (simp add: gps_loop_line noise_def)
qed

lemma gga_step:
  assumes "rp_NmeaGetMessageType l = Inr NMEA_GPGGA" and "rp_NmeaParseGpgga l g0 = Inr g"
    and "gps_convert_deg_to_dec (gga_latitude g) (gga_lat g) (gga_longitude g) (gga_lon g) = Inr (la, lo)"
  shows "gps_sentence g0 r0 l s c = Inr (s OR NMEA_GPGGA,
    c\<lparr>loc_times := gga_times g, loc_latitude := la, loc_longitude := lo,
      loc_altitude := gga_altitude g, loc_satellites := f_of_int DOUBLE (gga_satellites g)\<rparr>)"
  using assms by (simp add: gps_sentence_def)

lemma rmc_step:
  assumes "rp_NmeaGetMessageType l = Inr NMEA_GPRMC" and "rp_NmeaParseGprmc l r0 = Inr m"
  shows "gps_sentence g0 r0 l s c = Inr (s OR NMEA_GPRMC,
    c\<lparr>loc_speed := rmc_speed m, loc_course := rmc_course m, loc_date := rmc_date m\<rparr>)"
  using assms by (simp add: gps_sentence_def nmea_codes)

lemma gps_status:
  "EMPTY_CODE OR NMEA_GPGGA = NMEA_GPGGA" "NMEA_GPGGA OR NMEA_GPRMC = NMEA_COMPLETED"
  "EMPTY_CODE OR NMEA_GPRMC = NMEA_GPRMC" "NMEA_GPRMC OR NMEA_GPGGA = NMEA_COMPLETED"
  "NMEA_GPGGA \<noteq> NMEA_COMPLETED" "NMEA_GPRMC \<noteq> NMEA_COMPLETED" "EMPTY_CODE \<noteq> NMEA_COMPLETED"
  by (simp_all add: nmea_codes)

lemma gps_loop_done: "gps_loop g0 r0 NMEA_COMPLETED rx c = Inr (c, rx)"
  by (simp add: gps_loop.simps)

lemma gps_location_two:
  assumes noise: "\<forall>l \<in> set (before @ between). noise l"
    and l1: "plain_line l1" "gps_sentence g0 r0 l1 EMPTY_CODE coord = Inr (s1, c1)"
    and l2: "plain_line l2" "gps_sentence g0 r0 l2 s1 c1 = Inr (NMEA_COMPLETED, c2)"
    and "s1 \<noteq> NMEA_COMPLETED"
  shows "gps_location g0 r0
      (concat (map wire before) @ wire l1 @ concat (map wire between) @ wire l2 @ rx) coord
    = Inr (c2, rx)"
  using assms by (simp add: gps_location_def gps_loop_noise gps_loop_line gps_status gps_loop_done)

text \<open>
  C16. A fix is found. When a GGA and an RMC sentence come through, in either order, with any lines
  in between that have a wrong checksum or are of another kind, the call returns as soon as the
  second one has been read, and the coordinates are those of the two sentences, whatever the
  caller's structure held before.
\<close>

theorem gps_location_fix:
  assumes noise: "\<forall>l \<in> set (before @ between). noise l"
    and gga: "plain_line gga" "rp_NmeaGetMessageType gga = Inr NMEA_GPGGA"
      "rp_NmeaParseGpgga gga g0 = Inr g"
      "gps_convert_deg_to_dec (gga_latitude g) (gga_lat g) (gga_longitude g) (gga_lon g) = Inr (la, lo)"
    and rmc: "plain_line rmc" "rp_NmeaGetMessageType rmc = Inr NMEA_GPRMC"
      "rp_NmeaParseGprmc rmc r0 = Inr m"
    and lines: "(l1, l2) \<in> {(gga, rmc), (rmc, gga)}"
  shows "gps_location g0 r0
      (concat (map wire before) @ wire l1 @ concat (map wire between) @ wire l2 @ rx) coord
    = Inr (\<lparr>loc_times = gga_times g, loc_date = rmc_date m, loc_latitude = la, loc_longitude = lo,
            loc_speed = rmc_speed m, loc_altitude = gga_altitude g, loc_course = rmc_course m,
            loc_satellites = f_of_int DOUBLE (gga_satellites g)\<rparr>, rx)"
  using lines gga(1) rmc(1)
  by (auto intro!: gps_location_two [OF noise]
      simp: gga_step [OF gga(2-4)] rmc_step [OF rmc(2,3)] gps_status)

section \<open>Accuracy of the conversion\<close>

text \<open>\<^verbatim>\<open>DDMM.mmmm\<close> with the degrees in the hundreds, as decimal degrees.\<close>

definition dms :: "real \<Rightarrow> real" where
  "dms x = real_of_int (\<lfloor>x\<rfloor> div 100) + (x - 100 * real_of_int (\<lfloor>x\<rfloor> div 100)) / 60"

text \<open>A double that is not negative and small enough to have an integral part of 53 bits.\<close>

definition fnonneg :: "flt \<Rightarrow> bool" where
  "fnonneg x \<longleftrightarrow> 0 \<le> man x \<and> man x \<le> 2 ^ 53 \<and> expo x \<le> 0"

lemma fnonneg_fval: "fnonneg x \<Longrightarrow> 0 \<le> fval x"
  by (simp add: fnonneg_def fval_def)

abbreviation "eps \<equiv> (2 :: real) powi - int DOUBLE"

lemma eps_bounds: "0 < eps" "eps \<le> 1 / 1000000000000000"
  by (simp_all add: power_int_minus inverse_eq_divide)

lemma hundreds:
  assumes "0 \<le> D" and "D \<le> 18000" and "fval ddeg = real_of_int D"
    and "fdiv DOUBLE ddeg (fdec 100 0) = Inr z"
  shows "ftrunc z = D div 100"
proof -
  define k where "k = D div 100"
  have k: "100 * k \<le> D" "D < 100 * k + 100" "0 \<le> k" "k \<le> 180"
    using div_bounds [of 100 D] assms(1,2) by (simp_all add: k_def)
  have n: "man (fdec 100 0) \<noteq> 0" "fval (fdec 100 0) = 100"
    using man_fdec_int [of 100] fval_fdec_int [of 100] by simp_all
  have "real_of_int k \<le> fval z \<and> fval z < real_of_int k + 1"
  proof (cases "D = 100 * k")
    case True
    with fdiv_exact [OF n(1), of ddeg k DOUBLE z] assms k n have "fval z = real_of_int k" by simp
    then show ?thesis by simp
  next
    case False
    obtain w where "fdiv DOUBLE ddeg (fdec 100 0) = Inr w"
      "\<bar>fval w - fval ddeg / fval (fdec 100 0)\<bar> \<le> \<bar>fval ddeg / fval (fdec 100 0)\<bar> * eps"
      using fdiv_error [OF n(1)] by blast
    with assms n have "\<bar>fval z - D / 100\<bar> \<le> \<bar>D / 100\<bar> * eps" by simp
    from rel_error [OF this, of 180] assms(1,2) eps_bounds
    have "\<bar>fval z - D / 100\<bar> \<le> 180 * eps" by simp
    with eps_bounds have "\<bar>fval z - D / 100\<bar> \<le> 1 / 1000" by linarith
    moreover have "real_of_int k + 1 / 100 \<le> D / 100" "D / 100 \<le> real_of_int k + 99 / 100"
      using False k by linarith+
    ultimately show ?thesis by linarith
  qed
  then have "\<lfloor>fval z\<rfloor> = k" "0 \<le> fval z" using k by linarith+
  then show ?thesis by (simp add: ftrunc_floor k_def)
qed

lemma c_roundf_val: "\<bar>fval x\<bar> \<le> 1000000000000 \<Longrightarrow> fval (c_roundf x) = real_of_int (c_round x)"
proof -
  assume "\<bar>fval x\<bar> \<le> 1000000000000"
  then have "\<bar>real_of_int (c_round x)\<bar> \<le> 2000000000000" using c_round_error [of x] by linarith
  then have "\<bar>c_round x\<bar> \<le> 2000000000000" by linarith
  then have "\<bar>c_round x\<bar> < 2 ^ 53" by simp
  then show ?thesis by (simp add: c_roundf_def f_of_int_exact)
qed

lemma c_roundf_error: "\<bar>fval x\<bar> \<le> 1000000000000 \<Longrightarrow> \<bar>fval (c_roundf x) - fval x\<bar> \<le> 1 / 2"
  using c_roundf_val c_round_error by simp

lemma c_roundf_int: "fval x = real_of_int n \<Longrightarrow> \<bar>n\<bar> \<le> 1000000000000 \<Longrightarrow> fval (c_roundf x) = real_of_int n"
proof -
  assume *: "fval x = real_of_int n" "\<bar>n\<bar> \<le> 1000000000000"
  then have "c_round x = n" using c_round_error [of x] by linarith
  moreover have "\<bar>fval x\<bar> \<le> 1000000000000" using * by linarith
  ultimately show ?thesis by (simp add: c_roundf_val)
qed

lemma millions:
  assumes "0 \<le> n" and "n \<le> 1000"
  shows "fval (c_roundf (fmul DOUBLE (f_of_int DOUBLE n) (fdec 1000000 0))) = real_of_int (n * 1000000)"
proof -
  have v: "fval (f_of_int DOUBLE n) = real_of_int n" "fval (fdec 1000000 0) = 1000000"
    using f_of_int_exact [of n DOUBLE] fval_fdec_int [of 1000000] assms by simp_all
  have "real_of_int (n * 1000000) \<le> 1000000000" using assms by linarith
  have "\<bar>fval (fmul DOUBLE (f_of_int DOUBLE n) (fdec 1000000 0)) - real_of_int (n * 1000000)\<bar> \<le> 1000000000 * eps"
    using rel_error [OF fmul_error [of DOUBLE "f_of_int DOUBLE n" "fdec 1000000 0"], of "1000000000"]
      assms eps_bounds v by simp
  then have e: "\<bar>fval (fmul DOUBLE (f_of_int DOUBLE n) (fdec 1000000 0)) - real_of_int (n * 1000000)\<bar> \<le> 1 / 1000"
    using eps_bounds by linarith
  then have "c_round (fmul DOUBLE (f_of_int DOUBLE n) (fdec 1000000 0)) = n * 1000000"
    using c_round_error [of "fmul DOUBLE (f_of_int DOUBLE n) (fdec 1000000 0)"] by linarith
  moreover have "\<bar>fval (fmul DOUBLE (f_of_int DOUBLE n) (fdec 1000000 0))\<bar> \<le> 1000000000000"
    using e assms by linarith
  ultimately show ?thesis by (simp add: c_roundf_val)
qed

text \<open>The last steps: degrees, minutes and seconds in millionths, added up and scaled back.\<close>

lemma micro_sum:
  assumes A: "fval A = real_of_int (k * 1000000)" "0 \<le> k" "k \<le> 180"
    and M: "fval M = real_of_int (m * 1000000)" "0 \<le> m" "m \<le> 100"
    and S: "\<bar>fval S - s * 1000000\<bar> \<le> 6 / 10" "0 \<le> s" "s \<le> 60"
  obtains a b r where "fdiv DOUBLE M (fdec 60 0) = Inr a" and "fdiv DOUBLE S (fdec 3600 0) = Inr b"
    and "fdiv DOUBLE (c_roundf (fadd DOUBLE (fadd DOUBLE A a) b)) (fdec 1000000 0) = Inr r"
    and "\<bar>fval r - (real_of_int k + real_of_int m / 60 + s / 3600)\<bar> \<le> 1 / 1000000"
proof -
  have n: "man (fdec 60 0) \<noteq> 0" "fval (fdec 60 0) = 60" "man (fdec 3600 0) \<noteq> 0"
    "fval (fdec 3600 0) = 3600" "man (fdec 1000000 0) \<noteq> 0" "fval (fdec 1000000 0) = 1000000"
    using man_fdec_int fval_fdec_int by simp_all
  note e = eps_bounds
  obtain a where a: "fdiv DOUBLE M (fdec 60 0) = Inr a"
    and "\<bar>fval a - fval M / 60\<bar> \<le> \<bar>fval M / 60\<bar> * eps"
    using fdiv_error [OF n(1), of DOUBLE M] n by metis
  from rel_error [OF this(2), of 2000000] M e
  have a_err: "\<bar>fval a - real_of_int m * 1000000 / 60\<bar> \<le> 2000000 * eps" by simp
  obtain b where b: "fdiv DOUBLE S (fdec 3600 0) = Inr b"
    and "\<bar>fval b - fval S / 3600\<bar> \<le> \<bar>fval S / 3600\<bar> * eps"
    using fdiv_error [OF n(3), of DOUBLE S] n by metis
  moreover have "\<bar>fval S\<bar> \<le> 60000001" using S by linarith
  ultimately have b_err: "\<bar>fval b - fval S / 3600\<bar> \<le> 20000 * eps"
    using rel_error [of "fval b" "fval S / 3600" eps 20000] e by (simp add: abs_le_iff)
  define t1 where "t1 = fadd DOUBLE A a"
  define t2 where "t2 = fadd DOUBLE t1 b"
  have Ak: "0 \<le> fval A" "fval A \<le> 180000000" using A by simp_all
  have Mm: "0 \<le> real_of_int m" "real_of_int m \<le> 100" using M by simp_all
  have a_abs: "\<bar>fval a\<bar> \<le> 1700000" using a_err e Mm by linarith
  have b_abs: "\<bar>fval b\<bar> \<le> 17000" using b_err e S by linarith
  have "\<bar>fval t1 - (fval A + fval a)\<bar> \<le> 190000000 * eps"
    using rel_error [OF fadd_error [of DOUBLE A a], of 190000000] Ak a_abs e
    by (simp add: t1_def)
  then have t1: "\<bar>fval t1 - (fval A + fval a)\<bar> \<le> 1 / 1000000" using e by linarith
  have "\<bar>fval t1 + fval b\<bar> \<le> 200000000" using t1 Ak a_abs b_abs by linarith
  then have "\<bar>fval t2 - (fval t1 + fval b)\<bar> \<le> 200000000 * eps"
    unfolding t2_def using e(1) by (intro rel_error [OF fadd_error]) simp_all
  then have t2: "\<bar>fval t2 - (fval t1 + fval b)\<bar> \<le> 1 / 1000000" using e by linarith
  have t2_abs: "\<bar>fval t2\<bar> \<le> 200000000" using t1 t2 Ak a_abs b_abs by linarith
  then have c: "\<bar>fval (c_roundf t2) - fval t2\<bar> \<le> 1 / 2" by (intro c_roundf_error) simp
  obtain r where r: "fdiv DOUBLE (c_roundf t2) (fdec 1000000 0) = Inr r"
    and "\<bar>fval r - fval (c_roundf t2) / 1000000\<bar> \<le> \<bar>fval (c_roundf t2) / 1000000\<bar> * eps"
    using fdiv_error [OF n(5), of DOUBLE "c_roundf t2"] n by metis
  moreover have "\<bar>fval (c_roundf t2) / 1000000\<bar> \<le> 201" using c t2_abs by linarith
  ultimately have r_err: "\<bar>fval r - fval (c_roundf t2) / 1000000\<bar> \<le> 201 * eps"
    using rel_error [of "fval r" "fval (c_roundf t2) / 1000000" eps 201] e by simp
  have r_err': "\<bar>fval r - fval (c_roundf t2) / 1000000\<bar> \<le> 1 / 1000000000000"
    using r_err e by linarith
  have a_err': "\<bar>fval a - real_of_int m * 1000000 / 60\<bar> \<le> 1 / 1000000" using a_err e by linarith
  have b_err': "\<bar>fval b - fval S / 3600\<bar> \<le> 1 / 1000000" using b_err e by linarith
  have "fval A = real_of_int k * 1000000" using A by simp
  then have "\<bar>fval r - (real_of_int k + real_of_int m / 60 + s / 3600)\<bar> \<le> 1 / 1000000"
    using r_err' c t2 t1 a_err' b_err' S(1) by linarith
  with that a b r show ?thesis by (simp add: t1_def t2_def)
qed

lemma c_roundf_neg: "c_roundf (fneg x) = fneg (c_roundf x)"
  by (simp add: c_roundf_def f_neg)

lemma f_to_i32_neg: "f_to_i32 x = Inr n \<Longrightarrow> in_i32 (- n) \<Longrightarrow> f_to_i32 (fneg x) = Inr (- n)"
  by (auto simp: f_to_i32_def Let_def f_neg split: if_splits)

lemma gps_deg_dec_close:
  assumes x: "fnonneg x" "fval x < 18000"
  obtains r where "gps_deg_dec x = Inr r" and "gps_deg_dec (fneg x) = Inr (fneg r)"
    and "\<bar>fval r - dms (fval x)\<bar> \<le> 1 / 1000000"
proof -
  note e = eps_bounds
  define D where "D = ftrunc x"
  define ddeg where "ddeg = f_of_int DOUBLE D"
  have D: "D = \<lfloor>fval x\<rfloor>" "0 \<le> D" "D \<le> 18000"
    using ftrunc_floor [of x] fnonneg_fval [OF x(1)] x(2) by (simp_all add: D_def)
  have D_le: "real_of_int D \<le> fval x" "fval x < real_of_int D + 1" unfolding D(1) by linarith+
  have ddeg: "fval ddeg = real_of_int D" using D by (simp add: ddeg_def f_of_int_exact)
  define k where "k = D div 100"
  have k: "100 * k \<le> D" "D < 100 * k + 100" "0 \<le> k" "k \<le> 180"
    using div_bounds [of 100 D] D(2,3) by (simp_all add: k_def)
  obtain d100 where d100: "fdiv DOUBLE ddeg (fdec 100 0) = Inr d100"
    using fdiv_error [of "fdec 100 0" DOUBLE ddeg] man_fdec_int [of 100] by auto
  have deg: "f_to_i32 d100 = Inr k"
    using hundreds [OF D(2,3) ddeg d100] k by (simp add: f_to_i32_def in_i32_iff k_def)
  have h: "cmul k 100 = Inr (100 * k)" using k by (simp add: cmul_def in_i32_iff mult.commute)
  define y where "y = fsub DOUBLE x (f_of_int DOUBLE (100 * k))"
  have y: "fval y = fval x - real_of_int (100 * k)"
    using x(1) k D_le unfolding y_def by (intro fsub_int_exact) (simp_all add: fnonneg_def)
  define m where "m = D - 100 * k"
  have m: "0 \<le> m" "m \<le> 100" using k by (simp_all add: m_def)
  have "\<lfloor>fval y\<rfloor> = m" unfolding y m_def using D_le by (intro floor_unique) simp_all
  moreover have "0 \<le> fval y" using y D_le k by simp
  ultimately have mm: "f_to_i32 y = Inr m"
    using m by (simp add: f_to_i32_def ftrunc_floor in_i32_iff)
  define frac where "frac = fsub DOUBLE x ddeg"
  have frac: "fval frac = fval x - real_of_int D"
    using x(1) D_le D(2) unfolding frac_def ddeg_def by (intro fsub_int_exact) (simp_all add: fnonneg_def)
  define sec where "sec = fmul DOUBLE frac (fdec 60 0)"
  define s where "s = (fval x - real_of_int D) * 60"
  have s: "0 \<le> s" "s \<le> 60" using D_le by (simp_all add: s_def)
  have "\<bar>fval sec - s\<bar> \<le> 60 * eps"
    using rel_error [OF fmul_error [of DOUBLE frac "fdec 60 0"], of 60] s e frac fval_fdec_int [of 60]
    by (simp add: sec_def s_def)
  then have sec: "\<bar>fval sec - s\<bar> \<le> 1 / 1000000000" using e by linarith
  define us where "us = fmul DOUBLE sec (fdec 1000000 0)"
  have "\<bar>fval sec * 1000000\<bar> \<le> 60000001" using sec s by linarith
  then have "\<bar>fval us - fval sec * 1000000\<bar> \<le> 60000001 * eps"
    using rel_error [OF fmul_error [of DOUBLE sec "fdec 1000000 0"], of 60000001] e
      fval_fdec_int [of 1000000] by (simp add: us_def)
  then have us: "\<bar>fval us - s * 1000000\<bar> \<le> 1 / 10" using e sec by linarith
  then have "\<bar>fval us\<bar> \<le> 1000000000000" using s by linarith
  then have S: "\<bar>fval (c_roundf us) - s * 1000000\<bar> \<le> 6 / 10"
    using c_roundf_error [of us] us by linarith
  obtain a b r where abr:
    "fdiv DOUBLE (c_roundf (fmul DOUBLE (f_of_int DOUBLE m) (fdec 1000000 0))) (fdec 60 0) = Inr a"
    "fdiv DOUBLE (c_roundf us) (fdec 3600 0) = Inr b"
    "fdiv DOUBLE (c_roundf (fadd DOUBLE (fadd DOUBLE
       (c_roundf (fmul DOUBLE (f_of_int DOUBLE k) (fdec 1000000 0))) a) b)) (fdec 1000000 0) = Inr r"
    "\<bar>fval r - (real_of_int k + real_of_int m / 60 + s / 3600)\<bar> \<le> 1 / 1000000"
    using micro_sum [OF millions [of k] _ _ millions [of m] _ _ S s] k m by (auto simp del: of_int_mult)
  have "gps_deg_dec x = Inr r"
    using abr d100 deg h mm
    by (simp add: gps_deg_dec_def Let_def flip: D_def ddeg_def frac_def sec_def us_def y_def)
  moreover have "gps_deg_dec (fneg x) = Inr (fneg r)"
  proof -
    have "f_to_i32 (fneg d100) = Inr (- k)" "f_to_i32 (fneg y) = Inr (- m)"
      using f_to_i32_neg [OF deg] f_to_i32_neg [OF mm] k m by (simp_all add: in_i32_iff)
    moreover have "cmul (- k) 100 = Inr (- (100 * k))"
      using k by (simp add: cmul_def in_i32_iff mult.commute)
    ultimately show ?thesis
      using fdiv_neg [OF abr(1)] fdiv_neg [OF abr(2)] fdiv_neg [OF abr(3)] fdiv_neg [OF d100]
      by (simp add: gps_deg_dec_def Let_def f_neg c_roundf_neg
          flip: D_def ddeg_def frac_def sec_def us_def y_def)
  qed
  moreover have "dms (fval x) = real_of_int k + real_of_int m / 60 + s / 3600"
    by (simp add: dms_def k_def m_def s_def field_simps flip: D(1))
  ultimately show ?thesis using that abr(4) by metis
qed

text \<open>Multiplying by -1 only changes the sign.\<close>

lemma times_minus_one:
  assumes "fnonneg x" and "fval x < 18000"
  obtains y where "fmul DOUBLE (fdec (- 1) 0) x = fneg y" and "fnonneg y" and "fval y = fval x"
proof -
  define y where "y = fmul DOUBLE (fdec 1 0) x"
  have "fdec (- 1) 0 = fneg (fdec 1 0)" by (simp add: fdec_def f_neg)
  then have 1: "fmul DOUBLE (fdec (- 1) 0) x = fneg y" by (simp add: y_def f_neg)
  define one where "one = fdec 1 0"
  have one: "one = Flt (2 ^ 52) (- 52)" unfolding one_def by code_simp
  have y: "y = fround DOUBLE (2 ^ 52 * man x * p2 (expo x - 52)) (p2 (52 - expo x))"
    by (simp add: y_def fmul_def fround_dy_def one flip: one_def)
  have q: "real_of_int (2 ^ 52 * man x * p2 (expo x - 52)) / real_of_int (p2 (52 - expo x)) = fval x"
    using scaled_frac [of "2 ^ 52 * man x" "expo x - 52"]
    by (simp add: fval_def power_int_diff)
  then have "fval y = fval x"
    unfolding y using assms(1) fround_exact_le [OF p2_pos, of _ "52 - expo x" "man x" "expo x" DOUBLE]
    by (simp add: fnonneg_def fval_def)
  moreover have "fnonneg y"
  proof (cases "man x = 0")
    case True
    then show ?thesis by (simp add: fnonneg_def y fround_def)
  next
    case False
    have "0 \<le> 2 ^ 52 * man x * p2 (expo x - 52)"
      using assms(1) p2_pos [of "expo x - 52"] by (simp add: fnonneg_def del: p2_pos)
    moreover have "2 ^ 52 * man x * p2 (expo x - 52) \<noteq> 0"
      using False p2_pos [of "expo x - 52"] by (simp del: p2_pos)
    moreover have "fval x < 2 powi (0 + int DOUBLE)" using assms(2) by simp
    ultimately show ?thesis
      using fround_shape [of "2 ^ 52 * man x * p2 (expo x - 52)" "p2 (52 - expo x)" 0 DOUBLE] q
      by (simp only: fnonneg_def y p2_pos simp_thms)
  qed
  ultimately show ?thesis using that 1 by blast
qed

lemma gps_hemisphere:
  assumes "fnonneg x" and "fval x < 18000"
  obtains r where "gps_deg_dec (if pos then x else fmul DOUBLE (fdec (- 1) 0) x) = Inr r"
    and "\<bar>fval r - (if pos then 1 else - 1) * dms (fval x)\<bar> \<le> 1 / 1000000"
proof (cases pos)
  case True
  obtain r where "gps_deg_dec x = Inr r" "\<bar>fval r - dms (fval x)\<bar> \<le> 1 / 1000000"
    using gps_deg_dec_close [OF assms] .
  with True that [of r] show ?thesis by simp
next
  case False
  obtain y where y: "fmul DOUBLE (fdec (- 1) 0) x = fneg y" "fnonneg y" "fval y = fval x"
    using times_minus_one [OF assms] .
  obtain r where r: "gps_deg_dec (fneg y) = Inr (fneg r)" "\<bar>fval r - dms (fval x)\<bar> \<le> 1 / 1000000"
    using gps_deg_dec_close [OF y(2)] y(3) assms(2) by auto
  from r(2) have "\<bar>fval (fneg r) - - 1 * dms (fval x)\<bar> \<le> 1 / 1000000" by (simp add: abs_minus_commute)
  with False y(1) r(1) that [of "fneg r"] show ?thesis by simp
qed

text \<open>
  C18. The conversion is right to a millionth of a degree: for every latitude and longitude of
  the form \<^verbatim>\<open>DDMM.mmmm\<close> up to 180 degrees it returns, and each result differs by at most
  1/1000000 from the decimal degrees, which are negative unless the letter is \<^verbatim>\<open>N\<close> or \<^verbatim>\<open>E\<close>.
\<close>

theorem gps_convert_accurate:
  assumes "fnonneg lat" and "fval lat < 18000" and "fnonneg lon" and "fval lon < 18000"
  shows "\<exists>la lo. gps_convert_deg_to_dec lat ns lon we = Inr (la, lo)
    \<and> \<bar>fval la - (if ns = CHR ''N'' then 1 else - 1) * dms (fval lat)\<bar> \<le> 1 / 1000000
    \<and> \<bar>fval lo - (if we = CHR ''E'' then 1 else - 1) * dms (fval lon)\<bar> \<le> 1 / 1000000"
proof -
  obtain la where "gps_deg_dec (if ns = CHR ''N'' then lat else fmul DOUBLE (fdec (- 1) 0) lat) = Inr la"
    "\<bar>fval la - (if ns = CHR ''N'' then 1 else - 1) * dms (fval lat)\<bar> \<le> 1 / 1000000"
    using gps_hemisphere [OF assms(1,2)] .
  moreover obtain lo where
    "gps_deg_dec (if we = CHR ''E'' then lon else fmul DOUBLE (fdec (- 1) 0) lon) = Inr lo"
    "\<bar>fval lo - (if we = CHR ''E'' then 1 else - 1) * dms (fval lon)\<bar> \<le> 1 / 1000000"
    using gps_hemisphere [OF assms(3,4)] .
  ultimately show ?thesis by (simp add: gps_convert_deg_to_dec_def Let_def)
qed

lemma gps_convert_accurate_witness:
  "\<exists>la lo. gps_convert_deg_to_dec (Flt 4830 0) CHR ''S'' (Flt 645 (- 1)) CHR ''E'' = Inr (la, lo)
    \<and> \<bar>fval la + 97 / 2\<bar> \<le> 1 / 1000000 \<and> \<bar>fval lo - (3 + 45 / 2 / 60)\<bar> \<le> 1 / 1000000"
proof -
  have v: "fval (Flt 4830 0) = 4830" "fval (Flt 645 (- 1)) = 645 / 2" by (simp_all add: fval_def)
  have f: "\<lfloor>645 / 2 :: real\<rfloor> = 322" by (rule floor_unique) simp_all
  have d: "dms 4830 = 97 / 2" "dms (645 / 2) = 3 + 45 / 2 / 60" by (simp_all add: dms_def f)
  have "fnonneg (Flt 4830 0)" "fnonneg (Flt 645 (- 1))" by (simp_all add: fnonneg_def)
  with gps_convert_accurate [of "Flt 4830 0" "Flt 645 (- 1)" "CHR ''S''" "CHR ''E''", unfolded v d]
  show ?thesis by simp
qed

lemma gps_location_fix_witness:
  "\<exists>c. gps_location \<lparr>gga_times = Flt 0 0, gga_latitude = Flt 0 0, gga_lat = NUL, gga_longitude = Flt 0 0,
        gga_lon = NUL, gga_quality = 0, gga_satellites = 0, gga_altitude = Flt 0 0\<rparr>
      \<lparr>rmc_times = Flt 0 0, rmc_latitude = Flt 0 0, rmc_lat = NUL, rmc_longitude = Flt 0 0,
        rmc_lon = NUL, rmc_speed = Flt 0 0, rmc_course = Flt 0 0, rmc_date = Flt 0 0\<rparr>
      (wire ''$GPGSV,1*48'' @ wire ''$GPRMC,1,A,4830,N,2,E,3,4,5*13'' @
       wire ''$GPGSV,1*48'' @ wire ''$GPGGA,1,4830,N,2,E,1,8,,5*41'' @ wire ''more'')
      \<lparr>loc_times = Flt 0 0, loc_date = Flt 0 0, loc_latitude = Flt 0 0, loc_longitude = Flt 0 0,
        loc_speed = Flt 0 0, loc_altitude = Flt 0 0, loc_course = Flt 0 0, loc_satellites = Flt 0 0\<rparr>
    = Inr (c, wire ''more'') \<and> loc_satellites c = f_of_int DOUBLE 8"
  (is "\<exists>c. gps_location ?g0 ?r0 _ ?c0 = _ \<and> _")
proof -
  let ?gga = "''$GPGGA,1,4830,N,2,E,1,8,,5*41''" and ?rmc = "''$GPRMC,1,A,4830,N,2,E,3,4,5*13''"
  have n: "noise ''$GPGSV,1*48''"
    by (simp add: noise_def plain_line_def) (rule exI [of _ NMEA_UNKNOWN], code_simp)
  have p: "plain_line ?gga" "plain_line ?rmc" by (simp_all add: plain_line_def)
  have t: "rp_NmeaGetMessageType ?gga = Inr NMEA_GPGGA" by code_simp
  have t': "rp_NmeaGetMessageType ?rmc = Inr NMEA_GPRMC" by code_simp
  obtain g where g: "rp_NmeaParseGpgga ?gga ?g0 = Inr g" "gga_latitude g = atof ''4830,N,2,E,1,8,,5*41''"
    "gga_longitude g = atof ''2,E,1,8,,5*41''" "gga_satellites g = to_u8 (atoi ''8,,5*41'')"
    by (simp add: rp_NmeaParseGpgga_def next_field_def after_char_def)
  obtain m where m: "rp_NmeaParseGprmc ?rmc ?r0 = Inr m"
    by (simp add: rp_NmeaParseGprmc_def next_field_def after_char_def)
  have "scan_num ''4830,N,2,E,1,8,,5*41'' = (4830, 1)" "scan_num ''2,E,1,8,,5*41'' = (2, 1)" by code_simp+
  then have la: "gga_latitude g = fround DOUBLE 4830 1" and lo: "gga_longitude g = fround DOUBLE 2 1"
    by (simp_all add: g atof_def)
  have small: "fnonneg (fround DOUBLE 4830 1) \<and> fval (fround DOUBLE 4830 1) < 18000
      \<and> fnonneg (fround DOUBLE 2 1) \<and> fval (fround DOUBLE 2 1) < 18000"
  proof -
    have "fround DOUBLE 4830 1 = Flt 5310641162158080 (- 40)" "fround DOUBLE 2 1 = Flt 4503599627370496 (- 51)"
      by code_simp+
    then show ?thesis by (simp add: fnonneg_def fval_def power_int_minus)
  qed
  obtain a where a: "gps_deg_dec (if gga_lat g = CHR ''N'' then gga_latitude g
      else fmul DOUBLE (fdec (- 1) 0) (gga_latitude g)) = Inr a"
    using gps_hemisphere small la by metis
  obtain b where b: "gps_deg_dec (if gga_lon g = CHR ''E'' then gga_longitude g
      else fmul DOUBLE (fdec (- 1) 0) (gga_longitude g)) = Inr b"
    using gps_hemisphere small lo by metis
  have conv: "gps_convert_deg_to_dec (gga_latitude g) (gga_lat g) (gga_longitude g) (gga_lon g) = Inr (a, b)"
    using a b by (simp add: gps_convert_deg_to_dec_def)
  have 8: "to_u8 (atoi ''8,,5*41'') = 8" by code_simp
  from gps_location_fix [OF _ p(1) t g(1) conv p(2) t' m, of "[''$GPGSV,1*48'']" "[''$GPGSV,1*48'']"
      ?rmc ?gga "wire ''more''" ?c0] n g(4) 8
  show ?thesis by simp
qed

end
