(* ===== verification/Bmp180.thy ===== *)
theory Bmp180
  imports CFloat
begin

unbundle bit_operations_syntax

text \<open>
  The pressure and temperature sensor, \<^verbatim>\<open>projects/lago_v1_2/src/bmp180.c\<close>. The bus has the answers to
  its successive reads, each a function of the register and the size that are read (negative on failure), and the
  record of the calls made. The object is a record behind a pointer that may be null; results of \<^verbatim>\<open>malloc\<close>, \<^verbatim>\<open>open\<close>
  and \<^verbatim>\<open>ioctl\<close> are arguments, and so is \<^verbatim>\<open>pow\<close> of the mathematical library.
\<close>

section \<open>The bus and the object\<close>

datatype i2c_call = WriteByte int int | ReadWord int | ReadByte int

record i2c =
  i2c_pending :: "(i2c_call \<Rightarrow> int) list"
  i2c_calls :: "i2c_call list"

definition i2c_write :: "int \<Rightarrow> int \<Rightarrow> i2c \<Rightarrow> i2c" where
  "i2c_write reg v d = d\<lparr>i2c_calls := i2c_calls d @ [WriteByte reg v]\<rparr>"

definition i2c_read :: "i2c_call \<Rightarrow> i2c \<Rightarrow> (int \<times> i2c) res" where
  "i2c_read c d =
     (case i2c_pending d of [] \<Rightarrow> Inl Blocked
      | f # fs \<Rightarrow> Inr (f c, d\<lparr>i2c_pending := fs, i2c_calls := i2c_calls d @ [c]\<rparr>))"

record eprom =
  ac1 :: int
  ac2 :: int
  ac3 :: int
  ac4 :: int
  ac5 :: int
  ac6 :: int
  b1 :: int
  b2 :: int
  mb :: int
  mc :: int
  md :: int

record bmp180 = eprom +
  bmp_file :: int
  bmp_address :: int
  bmp_oss :: int
  i2c_device :: "string option"

definition bmp180_register_table :: "(int \<times> bool) list" where
  "bmp180_register_table = [(0xAA, True), (0xAC, True), (0xAE, True), (0xB0, False), (0xB2, False),
     (0xB4, False), (0xB6, True), (0xB8, True), (0xBA, True), (0xBC, True), (0xBE, True)]"

text \<open>The list of the member addresses in \<^verbatim>\<open>bmp180_read_eprom\<close>, as the updates of the members.\<close>

definition bmp180_register_addr :: "(int \<Rightarrow> bmp180 \<Rightarrow> bmp180) list" where
  "bmp180_register_addr =
     [\<lambda>v b. b\<lparr>ac1 := v\<rparr>, \<lambda>v b. b\<lparr>ac2 := v\<rparr>, \<lambda>v b. b\<lparr>ac3 := v\<rparr>, \<lambda>v b. b\<lparr>ac4 := v\<rparr>,
      \<lambda>v b. b\<lparr>ac5 := v\<rparr>, \<lambda>v b. b\<lparr>ac6 := v\<rparr>, \<lambda>v b. b\<lparr>b1 := v\<rparr>, \<lambda>v b. b\<lparr>b2 := v\<rparr>,
      \<lambda>v b. b\<lparr>mb := v\<rparr>, \<lambda>v b. b\<lparr>mc := v\<rparr>, \<lambda>v b. b\<lparr>md := v\<rparr>]"

section \<open>Reading the sensor\<close>

definition swap16 :: "int \<Rightarrow> int" where
  "swap16 data = ((data * 2 ^ 8) AND 0xFF00) + cshr data 8"

definition bmp180_read_raw_temperature :: "i2c \<Rightarrow> (int \<times> i2c) res" where
  "bmp180_read_raw_temperature d =
     bindE (i2c_read (ReadWord 0xF6) (i2c_write 0xF4 0x2E d)) (\<lambda>(w, d1).
     Inr (swap16 (w AND 0xFFFF), d1))"

definition pre_cmd :: "int \<Rightarrow> int" where
  "pre_cmd oss = (if oss = 1 then 0x74 else if oss = 2 then 0xB4 else if oss = 3 then 0xF4 else 0x34)"

definition bmp180_read_raw_pressure :: "bmp180 \<Rightarrow> int \<Rightarrow> i2c \<Rightarrow> (int \<times> i2c) res" where
  "bmp180_read_raw_pressure bmp oss d =
     bindE (i2c_read (ReadByte 0xF6) (i2c_write 0xF4 (pre_cmd oss) d)) (\<lambda>(m, d1).
     bindE (i2c_read (ReadByte 0xF7) d1) (\<lambda>(l, d2).
     bindE (i2c_read (ReadByte 0xF8) d2) (\<lambda>(x, d3).
     let msb = m AND 0xFF; lsb = l AND 0xFF; xlsb = x AND 0xFF
     in bindE (guardE (bmp_oss bmp \<le> 8 \<and> - 24 < bmp_oss bmp) SignedOverflow) (\<lambda>_.
        Inr (cshr (msb * 2 ^ 16 + lsb * 2 ^ 8 + xlsb) (nat (8 - bmp_oss bmp)), d3)))))"

definition bmp180_read_eprom_reg :: "int \<Rightarrow> bool \<Rightarrow> i2c \<Rightarrow> (int \<times> i2c) res" where
  "bmp180_read_eprom_reg reg sign d =
     bindE (i2c_read (ReadWord reg) d) (\<lambda>(w, d1).
     let data = w AND 0xFFFF; store = swap16 data
     in Inr (if sign \<and> store > 32767 then store - 65536 else store, d1))"

fun read_eprom_from ::
  "(int \<times> bool) list \<Rightarrow> (int \<Rightarrow> bmp180 \<Rightarrow> bmp180) list \<Rightarrow> bmp180 \<Rightarrow> i2c \<Rightarrow> (bmp180 \<times> i2c) res" where
  "read_eprom_from ((reg, sign) # ts) (upd # us) bmp d =
     bindE (bmp180_read_eprom_reg reg sign d) (\<lambda>(v, d1). read_eprom_from ts us (upd v bmp) d1)"
| "read_eprom_from _ _ bmp d = Inr (bmp, d)"

definition bmp180_read_eprom :: "bmp180 \<Rightarrow> i2c \<Rightarrow> (bmp180 \<times> i2c) res" where
  "bmp180_read_eprom bmp d = read_eprom_from bmp180_register_table bmp180_register_addr bmp d"

definition bmp180_dump_eprom :: "bmp180 option \<Rightarrow> eprom res" where
  "bmp180_dump_eprom p =
     (case p of None \<Rightarrow> Inl NullDeref
      | Some bmp \<Rightarrow> Inr \<lparr>ac1 = ac1 bmp, ac2 = ac2 bmp, ac3 = ac3 bmp, ac4 = ac4 bmp, ac5 = ac5 bmp,
          ac6 = ac6 bmp, b1 = b1 bmp, b2 = b2 bmp, mb = mb bmp, mc = mc bmp, md = md bmp\<rparr>)"

section \<open>Temperature, pressure, altitude\<close>

text \<open>The common first part: \<^verbatim>\<open>B5\<close> from the raw temperature.\<close>

definition compute_B5 :: "eprom \<Rightarrow> int \<Rightarrow> int res" where
  "compute_B5 e UT =
     bindE (csub UT (ac6 e)) (\<lambda>t1. bindE (cmul t1 (ac5 e)) (\<lambda>t2.
     let X1 = cshr t2 15 in
     bindE (cshl (mc e) 11) (\<lambda>t3. bindE (cadd X1 (md e)) (\<lambda>t4. bindE (cdiv t3 t4) (\<lambda>X2.
     cadd X1 X2)))))"

definition bmp180_temperature :: "bmp180 \<Rightarrow> i2c \<Rightarrow> (flt \<times> i2c) res" where
  "bmp180_temperature bmp d =
     bindE (bmp180_read_raw_temperature d) (\<lambda>(UT, d1).
     bindE (compute_B5 (eprom.truncate bmp) UT) (\<lambda>B5.
     bindE (cadd B5 8) (\<lambda>t.
     bindE (fdiv DOUBLE (f_of_int DOUBLE (cshr t 4)) (fdec 10 0)) (\<lambda>T.
     Inr (fcvt FLOAT T, d1)))))"

text \<open>\<^verbatim>\<open>B3\<close> and \<^verbatim>\<open>B4\<close> from \<^verbatim>\<open>B6\<close>, in the order of the source.\<close>

definition compute_B3 :: "eprom \<Rightarrow> int \<Rightarrow> int \<Rightarrow> int res" where
  "compute_B3 e oss B6 =
     bindE (cmul B6 B6) (\<lambda>q. bindE (cmul (b2 e) q) (\<lambda>t1.
     let X1 = cshr (cshr t1 12) 11 in
     bindE (cmul (ac2 e) B6) (\<lambda>t2.
     let X2 = cshr t2 11 in
     bindE (cadd X1 X2) (\<lambda>X3.
     bindE (cmul (ac1 e) 4) (\<lambda>t3. bindE (cadd t3 X3) (\<lambda>t4.
     bindE (guardE (0 \<le> oss \<and> oss < 32) SignedOverflow) (\<lambda>_.
     bindE (cshl t4 (nat oss)) (\<lambda>t5. bindE (cadd t5 2) (\<lambda>t6. cdiv t6 4)))))))))"

definition compute_B4 :: "eprom \<Rightarrow> int \<Rightarrow> u32 res" where
  "compute_B4 e B6 =
     bindE (cmul (ac3 e) B6) (\<lambda>t1.
     let X1 = cshr t1 13 in
     bindE (cmul B6 B6) (\<lambda>q. bindE (cmul (b1 e) (cshr q 12)) (\<lambda>t2.
     let X2 = cshr t2 16 in
     bindE (cadd X1 X2) (\<lambda>t3. bindE (cadd t3 2) (\<lambda>t4.
     let X3 = cshr t4 2 in
     bindE (cadd X3 32768) (\<lambda>t5.
     Inr (drop_bit 15 (word_of_int (ac4 e) * word_of_int t5))))))))"

definition final_p :: "u32 \<Rightarrow> u32 \<Rightarrow> int res" where
  "final_p B4 B7 =
     bindE (guardE (B4 \<noteq> 0) DivByZero) (\<lambda>_.
     let p = sint (if B7 < 0x80000000 then (B7 * 2) div B4 else (B7 div B4) * 2)
     in bindE (cmul (cshr p 8) (cshr p 8)) (\<lambda>X1.
        bindE (cmul X1 3038) (\<lambda>t1.
        let X1 = cshr t1 16 in
        bindE (cmul (- 7357) p) (\<lambda>t2.
        let X2 = cshr t2 16 in
        bindE (cadd X1 X2) (\<lambda>t3. bindE (cadd t3 3791) (\<lambda>t4. cadd p (cshr t4 4)))))))"

definition bmp180_pressure :: "bmp180 \<Rightarrow> i2c \<Rightarrow> (flt \<times> i2c) res" where
  "bmp180_pressure bmp d =
     bindE (bmp180_read_raw_temperature d) (\<lambda>(UT, d1).
     bindE (bmp180_read_raw_pressure bmp (to_u8 (bmp_oss bmp)) d1) (\<lambda>(UP, d2).
     let e = eprom.truncate bmp in
     bindE (compute_B5 e UT) (\<lambda>B5. bindE (csub B5 4000) (\<lambda>B6.
     bindE (compute_B3 e (bmp_oss bmp) B6) (\<lambda>B3. bindE (compute_B4 e B6) (\<lambda>B4.
     let B7 = (word_of_int UP - word_of_int B3) * word_of_int (cshr 50000 (nat (bmp_oss bmp))) :: u32
     in bindE (final_p B4 B7) (\<lambda>p. Inr (f_of_int FLOAT p, d2))))))))"

definition bmp180_altitude :: "(flt \<Rightarrow> flt \<Rightarrow> flt) \<Rightarrow> bmp180 \<Rightarrow> i2c \<Rightarrow> (flt \<times> i2c) res" where
  "bmp180_altitude pow bmp d =
     bindE (bmp180_pressure bmp d) (\<lambda>(p, d1).
     bindE (fdiv FLOAT p (f_of_int FLOAT 100)) (\<lambda>h.
     bindE (fdiv DOUBLE h (fdec 101325 2)) (\<lambda>r.
     bindE (fdiv DOUBLE (fdec 1 0) (fdec 5255 3)) (\<lambda>x.
     Inr (fcvt FLOAT (fmul DOUBLE (fdec 44330 0) (fsub DOUBLE (fdec 1 0) (pow r x))), d1)))))"

section \<open>Life of the object\<close>

definition bmp180_set_oss :: "int \<Rightarrow> bmp180 option \<Rightarrow> bmp180 option res" where
  "bmp180_set_oss oss p =
     (case p of None \<Rightarrow> Inl NullDeref | Some bmp \<Rightarrow> Inr (Some (bmp\<lparr>bmp_oss := oss\<rparr>)))"

text \<open>
  The block for the device path is one byte too small for the terminating zero; \<open>usable\<close> is how
  many bytes the allocator really provides for it.
\<close>

record bmp_env =
  be_malloc1 :: bool
  be_malloc2 :: bool
  be_usable :: nat
  be_open :: int
  be_ioctl :: int

definition bmp180_init ::
  "bmp_env \<Rightarrow> bmp180 \<Rightarrow> int \<Rightarrow> string \<Rightarrow> i2c \<Rightarrow> (bmp180 option \<times> i2c) res" where
  \<comment> \<open>the second argument is what the fresh block holds\<close>
  "bmp180_init e fresh address path d =
     (if \<not> be_malloc1 e then Inr (None, d)
      else let bmp = fresh\<lparr>bmp_address := address\<rparr>
      in if \<not> be_malloc2 e then Inr (None, d)
      else bindE (guardE (length path + 1 \<le> be_usable e) OutOfBounds) (\<lambda>_.
      let bmp = bmp\<lparr>i2c_device := Some path\<rparr>
      in if be_open e < 0 then Inr (None, d)
      else let bmp = bmp\<lparr>bmp_file := be_open e\<rparr>
      in if be_ioctl e < 0 then Inr (None, d)
      else bindE (bmp180_read_eprom bmp d) (\<lambda>(bmp, d1).
           Inr (Some (bmp\<lparr>bmp_oss := 0\<rparr>), d1))))"

text \<open>Closing frees the object whatever \<^verbatim>\<open>close\<close> returns; the caller's pointer is left dangling.\<close>

definition bmp180_close :: "bmp180 option \<Rightarrow> bmp180 option" where
  "bmp180_close p = None"

section \<open>Calibration data\<close>








definition s16 :: "int \<Rightarrow> bool" where "s16 c \<longleftrightarrow> - 32768 \<le> c \<and> c \<le> 32767"
definition u16 :: "int \<Rightarrow> bool" where "u16 c \<longleftrightarrow> 0 \<le> c \<and> c \<le> 65535"









text \<open>The range of each coefficient.\<close>

definition calibrated :: "'a eprom_scheme \<Rightarrow> bool" where
  "calibrated e \<longleftrightarrow> s16 (ac1 e) \<and> s16 (ac2 e) \<and> s16 (ac3 e) \<and> u16 (ac4 e) \<and> u16 (ac5 e) \<and> u16 (ac6 e)
     \<and> s16 (b1 e) \<and> s16 (b2 e) \<and> s16 (mb e) \<and> s16 (mc e) \<and> s16 (md e)"



section \<open>Temperature\<close>

lemma cmul_bounded: "\<bar>a\<bar> \<le> m \<Longrightarrow> \<bar>b\<bar> \<le> n \<Longrightarrow> m * n \<le> 2147483647 \<Longrightarrow> cmul a b = Inr (a * b)"
proof -
  assume *: "\<bar>a\<bar> \<le> m" "\<bar>b\<bar> \<le> n" "m * n \<le> 2147483647"
  then have "0 \<le> m" by linarith
  with * have "\<bar>a * b\<bar> \<le> 2147483647"
    using mult_mono [of "\<bar>a\<bar>" m "\<bar>b\<bar>" n] by (simp add: abs_mult)
  then have "- 2147483648 \<le> a * b \<and> a * b \<le> 2147483647" by linarith
  then show ?thesis by (simp add: cmul_def in_i32_iff)
qed

lemma sdiv_le: "\<bar>a sdiv b\<bar> \<le> \<bar>a\<bar>" for a b :: int
proof (cases "b = 0")
  case True
  then show ?thesis by (simp add: signed_divide_int_def)
next
  case False
  then have "\<bar>a\<bar> div \<bar>b\<bar> \<le> \<bar>a\<bar>" 
    using zdiv_mono2 [of "\<bar>a\<bar>" 1 "\<bar>b\<bar>"] by simp
  with False show ?thesis
    by (simp add: signed_divide_int_def abs_mult abs_sgn_eq pos_imp_zdiv_nonneg_iff)
qed

lemma ck32_bounded: "\<bar>x\<bar> \<le> 2147483647 \<Longrightarrow> ck32 x = Inr x"
  by (intro ck32_Inr) (simp add: in_i32_iff abs_le_iff)

text \<open>The exact value behind the two shifts and the division.\<close>

definition B5_value :: "'a eprom_scheme \<Rightarrow> int \<Rightarrow> int" where
  "B5_value e UT = (UT - ac6 e) * ac5 e div 32768
     + (mc e * 2048) sdiv ((UT - ac6 e) * ac5 e div 32768 + md e)"

lemma compute_B5_value:
  assumes "calibrated e" and "\<bar>UT - ac6 e\<bar> \<le> 32767"
    and "(UT - ac6 e) * ac5 e div 32768 + md e \<noteq> 0"
  shows "compute_B5 e UT = Inr (B5_value e UT) \<and> \<bar>B5_value e UT\<bar> \<le> 70000000"
proof -
  define X1 where "X1 = (UT - ac6 e) * ac5 e div 32768"
  have r: "0 \<le> ac5 e" "ac5 e \<le> 65535" "- 32768 \<le> md e" "md e \<le> 32767" "- 32768 \<le> mc e" "mc e \<le> 32767"
    using assms(1) by (simp_all add: calibrated_def s16_def u16_def)
  have "\<bar>(UT - ac6 e) * ac5 e\<bar> \<le> 32767 * 65535"
    using assms(2) r mult_mono [of "\<bar>UT - ac6 e\<bar>" 32767 "\<bar>ac5 e\<bar>" 65535] by (simp add: abs_mult)
  then have X1: "\<bar>X1\<bar> \<le> 65536"
    using div_bounds [of 32768 "(UT - ac6 e) * ac5 e"] unfolding X1_def by linarith
  have t1: "csub UT (ac6 e) = Inr (UT - ac6 e)" using assms(2) by (simp add: csub_def ck32_bounded)
  have t2: "cmul (UT - ac6 e) (ac5 e) = Inr ((UT - ac6 e) * ac5 e)"
    using assms(2) r by (intro cmul_bounded [of _ 32767 _ 65535]) simp_all
  have t3: "cshl (mc e) 11 = Inr (mc e * 2048)" using r by (simp add: cshl_def in_i32_iff)
  have t4: "cadd X1 (md e) = Inr (X1 + md e)" using X1 r by (simp add: cadd_def in_i32_iff abs_le_iff)
  have m: "\<bar>mc e * 2048\<bar> \<le> 67108864" using r by (simp add: abs_le_iff)
  then have q: "\<bar>(mc e * 2048) sdiv (X1 + md e)\<bar> \<le> 67108864"
    using sdiv_le [of "mc e * 2048" "X1 + md e"] by linarith
  then have t5: "cdiv (mc e * 2048) (X1 + md e) = Inr ((mc e * 2048) sdiv (X1 + md e))"
    using assms(3) by (simp add: cdiv_def X1_def ck32_bounded)
  have v: "B5_value e UT = X1 + (mc e * 2048) sdiv (X1 + md e)" by (simp add: B5_value_def X1_def)
  have b: "\<bar>B5_value e UT\<bar> \<le> 70000000" unfolding v using X1 q by linarith
  then have "cadd X1 ((mc e * 2048) sdiv (X1 + md e)) = Inr (B5_value e UT)"
    unfolding v by (simp add: cadd_def ck32_bounded)
  with b show ?thesis
    using t1 t2 t3 t4 t5 by (simp add: compute_B5_def cshr_def Let_def flip: X1_def)
qed

text \<open>
  C22. The temperature is computed without overflow: for every set of coefficients within their
  ranges and every raw value within 32767 of the reference \<^verbatim>\<open>ac6\<close>, unless the denominator of the
  second term vanishes, the result is the tenth of a degree that the data sheet's integer formula
  gives, converted to single precision.
\<close>

theorem temperature_formula:
  assumes "calibrated bmp" and "i2c_pending d = f # rest"
    and "UT = swap16 (f (ReadWord 0xF6) AND 0xFFFF)" and "\<bar>UT - ac6 bmp\<bar> \<le> 32767"
    and "(UT - ac6 bmp) * ac5 bmp div 32768 + md bmp \<noteq> 0"
  shows "\<exists>T. fdiv DOUBLE (f_of_int DOUBLE ((B5_value bmp UT + 8) div 16)) (fdec 10 0) = Inr T
    \<and> bmp180_temperature bmp d = Inr (fcvt FLOAT T,
        d\<lparr>i2c_pending := rest, i2c_calls := i2c_calls d @ [WriteByte 0xF4 0x2E, ReadWord 0xF6]\<rparr>)"
proof -
  have t: "calibrated (eprom.truncate bmp)" using assms(1) by (simp add: calibrated_def eprom.defs)
  have B5: "compute_B5 (eprom.truncate bmp) UT = Inr (B5_value bmp UT) \<and> \<bar>B5_value bmp UT\<bar> \<le> 70000000"
    using compute_B5_value [OF t, of UT] assms(4,5) by (simp add: eprom.defs B5_value_def)
  then have "cadd (B5_value bmp UT) 8 = Inr (B5_value bmp UT + 8)"
    by (simp add: cadd_def in_i32_iff abs_le_iff)
  moreover obtain T where "fdiv DOUBLE (f_of_int DOUBLE ((B5_value bmp UT + 8) div 16)) (fdec 10 0) = Inr T"
    using fdiv_error [of "fdec 10 0" DOUBLE "f_of_int DOUBLE ((B5_value bmp UT + 8) div 16)"]
      man_fdec_int [of 10] by auto
  ultimately show ?thesis using B5 assms(2,3)
    by (simp add: bmp180_temperature_def bmp180_read_raw_temperature_def i2c_read_def i2c_write_def cshr_def)
qed

text \<open>The example worked out in the data sheet of the sensor.\<close>

definition datasheet :: bmp180 where
  "datasheet = \<lparr>ac1 = 408, ac2 = - 72, ac3 = - 14383, ac4 = 32741, ac5 = 32757, ac6 = 23153,
     b1 = 6190, b2 = 4, mb = - 32768, mc = - 8711, md = 2868,
     bmp_file = 3, bmp_address = 0x77, bmp_oss = 0, i2c_device = Some ''/dev/i2c-0''\<rparr>"

theorem temperature_formula_witness:
  "\<exists>d'. bmp180_temperature datasheet \<lparr>i2c_pending = [\<lambda>_. swap16 27898], i2c_calls = []\<rparr>
     = Inr (f_of_int FLOAT 15, d')"
proof -
  have w: "swap16 (swap16 27898 AND 0xFFFF) = 27898" by code_simp
  have c: "calibrated datasheet" by (simp add: calibrated_def datasheet_def s16_def u16_def)
  have d: "(27898 - ac6 datasheet) * ac5 datasheet div 32768 + md datasheet \<noteq> 0"
    "\<bar>27898 - ac6 datasheet\<bar> \<le> 32767" by (simp_all add: datasheet_def)
  have B: "B5_value datasheet 27898 = 2400" by code_simp
  have T: "fdiv DOUBLE (f_of_int DOUBLE ((2400 + 8) div 16)) (fdec 10 0) = Inr (fdec 15 0)" by code_simp
  have F: "fcvt FLOAT (fdec 15 0) = f_of_int FLOAT 15" by code_simp
  show ?thesis
    using temperature_formula [OF c _ w [symmetric] d(2,1), of "\<lparr>i2c_pending = [\<lambda>_. swap16 27898], i2c_calls = []\<rparr>" "[]"]
      B T F by auto
qed

text \<open>
  On the data sheet's own example the driver gives the data sheet's results: 15.0 degrees and
  69964 pascal.
\<close>

theorem datasheet_example:
  "\<exists>d1 d2. bmp180_temperature datasheet \<lparr>i2c_pending = [\<lambda>_. swap16 27898], i2c_calls = []\<rparr>
       = Inr (f_of_int FLOAT 15, d1)
   \<and> bmp180_pressure datasheet \<lparr>i2c_pending = [\<lambda>_. swap16 27898, \<lambda>_. 0x5D, \<lambda>_. 0x23, \<lambda>_. 0], i2c_calls = []\<rparr>
       = Inr (f_of_int FLOAT 69964, d2)"
proof -
  have "compute_B5 (eprom.truncate datasheet) 27898 = Inr 2400" by code_simp
  moreover have "compute_B3 (eprom.truncate datasheet) 0 (- 1600) = Inr 422" by code_simp
  moreover have "compute_B4 (eprom.truncate datasheet) (- 1600) = Inr 33457" by code_simp
  moreover have "(word_of_int 23843 - word_of_int 422) * word_of_int (cshr 50000 0) = (1171050000 :: u32)"
    by code_simp
  moreover have "final_p 33457 1171050000 = Inr 69964" by code_simp
  moreover have "swap16 (swap16 27898 AND 65535) = 27898"
    "cshr ((93 AND 255) * 65536 + (35 AND 255) * 256 + (0 AND 255)) 8 = 23843" by code_simp+
  moreover have "fdiv DOUBLE (f_of_int DOUBLE (cshr 2408 4)) (fdec 10 0) = Inr (fdec 15 0)" by code_simp
  moreover have "fcvt FLOAT (fdec 15 0) = f_of_int FLOAT 15" by code_simp
  moreover have "bmp_oss datasheet = 0" by (simp add: datasheet_def)
  ultimately show ?thesis
    by (simp add: bmp180_temperature_def bmp180_pressure_def bmp180_read_raw_temperature_def
        bmp180_read_raw_pressure_def i2c_read_def i2c_write_def cadd_def csub_def in_i32_iff to_u8_def Let_def)
qed




text \<open>
  Creating the sensor object copies the path into a block that is one byte too small: with
  an allocator that provides exactly what is asked for, every call that gets that far writes
  past the block. With at least one byte to spare, it returns an object exactly when opening
  and addressing the device succeed.
\<close>

theorem bmp180_init_buffer:
  "(be_malloc1 env \<and> be_malloc2 env \<and> be_usable env = length path
      \<longrightarrow> bmp180_init env fresh addr path d = Inl OutOfBounds)
   \<and> (length path < be_usable env \<and> bmp180_init env fresh addr path d = Inr (p, d')
      \<longrightarrow> (p \<noteq> None \<longleftrightarrow> be_malloc1 env \<and> be_malloc2 env \<and> 0 \<le> be_open env \<and> 0 \<le> be_ioctl env))"
  by (auto simp: bmp180_init_def Let_def res_simps split: if_splits)

theorem bmp180_init_buffer_witness:
  "bmp180_init \<lparr>be_malloc1 = True, be_malloc2 = True, be_usable = 10, be_open = 3, be_ioctl = 0\<rparr>
     datasheet 0x77 ''/dev/i2c-0'' \<lparr>i2c_pending = [], i2c_calls = []\<rparr> = Inl OutOfBounds"
  using bmp180_init_buffer [where env = "\<lparr>be_malloc1 = True, be_malloc2 = True, be_usable = 10,
      be_open = 3, be_ioctl = 0\<rparr>" and path = "''/dev/i2c-0''"]
  by simp

end
