(* ===== verification/CTime.thy ===== *)
theory CTime
  imports CArith
begin

text \<open>
  The calendar functions of the C library that the data acquisition uses: \<^verbatim>\<open>timegm\<close> turns a
  broken-down UTC time, whose fields may lie outside their ranges, into seconds since the epoch;
  \<^verbatim>\<open>gmtime\<close> is the other direction. Dates are those of the proleptic Gregorian calendar; a year
  is counted from the first of March, so the leap day is its last. \<^verbatim>\<open>time_t\<close> has 32 bits on the
  target: a time that does not fit makes \<^verbatim>\<open>timegm\<close> return -1.
\<close>

record tm =
  tm_sec :: int
  tm_min :: int
  tm_hour :: int
  tm_mday :: int
  tm_mon :: int
  tm_year :: int

section \<open>Days\<close>

text \<open>The day number (1970-01-01 is 0) of the first day of month \<open>m\<close> (January is 0) of year \<open>y\<close>.\<close>

definition month_start :: "int \<Rightarrow> int \<Rightarrow> int" where
  "month_start y m =
     (let y' = (if m \<le> 1 then y - 1 else y);
          mp = (if m \<le> 1 then m + 10 else m - 2);
          era = y' div 400; yoe = y' mod 400
      in era * 146097 + yoe * 365 + yoe div 4 - yoe div 100 + (153 * mp + 2) div 5 - 719468)"

text \<open>
  Year, month and day of the month of a day number: centuries, four-year cycles and years are
  split off in turn, the last century of an era and the last year of a cycle being a day longer.
\<close>

definition year_of_era :: "int \<Rightarrow> int \<times> int" where
  "year_of_era doe =
     (let c = min 3 (doe div 36524); r = doe - c * 36524;
          q = r div 1461; s = r - q * 1461;
          k = min 3 (s div 365)
      in (c * 100 + q * 4 + k, s - k * 365))"

definition civil :: "int \<Rightarrow> int \<times> int \<times> int" where
  "civil z =
     (let w = z + 719468; (yoe, doy) = year_of_era (w mod 146097);
          mp = (5 * doy + 2) div 153;
          m = (if mp < 10 then mp + 2 else mp - 10);
          y = yoe + w div 146097 * 400 + (if m \<le> 1 then 1 else 0)
      in (y, m, doy - (153 * mp + 2) div 5 + 1))"

section \<open>timegm and gmtime\<close>

definition timegm_exact :: "tm \<Rightarrow> int" where
  "timegm_exact d =
     (month_start (tm_year d + 1900 + tm_mon d div 12) (tm_mon d mod 12) + tm_mday d - 1) * 86400
       + tm_hour d * 3600 + tm_min d * 60 + tm_sec d"

definition timegm :: "tm \<Rightarrow> int" where
  "timegm d = (if in_i32 (timegm_exact d) then timegm_exact d else - 1)"

definition gmtime :: "int \<Rightarrow> tm" where
  "gmtime t =
     (let (y, m, d) = civil (t div 86400); s = t mod 86400
      in \<lparr>tm_sec = s mod 60, tm_min = s div 60 mod 60, tm_hour = s div 3600,
          tm_mday = d, tm_mon = m, tm_year = y - 1900\<rparr>)"

section \<open>The round trip\<close>

lemma year_of_era:
  assumes "0 \<le> doe" and "doe < 146097" and "year_of_era doe = (yoe, doy)"
  shows "0 \<le> yoe" "yoe < 400" "0 \<le> doy" "doy \<le> 365"
    and "yoe * 365 + yoe div 4 - yoe div 100 + doy = doe"
proof -
  define c where "c = min 3 (doe div 36524)"
  define r where "r = doe - c * 36524"
  define q where "q = r div 1461"
  define s where "s = r - q * 1461"
  define k where "k = min 3 (s div 365)"
  have yd: "yoe = c * 100 + q * 4 + k" "doy = s - k * 365"
    using assms(3) by (simp_all add: year_of_era_def Let_def c_def r_def q_def s_def k_def)
  have c: "0 \<le> c" "c \<le> 3" and r: "0 \<le> r" "r < 36525"
    using assms(1,2) div_bounds [of 36524 doe] by (auto simp: c_def r_def min_def)
  have q: "0 \<le> q" "q \<le> 24" using r div_bounds [of 1461 r] by (auto simp: q_def)
  have s: "0 \<le> s" "s < 1461" by (simp_all add: s_def q_def minus_div_mult_eq_mod)
  have k: "0 \<le> k" "k \<le> 3" and doy: "0 \<le> s - k * 365" "s - k * 365 \<le> 365"
    using s div_bounds [of 365 s] by (auto simp: k_def min_def)
  have "yoe div 4 = c * 25 + q" "yoe div 100 = c"
    using q k by (simp_all add: yd(1))
  then show "0 \<le> yoe" "yoe < 400" "0 \<le> doy" "doy \<le> 365"
    "yoe * 365 + yoe div 4 - yoe div 100 + doy = doe"
    using c q k doy by (simp_all add: yd s_def r_def)
qed

lemma civil_month_start:
  assumes "civil z = (y, m, d)"
  shows "month_start y m + d - 1 = z" and "0 \<le> m" "m \<le> 11" and "1 \<le> d" "d \<le> 31"
proof -
  define w where "w = z + 719468"
  obtain yoe doy where e: "year_of_era (w mod 146097) = (yoe, doy)" by fastforce
  have b: "0 \<le> yoe" "yoe < 400" "0 \<le> doy" "doy \<le> 365"
    "yoe * 365 + yoe div 4 - yoe div 100 + doy = w mod 146097"
    using year_of_era [OF _ _ e] by simp_all
  define mp where "mp = (5 * doy + 2) div 153"
  have mp: "0 \<le> mp" "mp \<le> 11" and mpb: "153 * mp \<le> 5 * doy + 2" "5 * doy + 2 < 153 * mp + 153"
    using b div_bounds [of 153 "5 * doy + 2"] by (auto simp: mp_def)
  have m: "m = (if mp < 10 then mp + 2 else mp - 10)"
    and y: "y = yoe + w div 146097 * 400 + (if m \<le> 1 then 1 else 0)"
    and d: "d = doy - (153 * mp + 2) div 5 + 1"
    using assms by (auto simp: civil_def Let_def e mp_def simp flip: w_def)
  have mp': "(if m \<le> 1 then m + 10 else m - 2) = mp"
    using mp by (auto simp: m)
  have y': "(if m \<le> 1 then y - 1 else y) = w div 146097 * 400 + yoe"
    by (simp add: y)
  have "month_start y m = w div 146097 * 146097 + (yoe * 365 + yoe div 4 - yoe div 100)
      + (153 * mp + 2) div 5 - 719468"
    using b by (simp add: month_start_def mp' y' Let_def)
  also have "\<dots> = w - doy + (153 * mp + 2) div 5 - 719468"
    using b(5) div_mult_mod_eq [of w 146097] by linarith
  finally show "month_start y m + d - 1 = z" by (simp add: d w_def)
  show "0 \<le> m" "m \<le> 11" using mp by (auto simp: m)
  show "1 \<le> d" "d \<le> 31" 
    using mpb div_bounds [of 5 "153 * mp + 2"] by (auto simp: d)
qed

lemma gmtime_clock:
  "tm_sec (gmtime t) = t mod 60" "tm_min (gmtime t) = t div 60 mod 60"
  "tm_hour (gmtime t) = t div 3600 mod 24"
proof -
  have f: "tm_sec (gmtime t) = t mod 86400 mod 60" "tm_min (gmtime t) = t mod 86400 div 60 mod 60"
    "tm_hour (gmtime t) = t mod 86400 div 3600"
    by (simp_all only: gmtime_def Let_def tm.select_convs split: prod.split) simp_all
  have "t mod 86400 div 60 = t div 60 mod 1440" "t mod 86400 div 3600 = t div 3600 mod 24"
    using mod_mult_div [of 60 1440 t] mod_mult_div [of 3600 24 t] by simp_all
  moreover have "t mod 86400 mod 60 = t mod 60" "t div 60 mod 1440 mod 60 = t div 60 mod 60"
    by (rule mod_mod_cancel, simp)+
  ultimately show "tm_sec (gmtime t) = t mod 60" "tm_min (gmtime t) = t div 60 mod 60"
    "tm_hour (gmtime t) = t div 3600 mod 24"
    using f by metis+
qed

lemma gmtime_date:
  assumes "civil (t div 86400) = (y, m, d)"
  shows "tm_mday (gmtime t) = d" "tm_mon (gmtime t) = m" "tm_year (gmtime t) = y - 1900"
  using assms by (simp_all only: gmtime_def Let_def prod.case tm.select_convs)

lemma day_seconds:
  "t div 3600 mod 24 * 3600 + t div 60 mod 60 * 60 + t mod 60 = t - t div 86400 * 86400" for t :: int
proof -
  have "t div 60 div 60 = t div 3600" "t div 3600 div 24 = t div 86400"
    by (simp_all flip: zdiv_zmult2_eq)
  with div_mult_mod_eq [of t 60] div_mult_mod_eq [of "t div 60" 60]
    div_mult_mod_eq [of "t div 3600" 24]
  show ?thesis by linarith
qed

lemma timegm_exact_gmtime [simp]: "timegm_exact (gmtime t) = t"
proof -
  obtain y m d where c: "civil (t div 86400) = (y, m, d)" by (metis surj_pair)
  have *: "month_start y m + d - 1 = t div 86400" "0 \<le> m" "m \<le> 11"
    using civil_month_start [OF c] by simp_all
  then have "timegm_exact (gmtime t) = t div 86400 * 86400
      + (t div 3600 mod 24 * 3600 + t div 60 mod 60 * 60 + t mod 60)"
    by (simp add: timegm_exact_def gmtime_clock gmtime_date [OF c])
  then show ?thesis by (simp only: day_seconds)
qed

lemma gmtime_ranges:
  "0 \<le> tm_sec (gmtime t)" "tm_sec (gmtime t) < 60"
  "0 \<le> tm_min (gmtime t)" "tm_min (gmtime t) < 60"
  "0 \<le> tm_hour (gmtime t)" "tm_hour (gmtime t) < 24"
  "1 \<le> tm_mday (gmtime t)" "tm_mday (gmtime t) \<le> 31"
  "0 \<le> tm_mon (gmtime t)" "tm_mon (gmtime t) \<le> 11"
proof -
  obtain y m d where c: "civil (t div 86400) = (y, m, d)" by (metis surj_pair)
  show
    "0 \<le> tm_sec (gmtime t)" "tm_sec (gmtime t) < 60"
    "0 \<le> tm_min (gmtime t)" "tm_min (gmtime t) < 60"
    "0 \<le> tm_hour (gmtime t)" "tm_hour (gmtime t) < 24"
    "1 \<le> tm_mday (gmtime t)" "tm_mday (gmtime t) \<le> 31"
    "0 \<le> tm_mon (gmtime t)" "tm_mon (gmtime t) \<le> 11"
    using civil_month_start [OF c] by (simp_all add: gmtime_clock gmtime_date [OF c])
qed

lemma timegm_gmtime: "in_i32 t \<Longrightarrow> timegm (gmtime t) = t"
  by (simp add: timegm_def)

lemma timegm_exact_add_sec: "timegm_exact (d\<lparr>tm_sec := tm_sec d + n\<rparr>) = timegm_exact d + n"
  by (simp add: timegm_exact_def)

lemma gmtime_epoch:
  "gmtime 0 = \<lparr>tm_sec = 0, tm_min = 0, tm_hour = 0, tm_mday = 1, tm_mon = 0, tm_year = 70\<rparr>"
  by code_simp

lemma gmtime_leap_day:
  "gmtime 951827696 = \<lparr>tm_sec = 56, tm_min = 34, tm_hour = 12, tm_mday = 29, tm_mon = 1, tm_year = 100\<rparr>"
  by code_simp

end
