(* ===== verification/Daq.thy ===== *)
theory Daq
  imports ZynqIO Gps Bmp180 CTime
begin

unbundle bit_operations_syntax

text \<open>
  The data acquisition of \<^verbatim>\<open>projects/lago_v1_2/src/lago.c\<close>: the header of a data file, the meaning
  of the 32-bit words the programmable logic writes, and the reading of the ring buffer they are
  in. The file behind \<^verbatim>\<open>fhout\<close> is a name; all the lines written are recorded with the file they
  go to. The statistics that start with \<^verbatim>\<open>mtd_\<close> are accumulated without ever being reset, so their
  additions are taken as the processor performs them, modulo \<open>2 ^ 32\<close>.
\<close>

section \<open>State\<close>

datatype stream = NoFile | StdOut | DatFile string

record daq =
  d_i2c :: i2c
  d_bmp :: "bmp180 option"
  fhout :: stream
  d_out :: "(stream \<times> string) list"
  d_console :: "string list"
  d_toStdout :: bool
  d_charFile :: string
  charCurrentFile :: string
  charCurrentMetaData :: string
  fileTime :: int
  fileDate :: tm
  falseGPS :: bool
  fFirstTime :: bool
  mtd_seconds :: int
  mtd_bl :: "int list"
  mtd_bl2 :: "int list"
  mtd_iBin :: int
  mtd_cbl :: int
  mtd_dp :: int
  mtd_cdp :: int
  mtd_pulse_cnt :: int
  mtd_pulse_pnt :: int
  rates_trig :: "int list"
  rate1 :: int
  rate2 :: int
  hack :: int
  gps_lat :: flt
  gps_lon :: flt
  gps_alt :: flt
  g_data :: loc_t

text \<open>What the system supplies: whether a file opens, the host name, the clock.\<close>

record daq_env =
  fopen_ok :: "string \<Rightarrow> bool"
  hostname :: string
  local_time :: string
  now :: int

definition MTD_BLBIN :: int where "MTD_BLBIN = 1"
definition DATAVERSION :: int where "DATAVERSION = 5"

definition emit :: "string \<Rightarrow> daq \<Rightarrow> daq res" where
  "emit l d = (if fhout d = NoFile then Inl NullDeref else Inr (d\<lparr>d_out := d_out d @ [(fhout d, l)]\<rparr>))"

definition emits :: "string list \<Rightarrow> daq \<Rightarrow> daq res" where
  "emits ls d = runE (\<lambda>d l. emit l d) d ls"

text \<open>\<^verbatim>\<open>fileTime=timegm(fileDate); fileDate=gmtime(&fileTime)\<close>\<close>

definition normalise :: "daq \<Rightarrow> daq" where
  "normalise d = (let t = timegm (fileDate d) in d\<lparr>fileTime := t, fileDate := gmtime t\<rparr>)"

section \<open>A new file\<close>

definition file_stem :: "daq \<Rightarrow> string" where
  "file_stem d =
     d_charFile d @ (if falseGPS d then ''_nogps_'' else ''_'')
       @ show_int0 4 (tm_year (fileDate d) + 1900) @ ''_'' @ show_int0 2 (tm_mon (fileDate d) + 1) @ ''_''
       @ show_int0 2 (tm_mday (fileDate d)) @ ''_'' @ show_int0 2 (tm_hour (fileDate d)) @ ''h00''"

definition open_file :: "daq_env \<Rightarrow> daq \<Rightarrow> daq" where
  "open_file e d =
     (let d = normalise d;
          dat = take 1023 (file_stem d @ ''.dat'');
          d = d\<lparr>charCurrentFile := dat, charCurrentMetaData := take 1023 (file_stem d @ ''.mtd'')\<rparr>
      in d\<lparr>fhout := if fopen_ok e dat then DatFile dat else NoFile\<rparr>)"

definition header_text :: "string list" where
  "header_text =
     [''# v '' @ show_int DATAVERSION,
      ''# #'',
      ''# # This is a LAGO raw data file, version '' @ show_int DATAVERSION,
      ''# # It contains the following data:'',
      ''# #   <N1> <N2>        : line with values of the 2 ADC for a triggered pulse'',
      ''# #   # t <C> <V>      : end of a trigger'',
      ''# #                      gives the channel trigger (<C>: 3 bit mask) and 125 MHz clock count (<V>) of the trigger time'',
      ''# #   # c <C>          : internal trigger counter'',
      ''# #   # x f <V>        : 125 MHz frequency'',
      ''# #   # x t <V>        : temperature value'',
      ''# #   # x p <V>        : pressure value'',
      ''# #   # x r1 <V>       : pulse rate at channel 1'',
      ''# #   # x r2 <V>       : pulse rate at channel 2'',
      ''# #   # x h <HH:MM:SS> <DD/MM/YYYY> <S> : GPS time (every new second, last number is seconds since EPOCH)'',
      ''# #   # x s <T> C <P> hPa <A> m : temperature <T>, pressure <P> and altitude (from pressure) <A>'',
      ''# #   # x g <LAT> <LON> <ALT>   : GPS data - latitude, longitude, altitude'',
      ''# #   # x v <HV1> <HV2>         : HV voltages for channels 1 and 2'',
      ''# #   # x b <B1> <B2> <B3>      : baselines (NOT IMPLEMENTED IN LAGO)'',
      ''# # In case of error, an unfinished line will be finished by # E @@@'',
      ''# # Followed by a line with # E <N> and the error message in human readable format, where <N> is the error code:'',
      ''# #   # E 1 : read timeout of 2 seconds'',
      ''# #   # E 2 : too many buffer reading tries'',
      ''# #   # E 3 : unknown word from FPGA'',
      ''# #'',
      ''# # Current registers setting'',
      ''# #'']"

definition new_file :: "daq_env \<Rightarrow> io \<Rightarrow> daq \<Rightarrow> daq res" where
  "new_file e s d =
     (let d = (if \<not> d_toStdout d then open_file e d else d)
      in bindE (emits header_text d) (\<lambda>d.
         bindE (dev_read CFG CFG_TRLVL_1_OFFSET s) (\<lambda>t1.
         bindE (emit (''# x c T1 '' @ show_d t1) d) (\<lambda>d.
         bindE (dev_read CFG CFG_TRLVL_2_OFFSET s) (\<lambda>t2.
         bindE (emit (''# x c T2 '' @ show_d t2) d) (\<lambda>d.
         bindE (dev_read CFG CFG_HV1_OFFSET s) (\<lambda>h1.
         bindE (emit (''# x c HV1 '' @ show_fix 1 (hv_of_dac h1) @ '' mV'') d) (\<lambda>d.
         bindE (dev_read CFG CFG_HV2_OFFSET s) (\<lambda>h2.
         bindE (emit (''# x c HV2 '' @ show_fix 1 (hv_of_dac h2) @ '' mV'') d) (\<lambda>d.
         bindE (dev_read CFG CFG_TR_SCAL_A_OFFSET s) (\<lambda>sa.
         bindE (emit (''# x c SC1 '' @ show_d sa) d) (\<lambda>d.
         bindE (dev_read CFG CFG_TR_SCAL_B_OFFSET s) (\<lambda>sb.
         emits ([''# x c SC2 '' @ show_d sb,
                 ''# # This file was started on '' @ hostname e,
                 ''# # Machine local time was '' @ local_time e]
                @ (if falseGPS d then [''# # WARNING, there is no GPS, using PC time''] else [])
                @ [''# #'']) d)))))))))))))"

section \<open>The words of the buffer\<close>

definition half :: "nat \<Rightarrow> u32 \<Rightarrow> int" where
  \<comment> \<open>the signed 16-bit half at byte \<open>2 * k\<close> of the word\<close>
  "half k wo = to_i16 (uint (drop_bit (16 * k) wo))"

definition sample_value :: "int \<Rightarrow> int" where
  "sample_value ch = to_i16 (cshr ch 13 * 2 ^ 14 + cshr ch 13 * 2 ^ 15 + ch)"

definition sample_line :: "u32 \<Rightarrow> string" where
  "sample_line wo =
     pad 5 (show_int (sample_value (half 0 wo))) @ '' '' @ pad 5 (show_int (sample_value (half 1 wo)))"

definition on_sample :: "u32 \<Rightarrow> daq \<Rightarrow> daq res" where
  "on_sample wo d =
     bindE (emit (sample_line wo) d) (\<lambda>d.
     let a = half 0 wo; b = half 1 wo; d = d\<lparr>mtd_iBin := to_i32 (mtd_iBin d + 1)\<rparr>
     in Inr (if mtd_iBin d = MTD_BLBIN
             then d\<lparr>mtd_bl := (mtd_bl d)[0 := to_i32 (mtd_bl d ! 0 + a), 1 := to_i32 (mtd_bl d ! 1 + b)],
                    mtd_bl2 := (mtd_bl2 d)[0 := to_i32 (mtd_bl2 d ! 0 + a * a),
                                           1 := to_i32 (mtd_bl2 d ! 1 + b * b)],
                    mtd_cbl := to_i32 (mtd_cbl d + 1)\<rparr>
             else d))"

definition on_trigger :: "u32 \<Rightarrow> daq \<Rightarrow> daq res" where
  "on_trigger wo d =
     (let trig = unat (drop_bit 27 wo AND 0x7)
      in bindE (emit (''# t '' @ show_nat trig @ '' '' @ show_nat (unat (wo AND 0x7FFFFFF))) d) (\<lambda>d.
         Inr (d\<lparr>rates_trig := (rates_trig d)[trig := to_i32 (rates_trig d ! trig + 1)], mtd_iBin := 0\<rparr>)))"

definition on_counter :: "u32 \<Rightarrow> daq \<Rightarrow> daq res" where
  "on_counter wo d =
     (let pnt = mtd_pulse_cnt d; cnt = uint (wo AND 0x3FFFFFFF); dp = cnt - pnt - 1;
          d = d\<lparr>mtd_pulse_pnt := pnt, mtd_pulse_cnt := cnt, mtd_dp := dp,
                mtd_cdp := if dp > 0 \<and> pnt \<noteq> 0 then to_i32 (mtd_cdp d + dp) else mtd_cdp d\<rparr>
      in emit (''# c '' @ show_int cnt) d)"

definition with_bmp :: "(bmp180 \<Rightarrow> i2c \<Rightarrow> (flt \<times> i2c) res) \<Rightarrow> daq \<Rightarrow> (flt \<times> daq) res" where
  "with_bmp f d =
     (case d_bmp d of None \<Rightarrow> Inl NullDeref
      | Some b \<Rightarrow> bindE (f b (d_i2c d)) (\<lambda>(v, i). Inr (v, d\<lparr>d_i2c := i\<rparr>)))"

definition pps_clock :: "daq_env \<Rightarrow> io \<Rightarrow> u32 \<Rightarrow> daq \<Rightarrow> daq res" where
  "pps_clock e s wo d =
     (if falseGPS d then
        let d = d\<lparr>fileDate := (fileDate d)\<lparr>tm_sec := tm_sec (fileDate d) + 1\<rparr>\<rparr>
        in if tm_sec (fileDate d) = 60 \<and> tm_min (fileDate d) = 59
           then (if \<not> d_toStdout d then new_file e s d else Inr d)
           else Inr (normalise d)
      else
        let h = uint (drop_bit 16 wo AND 0xFF)
        in bindE
             (if to_u32 (tm_hour (fileDate d)) \<noteq> h then
                let d = (if to_u32 (tm_hour (fileDate d)) > h
                         then d\<lparr>fileDate := (fileDate d)\<lparr>tm_mday := tm_mday (fileDate d) + 1\<rparr>\<rparr> else d);
                    d = d\<lparr>fileDate := (fileDate d)\<lparr>tm_hour := h\<rparr>\<rparr>
                in if \<not> d_toStdout d then new_file e s d else Inr d
              else Inr d)
             (\<lambda>d. Inr (d\<lparr>fileDate := (fileDate d)\<lparr>tm_hour := h,
                           tm_min := uint (drop_bit 8 wo AND 0xFF), tm_sec := uint (wo AND 0xFF)\<rparr>\<rparr>)))"

definition hv_scale :: "flt res" where
  "hv_scale = fdiv DOUBLE XADC_RDIV_VAL XADC_BASE_HVDIV"

definition time_line :: "u32 \<Rightarrow> daq \<Rightarrow> string" where
  "time_line wo d =
     (let t = fileDate d
      in ''# x h   '' @ show_int0 2 (tm_hour t) @ '':'' @ show_int0 2 (tm_min t) @ '':'' @ show_int0 2 (tm_sec t)
         @ '' '' @ show_int0 2 (tm_mday t) @ ''/'' @ show_int0 2 (tm_mon t + 1) @ ''/''
         @ show_int0 4 (tm_year t + 1900) @ '' '' @ show_int (fileTime d) @ '' '' @ show_nat (unat (wo AND 0x03FFFFFF)))"

definition on_pps :: "daq_env \<Rightarrow> io \<Rightarrow> u32 \<Rightarrow> daq \<Rightarrow> daq res" where
  "on_pps e s wo d =
     bindE (pps_clock e s wo d) (\<lambda>d.
     let d = normalise (d\<lparr>mtd_seconds := to_i32 (mtd_seconds d + 1)\<rparr>)
     in bindE (emit (time_line wo d) d) (\<lambda>d.
        bindE hv_scale (\<lambda>k.
        bindE (get_voltage XADC_AI2_OFFSET s) (\<lambda>v2.
        bindE (get_voltage XADC_AI3_OFFSET s) (\<lambda>v3.
        bindE (emit (''# x v '' @ show_fix 1 (fmul DOUBLE v2 k) @ '' '' @ show_fix 1 (fmul DOUBLE v3 k)) d) (\<lambda>d.
        bindE (get_temp_AD592 XADC_AI0_OFFSET s) (\<lambda>a0.
        bindE (get_temp_AD592 XADC_AI1_OFFSET s) (\<lambda>a1.
        bindE (emit (''# p '' @ show_int (to_u32 (hack d)) @ '' '' @ show_fix 1 a0 @ '' '' @ show_fix 1 a1)
                 (d\<lparr>hack := to_i32 (hack d + 1)\<rparr>)) (\<lambda>d.
        Inr (d\<lparr>d_console := d_console d
                 @ (if hack d smod 60 = 0 then [[]] else [])
                 @ [''rates '' @ pad 5 (show_int (rate1 d)) @ '' '' @ pad 5 (show_int (rate2 d))
                    @ '', PPS '' @ show_int (to_u32 (hack d)) @ ''        '' @ [CR]]\<rparr>))))))))))"

definition gps_fixed :: "u32 \<Rightarrow> flt res" where
  "gps_fixed wo = fdiv DOUBLE (f_of_int DOUBLE (cshr (to_i32 (uint (wo AND 0xFFFFFF) * 2 ^ 8)) 8)) (fdec 65536 0)"

definition on_gps :: "u32 \<Rightarrow> daq \<Rightarrow> daq res" where
  "on_gps wo d =
     (let k = drop_bit 24 wo AND 0x7
      in if k = 0 then bindE (gps_fixed wo) (\<lambda>v. Inr (d\<lparr>gps_lat := v\<rparr>))
         else if k = 1 then bindE (gps_fixed wo) (\<lambda>v. Inr (d\<lparr>gps_lon := v\<rparr>))
         else if k = 2 then bindE (gps_fixed wo) (\<lambda>v.
           emit (''# x g '' @ show_fix 6 (loc_latitude (g_data d)) @ '' '' @ show_fix 6 (loc_longitude (g_data d))
                 @ '' '' @ show_fix 2 (loc_altitude (g_data d))) (d\<lparr>gps_alt := v\<rparr>))
         else Inr d)"

definition on_status :: "daq_env \<Rightarrow> io \<Rightarrow> u32 \<Rightarrow> daq \<Rightarrow> daq res" where
  "on_status e s wo d =
     (let k = drop_bit 27 wo
      in if k = 0x18 then emit (''# x f '' @ show_nat (unat (wo AND 0x07FFFFFF)) @ '' '') d
         else if k = 0x19 then
           bindE (with_bmp bmp180_temperature d) (\<lambda>(t, d). emit (''# x t '' @ show_fix 1 t @ '' '') d)
         else if k = 0x1A then
           bindE (with_bmp bmp180_pressure d) (\<lambda>(p, d).
           bindE (fdiv DOUBLE p (fdec 100 0)) (\<lambda>h. emit (''# x p '' @ show_fix 2 h @ '' '') d))
         else if k = 0x1B then on_pps e s wo d
         else if k = 0x1C then on_gps wo d
         else if k = 0x1D then
           bindE (emit (''# r1 '' @ show_nat (unat (wo AND 0x00FFFFFF)) @ '' '') d) (\<lambda>d.
           Inr (d\<lparr>rate1 := uint (wo AND 0x00FFFFFF)\<rparr>))
         else if k = 0x1E then
           bindE (emit (''# r2 '' @ show_nat (unat (wo AND 0x00FFFFFF)) @ '' '') d) (\<lambda>d.
           Inr (d\<lparr>rate2 := uint (wo AND 0x00FFFFFF)\<rparr>))
         else emits [''# E @@@'', ''# E 3 - unknown word from FPGA: '' @ show_nat (unat k) @ '' '' @ show_hex (unat k)] d)"

definition decode_word :: "daq_env \<Rightarrow> io \<Rightarrow> u32 \<Rightarrow> daq \<Rightarrow> daq res" where
  "decode_word e s wo d =
     (if drop_bit 30 wo = 0 then on_sample wo d
      else if drop_bit 30 wo = 1 then on_trigger wo d
      else if drop_bit 30 wo = 2 then on_counter wo d
      else on_status e s wo d)"

section \<open>The ring buffer\<close>

definition first_time :: "daq_env \<Rightarrow> io \<Rightarrow> daq \<Rightarrow> daq res" where
  "first_time e s d =
     (if \<not> fFirstTime d then Inr d
      else bindE (dev_read CFG CFG_RESET_GRAL_OFFSET s) (\<lambda>g.
        let d = d\<lparr>fileTime := now e, fileDate := gmtime (now e)\<rparr>;
            d = (if drop_bit 4 g AND 1 = 1 then d\<lparr>falseGPS := True\<rparr>
                 else normalise (d\<lparr>fileDate := \<lparr>tm_sec = 55, tm_min = 55, tm_hour = 10, tm_mday = 29,
                                                 tm_mon = 8, tm_year = 2018\<rparr>\<rparr>))
        in bindE (new_file e s d) (\<lambda>d. Inr (d\<lparr>fFirstTime := False\<rparr>))))"

text \<open>The position of the reader: the byte offset of the last word read, and the size of the ring.\<close>

record ring =
  current :: int
  limit :: int

text \<open>The words from byte \<open>i\<close> to byte \<open>readend\<close>; \<open>current\<close> follows inside the loop.\<close>

function read_words :: "daq_env \<Rightarrow> io \<Rightarrow> int \<Rightarrow> int \<Rightarrow> ring \<Rightarrow> daq \<Rightarrow> (ring \<times> daq) res" where
  "read_words e s i readend q d =
     (if i < readend then
        bindE (dev_read MEM (nat i) s) (\<lambda>wo.
        bindE (decode_word e s wo d) (\<lambda>d.
        read_words e s (i + 4) readend (q\<lparr>current := i\<rparr>) d))
      else Inr (q, d))"
  by pat_completeness auto
termination by (relation "measure (\<lambda>(_, _, i, r, _). nat (r - i))") auto

declare read_words.simps [simp del]

text \<open>Where a call starts and stops reading, from the last position and the writer's.\<close>

definition read_window :: "int \<Rightarrow> int \<Rightarrow> int \<Rightarrow> int \<times> int" where
  "read_window lmt cur pos =
     (if cur < pos + 4 then (cur + 4, pos)
      else if cur > pos then (cur + 4, lmt)
      else (0, lmt))"

text \<open>At each call the terminal becomes the output if that was asked for.\<close>

definition start_call :: "daq \<Rightarrow> daq" where
  "start_call d = (if d_toStdout d then d\<lparr>fhout := StdOut\<rparr> else d)"

definition read_buffer :: "daq_env \<Rightarrow> io \<Rightarrow> int \<Rightarrow> ring \<Rightarrow> daq \<Rightarrow> (int \<times> ring \<times> daq) res" where
  "read_buffer e s position q d =
     bindE (first_time e s (start_call d)) (\<lambda>d.
         bindE (cmul position 8) (\<lambda>pos.
         let q = (if current q = limit q - 4 then q\<lparr>current := - 4\<rparr> else q);
             (readinit, readend) = read_window (limit q) (current q) pos
         in bindE (if current q \<noteq> pos then read_words e s readinit readend q d else Inr (q, d)) (\<lambda>(q, d).
            Inr (1, q, d))))"

section \<open>What decoding leaves alone\<close>

text \<open>
  The output only grows; the flags do not change; an acquisition to the terminal stays there.
\<close>

definition keeps :: "daq \<Rightarrow> daq \<Rightarrow> bool" where
  "keeps d d' \<longleftrightarrow> d_toStdout d' = d_toStdout d \<and> fFirstTime d' = fFirstTime d
     \<and> falseGPS d' = falseGPS d \<and> d_charFile d' = d_charFile d
     \<and> (d_toStdout d \<longrightarrow> fhout d' = fhout d) \<and> (\<exists>ls. d_out d' = d_out d @ ls)"

definition kept :: "daq \<Rightarrow> daq res \<Rightarrow> bool" where
  "kept d r \<longleftrightarrow> (\<forall>d'. r = Inr d' \<longrightarrow> keeps d d')"

named_theorems kept_rules "decoding steps that keep what has to be kept"

lemma keeps_refl [simp]: "keeps d d"
  by (simp add: keeps_def)

lemma keeps_trans: "keeps a b \<Longrightarrow> keeps b c \<Longrightarrow> keeps a c"
  by (auto simp: keeps_def)

lemma kept_Inr [kept_rules]: "keeps d d' \<Longrightarrow> kept d (Inr d')"
  by (simp add: kept_def)

lemma kept_bind [kept_rules]:
  fixes m :: "daq res"
  assumes "kept d m" and "\<And>d1. keeps d d1 \<Longrightarrow> kept d (f d1)"
  shows "kept d (bindE m f)"
  using assms by (cases m) (auto simp: kept_def)

lemma kept_bind_u32 [kept_rules]: "(\<And>v. kept d (f v)) \<Longrightarrow> kept d (bindE m f)" for m :: "u32 res"
  by (cases m) (auto simp: kept_def)

lemma kept_bind_flt [kept_rules]: "(\<And>v. kept d (f v)) \<Longrightarrow> kept d (bindE m f)" for m :: "flt res"
  by (cases m) (auto simp: kept_def)

lemma kept_if [kept_rules]: "(b \<Longrightarrow> kept d m) \<Longrightarrow> (\<not> b \<Longrightarrow> kept d m') \<Longrightarrow> kept d (if b then m else m')"
  by simp

lemma kept_emit [kept_rules]: "keeps d d1 \<Longrightarrow> kept d (emit l d1)"
  by (auto simp: kept_def emit_def keeps_def)

lemma kept_emits [kept_rules]:
  assumes "keeps d d1"
  shows "kept d (emits ls d1)"
  unfolding kept_def emits_def
proof (intro allI impI)
  fix d' assume "runE (\<lambda>d l. emit l d) d1 ls = Inr d'"
  then show "keeps d d'"
    using assms by (rule runE_invariant) (metis kept_def kept_emit)
qed

lemma kept_with_bmp [kept_rules]:
  assumes "keeps d d1" and "\<And>v d2. keeps d d2 \<Longrightarrow> kept d (f v d2)"
  shows "kept d (bindE (with_bmp g d1) (\<lambda>(v, d2). f v d2))"
proof (cases "with_bmp g d1")
  case (Inl e)
  then show ?thesis by (simp add: kept_def)
next
  case (Inr p)
  then obtain i where "p = (fst p, d1\<lparr>d_i2c := i\<rparr>)"
    by (auto simp: with_bmp_def res_simps split: option.splits)
  moreover have "keeps d (d1\<lparr>d_i2c := i\<rparr>)" using assms(1) by (simp add: keeps_def)
  ultimately show ?thesis using Inr assms(2) by (metis bindE_Inr prod.case)
qed

lemma keeps_normalise: "keeps d d1 \<Longrightarrow> keeps d (normalise d1)"
  by (simp add: keeps_def normalise_def Let_def)

lemma keeps_open: "keeps d d1 \<Longrightarrow> \<not> d_toStdout d1 \<Longrightarrow> keeps d (open_file e d1)"
  by (simp add: keeps_def open_file_def normalise_def Let_def)

lemma kept_new_file [kept_rules]: "keeps d d1 \<Longrightarrow> kept d (new_file e s d1)"
  unfolding new_file_def Let_def
  by (intro kept_rules) (auto intro: keeps_open)

lemma kept_pps_clock [kept_rules]: "keeps d d1 \<Longrightarrow> kept d (pps_clock e s wo d1)"
  unfolding pps_clock_def Let_def
  by (intro kept_rules keeps_normalise) (auto simp: keeps_def split: if_splits)

lemma kept_on_sample [kept_rules]: "keeps d d1 \<Longrightarrow> kept d (on_sample wo d1)"
  unfolding on_sample_def Let_def by (intro kept_rules) (auto simp: keeps_def)

lemma kept_on_trigger [kept_rules]: "keeps d d1 \<Longrightarrow> kept d (on_trigger wo d1)"
  unfolding on_trigger_def Let_def by (intro kept_rules) (auto simp: keeps_def)

lemma kept_on_counter [kept_rules]: "keeps d d1 \<Longrightarrow> kept d (on_counter wo d1)"
  unfolding on_counter_def Let_def by (intro kept_rules) (auto simp: keeps_def)

lemma kept_on_pps [kept_rules]: "keeps d d1 \<Longrightarrow> kept d (on_pps e s wo d1)"
  unfolding on_pps_def Let_def
  by (intro kept_rules keeps_normalise; simp add: keeps_def normalise_def Let_def)

lemma kept_on_gps [kept_rules]: "keeps d d1 \<Longrightarrow> kept d (on_gps wo d1)"
  unfolding on_gps_def Let_def by (intro kept_rules) (auto simp: keeps_def)

lemma kept_on_status [kept_rules]: "keeps d d1 \<Longrightarrow> kept d (on_status e s wo d1)"
  unfolding on_status_def Let_def by (intro kept_rules) (auto simp: keeps_def)

lemma kept_decode_word [kept_rules]: "keeps d d1 \<Longrightarrow> kept d (decode_word e s wo d1)"
  unfolding decode_word_def by (intro kept_rules) auto

lemma decode_word_keeps: "decode_word e s wo d = Inr d' \<Longrightarrow> keeps d d'"
  using kept_decode_word [of d d e s wo] by (simp add: kept_def)

text \<open>Decoding reads the configuration and the converters, never the ring.\<close>

definition same_regs :: "io \<Rightarrow> io \<Rightarrow> bool" where
  "same_regs s s' \<longleftrightarrow> (\<forall>b \<in> {CFG, XADC}. \<forall>off. dev_read b off s' = dev_read b off s)"

lemma dev_read_regs: "same_regs s s' \<Longrightarrow> b = CFG \<or> b = XADC \<Longrightarrow> dev_read b off s' = dev_read b off s"
  by (auto simp: same_regs_def)

lemma new_file_regs: "same_regs s s' \<Longrightarrow> new_file e s' = new_file e s"
  by (rule ext) (simp add: new_file_def dev_read_regs)

lemma on_pps_regs:
  assumes "same_regs s s'"
  shows "on_pps e s' = on_pps e s"
proof -
  have "pps_clock e s' = pps_clock e s"
    by (intro ext) (simp only: pps_clock_def new_file_regs [OF assms])
  moreover have "get_voltage off s' = get_voltage off s" "get_temp_AD592 off s' = get_temp_AD592 off s" for off
    by (simp_all add: get_voltage_def get_temp_AD592_def dev_read_regs [OF assms])
  ultimately show ?thesis by (intro ext) (simp only: on_pps_def)
qed

lemma decode_word_regs: "same_regs s s' \<Longrightarrow> decode_word e s' = decode_word e s"
  by (intro ext) (simp only: decode_word_def on_status_def on_pps_regs)

end
