(* ===== verification/Readout.thy ===== *)
theory Readout
  imports Daq
begin

text \<open>
  What the reading of the ring buffer promises. The programmable logic writes a stream of words
  \<open>w 0, w 1, \<dots>\<close>, word number \<open>j\<close> into cell \<open>j mod N\<close> of a ring of \<open>N\<close> cells; the program
  remembers where it stopped. The specification counts words: after \<open>W\<close> words written and \<open>R\<close>
  read, one call reads on to \<open>next_read N R W\<close>, in order, and nothing twice.
\<close>

section \<open>The specification\<close>

text \<open>
  Up to the writer when it has not wrapped round, otherwise up to the end of the ring; and
  nothing when all the cells but one are waiting to be read.
\<close>

definition next_read :: "nat \<Rightarrow> nat \<Rightarrow> nat \<Rightarrow> nat" where
  "next_read N R W =
     (if R mod N \<le> W mod N then R + (W mod N - R mod N)
      else if R mod N = W mod N + 1 then R
      else R + (N - R mod N))"

definition decode_all :: "daq_env \<Rightarrow> io \<Rightarrow> u32 list \<Rightarrow> daq \<Rightarrow> daq res" where
  "decode_all e s ws d = runE (\<lambda>d wo. decode_word e s wo d) d ws"

text \<open>The abstraction: cell contents and the reader's position.\<close>

definition ring_holds :: "nat \<Rightarrow> (nat \<Rightarrow> u32) \<Rightarrow> nat \<Rightarrow> io \<Rightarrow> bool" where
  "ring_holds N w W s \<longleftrightarrow> (\<forall>j < W. W \<le> j + N \<longrightarrow> peek MEM s (4 * (j mod N)) = w j)"

definition at_word :: "nat \<Rightarrow> nat \<Rightarrow> ring \<Rightarrow> bool" where
  "at_word N R q \<longleftrightarrow> limit q = 4 * int N \<and>
     (current q = 4 * int (R mod N) - 4 \<or> (R mod N = 0 \<and> current q = limit q - 4))"

section \<open>The loop\<close>

lemma read_words_run:
  assumes "\<And>j. j < n \<Longrightarrow> dev_read MEM (4 * (a + j)) s = Inr (f j)"
  shows "read_words e s (4 * int a) (4 * int (a + n)) q d
    = bindE (decode_all e s (map f [0..<n]) d)
        (\<lambda>d. Inr (if n = 0 then q else q\<lparr>current := 4 * int (a + n) - 4\<rparr>, d))"
  using assms
proof (induction n arbitrary: a f q d)
  case 0
  then show ?case by (simp add: read_words.simps [of _ _ "4 * int a"] decode_all_def)
next
  case (Suc n)
  have d0: "dev_read MEM (nat (4 * int a)) s = Inr (f 0)"
    using Suc.prems [of 0] by (simp add: nat_mult_distrib)
  have step: "dev_read MEM (4 * (Suc a + j)) s = Inr (f (Suc j))" if "j < n" for j
    using Suc.prems [of "Suc j"] that by simp
  have list: "map f [0..<Suc n] = f 0 # map (\<lambda>j. f (Suc j)) [0..<n]"
    by (simp add: upt_conv_Cons map_Suc_upt [symmetric] del: upt_Suc)
  have i: "4 * int a + 4 = 4 * int (Suc a)" "4 * int (a + Suc n) = 4 * int (Suc a + n)" by simp_all
  show ?case
    unfolding read_words.simps [of _ _ "4 * int a"] list
    using Suc.IH [OF step] d0
    by (simp add: decode_all_def i bindE_assoc del: of_nat_add of_nat_Suc) 
       (auto intro!: bindE_cong)
qed

section \<open>One call\<close>

lemma wrap_cases:
  fixes R W N :: nat
  assumes "0 < N" and "R \<le> W" and "W < R + N"
  obtains (straight) a b where "R mod N = a" and "W mod N = b" and "a \<le> b" and "b < N" and "W = R + (b - a)"
  | (wrapped) a b where "R mod N = a" and "W mod N = b" and "b < a" and "a < N" and "W = R + (N - a) + b"
proof -
  obtain k where k: "W = R + k" "k < N" using assms by (metis le_Suc_ex nat_add_left_cancel_less)
  define a where "a = R mod N"
  have a: "a < N" using assms(1) by (simp add: a_def)
  have b: "W mod N = (a + k) mod N" by (simp add: k(1) a_def mod_simps)
  show thesis
  proof (cases "a + k < N")
    case True
    then show thesis using b k straight [of a "a + k"] by (simp add: a_def)
  next
    case False
    then have "(a + k) mod N = a + k - N" using a k(2) by (simp add: mod_if)
    then have "W mod N = a + k - N" using b by simp
    moreover have "a + k - N < a" using k(2) False by linarith
    moreover have "W = R + (N - a) + (a + k - N)" using k(1) a False by linarith
    ultimately show thesis using wrapped [of a "a + k - N"] a by (simp add: a_def)
  qed
qed

lemma next_read_bounds:
  assumes "0 < N" and "R \<le> W" and "W < R + N"
  shows "R \<le> next_read N R W \<and> next_read N R W \<le> W \<and> R mod N + (next_read N R W - R) \<le> N"
  using assms by (cases rule: wrap_cases) (auto simp: next_read_def)

text \<open>The cells of one call lie side by side.\<close>

lemma next_read_cells:
  assumes "0 < N" and "R \<le> W" and "W < R + N" and "j < next_read N R W - R"
  shows "(R + j) mod N = R mod N + j \<and> R + j < W"
proof -
  have *: "R mod N + j < N" "R + j < W" using next_read_bounds [OF assms(1-3)] assms(4) by linarith+
  then have "(R mod N + j) mod N = R mod N + j" by simp
  then show ?thesis using *(2) by (simp only: mod_add_left_eq)
qed

lemma at_word_next:
  assumes "0 < N" and "R \<le> W" and "W < R + N" and "limit q = 4 * int N"
    and "current q = 4 * int (R mod N + (next_read N R W - R)) - 4"
  shows "at_word N (next_read N R W) q"
proof -
  define a where "a = R mod N"
  define m where "m = next_read N R W - R"
  have m: "next_read N R W = R + m" "a + m \<le> N"
    using next_read_bounds [OF assms(1-3)] unfolding m_def a_def by (simp, blast)
  have mod: "(R + m) mod N = (a + m) mod N" by (simp add: a_def mod_simps)
  have cur: "current q = 4 * int (a + m) - 4" using assms(5) by (simp only: a_def m_def)
  show ?thesis
  proof (cases "a + m = N")
    case True
    then show ?thesis using assms(4) cur mod by (simp add: at_word_def m(1))
  next
    case False
    then show ?thesis using assms(4) cur mod m(2) by (simp add: at_word_def m(1))
  qed
qed

lemma one_call:
  assumes q: "limit q = 4 * int N" "current q = 4 * int a - 4" and ab: "a < N" "b < N"
    and n: "n = (if a \<le> b then b - a else if a = b + 1 then 0 else N - a)"
    and win: "read_window (limit q) (current q) (4 * int b) = (readinit, readend)"
    and mem: "\<And>j. j < n \<Longrightarrow> dev_read MEM (4 * (a + j)) s = Inr (f j)"
  shows "(if current q \<noteq> 4 * int b then read_words e s readinit readend q d else Inr (q, d))
    = bindE (decode_all e s (map f [0..<n]) d) (\<lambda>d. Inr (q\<lparr>current := 4 * int (a + n) - 4\<rparr>, d))"
proof (cases "a = b + 1")
  case True
  then have "n = 0" "current q = 4 * int b" using n q by simp_all
  moreover from this True have "q\<lparr>current := 4 * int (a + n) - 4\<rparr> = q" by simp
  ultimately show ?thesis by (simp add: decode_all_def)
next
  case False
  have w: "readinit = 4 * int a" "readend = 4 * int (a + n)" and ne: "current q \<noteq> 4 * int b"
    using win q ab False unfolding n read_window_def by (auto split: if_splits)
  have "q\<lparr>current := 4 * int (a + n) - 4\<rparr> = q" if "n = 0" using q(2) that by simp
  then show ?thesis
    using read_words_run [OF mem, of n e q d] ne unfolding w by (cases "n = 0") simp_all
qed

lemma read_buffer_call:
  assumes N: "0 < N" and RW: "R \<le> W" "W < R + N" and q: "at_word N R q"
    and mem: "ring_holds N w W s" "io_map s MEM = Some n" "4 * N \<le> n"
    and pos: "position * 8 = 4 * int (W mod N)" "in_i32 (position * 8)" and d: "\<not> fFirstTime d"
  shows "\<exists>q'. at_word N (next_read N R W) q' \<and>
    read_buffer e s position q d =
      bindE (decode_all e s (map w [R..<next_read N R W]) (start_call d)) (\<lambda>d'. Inr (1, q', d'))"
proof -
  define q0 where "q0 = (if current q = limit q - 4 then q\<lparr>current := - 4\<rparr> else q)"
  have q0: "limit q0 = 4 * int N" "current q0 = 4 * int (R mod N) - 4"
    using q N mod_less_divisor [OF N, of R] by (auto simp: at_word_def q0_def)
  obtain ri re where win: "read_window (limit q0) (current q0) (4 * int (W mod N)) = (ri, re)"
    by (cases "read_window (limit q0) (current q0) (4 * int (W mod N))")
  define m where "m = next_read N R W - R"
  have m: "m = (if R mod N \<le> W mod N then W mod N - R mod N
      else if R mod N = W mod N + 1 then 0 else N - R mod N)"
    by (simp add: m_def next_read_def)
  have "R mod N + m \<le> N" using next_read_bounds [OF N RW] by (simp only: m_def)
  have cell: "dev_read MEM (4 * (R mod N + j)) s = Inr (w (R + j))" if "j < m" for j
  proof -
    have j: "(R + j) mod N = R mod N + j" "R + j < W"
      using next_read_cells [OF N RW] that by (simp_all add: m_def)
    have "x + m \<le> N \<Longrightarrow> 4 * (x + j) + 4 \<le> n" for x using that mem(3) by simp
    then have "4 * (R mod N + j) + 4 \<le> n" using \<open>R mod N + m \<le> N\<close> by blast
    moreover have "W \<le> R + j + N" using RW(2) by simp
    then have "peek MEM s (4 * (R mod N + j)) = w (R + j)"
      using mem(1) j unfolding ring_holds_def by metis
    ultimately show ?thesis using mem(2) by (simp add: dev_read_def accessible_def)
  qed
  have list: "map (\<lambda>j. w (R + j)) [0..<m] = map w [R..<next_read N R W]"
    by (intro nth_equalityI) (simp_all add: m_def)
  let ?q' = "q0\<lparr>current := 4 * int (R mod N + m) - 4\<rparr>"
  have "at_word N (next_read N R W) ?q'" using at_word_next [OF N RW, of ?q'] q0 by (simp add: m_def)
  moreover have "read_buffer e s position q d =
      bindE (decode_all e s (map w [R..<next_read N R W]) (start_call d)) (\<lambda>d'. Inr (1, ?q', d'))"
  proof -
    have "cmul position 8 = Inr (4 * int (W mod N))" using pos by (simp add: cmul_def)
    moreover have "\<not> fFirstTime (start_call d)" using d by (simp add: start_call_def)
    ultimately have "read_buffer e s position q d =
        bindE (if current q0 \<noteq> 4 * int (W mod N) then read_words e s ri re q0 (start_call d)
               else Inr (q0, start_call d)) (\<lambda>(q, d). Inr (1, q, d))"
      using win by (simp add: read_buffer_def first_time_def Let_def flip: q0_def)
    also have "\<dots> = bindE (bindE (decode_all e s (map w [R..<next_read N R W]) (start_call d))
        (\<lambda>d. Inr (?q', d))) (\<lambda>(q, d). Inr (1, q, d))"
      using one_call [OF q0 _ _ m win cell, of e "start_call d"] mod_less_divisor [OF N]
      by (simp only: list)
    finally show ?thesis by (simp only: bindE_assoc bindE_Inr prod.case)
  qed
  ultimately show ?thesis by blast
qed

text \<open>
  C2. One call of \<^verbatim>\<open>read_buffer\<close> refines the specification. If \<open>W\<close> words have been written, \<open>R\<close>
  read, and the writer is less than one lap ahead, the call decodes exactly the words
  \<open>R \<dots> next_read N R W - 1\<close> of the stream, in order, and then stands at the first word not read.
\<close>

theorem read_buffer_refines:
  assumes "0 < N" and "R \<le> W" and "W < R + N" and "at_word N R q"
    and "ring_holds N w W s" and "io_map s MEM = Some n" and "4 * N \<le> n"
    and "position * 8 = 4 * int (W mod N)" and "in_i32 (position * 8)" and "\<not> fFirstTime d"
  shows "\<exists>q'. at_word N (next_read N R W) q' \<and>
    read_buffer e s position q d =
      bindE (decode_all e s (map w [R..<next_read N R W]) (start_call d)) (\<lambda>d'. Inr (1, q', d'))"
  using assms by (rule read_buffer_call)

section \<open>The acquisition as a system\<close>

text \<open>
  The writer stores pairs of words and stays less than one lap ahead of the reader; between its
  steps the program reads. The state is: words written, words read, the registers and memory,
  the position of the reader, and the decoder.
\<close>

type_synonym acq = "nat \<times> nat \<times> io \<times> ring \<times> daq"

definition put_word :: "nat \<Rightarrow> (nat \<Rightarrow> u32) \<Rightarrow> nat \<Rightarrow> io \<Rightarrow> io" where
  "put_word N w j s = s\<lparr>io_reg := (io_reg s)(MEM := (io_reg s MEM)(4 * (j mod N) := w j))\<rparr>"

inductive acq_step :: "daq_env \<Rightarrow> nat \<Rightarrow> (nat \<Rightarrow> u32) \<Rightarrow> acq \<Rightarrow> acq \<Rightarrow> bool" for e N w where
  writes: "W + 2 < R + N
    \<Longrightarrow> acq_step e N w (W, R, s, q, d) (W + 2, R, put_word N w (W + 1) (put_word N w W s), q, d)"
| reads: "read_buffer e s (int (W mod N div 2)) q d = Inr (1, q', d')
    \<Longrightarrow> acq_step e N w (W, R, s, q, d) (W, next_read N R W, s, q', d')"

inductive_cases acq_stepE [elim]: "acq_step e N w x y"

definition acq_reachable :: "daq_env \<Rightarrow> nat \<Rightarrow> (nat \<Rightarrow> u32) \<Rightarrow> acq \<Rightarrow> acq \<Rightarrow> bool" where
  "acq_reachable e N w = (acq_step e N w)\<^sup>*\<^sup>*"

text \<open>The invariant: everything read so far has been decoded once, in the order of writing.\<close>

definition acq_inv :: "daq_env \<Rightarrow> nat \<Rightarrow> (nat \<Rightarrow> u32) \<Rightarrow> io \<Rightarrow> daq \<Rightarrow> acq \<Rightarrow> bool" where
  "acq_inv e N w s0 d0 x \<longleftrightarrow> (case x of (W, R, s, q, d) \<Rightarrow>
     even W \<and> even R \<and> R \<le> W \<and> W < R + N \<and> at_word N R q \<and> ring_holds N w W s
     \<and> io_map s MEM = io_map s0 MEM \<and> same_regs s0 s \<and> \<not> fFirstTime d \<and> start_call d = d
     \<and> decode_all e s0 (map w [0..<R]) d0 = Inr d)"

text \<open>A ring in use: of even size, inside the mapping, its offsets within an \<^verbatim>\<open>int\<close>.\<close>

definition ring_fits :: "nat \<Rightarrow> io \<Rightarrow> bool" where
  "ring_fits N s \<longleftrightarrow> even N \<and> 0 < N \<and> 4 * N < 2 ^ 31 \<and> (\<exists>n. io_map s MEM = Some n \<and> 4 * N \<le> n)"

lemma dev_read_put: "b \<noteq> MEM \<Longrightarrow> dev_read b off (put_word N w j s) = dev_read b off s"
  by (simp add: put_word_def dev_read_def accessible_def access_fault_def peek_def)

lemma same_regs_put: "same_regs s0 s \<Longrightarrow> same_regs s0 (put_word N w j s)"
  by (simp add: same_regs_def dev_read_put)

lemma ring_holds_put:
  assumes "ring_holds N w W s" and "0 < N"
  shows "ring_holds N w (Suc W) (put_word N w W s)"
  unfolding ring_holds_def
proof (intro allI impI)
  fix j assume j: "j < Suc W" "Suc W \<le> j + N"
  show "peek MEM (put_word N w W s) (4 * (j mod N)) = w j"
  proof (cases "j = W")
    case True
    then show ?thesis by (simp add: peek_def put_word_def)
  next
    case False
    with j have "j < W" "W - j < N" by auto
    then have "j mod N \<noteq> W mod N"
      by (metis less_imp_le mod_eq_dvd_iff_nat nat_dvd_not_less zero_less_diff)
    moreover have "peek MEM s (4 * (j mod N)) = w j" using assms(1) j \<open>j < W\<close> by (simp add: ring_holds_def)
    ultimately show ?thesis by (simp add: peek_def put_word_def)
  qed
qed

lemma next_read_even:
  assumes "even N" "even R" "even W"
  shows "even (next_read N R W)"
proof -
  have "even (R mod N)" "even (W mod N)" using assms by (simp_all add: dvd_mod)
  then show ?thesis using assms by (auto simp: next_read_def)
qed

lemma decode_all_append: "decode_all e s (xs @ ys) d = bindE (decode_all e s xs d) (decode_all e s ys)"
  by (simp add: decode_all_def [abs_def] runE_append)

lemma decode_all_regs: "same_regs s s' \<Longrightarrow> decode_all e s' = decode_all e s"
  by (intro ext) (simp only: decode_all_def decode_word_regs)

lemma decode_all_keeps: "decode_all e s ws d = Inr d' \<Longrightarrow> keeps d d'"
  unfolding decode_all_def
  by (erule runE_invariant [where P = "keeps d"]) (auto intro: keeps_trans decode_word_keeps)

lemma start_call_keeps: "keeps d d' \<Longrightarrow> start_call d = d \<Longrightarrow> start_call d' = d'"
proof -
  assume k: "keeps d d'" and "start_call d = d"
  then have "d_toStdout d \<Longrightarrow> fhout d = StdOut"
    by (simp add: start_call_def) (metis daq.select_convs(3) daq.surjective daq.update_convs(3))
  with k have "d_toStdout d' \<Longrightarrow> fhout d' = StdOut" by (simp add: keeps_def)
  then show ?thesis by (simp add: start_call_def)
qed

lemma acq_step_inv:
  assumes "acq_step e N w x y" and inv: "acq_inv e N w s0 d0 x" and fits: "ring_fits N s0"
  shows "acq_inv e N w s0 d0 y"
  using assms(1)
proof cases
  case (writes W R s q d)
  let ?s1 = "put_word N w W s" and ?s2 = "put_word N w (W + 1) (put_word N w W s)"
  have "0 < N" using fits by (simp add: ring_fits_def)
  then have "ring_holds N w (Suc (Suc W)) ?s2"
    using ring_holds_put [OF ring_holds_put] inv writes by (simp add: acq_inv_def)
  moreover have "same_regs s0 ?s2" using inv writes by (simp add: acq_inv_def same_regs_put)
  moreover have "io_map ?s2 MEM = io_map s0 MEM" using inv writes by (simp add: acq_inv_def put_word_def)
  ultimately show ?thesis using inv writes by (simp add: acq_inv_def)
next
  case (reads s W q d q' d' R)
  then have i: "even W" "even R" "R \<le> W" "W < R + N" "at_word N R q" "ring_holds N w W s"
    "io_map s MEM = io_map s0 MEM" "same_regs s0 s" "\<not> fFirstTime d" "start_call d = d"
    "decode_all e s0 (map w [0..<R]) d0 = Inr d"
    using inv by (simp_all add: acq_inv_def)
  obtain n where N: "even N" "0 < N" "4 * N < 2 ^ 31" "io_map s MEM = Some n" "4 * N \<le> n"
    using fits i(7) by (auto simp: ring_fits_def)
  have "even (W mod N)" using N(1) i(1) by (simp add: dvd_mod)
  then obtain k where k: "W mod N = 2 * k" by (elim evenE)
  have "W mod N < N" using N(2) by simp
  then have pos: "int (W mod N div 2) * 8 = 4 * int (W mod N)" "in_i32 (int (W mod N div 2) * 8)"
    using N(3) by (simp_all add: k in_i32_iff)
  obtain q2 where q2: "at_word N (next_read N R W) q2"
    "read_buffer e s (int (W mod N div 2)) q d
       = bindE (decode_all e s (map w [R..<next_read N R W]) d) (\<lambda>d'. Inr (1, q2, d'))"
    using read_buffer_call [OF N(2) i(3,4,5,6) N(4,5) pos i(9), of e] i(10) by auto
  then have dec: "decode_all e s (map w [R..<next_read N R W]) d = Inr d'" and "q' = q2"
    using reads(3) by (cases "decode_all e s (map w [R..<next_read N R W]) d"; simp)+
  have b: "R \<le> next_read N R W" "next_read N R W \<le> W" using next_read_bounds [OF N(2) i(3,4)] by simp_all
  have "decode_all e s0 (map w [0..<next_read N R W]) d0 = Inr d'"
    using map_nth_upt_append [of 0 R "next_read N R W" w] b i(11) dec decode_all_regs [OF i(8), of e]
    by (metis bindE_Inr decode_all_append le0)
  moreover have "keeps d d'" using dec by (rule decode_all_keeps)
  then have "start_call d' = d'" "\<not> fFirstTime d'"
    using start_call_keeps i(9,10) by (auto simp: keeps_def)
  ultimately show ?thesis
    using reads i b N(1) q2(1) \<open>q' = q2\<close> next_read_even [OF N(1) i(2,1)] by (simp add: acq_inv_def)
qed

text \<open>
  C3. Nothing is lost, repeated or reordered. In every run in which the hardware stays less than
  one lap ahead, and however its steps and the calls of \<^verbatim>\<open>read_buffer\<close> alternate, the state of the
  decoder, and with it the output, is what decoding the first \<open>R\<close> words of the stream, each
  once and in order, gives.
\<close>

theorem acquisition_no_loss:
  assumes "acq_reachable e N w (0, 0, s0, \<lparr>current = - 4, limit = 4 * int N\<rparr>, d0) (W, R, s, q, d)"
    and "ring_fits N s0" and "\<not> fFirstTime d0" and "start_call d0 = d0"
  shows "R \<le> W \<and> decode_all e s0 (map w [0..<R]) d0 = Inr d"
proof -
  have init: "acq_inv e N w s0 d0 (0, 0, s0, \<lparr>current = - 4, limit = 4 * int N\<rparr>, d0)"
    using assms(2-4) by (auto simp: acq_inv_def at_word_def ring_holds_def same_regs_def decode_all_def ring_fits_def)
  have "acq_inv e N w s0 d0 y" if "(acq_step e N w)\<^sup>*\<^sup>* x y" "acq_inv e N w s0 d0 x" for x y
    using that by (induction rule: rtranclp_induct) (auto intro: acq_step_inv [OF _ _ assms(2)])
  from this [OF assms(1) [unfolded acq_reachable_def] init] show ?thesis by (simp add: acq_inv_def)
qed

text \<open>
  Two calls catch up with the writer: when an even number of words is waiting in a ring of
  even size, the first call reads to the writer or to the end of the ring, the second one the
  rest.
\<close>

theorem two_calls_drain:
  assumes "even N" and "0 < N" and "even R" and "even W" and "R \<le> W" and "W < R + N"
  shows "next_read N (next_read N R W) W = W"
  using assms(2,5,6)
proof (cases rule: wrap_cases)
  case (straight a b)
  then have "next_read N R W = W" by (simp add: next_read_def)
  then show ?thesis by (simp add: next_read_def)
next
  case (wrapped a b)
  have "even a" "even b" using assms wrapped(1,2) by (metis dvd_mod)+
  then have "a \<noteq> b + 1" by auto
  then have n: "next_read N R W = R + (N - a)" using wrapped by (simp add: next_read_def)
  have "(R + (N - a)) mod N = (a + (N - a)) mod N" by (simp add: wrapped(1) [symmetric] mod_simps)
  then have "(R + (N - a)) mod N = 0" using wrapped by simp
  then show ?thesis using wrapped n by (simp add: next_read_def)
qed

section \<open>A small run\<close>

definition daq0 :: daq where
  "daq0 = \<lparr>d_i2c = \<lparr>i2c_pending = [], i2c_calls = []\<rparr>, d_bmp = None, fhout = StdOut, d_out = [],
     d_console = [], d_toStdout = True, d_charFile = ''run'', charCurrentFile = [],
     charCurrentMetaData = [], fileTime = 0, fileDate = gmtime 0, falseGPS = True, fFirstTime = False,
     mtd_seconds = 0, mtd_bl = [0, 0, 0], mtd_bl2 = [0, 0, 0], mtd_iBin = 0, mtd_cbl = 0, mtd_dp = 0,
     mtd_cdp = 0, mtd_pulse_cnt = 0, mtd_pulse_pnt = 0, rates_trig = [0, 0, 0, 0, 0, 0, 0, 0],
     rate1 = 0, rate2 = 0, hack = 0, gps_lat = Flt 0 0, gps_lon = Flt 0 0, gps_alt = Flt 0 0,
     g_data = \<lparr>loc_times = Flt 0 0, loc_date = Flt 0 0, loc_latitude = Flt 0 0, loc_longitude = Flt 0 0,
       loc_speed = Flt 0 0, loc_altitude = Flt 0 0, loc_course = Flt 0 0, loc_satellites = Flt 0 0\<rparr>\<rparr>"

definition env0 :: daq_env where
  "env0 = \<lparr>fopen_ok = \<lambda>_. True, hostname = ''rp'', local_time = ''now'', now = 1540000000\<rparr>"

definition io0 :: io where
  "io0 = \<lparr>io_fd = \<lambda>_. 3, io_map = \<lambda>_. Some 4096, io_reg = \<lambda>_ _. 0x40000007, io_log = [],
     dev_size = 4096, io_out = []\<rparr>"

lemma daq0_ready: "start_call daq0 = daq0" "\<not> fFirstTime daq0"
  by (simp_all add: daq0_def start_call_def)

theorem read_buffer_refines_witness:
  "\<exists>q'. at_word 4 6 q' \<and>
    read_buffer env0 io0 1 \<lparr>current = 12, limit = 16\<rparr> daq0 =
      bindE (decode_all env0 io0 [0x40000007, 0x40000007] daq0) (\<lambda>d'. Inr (1, q', d'))"
proof -
  have "ring_holds 4 (\<lambda>_. 0x40000007) 6 io0" by (simp add: ring_holds_def io0_def peek_def)
  moreover have "at_word 4 4 \<lparr>current = 12, limit = 16\<rparr>" by (simp add: at_word_def)
  moreover have "next_read 4 4 6 = 6" by (simp add: next_read_def)
  ultimately show ?thesis
    using read_buffer_refines [of 4 4 6 "\<lparr>current = 12, limit = 16\<rparr>" "\<lambda>_. 0x40000007" io0 4096 1 daq0 env0]
    by (simp add: daq0_ready in_i32_iff io0_def upt_rec)
qed

theorem acquisition_no_loss_witness:
  "\<exists>s q d. acq_reachable env0 4 (\<lambda>_. 0x40000007) (0, 0, io0, \<lparr>current = - 4, limit = 4 * int 4\<rparr>, daq0) (2, 2, s, q, d)
    \<and> decode_all env0 io0 (map (\<lambda>_. 0x40000007) [0..<2]) daq0 = Inr d"
proof -
  let ?w = "\<lambda>_. 0x40000007 :: u32" and ?q = "\<lparr>current = - 4, limit = 4 * int 4\<rparr>"
  let ?s = "put_word 4 ?w (0 + 1) (put_word 4 ?w 0 io0)"
  have t: "\<exists>d'. decode_word env0 ?s 0x40000007 d = Inr d' \<and> fhout d' = StdOut" if "fhout d = StdOut" for d
    using that by (simp add: decode_word_def on_trigger_def emit_def)
  have "next_read 4 0 2 = 2" by (simp add: next_read_def)
  moreover have "fhout daq0 = StdOut" by (simp add: daq0_def)
  ultimately obtain d1 where d1: "decode_all env0 ?s (map ?w [0..<next_read 4 0 2]) daq0 = Inr d1"
    using t [of daq0] t by (fastforce simp: upt_rec decode_all_def)
  have 1: "acq_step env0 4 ?w (0, 0, io0, ?q, daq0) (0 + 2, 0, ?s, ?q, daq0)"
    by (rule acq_step.writes) simp
  have "ring_holds 4 ?w 2 ?s" by (simp add: ring_holds_def io0_def peek_def put_word_def)
  then obtain q' where "read_buffer env0 ?s 1 ?q daq0 = Inr (1, q', d1)"
    using read_buffer_call [of 4 0 2 ?q ?w ?s 4096 1 daq0 env0] d1 daq0_ready
    by (auto simp: at_word_def in_i32_iff io0_def put_word_def)
  then have 2: "acq_step env0 4 ?w (2, 0, ?s, ?q, daq0) (2, next_read 4 0 2, ?s, q', d1)"
    by (intro acq_step.reads) simp
  have r: "acq_reachable env0 4 ?w (0, 0, io0, ?q, daq0) (2, 2, ?s, q', d1)"
  proof -
    have e: "(0 :: nat) + 2 = 2" "next_read 4 0 2 = 2" by (simp_all add: next_read_def)
    show ?thesis unfolding acq_reachable_def using 1 2 unfolding e
      by (meson r_into_rtranclp rtranclp.rtrancl_into_rtrancl)
  qed
  moreover have "ring_fits 4 io0" by (simp add: ring_fits_def io0_def)
  ultimately show ?thesis
    using acquisition_no_loss [of env0 4 ?w io0 daq0 2 2 ?s q' d1] daq0_ready by blast
qed

theorem two_calls_drain_witness: "next_read 8 (next_read 8 6 12) 12 = 12"
  by (rule two_calls_drain) simp_all

end
