(* ===== verification/DaqTime.thy ===== *)
theory DaqTime
  imports Readout
begin

text \<open>
  Time and content of the data files: the simulated clock that counts the pulses per second, the
  file each second is written to, the date a run with a GPS receiver starts from, and the lines
  the samples become.
\<close>

section \<open>A clock that is advanced by one second\<close>

text \<open>
  What the acquisition needs of the calendar: going to a date and back loses nothing, and
  incrementing the seconds of a date is one second later, even past the end of the minute.
\<close>

locale clock =
  fixes to_sec :: "'d \<Rightarrow> int" and of_sec :: "int \<Rightarrow> 'd" and tick :: "'d \<Rightarrow> 'd" and ok :: "int \<Rightarrow> bool"
  assumes to_of: "ok t \<Longrightarrow> to_sec (of_sec t) = t"
    and tick: "ok (t + 1) \<Longrightarrow> to_sec (tick (of_sec t)) = t + 1"
begin

lemma tick_date: "ok (t + 1) \<Longrightarrow> of_sec (to_sec (tick (of_sec t))) = of_sec (t + 1)"
  by (simp add: tick)

lemma settle: "ok t \<Longrightarrow> of_sec (to_sec (of_sec t)) = of_sec t"
  by (simp add: to_of)

lemma ticks:
  assumes "\<And>k. k < n \<Longrightarrow> ok (t + int (Suc k))"
  shows "((\<lambda>d. of_sec (to_sec (tick d))) ^^ n) (of_sec t) = of_sec (t + int n)"
  using assms
proof (induction n)
  case 0
  then show ?case by simp
next
  case (Suc n)
  then have "ok (t + int n + 1)" by (metis add.assoc add.commute lessI of_nat_Suc)
  with Suc show ?case by (simp add: tick_date algebra_simps)
qed

end

definition tick_sec :: "tm \<Rightarrow> tm" where
  "tick_sec d = d\<lparr>tm_sec := tm_sec d + 1\<rparr>"

interpretation pc: clock timegm gmtime tick_sec in_i32
  by unfold_locales (simp_all add: timegm_gmtime timegm_def tick_sec_def timegm_exact_add_sec)

section \<open>The hour a file belongs to\<close>

lemma same_hour_date:
  assumes "t div 3600 = t' div 3600"
  shows "tm_hour (gmtime t) = tm_hour (gmtime t')" "tm_mday (gmtime t) = tm_mday (gmtime t')"
    "tm_mon (gmtime t) = tm_mon (gmtime t')" "tm_year (gmtime t) = tm_year (gmtime t')"
proof -
  obtain y m d where c: "civil (t div 86400) = (y, m, d)" by (metis surj_pair)
  have "t div 3600 div 24 = t div 86400" "t' div 3600 div 24 = t' div 86400"
    by (simp_all flip: zdiv_zmult2_eq)
  with assms have c': "civil (t' div 86400) = (y, m, d)" using c by simp
  show "tm_hour (gmtime t) = tm_hour (gmtime t')" using assms by (simp add: gmtime_clock)
  show "tm_mday (gmtime t) = tm_mday (gmtime t')" "tm_mon (gmtime t) = tm_mon (gmtime t')"
    "tm_year (gmtime t) = tm_year (gmtime t')"
    by (simp_all add: gmtime_date [OF c] gmtime_date [OF c'])
qed

lemma new_hour_iff:
  "tm_sec (gmtime t) + 1 = 60 \<and> tm_min (gmtime t) = 59 \<longleftrightarrow> (t + 1) mod 3600 = 0"
proof -
  have "t mod 3600 = t mod 60 + 60 * (t div 60 mod 60)"
    using zmod_zmult2_eq [of 60 t 60] by simp
  moreover have "0 \<le> t mod 60" "t mod 60 < 60" "0 \<le> t div 60 mod 60" "t div 60 mod 60 < 60" by simp_all
  ultimately have "t mod 60 + 1 = 60 \<and> t div 60 mod 60 = 59 \<longleftrightarrow> t mod 3600 = 3599" by linarith
  also have "\<dots> \<longleftrightarrow> (t + 1) mod 3600 = 0"
  proof -
    have "(t + 1) mod 3600 = (t mod 3600 + 1) mod 3600" by (simp add: mod_simps)
    moreover have "0 \<le> t mod 3600" "t mod 3600 < 3600" by simp_all
    ultimately show ?thesis by (cases "t mod 3600 = 3599") (auto simp: zmod_trivial_iff)
  qed
  finally show ?thesis by (simp add: gmtime_clock)
qed

lemma same_hour_next: "(t + 1) mod 3600 \<noteq> 0 \<Longrightarrow> (t + 1) div 3600 = t div 3600" for t :: int
proof -
  assume "(t + 1) mod 3600 \<noteq> 0"
  moreover have "0 \<le> (t + 1) mod 3600" "(t + 1) mod 3600 < 3600" by simp_all
  ultimately have "0 < (t + 1) mod 3600" by linarith
  moreover have "t + 1 = 3600 * ((t + 1) div 3600) + (t + 1) mod 3600" by simp
  ultimately have "t = 3600 * ((t + 1) div 3600) + ((t + 1) mod 3600 - 1)" by linarith
  then have "t div 3600 = (t + 1) div 3600"
    by (rule int_div_pos_eq) (use \<open>0 < (t + 1) mod 3600\<close> in simp_all)
  then show ?thesis by simp
qed

definition hour_file :: "daq \<Rightarrow> int \<Rightarrow> string" where
  "hour_file d t = take 1023 (file_stem (d\<lparr>fileDate := gmtime t\<rparr>) @ ''.dat'')"

lemma hour_file_same: "t div 3600 = t' div 3600 \<Longrightarrow> hour_file d t = hour_file d t'"
  using same_hour_date [of t t'] by (simp add: hour_file_def file_stem_def)

lemma hour_file_cong: "d_charFile d' = d_charFile d \<Longrightarrow> falseGPS d' = falseGPS d \<Longrightarrow> hour_file d' t = hour_file d t"
  by (simp add: hour_file_def file_stem_def)

lemma hour_file_keeps: "keeps d d' \<Longrightarrow> hour_file d' t = hour_file d t"
  by (simp add: hour_file_def file_stem_def keeps_def)

section \<open>One pulse per second\<close>

text \<open>A run to files with the simulated clock at second \<open>t\<close>.\<close>

definition clock_at :: "daq \<Rightarrow> int \<Rightarrow> bool" where
  "clock_at d t \<longleftrightarrow> falseGPS d \<and> \<not> d_toStdout d \<and> fileDate d = gmtime t \<and> fhout d = DatFile (hour_file d t)"

lemma hv_scale_defined: "\<exists>k. hv_scale = Inr k"
proof -
  have "man XADC_BASE_HVDIV \<noteq> 0" by code_simp
  then show ?thesis by (simp add: hv_scale_def fdiv_def Let_def)
qed

lemma emit_open: "fhout d \<noteq> NoFile \<Longrightarrow> emit l d = Inr (d\<lparr>d_out := d_out d @ [(fhout d, l)]\<rparr>)"
  by (simp add: emit_def)

lemma emits_open:
  "fhout d \<noteq> NoFile \<Longrightarrow> emits ls d = Inr (d\<lparr>d_out := d_out d @ map (Pair (fhout d)) ls\<rparr>)"
  by (induction ls arbitrary: d) (simp_all add: emits_def emit_open)

lemma get_voltage_ready: "io_ready s \<Longrightarrow> off mod 4 = 0 \<Longrightarrow> off + 4 \<le> 4096 \<Longrightarrow> \<exists>v. get_voltage off s = Inr v"
  by (simp add: get_voltage_def io_simps Let_def)

lemma get_temp_ready: "io_ready s \<Longrightarrow> off mod 4 = 0 \<Longrightarrow> off + 4 \<le> 4096 \<Longrightarrow> \<exists>v. get_temp_AD592 off s = Inr v"
  using get_voltage_ready [of s off] by (auto simp: get_temp_AD592_def)

text \<open>Steps that only write lines to the file that is open.\<close>

definition grows :: "daq \<Rightarrow> daq res \<Rightarrow> bool" where
  "grows d r \<longleftrightarrow> (\<exists>ls. r = Inr (d\<lparr>d_out := d_out d @ ls\<rparr>))"

lemma grows_emit: "fhout d \<noteq> NoFile \<Longrightarrow> grows d (emit l d)"
  by (auto simp: grows_def emit_open)

lemma grows_emits: "fhout d \<noteq> NoFile \<Longrightarrow> grows d (emits ls d)"
  by (auto simp: grows_def emits_open)

lemma grows_bind:
  assumes "grows d m" and "\<And>ls. grows (d\<lparr>d_out := ls\<rparr>) (f (d\<lparr>d_out := ls\<rparr>))"
  shows "grows d (bindE m f)"
  using assms(1) assms(2) [of "d_out d @ ls" for ls] by (fastforce simp: grows_def)

lemma grows_read:
  fixes m :: "u32 res"
  assumes "m = Inr v" and "grows d (f v)"
  shows "grows d (bindE m f)"
  using assms by simp

lemma new_file_open:
  assumes "io_ready s" and "fhout (if \<not> d_toStdout d then open_file e d else d) \<noteq> NoFile"
  shows "grows (if \<not> d_toStdout d then open_file e d else d) (new_file e s d)"
  unfolding new_file_def Let_def
  by (rule grows_bind grows_read grows_emit grows_emits dev_read_ready [OF assms(1)] | simp add: assms cfg_offsets)+

lemma open_file_hour:
  assumes "in_i32 t" and "timegm (fileDate d) = t" and "\<forall>f. fopen_ok e f"
  shows "open_file e d = d\<lparr>fileTime := t, fileDate := gmtime t, charCurrentFile := hour_file d t,
    charCurrentMetaData := take 1023 (file_stem (d\<lparr>fileDate := gmtime t\<rparr>) @ ''.mtd''),
    fhout := DatFile (hour_file d t)\<rparr>"
  using assms by (simp add: open_file_def normalise_def Let_def hour_file_def file_stem_def)

lemma pps_clock_ticks:
  assumes "clock_at d t" and "in_i32 (t + 1)" and "io_ready s" and "\<forall>f. fopen_ok e f"
  shows "\<exists>d'. pps_clock e s wo d = Inr d' \<and> clock_at d' (t + 1)"
proof -
  define d1 where "d1 = d\<lparr>fileDate := tick_sec (gmtime t)\<rparr>"
  have d: "falseGPS d" "\<not> d_toStdout d" "fileDate d = gmtime t" "fhout d = DatFile (hour_file d t)"
    using assms(1) by (simp_all add: clock_at_def)
  have tg: "timegm (fileDate d1) = t + 1" using assms(2) by (simp add: d1_def pc.tick)
  have hf: "hour_file d1 u = hour_file d u" for u by (simp add: hour_file_def file_stem_def d1_def)
  have cases: "pps_clock e s wo d =
      (if (t + 1) mod 3600 = 0 then new_file e s d1 else Inr (normalise d1))"
    using d new_hour_iff [of t] by (simp add: pps_clock_def Let_def d1_def tick_sec_def)
  show ?thesis
  proof (cases "(t + 1) mod 3600 = 0")
    case True
    let ?o = "open_file e d1"
    have o: "?o = d1\<lparr>fileTime := t + 1, fileDate := gmtime (t + 1), charCurrentFile := hour_file d1 (t + 1),
        charCurrentMetaData := take 1023 (file_stem (d1\<lparr>fileDate := gmtime (t + 1)\<rparr>) @ ''.mtd''),
        fhout := DatFile (hour_file d1 (t + 1))\<rparr>"
      using open_file_hour [OF assms(2) tg assms(4)] .
    then have "grows ?o (new_file e s d1)"
      using new_file_open [OF assms(3), of d1 e] d by (simp add: d1_def)
    then obtain ls where ls: "new_file e s d1 = Inr (?o\<lparr>d_out := d_out ?o @ ls\<rparr>)" by (auto simp: grows_def)
    have "clock_at (?o\<lparr>d_out := x\<rparr>) (t + 1)" for x
      unfolding o using d by (simp add: clock_at_def hour_file_def file_stem_def d1_def)
    then show ?thesis using ls True cases by simp
  next
    case False
    then have "hour_file d (t + 1) = hour_file d t" by (intro hour_file_same same_hour_next)
    with False show ?thesis
      using cases d tg hour_file_cong [of "normalise d1" d "t + 1"]
      by (simp add: clock_at_def normalise_def Let_def d1_def)
  qed
qed

lemma put_lines_ex:
  "\<exists>x h c. d\<lparr>hack := a, d_out := d_out d @ l # ys, d_console := b\<rparr>
     = d\<lparr>d_out := d_out d @ l # x, hack := h, d_console := c\<rparr>"
  by (intro exI [of _ ys] exI [of _ a] exI [of _ b]) simp

text \<open>
  C23. With the simulated clock every pulse advances the date by exactly one second, over minutes,
  hours, days, months and leap years, as long as the time fits 32 bits, and the file that is open
  is always the one named after the hour: the line with the time of the pulse goes into the file
  of its own hour.
\<close>

theorem pps_hour_files:
  assumes "clock_at d t" and "in_i32 (t + 1)" and "io_ready s" and "\<forall>f. fopen_ok e f"
  shows "\<exists>d'. on_pps e s wo d = Inr d' \<and> clock_at d' (t + 1) \<and> fileTime d' = t + 1
    \<and> (DatFile (hour_file d (t + 1)), time_line wo d') \<in> set (d_out d')"
proof -
  obtain d1 where d1: "pps_clock e s wo d = Inr d1" "clock_at d1 (t + 1)"
    using pps_clock_ticks [OF assms] by blast
  then have hf: "hour_file d1 u = hour_file d u" for u
    using kept_pps_clock [of d d e s wo] by (simp add: kept_def hour_file_keeps)
  obtain k v2 v3 a0 a1 where v: "hv_scale = Inr k" "get_voltage XADC_AI2_OFFSET s = Inr v2"
    "get_voltage XADC_AI3_OFFSET s = Inr v3" "get_temp_AD592 XADC_AI0_OFFSET s = Inr a0"
    "get_temp_AD592 XADC_AI1_OFFSET s = Inr a1"
    using hv_scale_defined get_voltage_ready [OF assms(3), of XADC_AI2_OFFSET]
      get_voltage_ready [OF assms(3), of XADC_AI3_OFFSET] get_temp_ready [OF assms(3), of XADC_AI0_OFFSET]
      get_temp_ready [OF assms(3), of XADC_AI1_OFFSET]
    by (auto simp: sts_xadc_offsets)
  define d2 where "d2 = normalise (d1\<lparr>mtd_seconds := to_i32 (mtd_seconds d1 + 1)\<rparr>)"
  have d2: "fileTime d2 = t + 1" "fileDate d2 = gmtime (t + 1)" "falseGPS d2" "\<not> d_toStdout d2"
      "fhout d2 = DatFile (hour_file d (t + 1))" "hour_file d2 (t + 1) = hour_file d (t + 1)"
    using d1(2) assms(2) hf [of "t + 1"] hour_file_cong [of d2 d1 "t + 1"]
    by (simp_all add: clock_at_def timegm_gmtime d2_def normalise_def Let_def)
  then have o: "fhout d2 \<noteq> NoFile" by simp
  have "\<exists>x h c. on_pps e s wo d
      = Inr (d2\<lparr>d_out := d_out d2 @ (fhout d2, time_line wo d2) # x, hack := h, d_console := c\<rparr>)"
    unfolding on_pps_def d1(1) bindE_Inr Let_def d2_def [symmetric] v emit_open [OF o]
    by (simp add: emit_open o put_lines_ex)
  then obtain x h c where "on_pps e s wo d
      = Inr (d2\<lparr>d_out := d_out d2 @ (fhout d2, time_line wo d2) # x, hack := h, d_console := c\<rparr>)" by blast
  then show ?thesis
    using d2 hour_file_cong [of "d2\<lparr>d_out := d_out d2 @ (fhout d2, time_line wo d2) # x, hack := h, d_console := c\<rparr>" d2 "t + 1"]
    by (simp add: clock_at_def time_line_def)
qed

definition daq_file0 :: daq where
  "daq_file0 = daq0\<lparr>d_toStdout := False, fileDate := gmtime 3599, fhout := DatFile (hour_file daq0 3599)\<rparr>"

lemma daq_file0_clock: "clock_at daq_file0 3599"
  by (simp add: clock_at_def daq_file0_def daq0_def hour_file_def file_stem_def)

lemma io0_ready: "io_ready io0"
  by (simp add: io_ready_def io0_def)

theorem pps_hour_files_witness:
  "\<exists>d'. on_pps env0 io0 0xD8000000 daq_file0 = Inr d' \<and> clock_at d' (3599 + 1)"
  using pps_hour_files [OF daq_file0_clock _ io0_ready, of env0 "0xD8000000"]
  by (auto simp: in_i32_iff env0_def)

section \<open>The date a run with a receiver starts from\<close>

text \<open>
  The code sets the year of the initial date to 2018 where the C library counts from 1900. The
  year 3918 does not fit the time of a 32-bit system, the conversion fails with \<open>-1\<close>, and the
  date becomes the last second of 1969.
\<close>

definition start_date :: tm where
  "start_date = \<lparr>tm_sec = 55, tm_min = 55, tm_hour = 10, tm_mday = 29, tm_mon = 8, tm_year = 2018\<rparr>"

lemma start_date_fails: "timegm start_date = - 1"
  by code_simp

lemma last_second:
  "gmtime (- 1) = \<lparr>tm_sec = 59, tm_min = 59, tm_hour = 23, tm_mday = 31, tm_mon = 11, tm_year = 69\<rparr>"
  by code_simp

lemma last_second_name:
  "show_int0 4 1969 = ''1969''" "show_int0 2 12 = ''12''" "show_int0 2 31 = ''31''" "show_int0 2 23 = ''23''"
  by code_simp+

text \<open>
  With a GPS receiver selected, the first file of every run is named 1969-12-31 23h, whatever
  the clock of the system says: the initial date set by the code is not a time the system can
  represent.
\<close>

theorem gps_first_file:
  assumes "io_ready s" and "fFirstTime d" and "\<not> falseGPS d" and "\<not> d_toStdout d"
    and "\<not> bit (peek CFG s CFG_RESET_GRAL_OFFSET) 4" and "\<forall>f. fopen_ok e f"
  shows "\<exists>d'. first_time e s d = Inr d' \<and> \<not> fFirstTime d' \<and> fileTime d' = - 1
    \<and> charCurrentFile d' = take 1023 (d_charFile d @ ''_1969_12_31_23h00.dat'')
    \<and> fhout d' = DatFile (charCurrentFile d')"
proof -
  have g: "drop_bit 4 (peek CFG s CFG_RESET_GRAL_OFFSET) AND 1 \<noteq> 1"
    using assms(5) by (simp add: bit_iff_odd_drop_bit and_one_eq mod_2_eq_odd)
  define d1 where "d1 = normalise (d\<lparr>fileTime := now e, fileDate := start_date\<rparr>)"
  have d1: "timegm (fileDate d1) = - 1" "\<not> d_toStdout d1" "d_charFile d1 = d_charFile d" "\<not> falseGPS d1"
    using assms(3,4) by (simp_all add: d1_def normalise_def Let_def start_date_fails timegm_gmtime in_i32_iff)
  have name: "hour_file d1 (- 1) = take 1023 (d_charFile d @ ''_1969_12_31_23h00.dat'')"
    by (simp add: hour_file_def file_stem_def last_second last_second_name d1)
  have o: "open_file e d1 = d1\<lparr>fileTime := - 1, fileDate := gmtime (- 1), charCurrentFile := hour_file d1 (- 1),
      charCurrentMetaData := take 1023 (file_stem (d1\<lparr>fileDate := gmtime (- 1)\<rparr>) @ ''.mtd''),
      fhout := DatFile (hour_file d1 (- 1))\<rparr>"
    by (rule open_file_hour) (simp_all add: d1 assms(6) in_i32_iff)
  then have "grows (open_file e d1) (new_file e s d1)"
    using new_file_open [OF assms(1), of d1 e] d1(2) by simp
  then obtain x where "new_file e s d1 = Inr (open_file e d1\<lparr>d_out := d_out (open_file e d1) @ x\<rparr>)"
    by (auto simp: grows_def)
  moreover have "first_time e s d = bindE (new_file e s d1) (\<lambda>d. Inr (d\<lparr>fFirstTime := False\<rparr>))"
    using assms(1,2) g
    by (simp add: first_time_def io_simps cfg_offsets Let_def d1_def start_date_def)
  ultimately show ?thesis by (simp add: o name)
qed

theorem gps_first_file_witness:
  "\<exists>d'. first_time env0 (io0\<lparr>io_reg := \<lambda>_ _. 0\<rparr>) (daq_file0\<lparr>falseGPS := False, fFirstTime := True\<rparr>) = Inr d'
     \<and> fileTime d' = - 1"
  using gps_first_file [of "io0\<lparr>io_reg := \<lambda>_ _. 0\<rparr>" "daq_file0\<lparr>falseGPS := False, fFirstTime := True\<rparr>" env0]
  by (auto simp: io_ready_def io0_def peek_def daq_file0_def daq0_def env0_def)

section \<open>Samples\<close>

text \<open>The word the hardware makes of two 14-bit samples: each in two's complement in its half.\<close>

definition sample_word :: "int \<Rightarrow> int \<Rightarrow> u32" where
  "sample_word a b = word_of_int (a mod 16384 + b mod 16384 * 65536)"

lemma uint_drop: "uint (drop_bit n w) = uint w div 2 ^ n" for w :: "'a::len word"
proof -
  have "uint (drop_bit n w) = int (unat (drop_bit n w))" by simp
  also have "\<dots> = int (unat w div 2 ^ n)" by (simp only: drop_bit_unat)
  finally show ?thesis by (simp add: of_nat_div)
qed

lemma uint_sample_word: "uint (sample_word a b) = a mod 16384 + b mod 16384 * 65536"
proof -
  have "uint (word_of_int (x + y * 65536) :: u32) = x + y * 65536"
    if "0 \<le> x" "x < 16384" "0 \<le> y" "y < 16384" for x y
    unfolding uint_word_of_int by (rule mod_pos_pos_trivial) (use that in simp_all)
  then show ?thesis by (simp add: sample_word_def del: of_int_add of_int_mult)
qed

lemma sample_value_of:
  assumes "- 8192 \<le> a" and "a < 8192"
  shows "sample_value (a mod 16384) = a"
proof (cases "a < 0")
  case True
  then have m: "a mod 16384 = a + 16384" using assms mod_pos_pos_trivial [of "a + 16384" 16384] by simp
  have "(a + 16384) div 8192 = 1"
    by (rule int_div_pos_eq [where r = "a + 8192"]) (use assms True in simp_all)
  then have "sample_value (a mod 16384) = to_i16 (65536 + a)" by (simp add: sample_value_def cshr_def m)
  moreover have "(a + 98304) mod 65536 = a + 32768"
    by (rule int_mod_pos_eq [where q = 1]) (use assms True in simp_all)
  ultimately show ?thesis by (simp add: to_i16_def algebra_simps)
next
  case False
  then have "a mod 16384 = a" "a div 8192 = 0" using assms by simp_all
  then show ?thesis using assms by (simp add: sample_value_def cshr_def to_i16_id)
qed

lemma half_sample:
  "half 0 (sample_word a b) = a mod 16384" "half 1 (sample_word a b) = b mod 16384"
proof -
  have lo: "to_i16 (x + y * 65536) = x" and hi: "(x + y * 65536) div 65536 = y" "to_i16 y = y"
    if "0 \<le> x" "x < 16384" "0 \<le> y" "y < 16384" for x y
  proof -
    have "(x + 32768 + y * 65536) mod 65536 = (x + 32768) mod 65536" by (rule mod_mult_self1)
    then have "(x + y * 65536 + 32768) mod 65536 = (x + 32768) mod 65536" by (simp only: add_ac)
    with that show "to_i16 (x + y * 65536) = x" by (simp add: to_i16_def)
    show "(x + y * 65536) div 65536 = y" "to_i16 y = y" using that by (simp_all add: to_i16_id)
  qed
  have b: "0 \<le> a mod 16384" "a mod 16384 < 16384" "0 \<le> b mod 16384" "b mod 16384 < 16384" by simp_all
  show "half 0 (sample_word a b) = a mod 16384"
    using lo [OF b] by (simp add: half_def uint_sample_word)
  show "half 1 (sample_word a b) = b mod 16384"
    using hi [OF b] by (simp add: half_def uint_drop uint_sample_word)
qed

lemma sample_line_of:
  assumes "- 8192 \<le> a" "a < 8192" "- 8192 \<le> b" "b < 8192"
  shows "sample_line (sample_word a b) = pad 5 (show_int a) @ '' '' @ pad 5 (show_int b)"
  using assms by (simp add: sample_line_def half_sample [simplified] sample_value_of)

text \<open>
  C19. What the file says is what the converters measured: two 14-bit samples packed by the
  hardware into a word become one line, and reading the first and, after the sixth column, the
  second number of the line gives the two samples back, when the first needs at most five
  characters, as every 14-bit sample does.
\<close>

theorem sample_roundtrip:
  assumes "- 8192 \<le> a" and "a < 8192" and "- 8192 \<le> b" and "b < 8192" and "fhout d \<noteq> NoFile"
  shows "\<exists>d' l. decode_word e s (sample_word a b) d = Inr d' \<and> d_out d' = d_out d @ [(fhout d, l)]
    \<and> atoi l = a \<and> atoi (drop (length (pad 5 (show_int a))) l) = b"
proof -
  let ?l = "sample_line (sample_word a b)"
  have l: "?l = pad 5 (show_int a) @ '' '' @ pad 5 (show_int b)" by (rule sample_line_of) fact+
  have i: "in_i32 a" "in_i32 b" using assms by (simp_all add: in_i32_iff)
  have "drop_bit 30 (sample_word a b) = 0"
  proof -
    have "(x + y * 65536) div 1073741824 = 0" if "0 \<le> x" "x < 16384" "0 \<le> y" "y < 16384" for x y :: int
      by (rule div_pos_pos_trivial) (use that in simp_all)
    then have "uint (drop_bit 30 (sample_word a b)) = 0"
      by (simp add: uint_drop uint_sample_word)
    then show ?thesis by (simp only: unsigned_eq_0_iff)
  qed
  then have "\<exists>d'. decode_word e s (sample_word a b) d = Inr d' \<and> d_out d' = d_out d @ [(fhout d, ?l)]"
    using assms(5) by (simp add: decode_word_def on_sample_def emit_open Let_def)
  moreover have "atoi ?l = a"
    using atoi_show_int [OF i(1), of "'' '' @ pad 5 (show_int b)" "5 - length (show_int a)"]
    by (simp add: l pad_def no_digit_first_def is_digit_def digit_val_def)
  moreover have "atoi (drop (length (pad 5 (show_int a))) ?l) = b"
    using atoi_show_int [OF i(2), of "[]" "Suc (5 - length (show_int b))"]
    by (simp add: l pad_def no_digit_first_def)
  ultimately show ?thesis by blast
qed

theorem sample_roundtrip_witness:
  "\<exists>d' l. decode_word env0 io0 (sample_word (- 12) 8191) daq0 = Inr d' \<and> d_out d' = [(StdOut, l)]
    \<and> atoi l = - 12"
  using sample_roundtrip [of "- 12" 8191 daq0 env0 io0] by (auto simp: daq0_def)

end
