(* ===== verification/Params.thy ===== *)
theory Params
  imports Registers
begin

text \<open>
  The command line of \<^verbatim>\<open>projects/lago_v1_2/src/lago.c\<close>: \<^verbatim>\<open>parse_param\<close> with the flags and buffers it
  fills, and the usage text. The arguments are the list \<^verbatim>\<open>argv[0]\<close> \dots; the pointer after
  the last one is null.
\<close>

record params =
  fReadReg :: bool
  fWriteReg :: bool
  fGetCfgStatus :: bool
  fSetCfgReg :: bool
  fToFile :: bool
  fToStdout :: bool
  fGetPT :: bool
  fGetGPS :: bool
  fGetXADC :: bool
  fInitSystem :: bool
  fFile :: bool
  fCount :: bool
  fByte :: bool
  fData :: bool
  fRegValue :: bool
  fshowversion :: bool
  charAction :: string
  charReg :: string
  charFile :: string
  charCount :: string
  scByte :: string
  scRegister :: string
  charRegValue :: string
  n_dev :: int
  reg_off :: nat
  reg_val :: u32
  p_out :: "string list"

definition MAXCHRLEN :: nat where "MAXCHRLEN = 1024"
definition MAXFILENAMELEN :: nat where "MAXFILENAMELEN = 255"

text \<open>The new content of the destination: nothing is stored when the buffer has no room at all.\<close>

definition StrcpyS :: "string \<Rightarrow> nat \<Rightarrow> string \<Rightarrow> string" where
  "StrcpyS dst cchDst src = (if 0 < cchDst then take (cchDst - 1) src else dst)"

definition arg_at :: "string list \<Rightarrow> nat \<Rightarrow> string res" where
  "arg_at argv i =
     (if i < length argv then Inr (argv ! i)
      else if i = length argv then Inl NullDeref else Inl OutOfBounds)"

definition clear_flags :: "params \<Rightarrow> params" where
  "clear_flags p = p\<lparr>fReadReg := False, fWriteReg := False, fGetCfgStatus := False,
     fSetCfgReg := False, fToFile := False, fToStdout := False, fGetPT := False, fGetGPS := False,
     fFile := False, fCount := False, fByte := False, fData := False, fRegValue := False,
     fGetXADC := False\<rparr>"

text \<open>The action: whether the call returns at once, and with what.\<close>

definition parse_action :: "params \<Rightarrow> int option \<times> params" where
  "parse_action p =
     (if charAction p = ''-r'' then (None, p\<lparr>fReadReg := True\<rparr>)
      else if charAction p = ''-w'' then (None, p\<lparr>fWriteReg := True\<rparr>)
      else if charAction p = ''-a'' then (Some 1, p\<lparr>fGetCfgStatus := True\<rparr>)
      else if charAction p = ''-v'' then (Some 0, p\<lparr>fshowversion := True\<rparr>)
      else if charAction p = ''-s'' then (None, p\<lparr>fSetCfgReg := True\<rparr>)
      else if charAction p = ''-f'' then (None, p\<lparr>fToFile := True\<rparr>)
      else if charAction p = ''-o'' then (Some 1, p\<lparr>fToStdout := True\<rparr>)
      else if charAction p = ''-t'' then (Some 1, p\<lparr>fGetPT := True\<rparr>)
      else if charAction p = ''-g'' then (Some 1, p\<lparr>fGetGPS := True\<rparr>)
      else if charAction p = ''-i'' then (Some 1, p\<lparr>fInitSystem := True\<rparr>)
      else if charAction p = ''-x'' then (Some 1, p\<lparr>fGetXADC := True\<rparr>)
      else (Some 0, p))"

definition dev_of :: "string \<Rightarrow> int option" where
  "dev_of r = (if r = ''intc'' then Some 0 else if r = ''cfg'' then Some 1
     else if r = ''sts'' then Some 2 else if r = ''xadc'' then Some 3 else None)"

definition parse_device :: "string list \<Rightarrow> params \<Rightarrow> (int \<times> params) res" where
  "parse_device argv p =
     bindE (arg_at argv 2) (\<lambda>a2.
     let p = p\<lparr>charReg := StrcpyS (charReg p) MAXCHRLEN a2\<rparr>
     in case dev_of (charReg p) of None \<Rightarrow> Inr (0, p)
        | Some d \<Rightarrow>
            bindE (arg_at argv 3) (\<lambda>a3.
            let p = p\<lparr>n_dev := d, reg_off := nat (strtoul a3 16)\<rparr>
            in if fWriteReg p
               then bindE (arg_at argv 4) (\<lambda>a4. Inr (1, p\<lparr>reg_val := word_of_int (strtoul a4 16)\<rparr>))
               else Inr (1, p)))"

definition cfg_reg_of :: "string \<Rightarrow> nat option" where
  "cfg_reg_of r =
     (if r = ''t1'' then Some CFG_TRLVL_1_OFFSET
      else if r = ''t2'' then Some CFG_TRLVL_2_OFFSET
      else if r = ''st1'' then Some CFG_STRLVL_1_OFFSET
      else if r = ''st2'' then Some CFG_STRLVL_2_OFFSET
      else if r = ''hv1'' then Some CFG_HV1_OFFSET
      else if r = ''hv2'' then Some CFG_HV2_OFFSET
      else if r = ''ov1'' then Some CFG_HV1_OFFSET
      else if r = ''ov2'' then Some CFG_HV2_OFFSET
      else if r = ''ov3'' then Some CFG_HV3_OFFSET
      else if r = ''ov4'' then Some CFG_HV4_OFFSET
      else if r = ''sc1'' then Some CFG_TR_SCAL_A_OFFSET
      else if r = ''sc2'' then Some CFG_TR_SCAL_B_OFFSET
      else None)"

definition is_voltage :: "string \<Rightarrow> bool" where
  \<comment> \<open>the two \<^verbatim>\<open>strncmp\<close> tests\<close>
  "is_voltage r \<longleftrightarrow> take 2 r = ''hv'' \<or> take 2 r = ''ov''"

definition parse_set :: "string list \<Rightarrow> params \<Rightarrow> (int \<times> params) res" where
  "parse_set argv p =
     bindE (arg_at argv 2) (\<lambda>a2.
     let p = p\<lparr>charReg := StrcpyS (charReg p) MAXCHRLEN a2\<rparr>
     in case cfg_reg_of (charReg p) of None \<Rightarrow> Inr (0, p)
        | Some off \<Rightarrow>
            let p = p\<lparr>reg_off := off\<rparr>
            in bindE (arg_at argv 3) (\<lambda>a3.
               let p = p\<lparr>charRegValue := StrcpyS (charRegValue p) 16 a3\<rparr>
               in if is_voltage (charReg p)
                  then (if atoi (charRegValue p) > 2500 then Inl (Exit 1)
                        else Inr (1, p\<lparr>fRegValue := True\<rparr>))
                  else Inr (1, p)))"

definition parse_file :: "string list \<Rightarrow> params \<Rightarrow> (int \<times> params) res" where
  "parse_file argv p =
     (if 2 < length argv
      then Inr (1, p\<lparr>charFile := StrcpyS (charFile p) MAXFILENAMELEN (argv ! 2), fFile := True\<rparr>)
      else Inr (0, p))"

text \<open>The options after a register, with the checks that follow the loop.\<close>

function parse_options :: "string list \<Rightarrow> nat \<Rightarrow> params \<Rightarrow> int \<times> params" where
  "parse_options argv arg p =
     (if arg < length argv then
        (if argv ! arg = ''-f'' then
           (if arg + 1 \<ge> length argv then (0, p)
            else parse_options argv (arg + 2)
                   (p\<lparr>charFile := StrcpyS (charFile p) 16 (argv ! (arg + 1)), fFile := True\<rparr>))
         else if argv ! arg = ''-c'' then
           (if arg + 1 \<ge> length argv then (0, p)
            else parse_options argv (arg + 2)
                   (p\<lparr>charCount := StrcpyS (charCount p) 16 (argv ! (arg + 1)), fCount := True\<rparr>))
         else if argv ! arg = ''-b'' then
           (if arg + 1 \<ge> length argv then (0, p)
            else parse_options argv (arg + 2)
                   (p\<lparr>scByte := StrcpyS (scByte p) 16 (argv ! (arg + 1)), fByte := True\<rparr>))
         else (0, p))
      else if fWriteReg p \<and> \<not> fByte p
           then (0, p\<lparr>p_out := p_out p @ [''Error: No byte value provided'']\<rparr>)
      else if fToFile p \<and> \<not> fFile p
           then (0, p\<lparr>p_out := p_out p @ [''Error: No filename provided'']\<rparr>)
      else (1, p))"
  by pat_completeness auto
termination by (relation "measure (\<lambda>(argv, arg, _). length argv - arg)") auto

declare parse_options.simps [simp del]

definition parse_rest :: "string list \<Rightarrow> params \<Rightarrow> (int \<times> params) res" where
  "parse_rest argv p =
     (if fReadReg p \<or> fWriteReg p then parse_device argv p
      else if fSetCfgReg p then parse_set argv p
      else if fToFile p then parse_file argv p
      else bindE (arg_at argv 2) (\<lambda>a2.
           Inr (parse_options argv 3 (p\<lparr>scRegister := StrcpyS (scRegister p) MAXCHRLEN a2\<rparr>))))"

definition parse_param :: "string list \<Rightarrow> params \<Rightarrow> (int \<times> params) res" where
  "parse_param argv p =
     (let p = clear_flags p
      in if length argv < 2 then Inr (0, p)
         else case parse_action (p\<lparr>charAction := StrcpyS (charAction p) MAXCHRLEN (argv ! 1)\<rparr>) of
                (Some v, p) \<Rightarrow> Inr (v, p)
              | (None, p) \<Rightarrow> parse_rest argv p)"

section \<open>Usage\<close>

definition tabs :: "nat \<Rightarrow> string \<Rightarrow> string" where
  "tabs n s = replicate n CHR 0x09 @ s"

definition usage_head :: "string \<Rightarrow> string list" where
  "usage_head progname =
     [[], tabs 1 ''The LAGO ACQUA suite'',
      tabs 1 ''Data acquisition system for the LAGO BRC electronic'',
      tabs 1 ''(c) 2012-Today, The LAGO Project, http://lagoproject.org'',
      tabs 1 ''(c) 2012, LabDPR, http://labdpr.cab.cnea.gov.ar'',
      [], tabs 1 ''The LAGO Project, lago@lagoproject.org'',
      [], tabs 1 ''DPR Lab. 2018'',
      tabs 1 ''H. Arnaldi, lharnaldi@gmail.com'',
      tabs 1 ''X. Bertou, bertou@gmail.com'',
      tabs 1 (''LAGO v'' @ show_int 2 @ ''r'' @ show_int 0 @ '' comms soft''), [],
      ''Usage: '' @ progname @ '' <action> <register> <value> [options]'']"

definition usage_actions :: "string list" where
  "usage_actions =
     [[], tabs 1 ''Actions:'',
      tabs 1 (''-a'' @ tabs 4 ''Get all registers status''),
      tabs 1 (''-s'' @ tabs 4 ''Set registers''),
      tabs 1 (''-f'' @ tabs 4 ''Start DAQ and save data to file''),
      tabs 1 (''-o'' @ tabs 4 ''Start DAQ and send data to stdout''),
      tabs 1 (''-g'' @ tabs 4 ''Get GPS data''),
      tabs 1 (''-t'' @ tabs 4 ''Get Pressure and Temperature data''),
      tabs 1 (''-i'' @ tabs 4 ''Initialise registers to default values''),
      tabs 1 (''-x'' @ tabs 4 ''Read the voltage in the XADC channels''),
      tabs 1 (''-v'' @ tabs 4 ''Show DAQ version'')]"

definition usage_registers :: "string list" where
  "usage_registers =
     [[], tabs 1 ''Registers:'',
      tabs 1 (''t1, t2'' @ tabs 4 ''Specify triggers 1 and 2''),
      tabs 1 (''sc1, sc2'' @ tabs 3 ''Specify scaling factor 1 and 2''),
      tabs 1 (''hv1, hv2'' @ tabs 3 ''Specify high voltages''),
      tabs 1 (''ov1, ov2, ov3, ov4'' @ tabs 2 ''Specify output voltages''),
      [], tabs 1 ''Options:'',
      tabs 1 (''-f <filename>'' @ tabs 3 ''Specify file name''), [], []]"

definition show_usage :: "string \<Rightarrow> params \<Rightarrow> string list" where
  "show_usage progname p =
     (if fshowversion p
      then [''LAGO ACQUA BRC v'' @ show_int 2 @ ''r'' @ show_int 0 @ '' data v'' @ show_int 5]
      else usage_head progname @ usage_actions @ usage_registers)"

section \<open>What is accepted\<close>

lemma StrcpyS_bounded: "0 < n \<Longrightarrow> length (StrcpyS dst n src) < n"
  by (simp add: StrcpyS_def)

lemma StrcpyS_whole: "length src < n \<Longrightarrow> StrcpyS dst n src = src"
  by (simp add: StrcpyS_def)

text \<open>The actions, exactly one of which is chosen when the parser accepts.\<close>

definition actions :: "params \<Rightarrow> bool list" where
  "actions p = [fReadReg p, fWriteReg p, fGetCfgStatus p, fSetCfgReg p, fToFile p, fToStdout p,
     fGetPT p, fGetGPS p, fGetXADC p, fInitSystem p]"

lemmas parse_simps = parse_param_def parse_action_def clear_flags_def parse_device_def
  parse_set_def parse_file_def Let_def

lemma cfg_reg_of_page: "cfg_reg_of r = Some off \<Longrightarrow> off mod 4 = 0 \<and> off + 4 \<le> 4096"
  by (auto simp: cfg_reg_of_def cfg_offsets split: if_splits)

lemma parse_device_flags:
  "parse_device argv p = Inr (1, p') \<Longrightarrow> actions p' = actions p"
  by (cases "arg_at argv 2"; cases "arg_at argv 3"; cases "arg_at argv 4")
    (auto simp: parse_device_def actions_def Let_def split: if_splits option.splits)

lemma parse_set_flags:
  "parse_set argv p = Inr (1, p') \<Longrightarrow> actions p' = actions p
    \<and> cfg_reg_of (charReg p') = Some (reg_off p') \<and> length (charRegValue p') < 16
    \<and> (fRegValue p' \<longleftrightarrow> fRegValue p \<or> is_voltage (charReg p'))
    \<and> (is_voltage (charReg p') \<longrightarrow> atoi (charRegValue p') \<le> 2500)"
  by (cases "arg_at argv 2"; cases "arg_at argv 3")
    (auto simp: parse_set_def actions_def Let_def StrcpyS_bounded split: if_splits option.splits)

lemma parse_file_flags:
  "parse_file argv p = Inr (1, p') \<Longrightarrow> actions p' = actions p \<and> fFile p' \<and> length (charFile p') < MAXFILENAMELEN"
  by (auto simp: parse_file_def actions_def MAXFILENAMELEN_def StrcpyS_bounded split: if_splits)

lemma if_pair_cases:
  assumes "(if b then (r, x) else y) = (r', x')"
  obtains "b" and "r' = r" and "x' = x" | "\<not> b" and "y = (r', x')"
  using assms by (auto split: if_splits)

lemma parse_action_result:
  assumes "parse_action q = (r, q')" and "count_list (actions q) True = 0" and "r \<noteq> Some 0"
  shows "count_list (actions q') True = 1 \<and> fRegValue q' = fRegValue q
    \<and> (r \<noteq> None \<longrightarrow> r = Some 1 \<and> \<not> fSetCfgReg q' \<and> \<not> fToFile q')
    \<and> (r = None \<longrightarrow> fReadReg q' \<or> fWriteReg q' \<or> fSetCfgReg q' \<or> fToFile q')"
proof -
  have off: "\<not> fReadReg q" "\<not> fWriteReg q" "\<not> fGetCfgStatus q" "\<not> fSetCfgReg q" "\<not> fToFile q"
    "\<not> fToStdout q" "\<not> fGetPT q" "\<not> fGetGPS q" "\<not> fGetXADC q" "\<not> fInitSystem q"
    using assms(2) by (simp_all add: actions_def split: if_splits)
  from assms(1,3) show ?thesis
    unfolding parse_action_def by (elim if_pair_cases; simp add: actions_def off)
qed

lemma actions_none: "\<not> fInitSystem p \<Longrightarrow> count_list (actions (clear_flags p\<lparr>charAction := a\<rparr>)) True = 0"
  by (simp add: actions_def clear_flags_def)

lemma actions_one:
  assumes "count_list (actions p) True = 1"
  shows "fReadReg p \<or> fWriteReg p \<Longrightarrow> \<not> fSetCfgReg p \<and> \<not> fToFile p"
    and "fSetCfgReg p \<Longrightarrow> \<not> fToFile p"
  using assms by (auto simp: actions_def split: if_splits)

lemma actions_cong: "actions p' = actions q \<Longrightarrow> fSetCfgReg p' = fSetCfgReg q \<and> fToFile p' = fToFile q"
  by (simp add: actions_def)

text \<open>
  C11. A command line that is accepted selects exactly one action. A register to be set is a
  word of the configuration page; its value is taken as a voltage exactly for the voltage
  registers, and then it is at most 2500 mV; an acquisition to file has a file name that fits
  its buffer.
\<close>

theorem parse_param_accepts:
  assumes "parse_param argv p = Inr (1, p')" and "\<not> fInitSystem p"
  shows "count_list (actions p') True = 1
    \<and> (fSetCfgReg p' \<longrightarrow> reg_off p' mod 4 = 0 \<and> reg_off p' + 4 \<le> 4096
         \<and> (fRegValue p' \<longleftrightarrow> is_voltage (charReg p'))
         \<and> (fRegValue p' \<longrightarrow> atoi (charRegValue p') \<le> 2500))
    \<and> (fToFile p' \<longrightarrow> fFile p' \<and> length (charFile p') < MAXFILENAMELEN)"
proof -
  define q where "q = clear_flags p\<lparr>charAction := StrcpyS (charAction (clear_flags p)) MAXCHRLEN (argv ! 1)\<rparr>"
  obtain r q' where a: "parse_action q = (r, q')" by (cases "parse_action q")
  have q: "count_list (actions q) True = 0" "\<not> fRegValue q"
    using actions_none [OF assms(2)] by (simp_all add: q_def) (simp add: clear_flags_def)
  have body: "(case r of Some v \<Rightarrow> Inr (v, q') | None \<Rightarrow> parse_rest argv q') = Inr (1, p')"
    using assms(1) unfolding parse_param_def Let_def q_def [symmetric] a
    by (cases "length argv < 2") auto
  then have "r \<noteq> Some 0" by auto
  note act = parse_action_result [OF a q(1) this]
  show ?thesis
  proof (cases r)
    case (Some v)
    with body act show ?thesis by auto
  next
    case None
    with act consider "fReadReg q' \<or> fWriteReg q'" | "\<not> (fReadReg q' \<or> fWriteReg q')" "fSetCfgReg q'"
      | "\<not> (fReadReg q' \<or> fWriteReg q')" "\<not> fSetCfgReg q'" "fToFile q'" by auto
    then show ?thesis
    proof cases
      case 1
      with None body have eq: "actions p' = actions q'" by (auto simp: parse_rest_def dest: parse_device_flags)
      from act 1 have "\<not> fSetCfgReg q'" "\<not> fToFile q'" using actions_one(1) [of q'] by blast+
      with act actions_cong [OF eq] eq show ?thesis by simp
    next
      case 2
      with None body have "parse_set argv q' = Inr (1, p')" by (auto simp: parse_rest_def)
      note s = parse_set_flags [OF this]
      from act 2 have "\<not> fToFile q'" using actions_one(2) [of q'] by blast
      with act s q(2) actions_cong [of p' q'] show ?thesis
        using cfg_reg_of_page [of "charReg p'" "reg_off p'"] by simp
    next
      case 3
      with None body have "parse_file argv q' = Inr (1, p')" by (auto simp: parse_rest_def)
      note f = parse_file_flags [OF this]
      with act 3 actions_cong [of p' q'] show ?thesis by simp
    qed
  qed
qed

text \<open>
  Missing arguments are not rejected: setting a register without naming it or without a
  value, and reading or writing a device without an offset or a value, reads through the null
  pointer that ends the argument vector.
\<close>

theorem parse_param_missing_argument:
  "parse_param [prog, ''-s''] p = Inl NullDeref
   \<and> (cfg_reg_of r \<noteq> None \<longrightarrow> parse_param [prog, ''-s'', r] p = Inl NullDeref)
   \<and> (dev_of r \<noteq> None \<longrightarrow> parse_param [prog, ''-r'', r] p = Inl NullDeref
        \<and> parse_param [prog, ''-w'', r, off] p = Inl NullDeref)"
proof -
  have w: "StrcpyS d MAXCHRLEN ''-s'' = ''-s''" "StrcpyS d MAXCHRLEN ''-r'' = ''-r''"
    "StrcpyS d MAXCHRLEN ''-w'' = ''-w''" for d
    by (simp_all add: StrcpyS_whole MAXCHRLEN_def)
  have r: "cfg_reg_of r \<noteq> None \<Longrightarrow> length r < 1024" "dev_of r \<noteq> None \<Longrightarrow> length r < 1024"
    by (auto simp: cfg_reg_of_def dev_of_def split: if_splits)
  then have "cfg_reg_of r \<noteq> None \<Longrightarrow> StrcpyS d MAXCHRLEN r = r" "dev_of r \<noteq> None \<Longrightarrow> StrcpyS d MAXCHRLEN r = r" for d
    by (simp_all add: StrcpyS_whole MAXCHRLEN_def)
  then show ?thesis
    by (auto simp: parse_param_def parse_action_def parse_rest_def parse_set_def parse_device_def
        arg_at_def Let_def clear_flags_def w)
qed

definition params0 :: params where
  "params0 = \<lparr>fReadReg = False, fWriteReg = False, fGetCfgStatus = False, fSetCfgReg = False,
     fToFile = False, fToStdout = False, fGetPT = False, fGetGPS = False, fGetXADC = False,
     fInitSystem = False, fFile = False, fCount = False, fByte = False, fData = False,
     fRegValue = False, fshowversion = False, charAction = [], charReg = [], charFile = [],
     charCount = [], scByte = [], scRegister = [], charRegValue = [], n_dev = 0, reg_off = 0,
     reg_val = 0, p_out = []\<rparr>"

lemma params0_sel [simp]: "\<not> fInitSystem params0" by (simp add: params0_def)

lemma parse_hv_900:
  "\<exists>p'. parse_param [''lago'', ''-s'', ''hv1'', ''900''] params0 = Inr (1, p') \<and> fSetCfgReg p' \<and> fRegValue p'"
proof -
  have "atoi ''900'' = 900" by code_simp
  then show ?thesis
    by (simp add: parse_param_def parse_action_def parse_rest_def parse_set_def clear_flags_def
        arg_at_def Let_def StrcpyS_def MAXCHRLEN_def cfg_reg_of_def is_voltage_def)
qed

theorem parse_param_accepts_witness:
  "\<exists>p'. parse_param [''lago'', ''-s'', ''hv1'', ''900''] params0 = Inr (1, p')
     \<and> count_list (actions p') True = 1 \<and> atoi (charRegValue p') \<le> 2500"
  using parse_hv_900 parse_param_accepts [of "[''lago'', ''-s'', ''hv1'', ''900'']" params0] by fastforce

theorem parse_param_missing_argument_witness:
  "parse_param [''lago'', ''-s'', ''hv2''] params0 = Inl NullDeref"
  using parse_param_missing_argument [of "''lago''" params0 "''hv2''"] by (simp add: cfg_reg_of_def)

end
