(* ===== verification/LagoMain.thy ===== *)
theory LagoMain
  imports DaqTime Params
begin

text \<open>
  The main program, \<^verbatim>\<open>projects/lago_v1_2/src/lago.c\<close>: the start of the devices, the choice of the
  action, the acquisition loop with its interrupts, and the two interrupt threads.
\<close>

section \<open>Interrupts\<close>

text \<open>
  One call of \<^verbatim>\<open>wait_for_interrupt\<close> sees: what \<^verbatim>\<open>write\<close>, \<^verbatim>\<open>poll\<close> and \<^verbatim>\<open>read\<close> return, and what the
  hardware did to the registers and the memory while it was waiting. A signal that arrives while
  the call waits makes \<^verbatim>\<open>poll\<close> return -1.
\<close>

record irq =
  irq_write :: int
  irq_hw :: "io \<Rightarrow> io"
  irq_poll :: int
  irq_read :: int

text \<open>The result, the registers and the global \<^verbatim>\<open>position\<close>. \<^verbatim>\<open>EXIT_FAILURE\<close> is 1.\<close>

definition wait_for_interrupt :: "irq \<Rightarrow> io \<Rightarrow> int \<Rightarrow> (int \<times> io \<times> int) res" where
  "wait_for_interrupt v s position =
     (if irq_write v \<noteq> 4 then Inl (Exit 1)
      else let s = irq_hw v s
      in if 1 \<le> irq_poll v then
           (if irq_read v = 4 then
              bindE (dev_read INTC XIL_AXI_INTC_IPR_OFFSET s) (\<lambda>value.
              if value AND 1 \<noteq> 0 then
                bindE (dev_write INTC XIL_AXI_INTC_IAR_OFFSET 1 s) (\<lambda>s.
                bindE (dev_read STS STS_STATUS_OFFSET s) (\<lambda>p.
                Inr (irq_poll v, s, sint p)))
              else Inr (irq_poll v, s, position))
            else Inl (Exit 1))
         else Inr (irq_poll v, s, position))"

text \<open>What goes into the registers after a fix: the numbers scaled by \<open>2 ^ 16\<close>.\<close>

definition gps_registers :: "loc_t \<Rightarrow> io \<Rightarrow> io res" where
  "gps_registers g s =
     bindE (f_to_i32 (loc_times g)) (\<lambda>tim.
     bindE (f_to_i32 (loc_date g)) (\<lambda>dat.
     bindE (f_to_i32 (fmul DOUBLE (loc_latitude g) (f_of_int DOUBLE 65536))) (\<lambda>lat.
     bindE (f_to_i32 (fmul DOUBLE (loc_longitude g) (f_of_int DOUBLE 65536))) (\<lambda>lon.
     bindE (f_to_i32 (fmul DOUBLE (loc_altitude g) (f_of_int DOUBLE 65536))) (\<lambda>alt.
     bindE (f_to_i32 (loc_satellites g)) (\<lambda>sat.
     bindE (dev_write CFG CFG_TIME_OFFSET (word_of_int tim) s) (\<lambda>s.
     bindE (dev_write CFG CFG_DATE_OFFSET (word_of_int dat) s) (\<lambda>s.
     bindE (dev_write CFG CFG_LATITUDE_OFFSET (word_of_int lat) s) (\<lambda>s.
     bindE (dev_write CFG CFG_LONGITUDE_OFFSET (word_of_int lon) s) (\<lambda>s.
     bindE (dev_write CFG CFG_ALTITUDE_OFFSET (word_of_int alt) s) (\<lambda>s.
     dev_write CFG CFG_SATELLITE_OFFSET (word_of_int sat) s)))))))))))"

text \<open>
  The threads, over the interrupts supplied so far: neither ever returns. Every call that does
  not time out, the failing ones with -1 included, counts as an interrupt.
\<close>

fun isr_loop ::
  "gpgga_t \<Rightarrow> gprmc_t \<Rightarrow> irq list \<Rightarrow> char option list \<Rightarrow> int \<Rightarrow> loc_t \<Rightarrow> io
     \<Rightarrow> fault \<times> loc_t \<times> int \<times> io" where
  "isr_loop gga rmc [] rx position g s = (Blocked, g, position, s)"
| "isr_loop gga rmc (v # vs) rx position g s =
     (case wait_for_interrupt v s position of Inl f \<Rightarrow> (f, g, position, s)
      | Inr (ret, s, position) \<Rightarrow>
          if ret = 0 then isr_loop gga rmc vs rx position g s
          else (case gps_location gga rmc rx g of Inl f \<Rightarrow> (f, g, position, s)
                | Inr (g, rx) \<Rightarrow>
                    (case gps_registers g s of Inl f \<Rightarrow> (f, g, position, s)
                     | Inr s \<Rightarrow> isr_loop gga rmc vs rx position g s)))"

definition thread_isr ::
  "int \<Rightarrow> termios \<Rightarrow> gpgga_t \<Rightarrow> gprmc_t \<Rightarrow> irq list \<Rightarrow> char option list \<Rightarrow> uart \<Rightarrow> int \<Rightarrow> loc_t \<Rightarrow> io
     \<Rightarrow> uart \<times> fault \<times> loc_t \<times> int \<times> io" where
  "thread_isr opened options gga rmc vs rx u position g s =
     (gps_init opened options u, isr_loop gga rmc vs rx position g s)"

fun thread_isr_not_gps :: "irq list \<Rightarrow> int \<Rightarrow> io \<Rightarrow> fault \<times> int \<times> io" where
  "thread_isr_not_gps [] position s = (Blocked, position, s)"
| "thread_isr_not_gps (v # vs) position s =
     (case wait_for_interrupt v s position of Inl f \<Rightarrow> (f, position, s)
      | Inr (ret, s, position) \<Rightarrow> thread_isr_not_gps vs position s)"

section \<open>The acquisition\<close>

definition ring0 :: ring where "ring0 = \<lparr>current = - 4, limit = 1024 * 1024 * 8\<rparr>"

definition start_daq :: "io \<Rightarrow> io res" where
  "start_daq s =
     bindE (reset_gral (\<lambda>r. r OR 2) s) (\<lambda>s.
     bindE (reset_gral (\<lambda>r. r OR 1) s) (\<lambda>s.
     reset_gral (\<lambda>r. r OR 4) s))"

definition stop_daq :: "io \<Rightarrow> io res" where
  "stop_daq s =
     bindE (reset_gral (\<lambda>r. r AND NOT 1) s) (\<lambda>s.
     bindE (reset_gral (\<lambda>r. r AND NOT 4) s) (\<lambda>s.
     reset_gral (\<lambda>r. r AND NOT 2) s))"

text \<open>
  The loop, over what happens before each test of \<^verbatim>\<open>interrupted\<close>: \<open>None\<close> is the signal, \<open>Some v\<close>
  another round.
\<close>

fun daq_loop ::
  "daq_env \<Rightarrow> irq option list \<Rightarrow> int \<Rightarrow> io \<Rightarrow> ring \<Rightarrow> daq \<Rightarrow> (int \<times> io \<times> ring \<times> daq) res" where
  "daq_loop e [] position s q d = Inl Blocked"
| "daq_loop e (None # rs) position s q d = Inr (position, s, q, d)"
| "daq_loop e (Some v # rs) position s q d =
     bindE (wait_for_interrupt v s position) (\<lambda>(ret, s, position).
     bindE (read_buffer e s position q d) (\<lambda>(_, q, d).
     daq_loop e rs position s q d))"

definition acquire :: "daq_env \<Rightarrow> irq option list \<Rightarrow> int \<Rightarrow> io \<Rightarrow> daq \<Rightarrow> (int \<times> io \<times> ring \<times> daq) res" where
  "acquire e rs position s d =
     bindE (start_daq s) (\<lambda>s.
     bindE (daq_loop e rs position s ring0 d) (\<lambda>(position, s, q, d).
     bindE (stop_daq s) (\<lambda>s.
     Inr (position, s, q, d))))"

section \<open>The program\<close>

text \<open>What the system answers during one run, and the state the run starts from.\<close>

record world =
  w_bmp :: bmp_env
  w_fresh :: bmp180
  w_mem :: "int \<times> int \<times> bool"
  w_intc :: map_env
  w_cfg :: map_env
  w_sts :: map_env
  w_xadc :: map_env
  w_thread :: int
  w_daq :: daq_env
  w_rounds :: "irq option list"
  w_pow :: "flt \<Rightarrow> flt \<Rightarrow> flt"
  w_tty :: "int \<times> termios \<times> uart"
  w_rx :: "char option list"
  w_gga :: gpgga_t
  w_rmc :: gprmc_t
  w_loc :: loc_t

text \<open>The results of the five calls are not looked at.\<close>

definition init_devices :: "world \<Rightarrow> io \<Rightarrow> io res" where
  "init_devices w s =
     bindE (case w_mem w of (opened, page, ok) \<Rightarrow> mem_init opened page ok s) (\<lambda>(_, s).
     bindE (intc_init (w_intc w) s) (\<lambda>(_, s).
     bindE (cfg_init (w_cfg w) s) (\<lambda>(_, s).
     bindE (sts_init (w_sts w) s) (\<lambda>(_, s).
     bindE (xadc_init (w_xadc w) s) (\<lambda>(_, s). Inr s)))))"

definition first_access :: "world \<Rightarrow> io \<Rightarrow> io res" where
  "first_access w s =
     bindE (dev_read CFG CFG_RESET_GRAL_OFFSET s) (\<lambda>g.
     if g \<noteq> 0 then Inr s
     else bindE (init_system (put_line ''Initializing registers...'' s)) (\<lambda>(_, s).
          if w_thread w \<noteq> 0 then Inl (Exit 1)
          else bindE (enable_interrupt s) (\<lambda>(_, s). Inr s)))"

definition print_pt :: "world \<Rightarrow> io \<Rightarrow> daq \<Rightarrow> (io \<times> daq) res" where
  "print_pt w s d =
     (case d_bmp d of None \<Rightarrow> Inr (put_line ''Error! NO BMP device is present!'' s, d)
      | Some b \<Rightarrow>
          bindE (bmp180_temperature b (d_i2c d)) (\<lambda>(t, i).
          bindE (bmp180_pressure b i) (\<lambda>(p, i).
          bindE (bmp180_altitude (w_pow w) b i) (\<lambda>(alt, i).
          bindE (fdiv DOUBLE p (fdec 100 0)) (\<lambda>h.
          Inr (put_line (''Temperature = '' @ show_fix 1 t @ '', Pressure = '' @ show_fix 2 h
                         @ '', Altitude= '' @ show_fix 1 alt) s,
               d\<lparr>d_bmp := bmp180_close (Some b), d_i2c := i\<rparr>))))))"

definition print_gps :: "world \<Rightarrow> io \<Rightarrow> io res" where
  "print_gps w s =
     bindE (dev_read CFG CFG_RESET_GRAL_OFFSET s) (\<lambda>g.
     if drop_bit 4 g AND 1 = 1 then Inr (put_line ''No GPS device is present or enabled!!!'' s)
     else (case w_tty w of (opened, options, u) \<Rightarrow>
       bindE (gps_print_data opened options (w_gga w) (w_rmc w) (w_loc w) (w_rx w) u) (\<lambda>(ls, _).
       Inr (foldl (\<lambda>s l. put_line l s) s ls))))"

definition print_xadc :: "io \<Rightarrow> io res" where
  "print_xadc s =
     bindE (get_voltage XADC_AI0_OFFSET s) (\<lambda>c1.
     bindE (get_voltage XADC_AI1_OFFSET s) (\<lambda>c2.
     bindE hv_scale (\<lambda>k.
     bindE (get_voltage XADC_AI2_OFFSET s) (\<lambda>c3.
     bindE (get_voltage XADC_AI3_OFFSET s) (\<lambda>c4.
     bindE (get_temp_AD592 XADC_AI0_OFFSET s) (\<lambda>t1.
     bindE (get_temp_AD592 XADC_AI1_OFFSET s) (\<lambda>t2.
     Inr (foldl (\<lambda>s l. put_line l s) s
       [''Reading XADC channels...'',
        ''Voltage CH1: '' @ show_fix 3 c1,
        ''Voltage CH2: '' @ show_fix 3 c2,
        ''Voltage CH3: '' @ show_fix 3 c3 @ '' V ('' @ show_fix 1 (fmul DOUBLE c3 k) @ '' V)'',
        ''Voltage CH4: '' @ show_fix 3 c4 @ '' V ('' @ show_fix 1 (fmul DOUBLE c4 k) @ '' V)'',
        ''Base temperature CH1: '' @ show_fix 1 t1 @ '' '' @ [CHR 0xC2, CHR 0xBA] @ ''C'',
        ''Base temperature CH2: '' @ show_fix 1 t2 @ '' '' @ [CHR 0xC2, CHR 0xBA] @ ''C'']))))))))"

text \<open>The action that the flags select, tested in the order of the code.\<close>

definition run_action :: "world \<Rightarrow> params \<Rightarrow> io \<Rightarrow> daq \<Rightarrow> (io \<times> daq) res" where
  "run_action w p s d =
     (if fReadReg p then bindE (rd_reg_value (n_dev p) (reg_off p) s) (\<lambda>(_, s). Inr (s, d))
      else if fWriteReg p then bindE (wr_reg_value (n_dev p) (reg_off p) (reg_val p) s) (\<lambda>(_, s). Inr (s, d))
      else if fSetCfgReg p then
        (if fRegValue p then bindE (set_voltage (reg_off p) (atoi (charRegValue p)) s) (\<lambda>s. Inr (s, d))
         else bindE (wr_reg_value 1 (reg_off p) (word_of_int (atoi (charRegValue p))) s) (\<lambda>(_, s). Inr (s, d)))
      else if fGetCfgStatus p then bindE (rd_cfg_status s) (\<lambda>(_, s). Inr (s, d))
      else if fGetPT p then print_pt w s d
      else if fGetGPS p then bindE (print_gps w s) (\<lambda>s. Inr (s, d))
      else if fInitSystem p then
        bindE (init_system (put_line ''Initializing registers...'' s)) (\<lambda>(_, s). Inr (s, d))
      else if fGetXADC p then bindE (print_xadc s) (\<lambda>s. Inr (s, d))
      else if fToFile p \<or> fToStdout p then
        bindE (acquire (w_daq w) (w_rounds w) 0 s
                 (d\<lparr>d_toStdout := fToStdout p, d_charFile := charFile p\<rparr>)) (\<lambda>(_, s, _, d). Inr (s, d))
      else Inr (s, d))"

text \<open>
  Only the first page of each mapping is given back, which for the ring is one of 2048; nothing is
  accessed afterwards. The second component are the descriptors that are closed: not the one of
  the memory device.
\<close>

definition close_devices :: "io \<Rightarrow> io \<times> int list" where
  "close_devices s = (s\<lparr>io_map := \<lambda>_. None\<rparr>, map (io_fd s) [INTC, CFG, STS, XADC])"

definition lago_main :: "world \<Rightarrow> string list \<Rightarrow> params \<Rightarrow> io \<Rightarrow> daq \<Rightarrow> (int \<times> (io \<times> int list) \<times> daq) res" where
  "lago_main w argv p0 s d =
     bindE (bmp180_init (w_bmp w) (w_fresh w) 0x77 ''/dev/i2c-0'' (d_i2c d)) (\<lambda>(b, i).
     bindE (bmp180_dump_eprom b) (\<lambda>_.
     bindE (bmp180_set_oss 1 b) (\<lambda>b.
     let d = d\<lparr>d_bmp := b, d_i2c := i\<rparr>
     in bindE (parse_param argv p0) (\<lambda>(ok, p).
        if ok = 0 then
          bindE (arg_at argv 0) (\<lambda>prog.
          Inr (1, (s\<lparr>io_out := io_out s @ p_out p @ show_usage prog p\<rparr>, []), d))
        else
          bindE (init_devices w s) (\<lambda>s.
          bindE (first_access w s) (\<lambda>s.
          bindE (run_action w p s d) (\<lambda>(s, d).
          Inr (0, close_devices s, d))))))))"

section \<open>Interrupts do what they should\<close>

lemma wait_pending:
  assumes "io_ready (irq_hw v s)" and "irq_write v = 4" and "irq_poll v \<ge> 1" and "irq_read v = 4"
    and "bit (peek INTC (irq_hw v s) XIL_AXI_INTC_IPR_OFFSET) 0"
  shows "wait_for_interrupt v s position = Inr (irq_poll v,
    poke INTC (irq_hw v s) XIL_AXI_INTC_IAR_OFFSET 1, sint (peek STS (irq_hw v s) STS_STATUS_OFFSET))"
proof -
  have "peek INTC (irq_hw v s) XIL_AXI_INTC_IPR_OFFSET AND 1 \<noteq> 0"
    using assms(5) by (simp add: and_one_eq mod_2_eq_odd bit_0)
  then show ?thesis
    using assms(1-4)
    by (simp add: wait_for_interrupt_def io_simps intc_offsets sts_xadc_offsets Let_def peek_poke_bank)
qed

text \<open>The hardware of the model run: it fills the ring and then reports where it stands.\<close>

definition raise_irq :: "nat \<Rightarrow> io \<Rightarrow> io" where
  "raise_irq p s = s\<lparr>io_reg := (io_reg s)(STS := (io_reg s STS)(STS_STATUS_OFFSET := of_nat p),
                                     INTC := (io_reg s INTC)(XIL_AXI_INTC_IPR_OFFSET := 1))\<rparr>"

definition hw_writes :: "nat \<Rightarrow> (nat \<Rightarrow> u32) \<Rightarrow> nat \<Rightarrow> nat \<Rightarrow> io \<Rightarrow> io" where
  "hw_writes N w W W' s = raise_irq (W' mod N div 2) (fold (put_word N w) [W..<W'] s)"

definition full_round :: "nat \<Rightarrow> (nat \<Rightarrow> u32) \<Rightarrow> nat \<Rightarrow> nat \<Rightarrow> irq" where
  "full_round N w W W' = \<lparr>irq_write = 4, irq_hw = hw_writes N w W W', irq_poll = 1, irq_read = 4\<rparr>"

fun rounds :: "nat \<Rightarrow> (nat \<Rightarrow> u32) \<Rightarrow> nat \<Rightarrow> nat list \<Rightarrow> irq option list" where
  "rounds N w W [] = [None]"
| "rounds N w W (W' # Ws) = Some (full_round N w W W') # rounds N w W' Ws"

text \<open>Where the reader is after these rounds, and that the writer never laps it.\<close>

fun reads :: "nat \<Rightarrow> nat \<Rightarrow> nat list \<Rightarrow> nat" where
  "reads N R [] = R"
| "reads N R (W # Ws) = reads N (next_read N R W) Ws"

fun pace :: "nat \<Rightarrow> nat \<Rightarrow> nat \<Rightarrow> nat list \<Rightarrow> bool" where
  "pace N R W [] \<longleftrightarrow> True"
| "pace N R W (W' # Ws) \<longleftrightarrow> even W' \<and> W \<le> W' \<and> W' < R + N \<and> pace N (next_read N R W') W' Ws"

lemma fold_put:
  assumes "ring_holds N w W s" and "0 < N" and "W \<le> W'"
  shows "ring_holds N w W' (fold (put_word N w) [W..<W'] s)"
  using assms(3)
proof (induction W' rule: dec_induct)
  case base
  then show ?case using assms(1) by simp
next
  case (step n)
  then show ?case using ring_holds_put assms(2) by simp
qed

lemma fold_put_other:
  "io_map (fold (put_word N w) js s) = io_map s"
  "b \<noteq> MEM \<Longrightarrow> io_reg (fold (put_word N w) js s) b = io_reg s b"
  by (induction js arbitrary: s) (simp_all add: put_word_def)

lemma hw_writes_facts:
  "io_map (hw_writes N w W W' s) = io_map s"
  "b = CFG \<or> b = XADC \<Longrightarrow> io_reg (hw_writes N w W W' s) b = io_reg s b"
  "peek STS (hw_writes N w W W' s) STS_STATUS_OFFSET = of_nat (W' mod N div 2)"
  "peek INTC (hw_writes N w W W' s) XIL_AXI_INTC_IPR_OFFSET = 1"
  "ring_holds N w W s \<Longrightarrow> 0 < N \<Longrightarrow> W \<le> W' \<Longrightarrow> ring_holds N w W' (hw_writes N w W W' s)"
  using fold_put [of N w W s W']
  by (auto simp: hw_writes_def raise_irq_def fold_put_other peek_def ring_holds_def)

text \<open>The first call of \<open>read_buffer\<close> prepares the output, the others find it prepared.\<close>

lemma first_time_done: "\<not> fFirstTime d \<Longrightarrow> first_time e s d = Inr d"
  by (simp add: first_time_def)

lemma first_time_prepared:
  assumes "first_time e s (start_call d) = Inr d1"
  shows "\<not> fFirstTime d1 \<and> start_call d1 = d1"
proof -
  have *: "\<not> fFirstTime d1 \<and> d_toStdout d1 = d_toStdout (start_call d)
    \<and> (d_toStdout (start_call d) \<longrightarrow> fhout d1 = fhout (start_call d))"
    using assms kept_new_file [OF keeps_refl]
    by (auto simp: first_time_def res_simps Let_def kept_def keeps_def normalise_def split: if_splits)
  moreover have "d_toStdout (start_call d) \<Longrightarrow> fhout (start_call d) = StdOut"
    by (simp add: start_call_def split: if_splits)
  ultimately have "d_toStdout d1 \<Longrightarrow> fhout d1 = StdOut" by simp
  then show ?thesis using * by (simp add: start_call_def)
qed

lemma read_buffer_first:
  "read_buffer e s p q d = bindE (first_time e s (start_call d)) (\<lambda>d1. read_buffer e s p q d1)"
proof (cases "first_time e s (start_call d)")
  case (Inl f)
  then show ?thesis by (simp add: read_buffer_def)
next
  case (Inr d1)
  then show ?thesis using first_time_prepared [OF Inr] by (simp add: read_buffer_def first_time_done)
qed

lemma first_time_regs: "same_regs s s' \<Longrightarrow> first_time e s' = first_time e s"
  by (intro ext) (simp add: first_time_def dev_read_regs new_file_regs)

lemma same_regsI: "io_map s' = io_map s \<Longrightarrow> peek CFG s' = peek CFG s \<Longrightarrow> peek XADC s' = peek XADC s \<Longrightarrow> same_regs s s'"
  by (auto simp: same_regs_def dev_read_def accessible_def access_fault_def)

text \<open>One round: the interrupt is acknowledged, and the words up to the writer or the end are decoded.\<close>

lemma daq_round:
  assumes fits: "ring_fits N s" and ready: "io_ready s" and mem: "ring_holds N w W s"
    and W: "even W'" "W \<le> W'" "W' < R + N" "R \<le> W'" and q: "at_word N R q"
  defines "s1 \<equiv> poke INTC (hw_writes N w W W' s) XIL_AXI_INTC_IAR_OFFSET 1"
  shows "wait_for_interrupt (full_round N w W W') s p = Inr (1, s1, int (W' mod N div 2))"
    and "\<exists>q'. at_word N (next_read N R W') q' \<and>
      read_buffer e s1 (int (W' mod N div 2)) q d =
        bindE (first_time e s (start_call d)) (\<lambda>d1.
        bindE (decode_all e s (map w [R..<next_read N R W']) d1) (\<lambda>d'. Inr (1, q', d')))"
    and "same_regs s s1" and "io_map s1 = io_map s" and "ring_holds N w W' s1"
    and "peek CFG s1 = peek CFG s"
proof -
  obtain n where N: "even N" "0 < N" "4 * N < 2 ^ 31" "io_map s MEM = Some n" "4 * N \<le> n"
    using fits by (auto simp: ring_fits_def)
  have "even (W' mod N)" using N(1) W(1) by (simp add: dvd_mod)
  then obtain k where k: "W' mod N = 2 * k" by (elim evenE)
  have lt: "W' mod N < N" using N(2) by simp
  then have pos: "int (W' mod N div 2) * 8 = 4 * int (W' mod N)" "in_i32 (int (W' mod N div 2) * 8)"
    using N(3) by (simp_all add: k in_i32_iff)
  have "int k < 2 ^ 31" using lt N(3) k by simp
  then have s: "sint (of_nat (W' mod N div 2) :: u32) = int (W' mod N div 2)"
    using to_i32_sint [of "int k"] by (simp add: k to_i32_id in_i32_iff)
  have r: "io_ready (hw_writes N w W W' s)" using ready by (simp add: io_ready_def hw_writes_facts)
  show "wait_for_interrupt (full_round N w W W') s p = Inr (1, s1, int (W' mod N div 2))"
    using wait_pending [of "full_round N w W W'" s p] r s
    by (simp add: full_round_def hw_writes_facts s1_def)
  show map: "io_map s1 = io_map s" by (simp add: s1_def hw_writes_facts)
  show cfg: "peek CFG s1 = peek CFG s"
    by (simp add: s1_def hw_writes_facts peek_poke_bank) (simp add: peek_def [abs_def] hw_writes_facts)
  have "peek XADC s1 = peek XADC s"
    by (simp add: s1_def hw_writes_facts peek_poke_bank) (simp add: peek_def [abs_def] hw_writes_facts)
  with map cfg show regs: "same_regs s s1" by (intro same_regsI)
  show mem1: "ring_holds N w W' s1"
    using hw_writes_facts(5) [OF mem N(2) W(2)] by (simp add: s1_def ring_holds_def)
  show "\<exists>q'. at_word N (next_read N R W') q' \<and>
      read_buffer e s1 (int (W' mod N div 2)) q d =
        bindE (first_time e s (start_call d)) (\<lambda>d1.
        bindE (decode_all e s (map w [R..<next_read N R W']) d1) (\<lambda>d'. Inr (1, q', d')))"
  proof (cases "first_time e s (start_call d)")
    case (Inl f)
    have "at_word N r \<lparr>current = 4 * int (r mod N) - 4, limit = 4 * int N\<rparr>" for r by (simp add: at_word_def)
    with Inl show ?thesis
      by (subst read_buffer_first) (auto simp: first_time_regs [OF regs])
  next
    case (Inr d1)
    then have d1: "\<not> fFirstTime d1" "start_call d1 = d1" using first_time_prepared by blast+
    show ?thesis
      using read_buffer_call [OF N(2) W(4,3) q mem1 _ N(5) pos d1(1), of e] d1(2) N(4) map
      by (subst read_buffer_first) (auto simp: first_time_regs [OF regs] decode_all_regs [OF regs] Inr)
  qed
qed

lemma reads_mono:
  assumes "0 < N" and "pace N R W Ws" and "R \<le> W"
  shows "R \<le> reads N R Ws"
  using assms(2,3)
proof (induction Ws arbitrary: R W)
  case Nil
  then show ?case by simp
next
  case (Cons W' Ws)
  then have "R \<le> next_read N R W'" "next_read N R W' \<le> W'"
    using next_read_bounds [OF assms(1), of R W'] by auto
  then show ?case using Cons.IH [of "next_read N R W'" W'] Cons.prems(1) by auto
qed

text \<open>All rounds, once the output is prepared.\<close>

lemma daq_loop_run:
  assumes "ring_fits N s" and "io_ready s" and "ring_holds N w W s" and "pace N R W Ws" and "R \<le> W"
    and "at_word N R q" and "\<not> fFirstTime d" and "start_call d = d"
  shows "\<exists>p' s' q'. io_ready s' \<and> peek CFG s' = peek CFG s
    \<and> daq_loop e (rounds N w W Ws) p s q d
      = bindE (decode_all e s (map w [R..<reads N R Ws]) d) (\<lambda>d'. Inr (p', s', q', d'))
    \<and> R \<le> reads N R Ws"
  using assms
proof (induction Ws arbitrary: W R s q d p)
  case Nil
  then show ?case by (auto simp: decode_all_def)
next
  case (Cons W' Ws)
  have W: "even W'" "W \<le> W'" "W' < R + N" "R \<le> W'" "pace N (next_read N R W') W' Ws" and N: "0 < N"
    using Cons.prems(1,4,5) by (auto simp: ring_fits_def)
  note round = daq_round [OF Cons.prems(1-3) W(1-4) Cons.prems(6)]
  define s1 where "s1 = poke INTC (hw_writes N w W W' s) XIL_AXI_INTC_IAR_OFFSET 1"
  define r where "r = next_read N R W'"
  have r: "R \<le> r" "r \<le> W'" using next_read_bounds [OF N W(4,3)] by (simp_all add: r_def)
  obtain q1 where q1: "at_word N r q1"
    "read_buffer e s1 (int (W' mod N div 2)) q d
       = bindE (decode_all e s (map w [R..<r]) d) (\<lambda>d'. Inr (1, q1, d'))"
    using round(2) [of e d] Cons.prems(7,8) by (auto simp: s1_def r_def first_time_done)
  have loop: "daq_loop e (rounds N w W (W' # Ws)) p s q d
      = bindE (decode_all e s (map w [R..<r]) d) (\<lambda>d'. daq_loop e (rounds N w W' Ws) (int (W' mod N div 2)) s1 q1 d')"
    using round(1) [of p] q1(2) by (simp add: bindE_assoc flip: s1_def)
  have s1: "ring_fits N s1" "io_ready s1" "ring_holds N w W' s1" "same_regs s s1" "peek CFG s1 = peek CFG s"
    using round(3-6) Cons.prems(1,2) by (simp_all add: ring_fits_def io_ready_def flip: s1_def)
  show ?case
  proof (cases "decode_all e s (map w [R..<r]) d")
    case (Inl f)
    have "R \<le> reads N r Ws" using r(1) reads_mono [OF N W(5) [folded r_def] r(2)] by simp
    then have "map w [R..<reads N r Ws] = map w [R..<r] @ map w [r..<reads N r Ws]"
      using r(1) reads_mono [OF N W(5) [folded r_def] r(2)] map_nth_upt_append by metis
    with Inl loop \<open>R \<le> reads N r Ws\<close> Cons.prems(2) show ?thesis
      by (auto simp: decode_all_append simp flip: r_def intro: exI [of _ s])
  next
    case (Inr d1)
    have "keeps d d1" using Inr by (rule decode_all_keeps)
    then have d1: "\<not> fFirstTime d1" "start_call d1 = d1"
      using start_call_keeps Cons.prems(7,8) by (auto simp: keeps_def)
    obtain p' s' q' where ih: "io_ready s'" "peek CFG s' = peek CFG s1"
      "daq_loop e (rounds N w W' Ws) (int (W' mod N div 2)) s1 q1 d1
        = bindE (decode_all e s1 (map w [r..<reads N r Ws]) d1) (\<lambda>d'. Inr (p', s', q', d'))" "r \<le> reads N r Ws"
      using Cons.IH [OF s1(1-3) W(5) [folded r_def] r(2) q1(1) d1] by blast
    have "map w [R..<reads N r Ws] = map w [R..<r] @ map w [r..<reads N r Ws]"
      using r(1) ih(4) map_nth_upt_append by metis
    then have "decode_all e s (map w [R..<reads N r Ws]) d = decode_all e s (map w [r..<reads N r Ws]) d1"
      using Inr by (simp add: decode_all_append)
    then show ?thesis
      using ih loop Inr s1(5) r(1) decode_all_regs [OF s1(4), of e] by (auto simp flip: r_def)
  qed
qed

section \<open>A whole acquisition\<close>

lemma start_daq_ready:
  assumes "io_ready s"
  shows "\<exists>s1. start_daq s = Inr s1 \<and> io_map s1 = io_map s \<and> (\<forall>b. b \<noteq> CFG \<longrightarrow> peek b s1 = peek b s)
    \<and> peek CFG s1 = (peek CFG s)(CFG_RESET_GRAL_OFFSET := peek CFG s CFG_RESET_GRAL_OFFSET OR 7)"
proof -
  have "((r OR 2) OR 1) OR 4 = r OR 7" for r :: u32 by (simp add: or.assoc)
  with assms show ?thesis
    by (simp add: start_daq_def io_simps peek_poke_fun peek_poke_bank)
qed

lemma stop_daq_ready:
  assumes "io_ready s"
  shows "\<exists>s1. stop_daq s = Inr s1 \<and> io_map s1 = io_map s
    \<and> peek CFG s1 = (peek CFG s)(CFG_RESET_GRAL_OFFSET := peek CFG s CFG_RESET_GRAL_OFFSET AND NOT 7)"
proof -
  have "((r AND NOT 1) AND NOT 4) AND NOT 2 = r AND NOT 7" for r :: u32 by (simp add: and.assoc)
  with assms show ?thesis
    by (simp add: stop_daq_def io_simps peek_poke_fun)
qed

lemma daq_loop_first:
  assumes "ring_fits N s" and "io_ready s" and "ring_holds N w W s"
    and "even W'" and "W \<le> W'" and "W' < R + N" and "R \<le> W'" and "at_word N R q"
  shows "daq_loop e (rounds N w W (W' # Ws)) p s q d
    = bindE (first_time e s (start_call d)) (daq_loop e (rounds N w W (W' # Ws)) p s q)"
proof -
  note round = daq_round [OF assms]
  define s1 where "s1 = poke INTC (hw_writes N w W W' s) XIL_AXI_INTC_IAR_OFFSET 1"
  let ?p = "int (W' mod N div 2)"
  have loop: "daq_loop e (rounds N w W (W' # Ws)) p s q d
      = bindE (read_buffer e s1 ?p q d) (\<lambda>(_, q, d). daq_loop e (rounds N w W' Ws) ?p s1 q d)" for d
    using round(1) [of p] by (simp flip: s1_def)
  have "first_time e s1 = first_time e s" using round(3) by (simp add: first_time_regs flip: s1_def)
  then show ?thesis
    unfolding loop [abs_def] by (simp only: read_buffer_first [of e s1 ?p q d] bindE_assoc)
qed

text \<open>
  C1. A whole acquisition, from leaving reset to the interrupt signal. Whatever the numbers of words
  the hardware has written at its interrupts, as long as it stays less than one lap ahead in the
  ring of 2097152 words: what the program has written out when it ends is the header of the first
  file and then the decoding of exactly the words it was told of, each once and in order, up to
  the last one or to the end of the ring; and the acquisition is back in reset, with no other
  configuration register changed.
\<close>

theorem acquire_end_to_end:
  assumes "io_ready s" and "ring_fits 2097152 s" and "pace 2097152 0 0 (W # Ws)"
  shows "\<exists>s1 p s' q'. start_daq s = Inr s1
    \<and> peek CFG s' = (peek CFG s)(CFG_RESET_GRAL_OFFSET := peek CFG s CFG_RESET_GRAL_OFFSET AND NOT 7)
    \<and> acquire e (rounds 2097152 w 0 (W # Ws)) 0 s d
      = bindE (first_time e s1 (start_call d)) (\<lambda>d1.
        bindE (decode_all e s1 (map w [0..<reads 2097152 0 (W # Ws)]) d1) (\<lambda>d'. Inr (p, s', q', d')))"
proof -
  let ?N = "2097152 :: nat"
  obtain s1 where s1: "start_daq s = Inr s1" "io_map s1 = io_map s"
    "peek CFG s1 = (peek CFG s)(CFG_RESET_GRAL_OFFSET := peek CFG s CFG_RESET_GRAL_OFFSET OR 7)"
    using start_daq_ready [OF assms(1)] by blast
  have ready: "ring_fits ?N s1" "io_ready s1" "ring_holds ?N w 0 s1" "at_word ?N 0 ring0"
    using assms(1,2) s1(2) by (simp_all add: ring_fits_def io_ready_def ring_holds_def at_word_def ring0_def)
  have and_or: "(r OR 7) AND NOT 7 = r AND NOT 7" for r :: u32 by (simp add: bit_eq_iff bit_simps) blast
  then have and_or: "(r OR 7) AND - 8 = r AND - 8" for r :: u32 by simp
  have stop: "\<exists>s2. stop_daq s' = Inr s2 \<and> peek CFG s2
      = (peek CFG s)(CFG_RESET_GRAL_OFFSET := peek CFG s CFG_RESET_GRAL_OFFSET AND NOT 7)"
    if "io_ready s'" "peek CFG s' = peek CFG s1" for s'
    using stop_daq_ready [OF that(1)] that(2) s1(3) by (auto simp: and_or)
  have W: "even W" "W < 0 + ?N" using assms(3) by simp_all
  have first: "daq_loop e (rounds ?N w 0 (W # Ws)) 0 s1 ring0 d
      = bindE (first_time e s1 (start_call d)) (daq_loop e (rounds ?N w 0 (W # Ws)) 0 s1 ring0)"
    by (rule daq_loop_first [OF ready(1-3) W(1) _ W(2) _ ready(4)]) simp_all
  show ?thesis
  proof (cases "first_time e s1 (start_call d)")
    case (Inl f)
    obtain s2 where "peek CFG s2 = (peek CFG s)(CFG_RESET_GRAL_OFFSET := peek CFG s CFG_RESET_GRAL_OFFSET AND NOT 7)"
      using stop [OF ready(2) refl] by blast
    moreover have "acquire e (rounds ?N w 0 (W # Ws)) 0 s d = Inl f"
      by (simp only: acquire_def s1(1) first Inl bindE_Inr bindE_Inl)
    ultimately show ?thesis
      by (intro exI [of _ s1] exI [of _ "0 :: int"] exI [of _ s2] exI [of _ ring0]) (simp only: s1(1) Inl bindE_Inl simp_thms)
  next
    case (Inr d1)
    then have d1: "\<not> fFirstTime d1" "start_call d1 = d1" using first_time_prepared by blast+
    obtain p' s' q' where run: "io_ready s'" "peek CFG s' = peek CFG s1"
      "daq_loop e (rounds ?N w 0 (W # Ws)) 0 s1 ring0 d1
        = bindE (decode_all e s1 (map w [0..<reads ?N 0 (W # Ws)]) d1) (\<lambda>d'. Inr (p', s', q', d'))"
      using daq_loop_run [OF ready(1-3) assms(3) _ ready(4) d1, of e 0] by auto
    obtain s2 where s2: "stop_daq s' = Inr s2"
      "peek CFG s2 = (peek CFG s)(CFG_RESET_GRAL_OFFSET := peek CFG s CFG_RESET_GRAL_OFFSET AND NOT 7)"
      using stop [OF run(1,2)] by blast
    have "acquire e (rounds ?N w 0 (W # Ws)) 0 s d
        = bindE (decode_all e s1 (map w [0..<reads ?N 0 (W # Ws)]) d1) (\<lambda>d'. Inr (p', s2, q', d'))"
      using s1(1) first Inr run(3) s2(1) by (simp only: acquire_def bindE_Inr bindE_assoc prod.case)
    with s2(2) show ?thesis
      by (intro exI [of _ s1] exI [of _ p'] exI [of _ s2] exI [of _ q']) (simp only: s1(1) Inr bindE_Inr simp_thms)
  qed
qed

definition io_ring :: io where
  "io_ring = io0\<lparr>io_map := \<lambda>_. Some 8388608\<rparr>"

theorem acquire_end_to_end_witness:
  "\<exists>s1 p s' q'. start_daq io_ring = Inr s1 \<and> acquire env0 (rounds 2097152 (\<lambda>_. 0x40000007) 0 [2]) 0 io_ring daq0
     = bindE (first_time env0 s1 (start_call daq0)) (\<lambda>d1.
       bindE (decode_all env0 s1 (map (\<lambda>_. 0x40000007) [0..<2]) d1) (\<lambda>d'. Inr (p, s', q', d')))"
proof -
  have "io_ready io_ring" "ring_fits 2097152 io_ring"
    by (simp_all add: io_ready_def ring_fits_def io_ring_def io0_def)
  moreover have "reads 2097152 0 [2] = 2" by (simp add: next_read_def)
  ultimately show ?thesis
    using acquire_end_to_end [where s = io_ring and W = 2 and Ws = "[]" and w = "\<lambda>_. 0x40000007" and e = env0 and d = daq0] by (simp only: reads.simps) auto
qed

section \<open>The start of the program\<close>

text \<open>
  Without the pressure sensor the program does not start: when the sensor cannot be opened or
  addressed, every run, whatever its arguments and even just to print the usage, reads the
  calibration through the null pointer before anything else.
\<close>

theorem main_needs_sensor:
  assumes "\<not> be_malloc1 (w_bmp w) \<or> \<not> be_malloc2 (w_bmp w)
    \<or> (11 \<le> be_usable (w_bmp w) \<and> (be_open (w_bmp w) < 0 \<or> be_ioctl (w_bmp w) < 0))"
  shows "lago_main w argv p s d = Inl NullDeref"
proof -
  have "bmp180_init (w_bmp w) (w_fresh w) 0x77 ''/dev/i2c-0'' (d_i2c d) = Inr (None, d_i2c d)"
    using assms by (auto simp: bmp180_init_def Let_def)
  then show ?thesis by (simp add: lago_main_def bmp180_dump_eprom_def)
qed

definition no_map :: map_env where
  "no_map = \<lparr>me_open = - 1, me_size = None, me_junk = 0, me_mmap = False\<rparr>"

text \<open>A board without the sensor, and one with it, whose other devices are missing.\<close>

definition bare_world :: "bool \<Rightarrow> world" where
  "bare_world sensor = \<lparr>w_bmp = \<lparr>be_malloc1 = True, be_malloc2 = True, be_usable = 16,
        be_open = (if sensor then 3 else - 1), be_ioctl = 0\<rparr>,
     w_fresh = datasheet, w_mem = (- 1, 4096, False), w_intc = no_map, w_cfg = no_map, w_sts = no_map,
     w_xadc = no_map, w_thread = 0, w_daq = env0, w_rounds = [], w_pow = \<lambda>x y. x,
     w_tty = (- 1, \<lparr>c_cflag = {}, c_iflag = {}, c_oflag = 0, c_lflag = 0\<rparr>, uart_reset), w_rx = [],
     w_gga = \<lparr>gga_times = Flt 0 0, gga_latitude = Flt 0 0, gga_lat = NUL, gga_longitude = Flt 0 0,
        gga_lon = NUL, gga_quality = 0, gga_satellites = 0, gga_altitude = Flt 0 0\<rparr>,
     w_rmc = \<lparr>rmc_times = Flt 0 0, rmc_latitude = Flt 0 0, rmc_lat = NUL, rmc_longitude = Flt 0 0,
        rmc_lon = NUL, rmc_speed = Flt 0 0, rmc_course = Flt 0 0, rmc_date = Flt 0 0\<rparr>,
     w_loc = g_data daq0\<rparr>"

theorem main_needs_sensor_witness:
  "lago_main (bare_world False) [''lago'', ''-v''] params0 io0 daq0 = Inl NullDeref"
  by (rule main_needs_sensor) (simp add: bare_world_def)

text \<open>
  Missing devices are not noticed: the results of the five start functions are not looked at,
  so that, with the sensor there and a command line that is accepted, a run whose configuration
  device does not open gets as far as reading the reset register through the null pointer.
\<close>

theorem main_ignores_device_errors:
  assumes "bmp180_init (w_bmp w) (w_fresh w) 0x77 ''/dev/i2c-0'' (d_i2c d) = Inr (Some b, i)"
    and "parse_param argv p = Inr (1, p')" and "io_map s CFG = None"
    and "init_devices w s = Inr s1" and "me_open (w_cfg w) < 1"
  shows "lago_main w argv p s d = Inl NullDeref"
proof -
  have map: "io_map s3 CFG = io_map s2 CFG"
    if "uio_init b who u e s2 = Inr (r, s3)" "b \<noteq> CFG \<or> me_open e < 1" for b who u e s2 r s3
    using that by (auto simp: uio_init_def res_simps Let_def mmap_dev_def put_line_def split: if_splits)
  have mem: "io_map s3 CFG = io_map s2 CFG" if "mem_init o1 pg ok s2 = Inr (r, s3)" for o1 pg ok s2 r s3
    using that by (auto simp: mem_init_def res_simps Let_def mmap_dev_def put_line_def split: if_splits)
  have "io_map s1 CFG = None"
    using assms(3-5) map [of INTC] map [of CFG] map [of STS] map [of XADC] mem
    unfolding init_devices_def intc_init_def cfg_init_def sts_init_def xadc_init_def
    by (auto simp: res_simps split: prod.splits)
  then have "first_access w s1 = Inl NullDeref"
    by (simp add: first_access_def dev_read_def accessible_def access_fault_def)
  then show ?thesis
    using assms(1,2,4) by (simp add: lago_main_def bmp180_dump_eprom_def bmp180_set_oss_def Let_def)
qed

theorem main_ignores_device_errors_witness:
  "lago_main (bare_world True) [''lago'', ''-a''] params0 (io0\<lparr>io_map := \<lambda>_. None\<rparr>)
     (daq0\<lparr>d_i2c := \<lparr>i2c_pending = replicate 11 (chip datasheet), i2c_calls = []\<rparr>\<rparr>) = Inl NullDeref"
proof -
  let ?i = "\<lparr>i2c_pending = replicate 11 (chip datasheet), i2c_calls = []\<rparr>"
  let ?d = "daq0\<lparr>d_i2c := ?i\<rparr>"
  have "(case bmp180_init (w_bmp (bare_world True)) datasheet 0x77 ''/dev/i2c-0'' ?i of
      Inr (Some b, i) \<Rightarrow> True | _ \<Rightarrow> False)"
    by code_simp
  then obtain b i where b: "bmp180_init (w_bmp (bare_world True)) datasheet 0x77 ''/dev/i2c-0'' ?i = Inr (Some b, i)"
    by (auto split: sum.splits option.splits)
  have p: "parse_param [''lago'', ''-a''] params0
      = Inr (1, clear_flags params0\<lparr>charAction := ''-a'', fGetCfgStatus := True\<rparr>)"
    by (simp add: parse_param_def parse_action_def clear_flags_def StrcpyS_def MAXCHRLEN_def params0_def Let_def)
  have "\<exists>s1. init_devices (bare_world True) (io0\<lparr>io_map := \<lambda>_. None\<rparr>) = Inr s1"
    by (simp add: init_devices_def bare_world_def mem_init_def intc_init_def cfg_init_def sts_init_def
        xadc_init_def uio_init_def no_map_def)
  then obtain s1 where s1: "init_devices (bare_world True) (io0\<lparr>io_map := \<lambda>_. None\<rparr>) = Inr s1" by blast
  have "w_fresh (bare_world True) = datasheet" "me_open (w_cfg (bare_world True)) < 1"
    by (simp_all add: bare_world_def no_map_def)
  with b show ?thesis
    using main_ignores_device_errors [OF _ p _ s1, of ?d b i] by simp
qed

section \<open>The position in the registers\<close>

lemma ftrunc_near: "\<bar>real_of_int (ftrunc x) - fval x\<bar> \<le> 1"
proof (cases "0 \<le> fval x")
  case True
  then show ?thesis using ftrunc_floor [OF True] by linarith
next
  case False
  then have "ftrunc (fneg x) = \<lfloor>fval (fneg x)\<rfloor>" by (intro ftrunc_floor) simp
  then have "- ftrunc x = \<lfloor>- fval x\<rfloor>" by (simp add: ftrunc_neg)
  then show ?thesis by linarith
qed

lemma scaled_register:
  assumes "\<bar>fval x\<bar> \<le> 32000"
  shows "\<exists>n. f_to_i32 (fmul DOUBLE x (f_of_int DOUBLE 65536)) = Inr n \<and> in_i32 n
    \<and> \<bar>real_of_int n - 65536 * fval x\<bar> \<le> 1001 / 1000"
proof -
  define z where "z = fmul DOUBLE x (f_of_int DOUBLE 65536)"
  have m: "fval (f_of_int DOUBLE 65536) = 65536" using f_of_int_exact [of 65536 DOUBLE] by simp
  have b: "\<bar>fval x * 65536\<bar> \<le> 2097152000" using assms by (simp add: abs_mult)
  have "\<bar>fval z - fval x * 65536\<bar> \<le> \<bar>fval x * 65536\<bar> * 2 powi (- 53)"
    using fmul_error [of DOUBLE x "f_of_int DOUBLE 65536"] unfolding m z_def [symmetric] of_nat_numeral .
  then have "\<bar>fval z - fval x * 65536\<bar> \<le> 2097152000 * 2 powi (- 53)"
    by (rule rel_error [OF _ b]) simp
  also have "(2 :: real) powi (- 53) = 1 / 9007199254740992" by (simp add: power_int_def power_divide)
  finally have z: "\<bar>fval z - fval x * 65536\<bar> \<le> 1 / 1000" by simp
  have t: "\<bar>real_of_int (ftrunc z) - 65536 * fval x\<bar> \<le> 1001 / 1000"
    using z ftrunc_near [of z] unfolding abs_le_iff by (simp add: algebra_simps)
  then have "real_of_int (ftrunc z) \<le> 2097153000" "- 2097153000 \<le> real_of_int (ftrunc z)"
    using assms unfolding abs_le_iff by (simp_all add: algebra_simps)
  then have "in_i32 (ftrunc z)" by (simp add: in_i32_iff)
  then show ?thesis using t by (simp add: f_to_i32_def z_def)
qed

lemma whole_register: "\<bar>fval x\<bar> \<le> 1000000 \<Longrightarrow> \<exists>n. f_to_i32 x = Inr n \<and> in_i32 n"
proof -
  assume "\<bar>fval x\<bar> \<le> 1000000"
  then have "real_of_int (ftrunc x) \<le> 1000001" "- 1000001 \<le> real_of_int (ftrunc x)"
    using ftrunc_near [of x] unfolding abs_le_iff by simp_all
  then have "in_i32 (ftrunc x)" by (simp add: in_i32_iff)
  then show ?thesis by (simp add: f_to_i32_def)
qed

text \<open>
  The position the hardware gets: for every fix in range the interrupt thread stores latitude,
  longitude and altitude in their registers as signed numbers of 65536ths, right to within one
  such unit (and the rounding of the product), and no conversion overflows.
\<close>

theorem gps_registers_scaled:
  assumes "io_ready s" and "\<bar>fval (loc_latitude g)\<bar> \<le> 90" and "\<bar>fval (loc_longitude g)\<bar> \<le> 180"
    and "\<bar>fval (loc_altitude g)\<bar> \<le> 32000" and "\<bar>fval (loc_times g)\<bar> \<le> 240000"
    and "\<bar>fval (loc_date g)\<bar> \<le> 320000" and "\<bar>fval (loc_satellites g)\<bar> \<le> 255"
  shows "\<exists>s'. gps_registers g s = Inr s'
    \<and> \<bar>real_of_int (sint (peek CFG s' CFG_LATITUDE_OFFSET)) - 65536 * fval (loc_latitude g)\<bar> \<le> 1001 / 1000
    \<and> \<bar>real_of_int (sint (peek CFG s' CFG_LONGITUDE_OFFSET)) - 65536 * fval (loc_longitude g)\<bar> \<le> 1001 / 1000
    \<and> \<bar>real_of_int (sint (peek CFG s' CFG_ALTITUDE_OFFSET)) - 65536 * fval (loc_altitude g)\<bar> \<le> 1001 / 1000"
proof -
  obtain la lo al where sc: "f_to_i32 (fmul DOUBLE (loc_latitude g) (f_of_int DOUBLE 65536)) = Inr la"
    "f_to_i32 (fmul DOUBLE (loc_longitude g) (f_of_int DOUBLE 65536)) = Inr lo"
    "f_to_i32 (fmul DOUBLE (loc_altitude g) (f_of_int DOUBLE 65536)) = Inr al"
    and i: "in_i32 la" "in_i32 lo" "in_i32 al"
    and near: "\<bar>real_of_int la - 65536 * fval (loc_latitude g)\<bar> \<le> 1001 / 1000"
      "\<bar>real_of_int lo - 65536 * fval (loc_longitude g)\<bar> \<le> 1001 / 1000"
      "\<bar>real_of_int al - 65536 * fval (loc_altitude g)\<bar> \<le> 1001 / 1000"
    using scaled_register [of "loc_latitude g"] scaled_register [of "loc_longitude g"]
      scaled_register [of "loc_altitude g"] assms(2-4) by force
  obtain t d n where "f_to_i32 (loc_times g) = Inr t" "f_to_i32 (loc_date g) = Inr d"
    "f_to_i32 (loc_satellites g) = Inr n"
    using whole_register [of "loc_times g"] whole_register [of "loc_date g"]
      whole_register [of "loc_satellites g"] assms(5-7) by force
  moreover have "real_of_int (sint (word_of_int n :: u32)) = real_of_int n" if "in_i32 n" for n
    using that by (simp only: to_i32_sint to_i32_id)
  note reg = this [OF i(1)] this [OF i(2)] this [OF i(3)]
  ultimately show ?thesis
    using sc near reg assms(1) by (simp add: gps_registers_def io_simps cfg_offsets)
qed

theorem gps_registers_scaled_witness:
  "\<exists>s'. gps_registers (g_data daq0\<lparr>loc_latitude := f_of_int DOUBLE (- 41)\<rparr>) io0 = Inr s'
    \<and> \<bar>real_of_int (sint (peek CFG s' CFG_LATITUDE_OFFSET)) + 2686976\<bar> \<le> 1001 / 1000"
  using gps_registers_scaled [OF io0_ready, of "g_data daq0\<lparr>loc_latitude := f_of_int DOUBLE (- 41)\<rparr>"]
    f_of_int_exact [of "- 41" DOUBLE]
  by (auto simp: daq0_def fval_def [of "Flt 0 0"])

end
