(* ===== verification/MemAlloc.thy ===== *)
theory MemAlloc
  imports CStrings
begin

text \<open>
  The kernel module \<^verbatim>\<open>apps/dma/dma_driver/memalloc.c\<close>, which hands out buffers for direct memory
  access: a table of sixteen slots, the commands of its \<^verbatim>\<open>ioctl\<close>, mapping, closing, loading and
  unloading. What the kernel answers is an argument; the addresses it has handed out and not got
  back are part of the state, so that a second release of the same memory is a fault.
\<close>

section \<open>State\<close>

definition BUFFER_MAX_NUMBER :: int where "BUFFER_MAX_NUMBER = 16"

record bufferInfo =
  b_active :: int
  b_size :: int
  b_handle :: u32
  b_addr :: "nat option"

text \<open>The kernel objects that loading the module creates.\<close>

record registration =
  k_region :: bool
  k_cdev :: bool
  k_class :: bool
  k_device :: bool

record memalloc =
  bufferInfoTable :: "bufferInfo list"
  activeBufferID :: int
  live :: "nat list"
  klog :: "string list"
  kernel :: registration

definition printk :: "string \<Rightarrow> memalloc \<Rightarrow> memalloc" where
  "printk l s = s\<lparr>klog := klog s @ [l]\<rparr>"

definition slot_at :: "int \<Rightarrow> memalloc \<Rightarrow> bufferInfo res" where
  "slot_at i s =
     (if 0 \<le> i \<and> i < int (length (bufferInfoTable s)) then Inr (bufferInfoTable s ! nat i)
      else Inl OutOfBounds)"

definition set_slot :: "nat \<Rightarrow> bufferInfo \<Rightarrow> memalloc \<Rightarrow> memalloc" where
  "set_slot i b s = s\<lparr>bufferInfoTable := (bufferInfoTable s)[i := b]\<rparr>"

text \<open>\<^verbatim>\<open>dma_free_coherent\<close>: nothing happens to a null address, an address must be live.\<close>

definition dma_free :: "nat option \<Rightarrow> memalloc \<Rightarrow> memalloc res" where
  "dma_free a s =
     (case a of None \<Rightarrow> Inr s
      | Some x \<Rightarrow> if x \<in> set (live s) then Inr (s\<lparr>live := remove1 x (live s)\<rparr>) else Inl UseAfterFree)"

definition show_HEX :: "nat \<Rightarrow> string" where
  "show_HEX n = map (\<lambda>c. if 97 \<le> (of_char c :: nat) then char_of (of_char c - 32 :: nat) else c) (show_hex n)"

text \<open>The messages that several commands print.\<close>

definition release_msg :: "int \<Rightarrow> string" where
  "release_msg i = ''Releasing buffer '' @ show_int i"

definition cmd_msg :: "nat \<Rightarrow> nat \<Rightarrow> string" where
  "cmd_msg cmd arg = ''received command '' @ show_nat cmd @ '' arg '' @ show_nat arg"

section \<open>Commands\<close>

definition releaseBuffer :: "int \<Rightarrow> memalloc \<Rightarrow> (int \<times> memalloc) res" where
  "releaseBuffer i s =
     (if i > BUFFER_MAX_NUMBER then Inr (- 1, printk (''Wrong bufferID '' @ show_int i) s)
      else let s = printk (release_msg i) s
      in bindE (slot_at i s) (\<lambda>b.
         bindE (dma_free (b_addr b) (set_slot (nat i) (b\<lparr>b_active := 0\<rparr>) s)) (\<lambda>s.
         Inr (0, s))))"

text \<open>The first slot that is not active.\<close>

definition free_slot :: "memalloc \<Rightarrow> nat option" where
  "free_slot s = List.find (\<lambda>i. b_active (bufferInfoTable s ! i) = 0) [0..<length (bufferInfoTable s)]"

text \<open>The second argument is what \<^verbatim>\<open>dma_alloc_coherent\<close> answers: the address and the bus address.\<close>

definition reserveBuffer :: "nat \<Rightarrow> (nat \<times> u32) option \<Rightarrow> memalloc \<Rightarrow> int \<times> memalloc" where
  "reserveBuffer sz answer s =
     (case free_slot s of
        None \<Rightarrow> (- 1, printk ''No buffer available'' s)
      | Some i \<Rightarrow>
          let s = printk (''Reserving buffer '' @ show_nat i) s; b = (bufferInfoTable s ! i)\<lparr>b_active := 1\<rparr>
          in (case answer of
                None \<Rightarrow> (- 1, printk ''Allocation failure'' (set_slot i (b\<lparr>b_addr := None\<rparr>) s))
              | Some (a, h) \<Rightarrow>
                  (int i, printk (''Allocated buffer with Paddr = '' @ show_HEX (unat h))
                            (set_slot i (b\<lparr>b_addr := Some a, b_handle := h, b_size := to_i32 (int sz)\<rparr>) s)
                            \<lparr>live := a # live s\<rparr>)))"

fun cleanup_from :: "nat list \<Rightarrow> memalloc \<Rightarrow> memalloc res" where
  "cleanup_from [] s = Inr s"
| "cleanup_from (i # is) s =
     (let b = bufferInfoTable s ! i
      in if b_active b \<noteq> 0
         then bindE (dma_free (b_addr b) s) (\<lambda>s. cleanup_from is (set_slot i (b\<lparr>b_active := 0\<rparr>) s))
         else cleanup_from is s)"

definition cleanup :: "memalloc \<Rightarrow> memalloc res" where
  "cleanup s = cleanup_from [0..<16] s"

text \<open>The result is an \<^verbatim>\<open>unsigned int\<close>, -1 among them.\<close>

definition memAllocGetPhysical :: "int \<Rightarrow> memalloc \<Rightarrow> (u32 \<times> memalloc) res" where
  "memAllocGetPhysical i s =
     (if i > BUFFER_MAX_NUMBER then Inr (- 1, printk (''Wrong bufferID '' @ show_int i) s)
      else bindE (slot_at i s) (\<lambda>b.
        if b_active b = 0 then Inr (- 1, printk (''Wrong bufferID '' @ show_int i) s)
        else Inr (b_handle b, s)))"

definition activateBuffer :: "nat \<Rightarrow> memalloc \<Rightarrow> (int \<times> memalloc) res" where
  "activateBuffer arg s =
     (if int arg > BUFFER_MAX_NUMBER then Inr (- 1, printk (''Wrong bufferID '' @ show_nat arg) s)
      else bindE (slot_at (int arg) s) (\<lambda>b.
        if b_active b = 0 then Inr (- 1, printk (''Wrong bufferID '' @ show_nat arg) s)
        else Inr (int arg, s\<lparr>activeBufferID := int arg\<rparr>)))"

definition MEMALLOC_RESERVE :: nat where "MEMALLOC_RESERVE = 0"
definition MEMALLOC_RELEASE :: nat where "MEMALLOC_RELEASE = 1"
definition MEMALLOC_GET_VIRTUAL :: nat where "MEMALLOC_GET_VIRTUAL = 2"
definition MEMALLOC_GET_PHYSICAL :: nat where "MEMALLOC_GET_PHYSICAL = 3"
definition MEMALLOC_ACTIVATE_BUFFER :: nat where "MEMALLOC_ACTIVATE_BUFFER = 4"

lemmas memalloc_cmds = MEMALLOC_RESERVE_def MEMALLOC_RELEASE_def MEMALLOC_GET_VIRTUAL_def
  MEMALLOC_GET_PHYSICAL_def MEMALLOC_ACTIVATE_BUFFER_def

text \<open>The argument is an \<^verbatim>\<open>unsigned long\<close> of 32 bits that most commands convert to \<^verbatim>\<open>int\<close>.\<close>

definition memAllocIoctl ::
  "nat \<Rightarrow> nat \<Rightarrow> (nat \<times> u32) option \<Rightarrow> memalloc \<Rightarrow> (int \<times> memalloc) res" where
  "memAllocIoctl cmd arg answer s =
     (let s = printk (cmd_msg cmd arg) s
      in if cmd = MEMALLOC_RESERVE then Inr (reserveBuffer arg answer s)
         else if cmd = MEMALLOC_RELEASE then releaseBuffer (to_i32 (int arg)) s
         else if cmd = MEMALLOC_GET_PHYSICAL then
           bindE (memAllocGetPhysical (to_i32 (int arg)) s) (\<lambda>(h, s). Inr (sint h, s))
         else if cmd = MEMALLOC_ACTIVATE_BUFFER then activateBuffer arg s
         else Inr (- 1, printk (''Wrong command: '' @ show_nat cmd) s))"

text \<open>
  Mapping the active buffer: the arguments handed to \<^verbatim>\<open>dma_common_mmap\<close>, whose result is the
  result. Mapping memory that has been given back is a fault.
\<close>

definition memAllocMmap :: "(nat option \<Rightarrow> u32 \<Rightarrow> nat \<Rightarrow> int) \<Rightarrow> nat \<Rightarrow> memalloc \<Rightarrow> int res" where
  "memAllocMmap common_mmap len s =
     bindE (slot_at (activeBufferID s) s) (\<lambda>b.
     case b_addr b of
       None \<Rightarrow> Inr (common_mmap None (b_handle b) len)
     | Some a \<Rightarrow> if a \<in> set (live s) then Inr (common_mmap (Some a) (b_handle b) len) else Inl UseAfterFree)"

definition memAllocOpen :: "memalloc \<Rightarrow> int \<times> memalloc" where
  "memAllocOpen s = (0, s)"

definition memAllocRelease :: "memalloc \<Rightarrow> (int \<times> memalloc) res" where
  "memAllocRelease s = bindE (cleanup s) (\<lambda>s. Inr (0, s))"

section \<open>Loading and unloading\<close>

text \<open>The answers: of \<^verbatim>\<open>alloc_chrdev_region\<close>, \<^verbatim>\<open>cdev_add\<close>, and whether \<^verbatim>\<open>device_create\<close> fails.\<close>

record load_env =
  le_region :: int
  le_cdev :: int
  le_device_err :: bool

definition memAllocInit :: "load_env \<Rightarrow> memalloc \<Rightarrow> (int \<times> memalloc) res" where
  "memAllocInit e s =
     (let s = printk ''Loading DMA allocation module'' s
      in if le_region e \<noteq> 0 then Inr (le_region e, printk ''Unable to get a char device number'' s)
      else let s = s\<lparr>kernel := (kernel s)\<lparr>k_region := True\<rparr>\<rparr>
      in if le_cdev e \<noteq> 0 then Inr (le_cdev e, printk ''Unable to add char device'' s)
      else let s = s\<lparr>kernel := (kernel s)\<lparr>k_cdev := True, k_class := True\<rparr>\<rparr>
      in if le_device_err e
         then Inr (le_cdev e, (printk ''Unable to create the device'' s)
                                \<lparr>kernel := (kernel s)\<lparr>k_cdev := False, k_class := False\<rparr>\<rparr>)
      else bindE (slot_at (activeBufferID s) s) (\<lambda>b.
           Inr (0, (set_slot (nat (activeBufferID s)) (b\<lparr>b_active := 0\<rparr>) s)
                     \<lparr>kernel := (kernel s)\<lparr>k_device := True\<rparr>\<rparr>)))"

definition my_memAllocExit :: "memalloc \<Rightarrow> memalloc res" where
  "my_memAllocExit s =
     bindE (cleanup (printk ''Module unloading'' s)) (\<lambda>s.
     Inr (s\<lparr>kernel := \<lparr>k_region = False, k_cdev = False, k_class = False, k_device = False\<rparr>\<rparr>))"

section \<open>A table that owns memory\<close>

text \<open>
  What the module relies on: a table whose entries can be replaced one at a time. Then a table in
  which no address occurs twice, together with the list of the addresses handed out, stays so when
  a fresh address is entered or an entry is dropped with its memory.
\<close>

definition owns :: "(nat \<Rightarrow> 'v option) \<Rightarrow> 'v list \<Rightarrow> bool" where
  "owns m L \<longleftrightarrow> distinct L \<and> set L = ran m \<and> inj_on m (dom m)"

locale slot_table =
  fixes held :: "'s \<Rightarrow> nat \<Rightarrow> 'v option" and put :: "nat \<Rightarrow> 'b \<Rightarrow> 's \<Rightarrow> 's" and val :: "'b \<Rightarrow> 'v option"
    and ok :: "'s \<Rightarrow> nat \<Rightarrow> bool"
  assumes held_put: "ok s i \<Longrightarrow> held (put i b s) = (held s)(i := val b)"
begin

lemma take_slot:
  assumes "owns (held s) L" and "ok s i" and "held s i = None" and "val b = Some a" and "a \<notin> set L"
  shows "owns (held (put i b s)) (a # L)"
proof -
  have "held s j \<noteq> Some a" for j using assms(1,5) by (metis owns_def ranI)
  then have "inj_on ((held s)(i \<mapsto> a)) (dom ((held s)(i \<mapsto> a)))"
    using assms(1) by (auto simp: owns_def inj_on_def dom_def split: if_splits)
  then show ?thesis
    using assms by (simp add: owns_def held_put ran_map_upd)
qed

lemma keep_slot:
  assumes "owns (held s) L" and "ok s i" and "val b = held s i"
  shows "owns (held (put i b s)) L"
  using assms by (simp add: held_put fun_upd_idem)

lemma drop_slot:
  assumes "owns (held s) L" and "ok s i" and "held s i = Some a" and "val b = None"
  shows "owns (held (put i b s)) (remove1 a L) \<and> a \<in> set L"
proof -
  have a: "a \<in> ran (held s)" using assms(3) by (rule ranI)
  have "ran ((held s)(i := None)) = ran (held s) - {a}"
  proof (intro set_eqI iffI)
    fix x assume "x \<in> ran ((held s)(i := None))"
    then obtain j where j: "j \<noteq> i" "held s j = Some x" by (auto simp: ran_def split: if_splits)
    then have "x \<noteq> a" using assms(1,3) by (auto simp: owns_def inj_on_def dom_def)
    with j show "x \<in> ran (held s) - {a}" by (auto simp: ran_def)
  next
    fix x assume "x \<in> ran (held s) - {a}"
    then obtain j where "held s j = Some x" "x \<noteq> a" by (auto simp: ran_def)
    with assms(3) show "x \<in> ran ((held s)(i := None))" by (auto simp: ran_def intro!: exI [of _ j])
  qed
  with assms a show ?thesis
    by (auto simp: owns_def held_put inj_on_def dom_def split: if_splits)
qed

end

definition held :: "bufferInfo list \<Rightarrow> nat \<Rightarrow> nat option" where
  "held bs i = (if i < length bs \<and> b_active (bs ! i) \<noteq> 0 then b_addr (bs ! i) else None)"

definition slot_addr :: "bufferInfo \<Rightarrow> nat option" where
  "slot_addr b = (if b_active b \<noteq> 0 then b_addr b else None)"

interpretation buf: slot_table held "\<lambda>i b bs. bs[i := b]" slot_addr "\<lambda>bs i. i < length bs"
  by unfold_locales (auto simp: held_def slot_addr_def fun_eq_iff nth_list_update)

text \<open>The invariant: the addresses handed out and not got back are those of the active slots.\<close>

definition pool_inv :: "memalloc \<Rightarrow> bool" where
  "pool_inv s \<longleftrightarrow> length (bufferInfoTable s) = 16 \<and> owns (held (bufferInfoTable s)) (live s)"

lemma printk_sel [simp]:
  "bufferInfoTable (printk l s) = bufferInfoTable s" "live (printk l s) = live s"
  "activeBufferID (printk l s) = activeBufferID s" "kernel (printk l s) = kernel s"
  by (simp_all add: printk_def)

lemma pool_inv_printk [simp]: "pool_inv (printk l s) = pool_inv s"
  by (simp add: pool_inv_def)

lemma set_slot_sel [simp]:
  "bufferInfoTable (set_slot i b s) = (bufferInfoTable s)[i := b]" "live (set_slot i b s) = live s"
  "activeBufferID (set_slot i b s) = activeBufferID s" "kernel (set_slot i b s) = kernel s"
  by (simp_all add: set_slot_def)

section \<open>Correct use is safe\<close>

text \<open>Dropping the memory of an active slot, as releasing and cleaning up do it.\<close>

lemma drop_active:
  assumes inv: "pool_inv s" and i: "i < 16" and act: "b_active (bufferInfoTable s ! i) \<noteq> 0"
  defines "b \<equiv> bufferInfoTable s ! i"
  shows "\<exists>L. dma_free (b_addr b) s = Inr (s\<lparr>live := L\<rparr>)
    \<and> dma_free (b_addr b) (set_slot i (b\<lparr>b_active := 0\<rparr>) s) = Inr (set_slot i (b\<lparr>b_active := 0\<rparr>) s\<lparr>live := L\<rparr>)
    \<and> pool_inv (set_slot i (b\<lparr>b_active := 0\<rparr>) s\<lparr>live := L\<rparr>)"
proof -
  have len: "length (bufferInfoTable s) = 16" and own: "owns (held (bufferInfoTable s)) (live s)"
    using inv by (simp_all add: pool_inv_def)
  have h: "held (bufferInfoTable s) i = b_addr b" using i act len by (simp add: held_def b_def)
  have off: "slot_addr (b\<lparr>b_active := 0\<rparr>) = None" by (simp add: slot_addr_def)
  let ?bs = "(bufferInfoTable s)[i := b\<lparr>b_active := 0\<rparr>]"
  show ?thesis
  proof (cases "b_addr b")
    case None
    have "owns (held ?bs) (live s)" using buf.keep_slot [OF own, of i "b\<lparr>b_active := 0\<rparr>"] len i h off None by simp
    then show ?thesis using None len by (intro exI [of _ "live s"]) (simp add: dma_free_def pool_inv_def)
  next
    case (Some a)
    have "owns (held ?bs) (remove1 a (live s)) \<and> a \<in> set (live s)"
      using buf.drop_slot [OF own, of i a "b\<lparr>b_active := 0\<rparr>"] len i h off Some by simp
    then show ?thesis using Some len by (intro exI [of _ "remove1 a (live s)"]) (simp add: dma_free_def pool_inv_def)
  qed
qed

lemma slot_at_in: "pool_inv s \<Longrightarrow> i < 16 \<Longrightarrow> slot_at (int i) s = Inr (bufferInfoTable s ! i)"
  by (simp add: slot_at_def pool_inv_def)

text \<open>A command used as it is meant: existing slots, only active ones released, fresh memory.\<close>

definition well_used :: "nat \<Rightarrow> nat \<Rightarrow> (nat \<times> u32) option \<Rightarrow> memalloc \<Rightarrow> bool" where
  "well_used cmd arg answer s \<longleftrightarrow>
     (cmd = MEMALLOC_RESERVE \<longrightarrow> (\<forall>a h. answer = Some (a, h) \<longrightarrow> a \<notin> set (live s)))
   \<and> (cmd = MEMALLOC_RELEASE \<longrightarrow> arg < 16 \<and> b_active (bufferInfoTable s ! arg) \<noteq> 0)
   \<and> (cmd = MEMALLOC_GET_PHYSICAL \<or> cmd = MEMALLOC_ACTIVATE_BUFFER \<longrightarrow> arg < 16)"

lemma find_SomeD: "List.find P xs = Some x \<Longrightarrow> x \<in> set xs \<and> P x"
  by (auto simp: find_Some_iff)

lemma free_slot_SomeD:
  "free_slot s = Some i \<Longrightarrow> i < length (bufferInfoTable s) \<and> b_active (bufferInfoTable s ! i) = 0"
  by (auto simp: free_slot_def dest!: find_SomeD)

lemma reserve_inv:
  assumes "pool_inv s" and "\<forall>a h. answer = Some (a, h) \<longrightarrow> a \<notin> set (live s)"
  shows "pool_inv (snd (reserveBuffer sz answer s))"
proof (cases "free_slot s")
  case None
  then show ?thesis using assms(1) by (simp add: reserveBuffer_def)
next
  case (Some i)
  then have i: "i < 16" "held (bufferInfoTable s) i = None" "length (bufferInfoTable s) = 16"
      "owns (held (bufferInfoTable s)) (live s)"
    using free_slot_SomeD [OF Some] assms(1) by (simp_all add: pool_inv_def held_def)
  let ?b = "(bufferInfoTable s ! i)\<lparr>b_active := 1\<rparr>"
  show ?thesis
  proof (cases answer)
    case None
    have "owns (held ((bufferInfoTable s)[i := ?b\<lparr>b_addr := None\<rparr>])) (live s)"
      using buf.keep_slot [OF i(4), of i "?b\<lparr>b_addr := None\<rparr>"] i by (simp add: slot_addr_def)
    then show ?thesis
      using Some None i(3) by (simp add: reserveBuffer_def Let_def pool_inv_def)
  next
    case (Some r)
    obtain a h where r: "r = (a, h)" by (cases r)
    let ?c = "?b\<lparr>b_addr := Some a, b_handle := h, b_size := to_i32 (int sz)\<rparr>"
    have "owns (held ((bufferInfoTable s)[i := ?c])) (a # live s)"
      using buf.take_slot [OF i(4), of i ?c a] i assms(2) Some r by (simp add: slot_addr_def)
    then show ?thesis
      using Some r \<open>free_slot s = Some i\<close> i(3) by (simp add: reserveBuffer_def Let_def pool_inv_def)
  qed
qed

lemma small_arg: "arg < 16 \<Longrightarrow> to_i32 (int arg) = int arg"
  by (simp add: to_i32_id in_i32_iff)

text \<open>
  C29. Used as it is meant, the module never touches memory that is not its own: every command
  returns, and the invariant of the table, by which no memory is handed out twice, none is lost and
  none is released twice, holds again.
\<close>

theorem ioctl_safe:
  assumes "pool_inv s" and "well_used cmd arg answer s"
  shows "\<exists>r s'. memAllocIoctl cmd arg answer s = Inr (r, s') \<and> pool_inv s'"
proof -
  define s1 where "s1 = printk (cmd_msg cmd arg) s"
  have inv: "pool_inv s1" and live: "live s1 = live s" "bufferInfoTable s1 = bufferInfoTable s"
    using assms(1) by (simp_all add: s1_def)
  note slot = slot_at_in [OF inv, of arg]
  consider "cmd = MEMALLOC_RESERVE" | "cmd = MEMALLOC_RELEASE" | "cmd = MEMALLOC_GET_PHYSICAL"
    | "cmd = MEMALLOC_ACTIVATE_BUFFER"
    | "cmd \<noteq> MEMALLOC_RESERVE" "cmd \<noteq> MEMALLOC_RELEASE" "cmd \<noteq> MEMALLOC_GET_PHYSICAL" "cmd \<noteq> MEMALLOC_ACTIVATE_BUFFER"
    by blast
  then show ?thesis
  proof cases
    case 1
    then have "pool_inv (snd (reserveBuffer arg answer s1))"
      using reserve_inv [OF inv] assms(2) live by (simp add: well_used_def)
    moreover have "memAllocIoctl cmd arg answer s = Inr (reserveBuffer arg answer s1)"
      unfolding memAllocIoctl_def Let_def s1_def using 1 by simp
    ultimately show ?thesis by (cases "reserveBuffer arg answer s1") simp
  next
    case 2
    then have i: "arg < 16" "b_active (bufferInfoTable s1 ! arg) \<noteq> 0"
      using assms(2) live by (simp_all add: well_used_def)
    define s2 where "s2 = printk (release_msg (int arg)) s1"
    have s2: "pool_inv s2" "bufferInfoTable s2 = bufferInfoTable s1" using inv by (simp_all add: s2_def)
    obtain L where "dma_free (b_addr (bufferInfoTable s2 ! arg))
        (set_slot arg ((bufferInfoTable s2 ! arg)\<lparr>b_active := 0\<rparr>) s2)
        = Inr (set_slot arg ((bufferInfoTable s2 ! arg)\<lparr>b_active := 0\<rparr>) s2\<lparr>live := L\<rparr>)"
      "pool_inv (set_slot arg ((bufferInfoTable s2 ! arg)\<lparr>b_active := 0\<rparr>) s2\<lparr>live := L\<rparr>)"
      using drop_active [OF s2(1) i(1)] i(2) s2(2) by auto
    then show ?thesis
      using 2 i(1) slot_at_in [OF s2(1) i(1)]
      by (simp add: memAllocIoctl_def memalloc_cmds releaseBuffer_def BUFFER_MAX_NUMBER_def small_arg
          Let_def s1_def s2_def)
  next
    case 3
    then have "arg < 16" using assms(2) by (simp add: well_used_def)
    then show ?thesis
      using 3 slot inv by (simp add: memAllocIoctl_def memalloc_cmds memAllocGetPhysical_def
          BUFFER_MAX_NUMBER_def small_arg s1_def Let_def)
  next
    case 4
    then have "arg < 16" using assms(2) by (simp add: well_used_def)
    then show ?thesis
      using 4 slot inv by (simp add: memAllocIoctl_def memalloc_cmds activateBuffer_def
          BUFFER_MAX_NUMBER_def pool_inv_def s1_def Let_def)
  next
    case 5
    then show ?thesis using inv by (simp add: memAllocIoctl_def s1_def)
  qed
qed

text \<open>Cleaning up the slots of a list: the invariant holds and these slots are free.\<close>

lemma cleanup_from_inv:
  assumes "pool_inv s" and "\<forall>i \<in> set is. i < 16"
  shows "\<exists>s'. cleanup_from is s = Inr s' \<and> pool_inv s'
    \<and> (\<forall>i < 16. b_active (bufferInfoTable s' ! i)
         = (if i \<in> set is then 0 else b_active (bufferInfoTable s ! i)))"
  using assms
proof (induction "is" arbitrary: s)
  case Nil
  then show ?case by simp
next
  case (Cons i "is")
  have len: "length (bufferInfoTable s) = 16" using Cons.prems(1) by (simp add: pool_inv_def)
  let ?b = "bufferInfoTable s ! i"
  show ?case
  proof (cases "b_active ?b = 0")
    case True
    then have step: "cleanup_from (i # is) s = cleanup_from is s" by (simp add: Let_def)
    obtain s' where "cleanup_from is s = Inr s'" "pool_inv s'"
      "\<forall>j < 16. b_active (bufferInfoTable s' ! j) = (if j \<in> set is then 0 else b_active (bufferInfoTable s ! j))"
      using Cons.IH [of s] Cons.prems by auto
    then show ?thesis using True step by (intro exI [of _ s']) auto
  next
    case False
    then obtain L where L: "dma_free (b_addr ?b) s = Inr (s\<lparr>live := L\<rparr>)"
      "pool_inv (set_slot i (?b\<lparr>b_active := 0\<rparr>) s\<lparr>live := L\<rparr>)"
      using drop_active [OF Cons.prems(1), of i] Cons.prems(2) by auto
    let ?s = "set_slot i (?b\<lparr>b_active := 0\<rparr>) (s\<lparr>live := L\<rparr>)"
    have s: "?s = set_slot i (?b\<lparr>b_active := 0\<rparr>) s\<lparr>live := L\<rparr>" by (simp add: set_slot_def)
    have step: "cleanup_from (i # is) s = cleanup_from is ?s" using False L(1) by (simp add: Let_def)
    obtain s' where s': "cleanup_from is ?s = Inr s'" "pool_inv s'"
      "\<forall>j < 16. b_active (bufferInfoTable s' ! j) = (if j \<in> set is then 0 else b_active (bufferInfoTable ?s ! j))"
      using Cons.IH [of ?s] Cons.prems(2) L(2) s by auto
    have "b_active (bufferInfoTable ?s ! j) = (if j = i then 0 else b_active (bufferInfoTable s ! j))"
      if "j < 16" for j using that len by (simp add: nth_list_update)
    then show ?thesis using s' step by (intro exI [of _ s']) auto
  qed
qed

text \<open>
  C30. Closing the device gives everything back: whatever commands were used, as long as the
  invariant holds, closing returns, no memory of the module is left and every slot is free.
\<close>

theorem close_releases_all:
  assumes "pool_inv s"
  shows "\<exists>s'. memAllocRelease s = Inr (0, s') \<and> live s' = [] \<and> pool_inv s'
    \<and> (\<forall>i < 16. b_active (bufferInfoTable s' ! i) = 0)"
proof -
  obtain s' where s': "cleanup s = Inr s'" "pool_inv s'" "\<forall>i < 16. b_active (bufferInfoTable s' ! i) = 0"
    using cleanup_from_inv [OF assms, of "[0..<16]"] by (auto simp: cleanup_def)
  then have "held (bufferInfoTable s') = (\<lambda>_. None)" by (auto simp: held_def fun_eq_iff pool_inv_def)
  then have "live s' = []" using s'(2) by (simp add: pool_inv_def owns_def)
  with s' show ?thesis by (simp add: memAllocRelease_def)
qed

text \<open>
  A reservation that succeeds is found again: the number returned is that of the first free
  slot, the memory is entered there and the physical address asked for afterwards is the one the
  kernel gave; a failing allocation keeps its slot occupied without any memory, so that it is lost
  until it is released or the device is closed.
\<close>

theorem reserve_then_physical:
  assumes "pool_inv s" and "free_slot s = Some i"
  shows "(\<exists>s'. memAllocIoctl MEMALLOC_RESERVE sz (Some (a, h)) s = Inr (int i, s') \<and> live s' = a # live s
      \<and> (\<exists>s2. memAllocIoctl MEMALLOC_GET_PHYSICAL i answer s' = Inr (sint h, s2)))
    \<and> (\<exists>s'. memAllocIoctl MEMALLOC_RESERVE sz None s = Inr (- 1, s') \<and> live s' = live s
      \<and> b_active (bufferInfoTable s' ! i) = 1 \<and> b_addr (bufferInfoTable s' ! i) = None)"
proof -
  have i: "i < 16" "length (bufferInfoTable s) = 16"
    using free_slot_SomeD [OF assms(2)] assms(1) by (simp_all add: pool_inv_def)
  have f: "free_slot (printk l s) = Some i" for l using assms(2) by (simp add: free_slot_def)
  show ?thesis
    using i f by (simp add: memAllocIoctl_def memalloc_cmds reserveBuffer_def memAllocGetPhysical_def
        BUFFER_MAX_NUMBER_def small_arg slot_at_def Let_def)
qed

text \<open>
  C31. Three ways to break the kernel from a program: buffer number 16, one past the table, is
  accepted by every command that takes a number; releasing and asking for the physical address accept every number that is
  negative as an \<^verbatim>\<open>int\<close>, which activation refuses, changing nothing; and releasing a slot a second time frees its memory a
  second time.
\<close>

theorem ioctl_breaks:
  assumes "length (bufferInfoTable s) = 16"
  shows "memAllocIoctl MEMALLOC_RELEASE 16 answer s = Inl OutOfBounds
    \<and> memAllocIoctl MEMALLOC_GET_PHYSICAL 16 answer s = Inl OutOfBounds
    \<and> memAllocIoctl MEMALLOC_ACTIVATE_BUFFER 16 answer s = Inl OutOfBounds
    \<and> (2 ^ 31 \<le> n \<and> n < 2 ^ 32 \<longrightarrow> memAllocIoctl MEMALLOC_RELEASE n answer s = Inl OutOfBounds
        \<and> memAllocIoctl MEMALLOC_GET_PHYSICAL n answer s = Inl OutOfBounds
        \<and> (\<exists>s'. memAllocIoctl MEMALLOC_ACTIVATE_BUFFER n answer s = Inr (- 1, s')
            \<and> bufferInfoTable s' = bufferInfoTable s \<and> activeBufferID s' = activeBufferID s \<and> live s' = live s))
    \<and> (pool_inv s \<and> i < 16 \<and> b_active (bufferInfoTable s ! i) \<noteq> 0 \<and> b_addr (bufferInfoTable s ! i) = Some a
        \<longrightarrow> (\<exists>s1. memAllocIoctl MEMALLOC_RELEASE i answer s = Inr (0, s1)
          \<and> memAllocIoctl MEMALLOC_RELEASE i answer s1 = Inl UseAfterFree))"
proof -
  have edge_arg: "to_i32 16 = 16" by (simp add: to_i32_def)
  have neg: "to_i32 (int m) < 0 \<and> BUFFER_MAX_NUMBER < int m" if "2 ^ 31 \<le> m" "m < 2 ^ 32" for m :: nat
  proof -
    have "to_i32 (int m) = to_i32 (int m - 2 ^ 32)" by (rule to_i32_cong) simp
    also have "\<dots> = int m - 2 ^ 32" using that by (intro to_i32_id) (simp add: in_i32_iff)
    finally show ?thesis using that by (simp add: BUFFER_MAX_NUMBER_def)
  qed
  have below: "releaseBuffer i (printk l s) = Inl OutOfBounds" "memAllocGetPhysical i (printk l s) = Inl OutOfBounds"
    if "i < 0" for i l
    using that by (simp_all add: releaseBuffer_def memAllocGetPhysical_def BUFFER_MAX_NUMBER_def Let_def slot_at_def)
  have above: "\<exists>s'. activateBuffer m (printk l s) = Inr (- 1, s') \<and> bufferInfoTable s' = bufferInfoTable s
      \<and> activeBufferID s' = activeBufferID s \<and> live s' = live s" if "BUFFER_MAX_NUMBER < int m" for m l
    using that by (simp add: activateBuffer_def)
  have edge: "releaseBuffer 16 (printk l s) = Inl OutOfBounds"
    "memAllocGetPhysical 16 (printk l s) = Inl OutOfBounds" "activateBuffer 16 (printk l s) = Inl OutOfBounds" for l
    using assms by (simp_all add: releaseBuffer_def memAllocGetPhysical_def activateBuffer_def
        BUFFER_MAX_NUMBER_def Let_def slot_at_def)
  have twice: "\<exists>s1. memAllocIoctl MEMALLOC_RELEASE i answer s = Inr (0, s1)
      \<and> memAllocIoctl MEMALLOC_RELEASE i answer s1 = Inl UseAfterFree"
    if inv: "pool_inv s" and i: "i < 16" "b_active (bufferInfoTable s ! i) \<noteq> 0"
      "b_addr (bufferInfoTable s ! i) = Some a"
  proof -
    have own: "owns (held (bufferInfoTable s)) (live s)" using inv by (simp add: pool_inv_def)
    have "held (bufferInfoTable s) i = Some a" using i assms by (simp add: held_def)
    then have "a \<in> set (live s)" "a \<notin> set (remove1 a (live s))"
      using own by (auto simp: owns_def intro: ranI)
    then show ?thesis
      using i assms by (simp add: memAllocIoctl_def memalloc_cmds releaseBuffer_def BUFFER_MAX_NUMBER_def
          small_arg slot_at_def dma_free_def Let_def)
  qed
  show ?thesis
    using edge twice neg [of n] below [of "to_i32 (int n)"] above [of n]
    by (simp add: memAllocIoctl_def memalloc_cmds edge_arg)
qed

text \<open>
  A failure to create the device node is not reported: everything that was set up except the
  device numbers is taken down again, and then the result of the step before, which is zero, is
  returned, so that the module counts as loaded. The device numbers are kept in both cases in which
  loading fails after they were allocated.
\<close>

theorem load_failures:
  assumes "le_region e = 0" and "kernel s = \<lparr>k_region = False, k_cdev = False, k_class = False, k_device = False\<rparr>"
  shows "(le_cdev e = 0 \<and> le_device_err e \<longrightarrow>
      (\<exists>s'. memAllocInit e s = Inr (0, s')
        \<and> kernel s' = \<lparr>k_region = True, k_cdev = False, k_class = False, k_device = False\<rparr>))
    \<and> (le_cdev e \<noteq> 0 \<longrightarrow> (\<exists>s'. memAllocInit e s = Inr (le_cdev e, s') \<and> k_region (kernel s')))"
  using assms by (simp add: memAllocInit_def Let_def)

section \<open>A small run\<close>

definition memalloc0 :: memalloc where
  "memalloc0 = \<lparr>bufferInfoTable = replicate 16 \<lparr>b_active = 0, b_size = 0, b_handle = 0, b_addr = None\<rparr>,
     activeBufferID = 0, live = [], klog = [],
     kernel = \<lparr>k_region = False, k_cdev = False, k_class = False, k_device = False\<rparr>\<rparr>"

definition memalloc1 :: memalloc where
  "memalloc1 = memalloc0\<lparr>bufferInfoTable := (bufferInfoTable memalloc0)
     [0 := \<lparr>b_active = 1, b_size = 4096, b_handle = 0x1F400000, b_addr = Some 7\<rparr>], live := [7]\<rparr>"

lemma memalloc0_held: "held (bufferInfoTable memalloc0) = (\<lambda>_. None)"
  by (auto simp: held_def memalloc0_def fun_eq_iff)

lemma memalloc1_held: "held (bufferInfoTable memalloc1) = [0 \<mapsto> 7]"
proof -
  have "0 < length (bufferInfoTable memalloc0)" by (simp add: memalloc0_def)
  then have "held ((bufferInfoTable memalloc0)[0 := b]) = (held (bufferInfoTable memalloc0))(0 := slot_addr b)" for b
    by (rule buf.held_put)
  then show ?thesis by (simp add: memalloc1_def memalloc0_held slot_addr_def)
qed

lemma memalloc_invs: "pool_inv memalloc0" "pool_inv memalloc1"
  unfolding pool_inv_def memalloc0_held memalloc1_held
  by (simp_all add: owns_def memalloc0_def memalloc1_def)

theorem ioctl_safe_witness:
  "\<exists>r s'. memAllocIoctl MEMALLOC_RELEASE 0 None memalloc1 = Inr (r, s') \<and> pool_inv s'"
  by (rule ioctl_safe [OF memalloc_invs(2)]) (simp add: well_used_def memalloc_cmds memalloc1_def memalloc0_def)

theorem close_releases_all_witness: "\<exists>s'. memAllocRelease memalloc1 = Inr (0, s') \<and> live s' = []"
  using close_releases_all [OF memalloc_invs(2)] by blast

theorem reserve_then_physical_witness:
  "\<exists>s'. memAllocIoctl MEMALLOC_RESERVE 4096 (Some (8, 0x1F500000)) memalloc1 = Inr (1, s')
    \<and> live s' = [8, 7]"
proof -
  have "free_slot memalloc1 = Some 1" by code_simp
  then show ?thesis
    using reserve_then_physical [OF memalloc_invs(2), of 1 4096 "8" "0x1F500000"]
    by (auto simp: memalloc1_def)
qed

theorem ioctl_breaks_witness:
  "memAllocIoctl MEMALLOC_ACTIVATE_BUFFER 16 None memalloc1 = Inl OutOfBounds
   \<and> memAllocIoctl MEMALLOC_GET_PHYSICAL 0xFFFFFFFE None memalloc1 = Inl OutOfBounds
   \<and> (\<exists>s1. memAllocIoctl MEMALLOC_RELEASE 0 None memalloc1 = Inr (0, s1)
        \<and> memAllocIoctl MEMALLOC_RELEASE 0 None s1 = Inl UseAfterFree)"
  using ioctl_breaks [of memalloc1 None "0xFFFFFFFE" 0 "7"] memalloc_invs(2)
  by (simp add: memalloc1_def memalloc0_def)

theorem load_failures_witness:
  "\<exists>s'. memAllocInit \<lparr>le_region = 0, le_cdev = 0, le_device_err = True\<rparr> memalloc0 = Inr (0, s')
    \<and> \<not> k_device (kernel s')"
  using load_failures [of "\<lparr>le_region = 0, le_cdev = 0, le_device_err = True\<rparr>" memalloc0]
  by (auto simp: memalloc0_def)

end
