(* ===== verification/Passthrough.thy ===== *)
theory Passthrough
  imports CStrings
begin

unbundle bit_operations_syntax

text \<open>
  The polled driver for direct memory access, \<^verbatim>\<open>apps/dma/sw/dma_passthrough.c\<close>. The functions of the
  vendor's library it calls are a record of parameters over an unknown device state; the memory the
  device reads and writes and the blocks of \<^verbatim>\<open>malloc\<close> are explicit, and every call of the library is
  recorded.
\<close>

section \<open>The library, the store\<close>

datatype dir = S2MM | MM2S

datatype call =
    LookupConfig int
  | CfgInitialize
  | HasSg
  | IntrDisable dir
  | ResetDma
  | Flush nat int
  | Transfer dir nat int
  | ReadSR dir
  | GpioInit int
  | GpioWrite u32
  | GpioSet u32
  | FifoInit
  | FifoRead int

text \<open>The memory, as the integers at each address, and whatever else the device keeps.\<close>

type_synonym 'w mach = "(nat \<Rightarrow> int) \<times> 'w"

text \<open>
  The calls without a result are \<open>x_do\<close>; \<open>x_done\<close> is \<^verbatim>\<open>XAxiDma_ResetIsDone\<close>, \<open>x_sr\<close> the status
  register that \<^verbatim>\<open>XAxiDma_ReadReg\<close> reads, \<open>x_err_mask\<close> the library's \<^verbatim>\<open>XAXIDMA_IRQ_ERROR_MASK\<close>.
\<close>

record 'w driver =
  x_lookup :: "int \<Rightarrow> bool"
  x_cfg_init :: "'w mach \<Rightarrow> int \<times> 'w mach"
  x_has_sg :: "'w mach \<Rightarrow> bool"
  x_do :: "call \<Rightarrow> 'w mach \<Rightarrow> 'w mach"
  x_done :: "'w mach \<Rightarrow> bool \<times> 'w mach"
  x_transfer :: "dir \<Rightarrow> nat \<Rightarrow> int \<Rightarrow> 'w mach \<Rightarrow> int \<times> 'w mach"
  x_busy :: "dir \<Rightarrow> 'w mach \<Rightarrow> bool \<times> 'w mach"
  x_sr :: "dir \<Rightarrow> 'w mach \<Rightarrow> u32"
  x_err_mask :: u32
  g_init :: "int \<Rightarrow> 'w mach \<Rightarrow> int \<times> 'w mach"
  f_read :: "int \<Rightarrow> 'w mach \<Rightarrow> (nat \<Rightarrow> int) \<times> 'w mach"

record dma_passthrough =
  p_rcv_buf :: nat
  p_snd_buf :: nat
  buf_length :: int
  sample_size_bytes :: int

record converter =
  p_dma_passthrough_inst :: nat
  samples_per_frame :: int
  bytes_per_sample :: int

datatype block = Fresh | Pass dma_passthrough | Adc converter | Dac converter

text \<open>The answers of \<^verbatim>\<open>malloc\<close> still to come; a null pointer as a buffer is address 0.\<close>

record 'w sys =
  mach :: "'w mach"
  blocks :: "nat \<Rightarrow> block option"
  mallocs :: "nat option list"
  trace :: "call list"
  out :: "string list"

definition say :: "string \<Rightarrow> 'w sys \<Rightarrow> 'w sys" where
  "say l s = s\<lparr>out := out s @ [l]\<rparr>"

definition did :: "call \<Rightarrow> 'w mach \<Rightarrow> 'w sys \<Rightarrow> 'w sys" where
  "did c m s = s\<lparr>mach := m, trace := trace s @ [c]\<rparr>"

definition command :: "'w driver \<Rightarrow> call \<Rightarrow> 'w sys \<Rightarrow> 'w sys" where
  "command D c s = did c (x_do D c (mach s)) s"

definition malloc :: "'w sys \<Rightarrow> nat option \<times> 'w sys" where
  "malloc s =
     (case mallocs s of
        [] \<Rightarrow> (None, s)
      | None # as \<Rightarrow> (None, s\<lparr>mallocs := as\<rparr>)
      | Some a # as \<Rightarrow> (Some a, s\<lparr>mallocs := as, blocks := (blocks s)(a := Some Fresh)\<rparr>))"

definition free_block :: "nat \<Rightarrow> 'w sys \<Rightarrow> 'w sys res" where
  "free_block p s =
     (if p = 0 then Inr s else case blocks s p of None \<Rightarrow> Inl UseAfterFree
      | Some _ \<Rightarrow> Inr (s\<lparr>blocks := (blocks s)(p := None)\<rparr>))"

section \<open>Waiting for the device\<close>

partial_function (option) poll :: "('m \<Rightarrow> bool \<times> 'm) \<Rightarrow> 'm \<Rightarrow> 'm option" where
  "poll f m = (case f m of (b, m') \<Rightarrow> if b then Some m' else poll f m')"

definition wait_until :: "('w mach \<Rightarrow> bool \<times> 'w mach) \<Rightarrow> 'w sys \<Rightarrow> 'w sys res" where
  "wait_until f s = (case poll f (mach s) of None \<Rightarrow> Inl Blocked | Some m \<Rightarrow> Inr (s\<lparr>mach := m\<rparr>))"

definition idle :: "'w driver \<Rightarrow> dir \<Rightarrow> 'w mach \<Rightarrow> bool \<times> 'w mach" where
  "idle D d m = (case x_busy D d m of (b, m') \<Rightarrow> (\<not> b, m'))"

section \<open>The object\<close>

definition DMA_PASSTHROUGH_SUCCESS :: int where "DMA_PASSTHROUGH_SUCCESS = 0"
definition DMA_PASSTHROUGH_DMA_INIT_FAIL :: int where "DMA_PASSTHROUGH_DMA_INIT_FAIL = - 1"
definition DMA_PASSTHROUGH_XFER_FAIL :: int where "DMA_PASSTHROUGH_XFER_FAIL = - 2"

lemmas passthrough_codes = DMA_PASSTHROUGH_SUCCESS_def DMA_PASSTHROUGH_DMA_INIT_FAIL_def
  DMA_PASSTHROUGH_XFER_FAIL_def

definition init_dma :: "'w driver \<Rightarrow> int \<Rightarrow> 'w sys \<Rightarrow> (int \<times> 'w sys) res" where
  "init_dma D dev s =
     (let s = did (LookupConfig dev) (mach s) s
      in if \<not> x_lookup D dev then
           Inr (DMA_PASSTHROUGH_DMA_INIT_FAIL,
                say (''ERROR! No hardware configuration found for AXI DMA with device id '' @ show_int dev @ ''.'') s)
         else let (status, m) = x_cfg_init D (mach s); s = did CfgInitialize m s
         in if status \<noteq> 0 then
              Inr (DMA_PASSTHROUGH_DMA_INIT_FAIL,
                   say (''ERROR! Initialization of AXI DMA failed with '' @ show_int status) s)
         else let s = did HasSg (mach s) s
         in if x_has_sg D (mach s) then
              Inr (DMA_PASSTHROUGH_DMA_INIT_FAIL, say ''ERROR! Device configured as SG mode.'' s)
         else bindE (wait_until (x_done D)
                (command D ResetDma (command D (IntrDisable MM2S) (command D (IntrDisable S2MM) s)))) (\<lambda>s.
              Inr (DMA_PASSTHROUGH_SUCCESS, s)))"

definition pass_at :: "nat \<Rightarrow> 'w sys \<Rightarrow> dma_passthrough res" where
  "pass_at p s =
     (if p = 0 then Inl NullDeref
      else case blocks s p of Some (Pass x) \<Rightarrow> Inr x | Some _ \<Rightarrow> Inl OutOfBounds | None \<Rightarrow> Inl UseAfterFree)"

definition pass_upd :: "nat \<Rightarrow> (dma_passthrough \<Rightarrow> dma_passthrough) \<Rightarrow> 'w sys \<Rightarrow> 'w sys res" where
  "pass_upd p f s =
     bindE (pass_at p s) (\<lambda>x. Inr (s\<lparr>blocks := (blocks s)(p := Some (Pass (f x)))\<rparr>))"

definition dma_passthrough_destroy :: "nat \<Rightarrow> 'w sys \<Rightarrow> 'w sys res" where
  "dma_passthrough_destroy p s = free_block p s"

definition dma_passthrough_reset :: "'w driver \<Rightarrow> nat \<Rightarrow> 'w sys \<Rightarrow> 'w sys res" where
  "dma_passthrough_reset D p s = bindE (pass_at p s) (\<lambda>_. Inr (command D ResetDma s))"

definition dma_passthrough_set_rcv_buf :: "nat \<Rightarrow> nat \<Rightarrow> 'w sys \<Rightarrow> 'w sys res" where
  "dma_passthrough_set_rcv_buf p b s = pass_upd p (\<lambda>x. x\<lparr>p_rcv_buf := b\<rparr>) s"

definition dma_passthrough_get_rcv_buf :: "nat \<Rightarrow> 'w sys \<Rightarrow> nat res" where
  "dma_passthrough_get_rcv_buf p s = bindE (pass_at p s) (\<lambda>x. Inr (p_rcv_buf x))"

definition dma_passthrough_set_snd_buf :: "nat \<Rightarrow> nat \<Rightarrow> 'w sys \<Rightarrow> 'w sys res" where
  "dma_passthrough_set_snd_buf p b s = pass_upd p (\<lambda>x. x\<lparr>p_snd_buf := b\<rparr>) s"

definition dma_passthrough_get_snd_buf :: "nat \<Rightarrow> 'w sys \<Rightarrow> nat res" where
  "dma_passthrough_get_snd_buf p s = bindE (pass_at p s) (\<lambda>x. Inr (p_snd_buf x))"

definition dma_passthrough_set_buf_length :: "nat \<Rightarrow> int \<Rightarrow> 'w sys \<Rightarrow> 'w sys res" where
  "dma_passthrough_set_buf_length p n s = pass_upd p (\<lambda>x. x\<lparr>buf_length := n\<rparr>) s"

definition dma_passthrough_get_buf_length :: "nat \<Rightarrow> 'w sys \<Rightarrow> int res" where
  "dma_passthrough_get_buf_length p s = bindE (pass_at p s) (\<lambda>x. Inr (buf_length x))"

definition dma_passthrough_set_sample_size_bytes :: "nat \<Rightarrow> int \<Rightarrow> 'w sys \<Rightarrow> 'w sys res" where
  "dma_passthrough_set_sample_size_bytes p n s = pass_upd p (\<lambda>x. x\<lparr>sample_size_bytes := n\<rparr>) s"

definition dma_passthrough_get_sample_size_bytes :: "nat \<Rightarrow> 'w sys \<Rightarrow> int res" where
  "dma_passthrough_get_sample_size_bytes p s = bindE (pass_at p s) (\<lambda>x. Inr (sample_size_bytes x))"

definition dma_passthrough_create :: "'w driver \<Rightarrow> int \<Rightarrow> int \<Rightarrow> 'w sys \<Rightarrow> (nat option \<times> 'w sys) res" where
  "dma_passthrough_create D dev sz s =
     (case malloc s of
        (None, s) \<Rightarrow> Inr (None, say ''ERROR! Failed to allocate memory for DMA Passthrough object.'' s)
      | (Some p, s) \<Rightarrow>
          bindE (init_dma D dev s) (\<lambda>(status, s).
          if status \<noteq> DMA_PASSTHROUGH_SUCCESS then
            bindE (dma_passthrough_destroy p (say ''ERROR! Failed to initialize AXI DMA.'' s)) (\<lambda>s.
            Inr (None, s))
          else
            let s = s\<lparr>blocks := (blocks s)(p := Some (Pass \<lparr>p_rcv_buf = 0, p_snd_buf = 0, buf_length = 0,
                                                            sample_size_bytes = 0\<rparr>))\<rparr>
            in bindE (dma_passthrough_set_rcv_buf p 0 s) (\<lambda>s.
               bindE (dma_passthrough_set_snd_buf p 0 s) (\<lambda>s.
               bindE (dma_passthrough_set_buf_length p 1024 s) (\<lambda>s.
               bindE (dma_passthrough_set_sample_size_bytes p sz s) (\<lambda>s.
               Inr (Some p, s)))))))"

section \<open>Transfers\<close>

definition dma_passthrough_rcv :: "'w driver \<Rightarrow> nat \<Rightarrow> 'w sys \<Rightarrow> (int \<times> 'w sys) res" where
  "dma_passthrough_rcv D p s =
     bindE (pass_at p s) (\<lambda>x.
     bindE (cmul (buf_length x) (sample_size_bytes x)) (\<lambda>num_bytes.
     let s = command D (Flush (p_rcv_buf x) num_bytes) s;
         (status, m) = x_transfer D S2MM (p_rcv_buf x) num_bytes (mach s);
         s = did (Transfer S2MM (p_rcv_buf x) num_bytes) m s
     in if status \<noteq> 0 then
          Inr (DMA_PASSTHROUGH_XFER_FAIL, say ''ERROR! Failed to kick off S2MM transfer!'' s)
        else
          bindE (wait_until (idle D S2MM) s) (\<lambda>s.
          let s = did (ReadSR S2MM) (mach s) s
          in if x_sr D S2MM (mach s) AND x_err_mask D \<noteq> 0 then
               Inr (DMA_PASSTHROUGH_XFER_FAIL,
                    say ''ERROR! AXI DMA returned an error during the S2MM transfer.'' s)
             else Inr (DMA_PASSTHROUGH_SUCCESS, s))))"

definition dma_passthrough_snd :: "'w driver \<Rightarrow> nat \<Rightarrow> 'w sys \<Rightarrow> (int \<times> 'w sys) res" where
  "dma_passthrough_snd D p s =
     bindE (pass_at p s) (\<lambda>x.
     bindE (cmul (buf_length x) (sample_size_bytes x)) (\<lambda>num_bytes.
     let s = command D (Flush (p_snd_buf x) num_bytes) s;
         (status, m) = x_transfer D MM2S (p_snd_buf x) num_bytes (mach s);
         s = did (Transfer MM2S (p_snd_buf x) num_bytes) m s
     in if status \<noteq> 0 then
          Inr (DMA_PASSTHROUGH_XFER_FAIL, say ''ERROR! Failed to kick off MM2S transfer!'' s)
        else
          bindE (wait_until (idle D MM2S) s) (\<lambda>s.
          let s = did (ReadSR MM2S) (mach s) s
          in if x_sr D MM2S (mach s) AND x_err_mask D \<noteq> 0 then
               Inr (DMA_PASSTHROUGH_XFER_FAIL,
                    say ''ERROR! AXI DMA returned an error during the MM2S transfer.'' s)
             else Inr (DMA_PASSTHROUGH_SUCCESS, s))))"

section \<open>Polling ends exactly when the device answers\<close>

lemma poll_some:
  assumes "fst (f (((\<lambda>m. snd (f m)) ^^ n) m))"
  shows "\<exists>m'. poll f m = Some m'"
  using assms
proof (induction n arbitrary: m)
  case 0
  then show ?case by (subst poll.simps) (simp add: case_prod_beta)
next
  case (Suc n)
  have "\<exists>m'. poll f (snd (f m)) = Some m'"
    using Suc.IH [of "snd (f m)"] Suc.prems by (simp only: funpow_Suc_right o_apply)
  then show ?case by (subst poll.simps) (simp add: case_prod_beta)
qed

lemma poll_answer:
  assumes "poll f m = Some m'"
  shows "\<exists>n. fst (f (((\<lambda>m. snd (f m)) ^^ n) m))"
proof (rule poll.raw_induct [OF _ assms])
  fix wait :: "('a \<Rightarrow> bool \<times> 'a) \<Rightarrow> 'a \<Rightarrow> 'a option" and f m m'
  assume ih: "\<And>f m m'. wait f m = Some m' \<Longrightarrow> \<exists>n. fst (f (((\<lambda>m. snd (f m)) ^^ n) m))"
    and step: "(case f m of (b, m1) \<Rightarrow> if b then Some m1 else wait f m1) = Some m'"
  obtain b m1 where fm: "f m = (b, m1)" by (cases "f m")
  show "\<exists>n. fst (f (((\<lambda>m. snd (f m)) ^^ n) m))"
  proof (cases b)
    case True
    then show ?thesis using fm by (intro exI [of _ 0]) simp
  next
    case False
    with step fm have "wait f m1 = Some m'" by simp
    then obtain n where "fst (f (((\<lambda>m. snd (f m)) ^^ n) m1))" using ih by blast
    then show ?thesis using fm by (intro exI [of _ "Suc n"]) (simp only: funpow_Suc_right o_apply snd_conv)
  qed
qed

text \<open>
  Waiting ends exactly when the device answers: the loop that polls for the end of a reset or of
  a transfer returns if and only if one of the polls is answered with yes, and then it has polled
  the device up to the first such answer.
\<close>

theorem wait_until_ends:
  "(\<exists>s'. wait_until f s = Inr s') \<longleftrightarrow> (\<exists>n. fst (f (((\<lambda>m. snd (f m)) ^^ n) (mach s))))"
  using poll_some [of f _ "mach s"] poll_answer [of f "mach s"]
  by (auto simp: wait_until_def split: option.splits)

end
