(* ===== verification/AdcDac.thy ===== *)
theory AdcDac
  imports Passthrough
begin

text \<open>
  The converters on top of the driver, \<^verbatim>\<open>apps/dma/sw/adc.c\<close> and \<^verbatim>\<open>apps/dma/sw/dac.c\<close>: objects of their
  own that hold a pointer to a passthrough object and repeat its frame length and sample size.
\<close>

section \<open>The analog to digital converter\<close>

definition ADC_SUCCESS :: int where "ADC_SUCCESS = 0"
definition ADC_GPIO_INIT_FAIL :: int where "ADC_GPIO_INIT_FAIL = - 1"
definition ADC_DMA_FAIL :: int where "ADC_DMA_FAIL = - 2"

definition adc_init_gpio :: "'w driver \<Rightarrow> int \<Rightarrow> 'w sys \<Rightarrow> int \<times> 'w sys" where
  "adc_init_gpio D dev s =
     (let (status, m) = g_init D dev (mach s); s = did (GpioInit dev) m s
      in if status \<noteq> 0 then (ADC_GPIO_INIT_FAIL, say ''ERROR! Initialization of AXI GPIO instance failed.'' s)
         else (ADC_SUCCESS, command D (GpioWrite 0) s))"

definition adc_at :: "nat \<Rightarrow> 'w sys \<Rightarrow> converter res" where
  "adc_at p s =
     (if p = 0 then Inl NullDeref
      else case blocks s p of Some (Adc x) \<Rightarrow> Inr x | Some _ \<Rightarrow> Inl OutOfBounds | None \<Rightarrow> Inl UseAfterFree)"

definition adc_destroy :: "nat \<Rightarrow> 'w sys \<Rightarrow> 'w sys res" where
  "adc_destroy p s =
     bindE (adc_at p s) (\<lambda>x.
     bindE (dma_passthrough_destroy (p_dma_passthrough_inst x) s) (free_block p))"

definition adc_set_samples_per_frame :: "nat \<Rightarrow> int \<Rightarrow> 'w sys \<Rightarrow> 'w sys res" where
  "adc_set_samples_per_frame p n s =
     bindE (adc_at p s) (\<lambda>x.
     dma_passthrough_set_buf_length (p_dma_passthrough_inst x) n
       (s\<lparr>blocks := (blocks s)(p := Some (Adc (x\<lparr>samples_per_frame := n\<rparr>)))\<rparr>))"

definition adc_get_samples_per_frame :: "nat \<Rightarrow> 'w sys \<Rightarrow> int res" where
  "adc_get_samples_per_frame p s = bindE (adc_at p s) (\<lambda>x. Inr (samples_per_frame x))"

definition adc_set_bytes_per_sample :: "nat \<Rightarrow> int \<Rightarrow> 'w sys \<Rightarrow> 'w sys res" where
  "adc_set_bytes_per_sample p n s =
     bindE (adc_at p s) (\<lambda>x.
     dma_passthrough_set_sample_size_bytes (p_dma_passthrough_inst x) n
       (s\<lparr>blocks := (blocks s)(p := Some (Adc (x\<lparr>bytes_per_sample := n\<rparr>)))\<rparr>))"

definition adc_get_bytes_per_sample :: "nat \<Rightarrow> 'w sys \<Rightarrow> int res" where
  "adc_get_bytes_per_sample p s = bindE (adc_at p s) (\<lambda>x. Inr (bytes_per_sample x))"

definition adc_create :: "'w driver \<Rightarrow> int \<Rightarrow> int \<Rightarrow> int \<Rightarrow> 'w sys \<Rightarrow> (nat option \<times> 'w sys) res" where
  "adc_create D gpio dma bytes s =
     (case malloc s of
        (None, s) \<Rightarrow> Inr (None, say ''ERROR! Failed to allocate memory for ADC object.'' s)
      | (Some p, s) \<Rightarrow>
          bindE (dma_passthrough_create D dma bytes s) (\<lambda>(q, s).
          case q of
            None \<Rightarrow> Inr (None, say ''ERROR! Failed to create DMA Passthrough object for use by the ADC.'' s)
          | Some q \<Rightarrow>
              let s = s\<lparr>blocks := (blocks s)(p := Some (Adc \<lparr>p_dma_passthrough_inst = q, samples_per_frame = 0,
                                                            bytes_per_sample = 0\<rparr>))\<rparr>;
                  (status, s) = adc_init_gpio D gpio s
              in if status \<noteq> 0 then
                   bindE (adc_destroy p (say ''ERROR! Failed to initialize GPIO.'' s)) (\<lambda>s. Inr (None, s))
                 else
                   bindE (adc_set_samples_per_frame p 1024 s) (\<lambda>s.
                   bindE (adc_set_bytes_per_sample p bytes s) (\<lambda>s.
                   Inr (Some p, s)))))"

definition adc_enable :: "'w driver \<Rightarrow> nat \<Rightarrow> 'w sys \<Rightarrow> 'w sys res" where
  "adc_enable D p s =
     bindE (adc_at p s) (\<lambda>x.
     bindE (dma_passthrough_reset D (p_dma_passthrough_inst x) s) (\<lambda>s.
     bindE (adc_get_samples_per_frame p s) (\<lambda>n.
     Inr (command D (GpioSet 0x80000000) (command D (GpioSet (word_of_int n)) s)))))"

definition adc_get_frame :: "'w driver \<Rightarrow> nat \<Rightarrow> nat \<Rightarrow> 'w sys \<Rightarrow> (int \<times> 'w sys) res" where
  "adc_get_frame D p buf s =
     bindE (adc_at p s) (\<lambda>x.
     bindE (dma_passthrough_set_rcv_buf (p_dma_passthrough_inst x) buf s) (\<lambda>s.
     bindE (dma_passthrough_rcv D (p_dma_passthrough_inst x) s) (\<lambda>(status, s).
     if status \<noteq> DMA_PASSTHROUGH_SUCCESS then
       Inr (ADC_DMA_FAIL, say ''ERROR! DMA Passthrough error occurred when trying to get data.'' s)
     else Inr (ADC_SUCCESS, s))))"

section \<open>The digital to analog converter\<close>

definition DAC_SUCCESS :: int where "DAC_SUCCESS = 0"
definition DAC_GPIO_INIT_FAIL :: int where "DAC_GPIO_INIT_FAIL = - 1"
definition DAC_DMA_FAIL :: int where "DAC_DMA_FAIL = - 2"

lemmas converter_codes = ADC_SUCCESS_def ADC_GPIO_INIT_FAIL_def ADC_DMA_FAIL_def DAC_SUCCESS_def
  DAC_GPIO_INIT_FAIL_def DAC_DMA_FAIL_def

definition dac_init_gpio :: "'w driver \<Rightarrow> int \<Rightarrow> 'w sys \<Rightarrow> int \<times> 'w sys" where
  "dac_init_gpio D dev s =
     (let (status, m) = g_init D dev (mach s); s = did (GpioInit dev) m s
      in if status \<noteq> 0 then (DAC_GPIO_INIT_FAIL, say ''ERROR! Initialization of AXI GPIO instance failed.'' s)
         else (DAC_SUCCESS, command D (GpioWrite 0) s))"

definition dac_at :: "nat \<Rightarrow> 'w sys \<Rightarrow> converter res" where
  "dac_at p s =
     (if p = 0 then Inl NullDeref
      else case blocks s p of Some (Dac x) \<Rightarrow> Inr x | Some _ \<Rightarrow> Inl OutOfBounds | None \<Rightarrow> Inl UseAfterFree)"

definition dac_destroy :: "nat \<Rightarrow> 'w sys \<Rightarrow> 'w sys res" where
  "dac_destroy p s =
     bindE (dac_at p s) (\<lambda>x.
     bindE (dma_passthrough_destroy (p_dma_passthrough_inst x) s) (free_block p))"

definition dac_set_samples_per_frame :: "nat \<Rightarrow> int \<Rightarrow> 'w sys \<Rightarrow> 'w sys res" where
  "dac_set_samples_per_frame p n s =
     bindE (dac_at p s) (\<lambda>x.
     dma_passthrough_set_buf_length (p_dma_passthrough_inst x) n
       (s\<lparr>blocks := (blocks s)(p := Some (Dac (x\<lparr>samples_per_frame := n\<rparr>)))\<rparr>))"

definition dac_get_samples_per_frame :: "nat \<Rightarrow> 'w sys \<Rightarrow> int res" where
  "dac_get_samples_per_frame p s = bindE (dac_at p s) (\<lambda>x. Inr (samples_per_frame x))"

definition dac_set_bytes_per_sample :: "nat \<Rightarrow> int \<Rightarrow> 'w sys \<Rightarrow> 'w sys res" where
  "dac_set_bytes_per_sample p n s =
     bindE (dac_at p s) (\<lambda>x.
     dma_passthrough_set_sample_size_bytes (p_dma_passthrough_inst x) n
       (s\<lparr>blocks := (blocks s)(p := Some (Dac (x\<lparr>bytes_per_sample := n\<rparr>)))\<rparr>))"

definition dac_get_bytes_per_sample :: "nat \<Rightarrow> 'w sys \<Rightarrow> int res" where
  "dac_get_bytes_per_sample p s = bindE (dac_at p s) (\<lambda>x. Inr (bytes_per_sample x))"

definition dac_create :: "'w driver \<Rightarrow> int \<Rightarrow> int \<Rightarrow> int \<Rightarrow> 'w sys \<Rightarrow> (nat option \<times> 'w sys) res" where
  "dac_create D gpio dma bytes s =
     (case malloc s of
        (None, s) \<Rightarrow> Inr (None, say ''ERROR! Failed to allocate memory for DAC object.'' s)
      | (Some p, s) \<Rightarrow>
          bindE (dma_passthrough_create D dma bytes s) (\<lambda>(q, s).
          case q of
            None \<Rightarrow> Inr (None, say ''ERROR! Failed to create DMA Passthrough object for use by the DAC.'' s)
          | Some q \<Rightarrow>
              let s = s\<lparr>blocks := (blocks s)(p := Some (Dac \<lparr>p_dma_passthrough_inst = q, samples_per_frame = 0,
                                                            bytes_per_sample = 0\<rparr>))\<rparr>;
                  (status, s) = dac_init_gpio D gpio s
              in if status \<noteq> 0 then
                   bindE (dac_destroy p (say ''ERROR! Failed to initialize GPIO.'' s)) (\<lambda>s. Inr (None, s))
                 else
                   bindE (dac_set_samples_per_frame p 1024 s) (\<lambda>s.
                   bindE (dac_set_bytes_per_sample p bytes s) (\<lambda>s.
                   Inr (Some p, s)))))"

definition dac_enable :: "nat \<Rightarrow> 'w sys \<Rightarrow> 'w sys res" where
  "dac_enable p s = Inr s"

definition dac_send_frame :: "'w driver \<Rightarrow> nat \<Rightarrow> nat \<Rightarrow> 'w sys \<Rightarrow> (int \<times> 'w sys) res" where
  "dac_send_frame D p buf s =
     bindE (dac_at p s) (\<lambda>x.
     bindE (dma_passthrough_set_snd_buf (p_dma_passthrough_inst x) buf s) (\<lambda>s.
     bindE (dma_passthrough_snd D (p_dma_passthrough_inst x) s) (\<lambda>(status, s).
     if status \<noteq> DMA_PASSTHROUGH_SUCCESS then
       Inr (DAC_DMA_FAIL, say ''ERROR! DMA Passthrough error occurred when trying to send data.'' s)
     else Inr (DAC_SUCCESS, s))))"

section \<open>What the converters rely on\<close>

text \<open>
  One direction of the driver: the buffer is set, then a transfer uses the buffer, the length and
  the sample size of the object and nothing else, after the cache has been flushed.
\<close>

locale frame_port =
  fixes set_buf :: "nat \<Rightarrow> nat \<Rightarrow> 'w sys \<Rightarrow> 'w sys res" and xfer :: "nat \<Rightarrow> 'w sys \<Rightarrow> (int \<times> 'w sys) res"
    and d :: dir and buf_of :: "dma_passthrough \<Rightarrow> nat"
  assumes set_buf: "pass_at p s = Inr x \<Longrightarrow> \<exists>x'. set_buf p b s = Inr (s\<lparr>blocks := (blocks s)(p \<mapsto> Pass x')\<rparr>)
      \<and> buf_of x' = b \<and> buf_length x' = buf_length x \<and> sample_size_bytes x' = sample_size_bytes x"
    and xfer: "pass_at p s = Inr x \<Longrightarrow> xfer p s = Inr (r, s') \<Longrightarrow>
      \<exists>n rest. cmul (buf_length x) (sample_size_bytes x) = Inr n
        \<and> trace s' = trace s @ [Flush (buf_of x) n, Transfer d (buf_of x) n] @ rest \<and> rest \<in> {[], [ReadSR d]}
        \<and> (r = DMA_PASSTHROUGH_SUCCESS \<longrightarrow> rest = [ReadSR d]) \<and> blocks s' = blocks s"
begin

lemma frame:
  assumes "pass_at p s = Inr x" and "bindE (set_buf p b s) (xfer p) = Inr (r, s')"
  shows "\<exists>n rest. cmul (buf_length x) (sample_size_bytes x) = Inr n
    \<and> trace s' = trace s @ [Flush b n, Transfer d b n] @ rest \<and> rest \<in> {[], [ReadSR d]}
    \<and> (r = DMA_PASSTHROUGH_SUCCESS \<longrightarrow> rest = [ReadSR d])"
proof -
  obtain x' where x': "set_buf p b s = Inr (s\<lparr>blocks := (blocks s)(p \<mapsto> Pass x')\<rparr>)" "buf_of x' = b"
    "buf_length x' = buf_length x" "sample_size_bytes x' = sample_size_bytes x"
    using set_buf [OF assms(1)] by blast
  let ?s = "s\<lparr>blocks := (blocks s)(p \<mapsto> Pass x')\<rparr>"
  have "pass_at p ?s = Inr x'" using assms(1) by (auto simp: pass_at_def split: if_splits)
  moreover have "xfer p ?s = Inr (r, s')" using assms(2) x'(1) by simp
  ultimately show ?thesis using xfer [of p ?s x' r s'] x'(2-4) by fastforce
qed

end

lemma wait_until_keeps:
  "wait_until f s = Inr s' \<Longrightarrow> trace s' = trace s \<and> blocks s' = blocks s"
  by (auto simp: wait_until_def split: option.splits)

lemma did_sel [simp]:
  "trace (did c m s) = trace s @ [c]" "blocks (did c m s) = blocks s" "mach (did c m s) = m"
  "trace (command D c s) = trace s @ [c]" "blocks (command D c s) = blocks s"
  "trace (say l s) = trace s" "blocks (say l s) = blocks s"
  by (simp_all add: did_def command_def say_def)

lemma rcv_trace:
  assumes "pass_at p s = Inr x" and "dma_passthrough_rcv D p s = Inr (r, s')"
  shows "\<exists>n rest. cmul (buf_length x) (sample_size_bytes x) = Inr n
    \<and> trace s' = trace s @ [Flush (p_rcv_buf x) n, Transfer S2MM (p_rcv_buf x) n] @ rest \<and> rest \<in> {[], [ReadSR S2MM]}
    \<and> (r = DMA_PASSTHROUGH_SUCCESS \<longrightarrow> rest = [ReadSR S2MM]) \<and> blocks s' = blocks s"
proof -
  obtain n where n: "cmul (buf_length x) (sample_size_bytes x) = Inr n"
    using assms by (auto simp: dma_passthrough_rcv_def res_simps)
  obtain st m where t: "x_transfer D S2MM (p_rcv_buf x) n (mach (command D (Flush (p_rcv_buf x) n) s)) = (st, m)"
    by (metis surj_pair)
  show ?thesis
    using assms n t by (auto simp: dma_passthrough_rcv_def res_simps Let_def passthrough_codes
        dest!: wait_until_keeps split: if_splits)
qed

lemma snd_trace:
  assumes "pass_at p s = Inr x" and "dma_passthrough_snd D p s = Inr (r, s')"
  shows "\<exists>n rest. cmul (buf_length x) (sample_size_bytes x) = Inr n
    \<and> trace s' = trace s @ [Flush (p_snd_buf x) n, Transfer MM2S (p_snd_buf x) n] @ rest \<and> rest \<in> {[], [ReadSR MM2S]}
    \<and> (r = DMA_PASSTHROUGH_SUCCESS \<longrightarrow> rest = [ReadSR MM2S]) \<and> blocks s' = blocks s"
proof -
  obtain n where n: "cmul (buf_length x) (sample_size_bytes x) = Inr n"
    using assms by (auto simp: dma_passthrough_snd_def res_simps)
  obtain st m where t: "x_transfer D MM2S (p_snd_buf x) n (mach (command D (Flush (p_snd_buf x) n) s)) = (st, m)"
    by (metis surj_pair)
  show ?thesis
    using assms n t by (auto simp: dma_passthrough_snd_def res_simps Let_def passthrough_codes
        dest!: wait_until_keeps split: if_splits)
qed

interpretation rcv: frame_port dma_passthrough_set_rcv_buf "dma_passthrough_rcv D" S2MM p_rcv_buf for D
proof (unfold_locales, goal_cases)
  case 1
  then show ?case by (auto simp: dma_passthrough_set_rcv_buf_def pass_upd_def)
next
  case 2
  then show ?case by (rule rcv_trace)
qed

interpretation snd: frame_port dma_passthrough_set_snd_buf "dma_passthrough_snd D" MM2S p_snd_buf for D
proof (unfold_locales, goal_cases)
  case 1
  then show ?case by (auto simp: dma_passthrough_set_snd_buf_def pass_upd_def)
next
  case 2
  then show ?case by (rule snd_trace)
qed

section \<open>Objects in step with each other\<close>

text \<open>A converter and its passthrough object agree on the frame length and the sample size.\<close>

definition in_step :: "converter \<Rightarrow> 'w sys \<Rightarrow> bool" where
  "in_step c s \<longleftrightarrow> (\<exists>x. pass_at (p_dma_passthrough_inst c) s = Inr x
     \<and> buf_length x = samples_per_frame c \<and> sample_size_bytes x = bytes_per_sample c)"

definition adc_inv :: "nat \<Rightarrow> 'w sys \<Rightarrow> bool" where
  "adc_inv p s \<longleftrightarrow> (\<exists>c. adc_at p s = Inr c \<and> in_step c s)"

definition dac_inv :: "nat \<Rightarrow> 'w sys \<Rightarrow> bool" where
  "dac_inv p s \<longleftrightarrow> (\<exists>c. dac_at p s = Inr c \<and> in_step c s)"

lemma adc_at_iff: "adc_at p s = Inr c \<longleftrightarrow> p \<noteq> 0 \<and> blocks s p = Some (Adc c)"
  by (auto simp: adc_at_def split: option.splits block.splits)

lemma dac_at_iff: "dac_at p s = Inr c \<longleftrightarrow> p \<noteq> 0 \<and> blocks s p = Some (Dac c)"
  by (auto simp: dac_at_def split: option.splits block.splits)

lemma pass_at_iff: "pass_at p s = Inr x \<longleftrightarrow> p \<noteq> 0 \<and> blocks s p = Some (Pass x)"
  by (auto simp: pass_at_def split: option.splits block.splits)

text \<open>
  Every frame has the size that was asked for: the setting functions keep a converter and its
  passthrough object in step, and so a frame that is fetched into a buffer starts exactly one
  transfer, of the frame length times the sample size of the converter, into that buffer, after
  the cache lines of the same range have been flushed.
\<close>

theorem adc_frame_size:
  assumes "adc_inv p s" and "adc_at p s = Inr c"
  shows "(\<exists>s'. adc_set_samples_per_frame p n s = Inr s' \<and> adc_inv p s' \<and> adc_get_samples_per_frame p s' = Inr n)
    \<and> (\<exists>s'. adc_set_bytes_per_sample p n s = Inr s' \<and> adc_inv p s' \<and> adc_get_bytes_per_sample p s' = Inr n)
    \<and> (adc_get_frame D p buf s = Inr (r, s') \<longrightarrow> (\<exists>k rest. cmul (samples_per_frame c) (bytes_per_sample c) = Inr k
        \<and> trace s' = trace s @ [Flush buf k, Transfer S2MM buf k] @ rest \<and> rest \<in> {[], [ReadSR S2MM]}
        \<and> (r = ADC_SUCCESS \<longrightarrow> rest = [ReadSR S2MM])))"
proof -
  obtain x where x: "pass_at (p_dma_passthrough_inst c) s = Inr x" "buf_length x = samples_per_frame c"
    "sample_size_bytes x = bytes_per_sample c"
    using assms by (auto simp: adc_inv_def in_step_def)
  let ?q = "p_dma_passthrough_inst c"
  have b: "p \<noteq> 0" "blocks s p = Some (Adc c)" "?q \<noteq> 0" "blocks s ?q = Some (Pass x)" "?q \<noteq> p"
    using assms(2) x(1) by (auto simp: adc_at_iff pass_at_iff)
  have 1: "\<exists>s'. adc_set_samples_per_frame p n s = Inr s' \<and> adc_inv p s' \<and> adc_get_samples_per_frame p s' = Inr n"
    using b x by (simp add: adc_set_samples_per_frame_def dma_passthrough_set_buf_length_def pass_upd_def
        adc_get_samples_per_frame_def adc_inv_def in_step_def adc_at_def pass_at_def)
  have 2: "\<exists>s'. adc_set_bytes_per_sample p n s = Inr s' \<and> adc_inv p s' \<and> adc_get_bytes_per_sample p s' = Inr n"
    using b x by (simp add: adc_set_bytes_per_sample_def dma_passthrough_set_sample_size_bytes_def pass_upd_def
        adc_get_bytes_per_sample_def adc_inv_def in_step_def adc_at_def pass_at_def)
  have 3: "\<exists>k rest. cmul (samples_per_frame c) (bytes_per_sample c) = Inr k
        \<and> trace s' = trace s @ [Flush buf k, Transfer S2MM buf k] @ rest \<and> rest \<in> {[], [ReadSR S2MM]}
        \<and> (r = ADC_SUCCESS \<longrightarrow> rest = [ReadSR S2MM])"
    if run: "adc_get_frame D p buf s = Inr (r, s')"
  proof -
    obtain st s2 where s2: "bindE (dma_passthrough_set_rcv_buf ?q buf s) (dma_passthrough_rcv D ?q) = Inr (st, s2)"
      and fin: "r = ADC_SUCCESS \<longrightarrow> st = DMA_PASSTHROUGH_SUCCESS" "trace s' = trace s2"
      using run assms(2) by (auto simp: adc_get_frame_def res_simps converter_codes split: if_splits)
    show ?thesis using rcv.frame [OF x(1) s2] fin x(2,3) by auto
  qed
  show ?thesis using 1 2 3 by blast
qed

section \<open>Who owns the memory after a failed creation\<close>

lemma init_dma_blocks: "init_dma D dev s = Inr (st, s') \<Longrightarrow> blocks s' = blocks s"
  by (auto simp: init_dma_def res_simps Let_def dest!: wait_until_keeps split: if_splits prod.splits)

lemma pass_create_steps:
  assumes "mallocs s = Some q # as" and "q \<noteq> 0"
    and "init_dma D dev (s\<lparr>mallocs := as, blocks := (blocks s)(q \<mapsto> Fresh)\<rparr>) = Inr (st, s1)"
  shows "(st \<noteq> 0 \<longrightarrow> (\<exists>s'. dma_passthrough_create D dev n s = Inr (None, s') \<and> blocks s' = (blocks s)(q := None)))
    \<and> (st = 0 \<longrightarrow> (\<exists>s' x. dma_passthrough_create D dev n s = Inr (Some q, s') \<and> mach s' = mach s1
        \<and> blocks s' = (blocks s)(q \<mapsto> Pass x)))"
  using assms init_dma_blocks [OF assms(3)]
  by (auto simp: dma_passthrough_create_def malloc_def passthrough_codes dma_passthrough_destroy_def free_block_def
      dma_passthrough_set_rcv_buf_def dma_passthrough_set_snd_buf_def dma_passthrough_set_buf_length_def
      dma_passthrough_set_sample_size_bytes_def pass_upd_def pass_at_def Let_def)

text \<open>
  Creating a converter, on every branch: when the passthrough object cannot be created its memory
  is freed but the block of the converter is lost; when the port cannot be initialised both blocks
  are freed; otherwise the converter is in step with its passthrough object.
\<close>

theorem adc_create_memory:
  assumes "mallocs s = Some p # Some q # as" and "p \<noteq> 0" and "q \<noteq> 0" and "p \<noteq> q"
    and "init_dma D dma (s\<lparr>mallocs := as, blocks := (blocks s)(p \<mapsto> Fresh, q \<mapsto> Fresh)\<rparr>) = Inr (st, s1)"
  shows "(st \<noteq> 0 \<longrightarrow> (\<exists>s'. adc_create D gpio dma bytes s = Inr (None, s')
        \<and> blocks s' = (blocks s)(p \<mapsto> Fresh, q := None)))
    \<and> (st = 0 \<and> fst (g_init D gpio (mach s1)) \<noteq> 0 \<longrightarrow> (\<exists>s'. adc_create D gpio dma bytes s = Inr (None, s')
        \<and> blocks s' = (blocks s)(p := None, q := None)))
    \<and> (st = 0 \<and> fst (g_init D gpio (mach s1)) = 0 \<longrightarrow> (\<exists>s'. adc_create D gpio dma bytes s = Inr (Some p, s')
        \<and> adc_inv p s' \<and> adc_get_samples_per_frame p s' = Inr 1024 \<and> adc_get_bytes_per_sample p s' = Inr bytes))"
proof -
  let ?s = "s\<lparr>mallocs := Some q # as, blocks := (blocks s)(p \<mapsto> Fresh)\<rparr>"
  have create: "(st \<noteq> 0 \<longrightarrow> (\<exists>s'. dma_passthrough_create D dma bytes ?s = Inr (None, s')
        \<and> blocks s' = (blocks s)(p \<mapsto> Fresh, q := None)))
    \<and> (st = 0 \<longrightarrow> (\<exists>s' x. dma_passthrough_create D dma bytes ?s = Inr (Some q, s') \<and> mach s' = mach s1
        \<and> blocks s' = (blocks s)(p \<mapsto> Fresh, q \<mapsto> Pass x)))"
    using pass_create_steps [of ?s q as D dma st s1 bytes] assms by simp
  have m: "malloc s = (Some p, ?s)" using assms(1) by (simp add: malloc_def)
  obtain gs gm where g: "g_init D gpio (mach s1) = (gs, gm)" by (metis surj_pair)
  show ?thesis
  proof (cases "st = 0")
    case False
    then show ?thesis using create m by (auto simp: adc_create_def)
  next
    case True
    then obtain s2 x where s2: "dma_passthrough_create D dma bytes ?s = Inr (Some q, s2)" "mach s2 = mach s1"
      "blocks s2 = (blocks s)(p \<mapsto> Fresh, q \<mapsto> Pass x)" using create by blast
    have fail: "\<exists>s'. adc_create D gpio dma bytes s = Inr (None, s') \<and> blocks s' = (blocks s)(p := None, q := None)"
      if "gs \<noteq> 0"
      using that s2 m g assms(2-4) by (auto simp: adc_create_def adc_init_gpio_def converter_codes adc_destroy_def
          adc_at_def dma_passthrough_destroy_def free_block_def fun_upd_twist)
    have ok: "\<exists>s'. adc_create D gpio dma bytes s = Inr (Some p, s') \<and> adc_inv p s'
        \<and> adc_get_samples_per_frame p s' = Inr 1024 \<and> adc_get_bytes_per_sample p s' = Inr bytes" if "gs = 0"
      using that s2 m g assms(2-4) by (simp add: adc_create_def adc_init_gpio_def converter_codes
          adc_set_samples_per_frame_def adc_set_bytes_per_sample_def dma_passthrough_set_buf_length_def
          dma_passthrough_set_sample_size_bytes_def pass_upd_def adc_get_samples_per_frame_def
          adc_get_bytes_per_sample_def adc_inv_def in_step_def adc_at_def pass_at_def Let_def)
    show ?thesis using True fail ok g by simp
  qed
qed

text \<open>A device that answers at once, for concrete runs.\<close>

definition quick :: "bool \<Rightarrow> unit driver" where
  "quick found = \<lparr>x_lookup = \<lambda>_. found, x_cfg_init = \<lambda>m. (0, m), x_has_sg = \<lambda>_. False, x_do = \<lambda>_ m. m,
     x_done = \<lambda>m. (True, m), x_transfer = \<lambda>_ _ _ m. (0, m), x_busy = \<lambda>_ m. (False, m), x_sr = \<lambda>_ _. 0,
     x_err_mask = 0x4000, g_init = \<lambda>_ m. (0, m), f_read = \<lambda>_ m. (\<lambda>_. 0, m)\<rparr>"

definition sys0 :: "nat option list \<Rightarrow> unit sys" where
  "sys0 as = \<lparr>mach = (\<lambda>_. 0, ()), blocks = \<lambda>_. None, mallocs = as, trace = [], out = []\<rparr>"

theorem adc_create_memory_witness:
  "\<exists>s'. adc_create (quick False) 0 0 4 (sys0 [Some 16, Some 32]) = Inr (None, s') \<and> blocks s' = [16 \<mapsto> Fresh]"
proof -
  let ?s = "(sys0 [Some 16, Some 32])\<lparr>mallocs := [], blocks := (blocks (sys0 [Some 16, Some 32]))(16 \<mapsto> Fresh, 32 \<mapsto> Fresh)\<rparr>"
  have "\<exists>s1. init_dma (quick False) 0 ?s = Inr (- 1, s1)"
    by (simp add: init_dma_def quick_def passthrough_codes Let_def)
  then obtain s1 where "init_dma (quick False) 0 ?s = Inr (- 1, s1)" by blast
  then show ?thesis
    using adc_create_memory [of "sys0 [Some 16, Some 32]" 16 32 "[]" "quick False" 0 "- 1" s1 0 4]
    by (auto simp: sys0_def fun_upd_idem)
qed

definition adc_sys :: "unit sys" where
  "adc_sys = (sys0 [])\<lparr>blocks := [16 \<mapsto> Adc \<lparr>p_dma_passthrough_inst = 32, samples_per_frame = 128, bytes_per_sample = 4\<rparr>,
      32 \<mapsto> Pass \<lparr>p_rcv_buf = 0, p_snd_buf = 0, buf_length = 128, sample_size_bytes = 4\<rparr>]\<rparr>"

theorem adc_frame_size_witness:
  "\<exists>s'. adc_set_samples_per_frame 16 64 adc_sys = Inr s' \<and> adc_inv 16 s' \<and> adc_get_samples_per_frame 16 s' = Inr 64"
  using adc_frame_size [of 16 adc_sys "\<lparr>p_dma_passthrough_inst = 32, samples_per_frame = 128, bytes_per_sample = 4\<rparr>" 64]
  by (simp add: adc_inv_def in_step_def adc_at_def pass_at_def adc_sys_def)

end
