(* ===== verification/Hello.thy ===== *)
theory Hello
  imports AdcDac
begin

text \<open>
  The demonstration \<^verbatim>\<open>apps/dma/sw/helloworld.c\<close>: frames from the analog to digital converter are
  doubled, sent to the digital to analog converter and compared with what a FIFO on the way has
  seen. An array of integers at an address has its elements four bytes apart.
\<close>

definition SAMPLES_PER_FRAME :: int where "SAMPLES_PER_FRAME = 128"
definition DATA_CORRECT :: int where "DATA_CORRECT = 0"
definition DATA_INCORRECT :: int where "DATA_INCORRECT = - 1"

section \<open>One frame\<close>

function process_from :: "int \<Rightarrow> int \<Rightarrow> nat \<Rightarrow> nat \<Rightarrow> (nat \<Rightarrow> int) \<Rightarrow> (nat \<Rightarrow> int) res" where
  "process_from ii n dst src ram =
     (if ii < n then
        bindE (cmul (ram (src + 4 * nat ii)) 2) (\<lambda>v.
        process_from (ii + 1) n dst src (ram(dst + 4 * nat ii := v)))
      else Inr ram)"
  by pat_completeness auto
termination by (relation "measure (\<lambda>(ii, n, _). nat (n - ii))") auto

declare process_from.simps [simp del]

definition process_data :: "int \<Rightarrow> nat \<Rightarrow> nat \<Rightarrow> (nat \<Rightarrow> int) \<Rightarrow> (nat \<Rightarrow> int) res" where
  "process_data n dst src ram = process_from 0 n dst src ram"

text \<open>The value expected for sample \<open>ii\<close> of frame \<open>frm_idx\<close>.\<close>

definition ideal_sample :: "int \<Rightarrow> int \<Rightarrow> int res" where
  "ideal_sample frm_idx ii =
     bindE (cmul frm_idx SAMPLES_PER_FRAME) (\<lambda>a. bindE (cadd a ii) (\<lambda>b. cmul b 2))"

function verify_from :: "int \<Rightarrow> int \<Rightarrow> (nat \<Rightarrow> int) \<Rightarrow> 'w sys \<Rightarrow> (int \<times> 'w sys) res" where
  "verify_from ii frm_idx fifo_frame s =
     (if ii < SAMPLES_PER_FRAME then
        bindE (ideal_sample frm_idx ii) (\<lambda>ideal.
        if fifo_frame (nat ii) \<noteq> ideal then
          Inr (DATA_INCORRECT,
               say (''ERROR! Data mismatch on sample '' @ show_int ii @ '' of frame '' @ show_int frm_idx
                    @ ''. Expected '' @ show_int ideal @ '' but received '' @ show_int (fifo_frame (nat ii)) @ ''.'') s)
        else verify_from (ii + 1) frm_idx fifo_frame s)
      else Inr (DATA_CORRECT, s))"
  by pat_completeness auto
termination by (relation "measure (\<lambda>(ii, _). nat (SAMPLES_PER_FRAME - ii))") auto

declare verify_from.simps [simp del]

text \<open>\<open>fifo_frame\<close> is a local array at address \<open>a\<close>; the library fills it.\<close>

definition verify_data :: "'w driver \<Rightarrow> nat \<Rightarrow> int \<Rightarrow> 'w sys \<Rightarrow> (int \<times> 'w sys) res" where
  "verify_data D a frm_idx s =
     (let s = command D (Flush a (SAMPLES_PER_FRAME * 4)) s;
          (frame, m) = f_read D (SAMPLES_PER_FRAME * 4) (mach s);
          s = did (FifoRead (SAMPLES_PER_FRAME * 4)) m s
      in verify_from 0 frm_idx frame s)"

section \<open>The program\<close>

text \<open>The addresses of the three local arrays, and the device numbers of the board.\<close>

record board =
  rcv_buf :: nat
  snd_buf :: nat
  fifo_buf :: nat
  gpio_id :: int
  dma_id :: int

text \<open>One round up to the wait for a key: \<open>Some v\<close> when \<^verbatim>\<open>main\<close> returns \<open>v\<close>.\<close>

definition hello_round :: "'w driver \<Rightarrow> board \<Rightarrow> nat \<Rightarrow> nat \<Rightarrow> int \<Rightarrow> 'w sys \<Rightarrow> (int option \<times> 'w sys) res" where
  "hello_round D B adc dac ii s =
     bindE (adc_get_frame D adc (rcv_buf B) s) (\<lambda>(status, s).
     if status \<noteq> ADC_SUCCESS then
       Inr (Some (- 1), say ''ERROR! Failed to get a new frame of data from the ADC.'' s)
     else
       bindE (process_data SAMPLES_PER_FRAME (snd_buf B) (rcv_buf B) (fst (mach s))) (\<lambda>ram.
       bindE (dac_send_frame D dac (snd_buf B) (s\<lparr>mach := (ram, snd (mach s))\<rparr>)) (\<lambda>(status, s).
       if status \<noteq> DAC_SUCCESS then
         Inr (Some (- 1), say ''ERROR! Failed to send the processed data frame out to the DAC.'' s)
       else
         bindE (verify_data D (fifo_buf B) ii s) (\<lambda>(status, s).
         if status \<noteq> DATA_CORRECT then Inr (Some (- 1), say ''ERROR! Data incorrect.'' s)
         else Inr (None, say (''Frame '' @ show_int ii
                @ '' completed without errors. Press any key to process the next frame of data.'') s)))))"

text \<open>The keys pressed so far; the loop has no other end than an error.\<close>

fun hello_loop :: "'w driver \<Rightarrow> board \<Rightarrow> nat \<Rightarrow> nat \<Rightarrow> char list \<Rightarrow> int \<Rightarrow> 'w sys \<Rightarrow> (int \<times> 'w sys) res" where
  "hello_loop D B adc dac [] ii s =
     bindE (hello_round D B adc dac ii s) (\<lambda>(r, s). case r of Some v \<Rightarrow> Inr (v, s) | None \<Rightarrow> Inl Blocked)"
| "hello_loop D B adc dac (key # keys) ii s =
     bindE (hello_round D B adc dac ii s) (\<lambda>(r, s).
     case r of Some v \<Rightarrow> Inr (v, s)
     | None \<Rightarrow> bindE (cadd ii 1) (\<lambda>ii. hello_loop D B adc dac keys ii s))"

definition zeroed :: "nat \<Rightarrow> (nat \<Rightarrow> int) \<Rightarrow> nat \<Rightarrow> int" where
  "zeroed a ram = (\<lambda>x. if a \<le> x \<and> x < a + 512 then 0 else ram x)"

definition hello_main :: "'w driver \<Rightarrow> board \<Rightarrow> char list \<Rightarrow> 'w sys \<Rightarrow> (int \<times> 'w sys) res" where
  "hello_main D B keys s =
     (let s = command D FifoInit (say ''Hello World!'' s)
      in bindE (adc_create D (gpio_id B) (dma_id B) 4 s) (\<lambda>(adc, s).
         case adc of None \<Rightarrow> Inr (- 1, say ''ERROR! Failed to create ADC instance.'' s)
         | Some adc \<Rightarrow>
           bindE (dac_create D (gpio_id B) (dma_id B) 4 s) (\<lambda>(dac, s).
           case dac of None \<Rightarrow> Inr (- 1, say ''ERROR! Failed to create DAC instance.'' s)
           | Some dac \<Rightarrow>
             bindE (adc_set_bytes_per_sample adc 4 s) (\<lambda>s.
             bindE (dac_set_bytes_per_sample dac 4 s) (\<lambda>s.
             bindE (adc_set_samples_per_frame adc SAMPLES_PER_FRAME s) (\<lambda>s.
             bindE (dac_set_samples_per_frame dac SAMPLES_PER_FRAME s) (\<lambda>s.
             let s = s\<lparr>mach := (zeroed (snd_buf B) (zeroed (rcv_buf B) (fst (mach s))), snd (mach s))\<rparr>
             in bindE (adc_enable D adc s) (\<lambda>s.
                bindE (dac_enable dac s) (\<lambda>s.
                hello_loop D B adc dac keys 0 (say ''Starting data processing...'' s))))))))))"

section \<open>Doubling and checking agree\<close>

lemma process_from_frame:
  assumes "0 \<le> ii" and "ii \<le> n"
    and "\<forall>i. ii \<le> i \<and> i < n \<longrightarrow> in_i32 (ram (src + 4 * nat i) * 2)"
    and apart: "\<forall>i j. 0 \<le> i \<and> i < n \<and> 0 \<le> j \<and> j < n \<longrightarrow> dst + 4 * nat i \<noteq> src + 4 * nat j"
  shows "\<exists>ram'. process_from ii n dst src ram = Inr ram'
    \<and> (\<forall>i. ii \<le> i \<and> i < n \<longrightarrow> ram' (dst + 4 * nat i) = ram (src + 4 * nat i) * 2)
    \<and> (\<forall>a. (\<forall>i. ii \<le> i \<and> i < n \<longrightarrow> a \<noteq> dst + 4 * nat i) \<longrightarrow> ram' a = ram a)"
  using assms(1-3)
proof (induction "nat (n - ii)" arbitrary: ii ram)
  case 0
  then show ?case by (subst process_from.simps) simp
next
  case (Suc k)
  define ram1 where "ram1 = ram(dst + 4 * nat ii := ram (src + 4 * nat ii) * 2)"
  have lt: "ii < n" using Suc.hyps(2) by simp
  have step: "process_from ii n dst src ram = process_from (ii + 1) n dst src ram1"
    using lt Suc.prems(3) Suc.prems(1) by (subst process_from.simps) (simp add: cmul_def ram1_def)
  have src: "ram1 (src + 4 * nat i) = ram (src + 4 * nat i)" if "0 \<le> i" "i < n" for i
  proof -
    have "dst + 4 * nat ii \<noteq> src + 4 * nat i" using apart that lt Suc.prems(1) by blast
    then show ?thesis by (simp add: ram1_def)
  qed
  have "\<exists>ram'. process_from (ii + 1) n dst src ram1 = Inr ram'
      \<and> (\<forall>i. ii + 1 \<le> i \<and> i < n \<longrightarrow> ram' (dst + 4 * nat i) = ram1 (src + 4 * nat i) * 2)
      \<and> (\<forall>a. (\<forall>i. ii + 1 \<le> i \<and> i < n \<longrightarrow> a \<noteq> dst + 4 * nat i) \<longrightarrow> ram' a = ram1 a)"
    by (rule Suc.hyps(1)) (use Suc.hyps(2) Suc.prems lt src in auto)
  then obtain ram' where r: "process_from (ii + 1) n dst src ram1 = Inr ram'"
    "\<forall>i. ii + 1 \<le> i \<and> i < n \<longrightarrow> ram' (dst + 4 * nat i) = ram1 (src + 4 * nat i) * 2"
    "\<forall>a. (\<forall>i. ii + 1 \<le> i \<and> i < n \<longrightarrow> a \<noteq> dst + 4 * nat i) \<longrightarrow> ram' a = ram1 a"
    by blast
  have "ram' (dst + 4 * nat i) = ram (src + 4 * nat i) * 2" if i: "ii \<le> i" "i < n" for i
  proof (cases "i = ii")
    case True
    have "dst + 4 * nat ii \<noteq> dst + 4 * nat i" if "ii + 1 \<le> i" for i
      using that Suc.prems(1) by simp
    then have "ram' (dst + 4 * nat ii) = ram1 (dst + 4 * nat ii)" using r(3) by blast
    then show ?thesis using True by (simp add: ram1_def)
  next
    case False
    then show ?thesis using r(2) src i Suc.prems(1) by auto
  qed
  moreover have "ram' a = ram a" if "\<forall>i. ii \<le> i \<and> i < n \<longrightarrow> a \<noteq> dst + 4 * nat i" for a
  proof -
    have "a \<noteq> dst + 4 * nat ii" using that lt by blast
    then show ?thesis using r(3) that by (simp add: ram1_def)
  qed
  ultimately show ?case using step r(1) by auto
qed

lemma ideal_sample_val:
  assumes "0 \<le> frm" and "frm < 8388608" and "0 \<le> ii" and "ii < 128"
  shows "ideal_sample frm ii = Inr ((frm * 128 + ii) * 2)"
proof -
  have "0 \<le> frm * 128" "frm * 128 + ii < 1073741824" using assms by linarith+
  then show ?thesis
    using assms by (simp add: ideal_sample_def SAMPLES_PER_FRAME_def cmul_def cadd_def in_i32_iff)
qed

lemma verify_from_ok:
  assumes "0 \<le> frm" and "frm < 8388608" and "0 \<le> ii" and "ii \<le> 128"
  shows "\<exists>r s'. verify_from ii frm frame s = Inr (r, s')
    \<and> (r = DATA_CORRECT \<longleftrightarrow> (\<forall>i. ii \<le> i \<and> i < 128 \<longrightarrow> frame (nat i) = (frm * 128 + i) * 2))"
  using assms(3,4)
proof (induction "nat (128 - ii)" arbitrary: ii)
  case 0
  then show ?case by (subst verify_from.simps) (simp add: SAMPLES_PER_FRAME_def)
next
  case (Suc k)
  then have lt: "ii < 128" by simp
  have val: "ideal_sample frm ii = Inr ((frm * 128 + ii) * 2)"
    using assms(1,2) Suc.prems lt by (intro ideal_sample_val) simp_all
  show ?case
  proof (cases "frame (nat ii) = (frm * 128 + ii) * 2")
    case False
    then show ?thesis
      using lt val by (subst verify_from.simps) (auto simp: SAMPLES_PER_FRAME_def DATA_CORRECT_def DATA_INCORRECT_def)
  next
    case True
    have "\<exists>r s'. verify_from (ii + 1) frm frame s = Inr (r, s')
        \<and> (r = DATA_CORRECT \<longleftrightarrow> (\<forall>i. ii + 1 \<le> i \<and> i < 128 \<longrightarrow> frame (nat i) = (frm * 128 + i) * 2))"
      by (rule Suc.hyps(1)) (use Suc.hyps(2) Suc.prems lt in auto)
    moreover have "(\<forall>i. ii \<le> i \<and> i < 128 \<longrightarrow> frame (nat i) = (frm * 128 + i) * 2)
        \<longleftrightarrow> (\<forall>i. ii + 1 \<le> i \<and> i < 128 \<longrightarrow> frame (nat i) = (frm * 128 + i) * 2)"
      using True by (metis add_le_same_cancel1 le_less zless_imp_add1_zle add1_zle_eq)
    ultimately show ?thesis
      using lt val True by (subst verify_from.simps) (simp add: SAMPLES_PER_FRAME_def)
  qed
qed

text \<open>
  The check accepts what the processing produces. When the frame fetched is the running count of
  samples, as the emulated converter delivers it, doubling it and comparing the result finds no
  difference, for the first 8388608 frames and wherever the two buffers lie, as long as they do not
  overlap; in the frame after these the comparison itself overflows.
\<close>

theorem process_verify_agree:
  assumes "0 \<le> frm" and "frm < 8388608"
    and "\<forall>i. 0 \<le> i \<and> i < 128 \<longrightarrow> ram (src + 4 * nat i) = frm * 128 + i"
    and "dst + 512 \<le> src \<or> src + 512 \<le> dst"
  shows "(\<exists>ram'. process_data SAMPLES_PER_FRAME dst src ram = Inr ram'
      \<and> (\<exists>s'. verify_from 0 frm (\<lambda>i. ram' (dst + 4 * i)) s = Inr (DATA_CORRECT, s'))
      \<and> (\<forall>a. a < dst \<or> dst + 512 \<le> a \<longrightarrow> ram' a = ram a))
    \<and> verify_from 0 8388608 frame s = Inl SignedOverflow"
proof -
  have apart: "\<forall>i j. 0 \<le> i \<and> i < 128 \<and> 0 \<le> j \<and> j < (128 :: int) \<longrightarrow> dst + 4 * nat i \<noteq> src + 4 * nat j"
  proof (intro allI impI)
    fix i j :: int assume "0 \<le> i \<and> i < 128 \<and> 0 \<le> j \<and> j < 128"
    then have "nat i < 128" by (simp add: nat_less_iff)
    moreover have "nat j < 128" using \<open>0 \<le> i \<and> i < 128 \<and> 0 \<le> j \<and> j < 128\<close> by (simp add: nat_less_iff)
    ultimately show "dst + 4 * nat i \<noteq> src + 4 * nat j" using assms(4) by linarith
  qed
  have small: "\<forall>i. 0 \<le> i \<and> i < 128 \<longrightarrow> in_i32 (ram (src + 4 * nat i) * 2)"
  proof (intro allI impI)
    fix i :: int assume i: "0 \<le> i \<and> i < 128"
    then have "0 \<le> frm * 128 + i" "frm * 128 + i < 1073741824" using assms(1,2) by linarith+
    then show "in_i32 (ram (src + 4 * nat i) * 2)" using assms(3) i by (simp add: in_i32_iff)
  qed
  obtain ram' where r: "process_from 0 128 dst src ram = Inr ram'"
    "\<forall>i. 0 \<le> i \<and> i < 128 \<longrightarrow> ram' (dst + 4 * nat i) = ram (src + 4 * nat i) * 2"
    "\<forall>a. (\<forall>i. 0 \<le> i \<and> i < (128 :: int) \<longrightarrow> a \<noteq> dst + 4 * nat i) \<longrightarrow> ram' a = ram a"
    using process_from_frame [of 0 128 ram src dst] small apart by auto
  obtain v s' where v: "verify_from 0 frm (\<lambda>i. ram' (dst + 4 * i)) s = Inr (v, s')"
    "v = DATA_CORRECT \<longleftrightarrow> (\<forall>i. 0 \<le> i \<and> i < 128 \<longrightarrow> ram' (dst + 4 * nat i) = (frm * 128 + i) * 2)"
    using verify_from_ok [OF assms(1,2), of 0 "\<lambda>i. ram' (dst + 4 * i)" s] by auto
  have "v = DATA_CORRECT" using v(2) r(2) assms(3) by simp
  moreover have "ram' a = ram a" if "a < dst \<or> dst + 512 \<le> a" for a
  proof -
    have "a \<noteq> dst + 4 * nat i" if "0 \<le> i \<and> i < (128 :: int)" for i
    proof -
      have "nat i < 128" using that by (simp add: nat_less_iff)
      then show ?thesis using \<open>a < dst \<or> dst + 512 \<le> a\<close> by linarith
    qed
    then show ?thesis using r(3) by blast
  qed
  moreover have "verify_from 0 8388608 frame s = Inl SignedOverflow"
    by (subst verify_from.simps) (simp add: SAMPLES_PER_FRAME_def ideal_sample_def cmul_def cadd_def ck32_def in_i32_iff)
  ultimately show ?thesis using r(1) v(1) by (auto simp: process_data_def SAMPLES_PER_FRAME_def)
qed

theorem process_verify_agree_witness:
  "\<exists>ram'. process_data SAMPLES_PER_FRAME 1000 2000 (\<lambda>a. (int a - 2000) div 4) = Inr ram'
    \<and> (\<exists>s'. verify_from 0 0 (\<lambda>i. ram' (1000 + 4 * i)) (sys0 []) = Inr (DATA_CORRECT, s'))"
  using process_verify_agree [of 0 "\<lambda>a. (int a - 2000) div 4" 2000 1000 "sys0 []" "\<lambda>_. 0"] by auto

section \<open>The program only ever fails\<close>

lemma hello_round_result: "hello_round D B adc dac ii s = Inr (Some v, s') \<Longrightarrow> v = - 1"
  by (auto simp: hello_round_def res_simps split: if_splits)

lemma hello_loop_result: "hello_loop D B adc dac keys ii s = Inr (v, s') \<Longrightarrow> v = - 1"
proof (induction keys arbitrary: ii s)
  case Nil
  then show ?case by (auto simp: res_simps dest: hello_round_result split: option.splits)
next
  case (Cons key keys)
  then show ?case by (auto simp: res_simps dest: hello_round_result split: option.splits)
qed

text \<open>
  The program has no successful end: whatever the devices answer and whichever keys are pressed,
  when \<^verbatim>\<open>main\<close> returns it returns -1, so that the code after the loop, which frees the two objects,
  is never reached.
\<close>

theorem hello_never_succeeds:
  assumes "hello_main D B keys s = Inr (v, s')"
  shows "v = - 1"
  using assms
  by (auto simp: hello_main_def res_simps Let_def dest: hello_loop_result split: option.splits)

theorem hello_never_succeeds_witness:
  "\<exists>v s'. hello_main (quick True) \<lparr>rcv_buf = 1000, snd_buf = 2000, fifo_buf = 3000, gpio_id = 0, dma_id = 0\<rparr>
     [] (sys0 []) = Inr (v, s') \<and> v = - 1"
proof -
  have "\<exists>v s'. hello_main (quick True) \<lparr>rcv_buf = 1000, snd_buf = 2000, fifo_buf = 3000, gpio_id = 0, dma_id = 0\<rparr>
      [] (sys0 []) = Inr (v, s')"
    by (simp add: hello_main_def adc_create_def malloc_def sys0_def command_def did_def say_def Let_def)
  then show ?thesis using hello_never_succeeds by metis
qed

end
