(* ===== verification/MyHandle.thy ===== *)
theory MyHandle
  imports CStrings
begin

unbundle bit_operations_syntax

text \<open>
  The character device \<^verbatim>\<open>drivers/myhandle/myhandle.c\<close>: a message buffer written by one call and read
  by another one that sleeps until the timer of the programmable logic interrupts, the interrupt
  handler, and loading and unloading. The answers of the kernel are arguments; which kernel objects
  exist is part of the state.
\<close>

section \<open>Constants and state\<close>

definition IRQ_NUM :: int where "IRQ_NUM = 168"
definition XIL_AXI_TIMER_TCSR_OFFSET :: nat where "XIL_AXI_TIMER_TCSR_OFFSET = 0"
definition XIL_AXI_TIMER_TLR_OFFSET :: nat where "XIL_AXI_TIMER_TLR_OFFSET = 4"
definition XIL_AXI_TIMER_TCR_OFFSET :: nat where "XIL_AXI_TIMER_TCR_OFFSET = 8"
definition XIL_AXI_TIMER_CSR_INT_OCCURED_MASK :: u32 where "XIL_AXI_TIMER_CSR_INT_OCCURED_MASK = 0x100"
definition XIL_AXI_TIMER_CSR_ENABLE_TMR_MASK :: u32 where "XIL_AXI_TIMER_CSR_ENABLE_TMR_MASK = 0x80"
definition XIL_AXI_TIMER_CSR_ENABLE_INT_MASK :: u32 where "XIL_AXI_TIMER_CSR_ENABLE_INT_MASK = 0x40"
definition XIL_AXI_TIMER_CSR_LOAD_MASK :: u32 where "XIL_AXI_TIMER_CSR_LOAD_MASK = 0x20"
definition XIL_AXI_TIMER_CSR_AUTO_RELOAD_MASK :: u32 where "XIL_AXI_TIMER_CSR_AUTO_RELOAD_MASK = 0x10"
definition TIMER_CNT :: u32 where "TIMER_CNT = 0xF8000000"

lemmas timer_consts = XIL_AXI_TIMER_TCSR_OFFSET_def XIL_AXI_TIMER_TLR_OFFSET_def XIL_AXI_TIMER_TCR_OFFSET_def
  XIL_AXI_TIMER_CSR_INT_OCCURED_MASK_def XIL_AXI_TIMER_CSR_ENABLE_TMR_MASK_def
  XIL_AXI_TIMER_CSR_ENABLE_INT_MASK_def XIL_AXI_TIMER_CSR_LOAD_MASK_def
  XIL_AXI_TIMER_CSR_AUTO_RELOAD_MASK_def TIMER_CNT_def

text \<open>What the kernel holds for the module.\<close>

record objects =
  o_chrdev :: bool
  o_class :: bool
  o_device :: bool
  o_irq :: bool
  o_platform :: bool

text \<open>\<open>x\<close> wakes the reader; \<open>timer\<close> are the registers, \<open>virt\<close> says whether they are mapped.\<close>

record handle =
  majorNumber :: int
  message :: string
  size_of_message :: int
  numberOpens :: int
  x_flag :: int
  int_cnt :: int
  virt :: bool
  timer :: "nat \<Rightarrow> u32"
  objs :: objects
  messages :: "string list"

definition note_msg :: "string \<Rightarrow> handle \<Rightarrow> handle" where
  "note_msg l s = s\<lparr>messages := messages s @ [l]\<rparr>"

definition ioread32 :: "nat \<Rightarrow> handle \<Rightarrow> u32 res" where
  "ioread32 off s = (if virt s then Inr (timer s off) else Inl NullDeref)"

definition iowrite32 :: "u32 \<Rightarrow> nat \<Rightarrow> handle \<Rightarrow> handle res" where
  "iowrite32 v off s = (if virt s then Inr (s\<lparr>timer := (timer s)(off := v)\<rparr>) else Inl NullDeref)"

text \<open>\<^verbatim>\<open>%08X\<close>.\<close>

definition hex08 :: "u32 \<Rightarrow> string" where
  "hex08 v =
     (let h = map (\<lambda>c. if 97 \<le> (of_char c :: nat) then char_of (of_char c - 32 :: nat) else c) (show_hex (unat v))
      in replicate (8 - length h) CHR ''0'' @ h)"

definition timer_msg :: "string \<Rightarrow> u32 \<Rightarrow> string" where
  "timer_msg l v = l @ hex08 v"

definition quoted_device :: string where
  "quoted_device = [CHR 0x22] @ ''gpioint'' @ [CHR 0x22]"

section \<open>Interrupts and files\<close>

definition xilaxitimer_isr :: "handle \<Rightarrow> handle res" where
  "xilaxitimer_isr s =
     (let s = note_msg ''Interrupt'' (s\<lparr>x_flag := 1\<rparr>)
      in bindE (ioread32 XIL_AXI_TIMER_TCR_OFFSET s) (\<lambda>data.
         let s = note_msg (timer_msg ''xilaxitimer_isr: Interrupt Occurred ! Timer Count = 0x'' data) s
         in bindE (ioread32 XIL_AXI_TIMER_TCSR_OFFSET s) (\<lambda>data.
         bindE (iowrite32 (data OR XIL_AXI_TIMER_CSR_INT_OCCURED_MASK) XIL_AXI_TIMER_TCSR_OFFSET s) (\<lambda>s.
         let s = s\<lparr>int_cnt := to_i32 (int_cnt s + 1)\<rparr>
         in if int_cnt s \<ge> 100 then
              bindE (ioread32 XIL_AXI_TIMER_TCSR_OFFSET s) (\<lambda>_.
              Inr (note_msg ''xilaxitimer_isr: 100 interrupts have been occurred. Disabling timer'' s))
            else Inr s))))"

definition gpio_open :: "handle \<Rightarrow> int \<times> handle" where
  "gpio_open s =
     (let s = s\<lparr>numberOpens := to_i32 (numberOpens s + 1)\<rparr>
      in (0, note_msg (''gpioChar: Device has been opened '' @ show_int (numberOpens s) @ '' time(s)'') s))"

text \<open>
  Reading: sleeps as long as the flag is zero. \<open>copy\<close> is \<^verbatim>\<open>copy_to_user\<close>, the number of bytes not
  copied. The result is the value, what was handed to \<^verbatim>\<open>copy_to_user\<close>, and the state; the length
  the reader asked for is not looked at.
\<close>

definition gpio_read :: "(string \<Rightarrow> int) \<Rightarrow> nat \<Rightarrow> handle \<Rightarrow> (int \<times> string \<times> handle) res" where
  "gpio_read copy len s =
     (if x_flag s = 0 then Inl Blocked
      else let s = s\<lparr>x_flag := 0\<rparr>; data = take (nat (size_of_message s)) (message s); error_count = copy data
      in if error_count = 0 then
           Inr (0, data, note_msg (''gpioChar: Sent '' @ show_int (size_of_message s) @ '' characters to the user'')
                           (s\<lparr>size_of_message := 0\<rparr>))
         else Inr (- 14, data, note_msg (''gpioChar: Failed to send '' @ show_int error_count @ '' characters to the user'') s))"

text \<open>Writing: \<^verbatim>\<open>sprintf\<close> into the 256 bytes of the message.\<close>

definition letters :: "string \<Rightarrow> nat \<Rightarrow> string" where
  "letters buffer len = buffer @ ''('' @ show_nat len @ '' letters)''"

definition gpio_write :: "string \<Rightarrow> nat \<Rightarrow> handle \<Rightarrow> (int \<times> handle) res" where
  "gpio_write buffer len s =
     (let m = letters buffer len
      in if 256 \<le> length m then Inl OutOfBounds
         else Inr (to_i32 (int len),
                note_msg (''gpioChar: Received '' @ show_nat len @ '' characters from the user'')
                  (s\<lparr>message := m, size_of_message := int (length m)\<rparr>)))"

definition gpio_release :: "handle \<Rightarrow> int \<times> handle" where
  "gpio_release s = (0, note_msg ''gpioChar: Device successfully closed'' s)"

section \<open>Loading and unloading\<close>

text \<open>The answers: the major number, errors of class and device, of the interrupt, the platform device.\<close>

record handle_env =
  he_major :: int
  he_class :: "int option"
  he_device :: "int option"
  he_irq :: int
  he_platform :: bool

definition set_objs :: "(objects \<Rightarrow> objects) \<Rightarrow> handle \<Rightarrow> handle" where
  "set_objs f s = s\<lparr>objs := f (objs s)\<rparr>"

definition start_timer :: "handle \<Rightarrow> handle res" where
  "start_timer s =
     bindE (ioread32 XIL_AXI_TIMER_TCSR_OFFSET s) (\<lambda>data.
     bindE (iowrite32 (data OR XIL_AXI_TIMER_CSR_ENABLE_TMR_MASK) XIL_AXI_TIMER_TCSR_OFFSET s) (\<lambda>s.
     Inr (note_msg (timer_msg ''xilaxitimer_init: data read 0x'' data) s)))"

definition setup_timer :: "handle \<Rightarrow> handle res" where
  "setup_timer s =
     bindE (iowrite32 TIMER_CNT XIL_AXI_TIMER_TLR_OFFSET s) (\<lambda>s.
     bindE (ioread32 XIL_AXI_TIMER_TLR_OFFSET s) (\<lambda>data.
     let s = note_msg (timer_msg ''xilaxitimer_init: Set timer count 0x'' data) s
     in bindE (iowrite32 XIL_AXI_TIMER_CSR_LOAD_MASK XIL_AXI_TIMER_TCSR_OFFSET s) (\<lambda>s.
        iowrite32 (XIL_AXI_TIMER_CSR_ENABLE_INT_MASK OR XIL_AXI_TIMER_CSR_AUTO_RELOAD_MASK)
          XIL_AXI_TIMER_TCSR_OFFSET s)))"

definition xilaxitimer_init :: "handle_env \<Rightarrow> handle \<Rightarrow> (int \<times> handle) res" where
  "xilaxitimer_init e s =
     (let s = (note_msg (''xilaxitimer_init: Initialize Module '' @ quoted_device) (s\<lparr>int_cnt := 0\<rparr>))\<lparr>majorNumber := he_major e\<rparr>
      in if he_major e < 0 then
           Inr (he_major e, note_msg ''gpioChar failed to register a major number'' s)
      else let s = set_objs (\<lambda>k. k\<lparr>o_chrdev := True\<rparr>)
                     (note_msg (''gpioChar: registered correctly with major number '' @ show_int (he_major e)) s)
      in case he_class e of
           Some err \<Rightarrow> Inr (err, note_msg ''Failed to register device class''
                                  (set_objs (\<lambda>k. k\<lparr>o_chrdev := False\<rparr>) s))
         | None \<Rightarrow>
             let s = set_objs (\<lambda>k. k\<lparr>o_class := True\<rparr>) (note_msg ''gpioChar: device class registered correctly'' s)
             in (case he_device e of
                   Some err \<Rightarrow> Inr (err, note_msg ''Failed to create the device''
                                          (set_objs (\<lambda>k. k\<lparr>o_class := False, o_chrdev := False\<rparr>) s))
                 | None \<Rightarrow>
                     let s = set_objs (\<lambda>k. k\<lparr>o_device := True\<rparr>)
                               (note_msg ''gpioChar: device class created correctly'' s)
                     in if he_irq e \<noteq> 0 then
                          Inr (- 5, note_msg (''xilaxitimer_init: Cannot register IRQ '' @ show_int IRQ_NUM) s)
                        else let s = set_objs (\<lambda>k. k\<lparr>o_irq := True\<rparr>)
                                       (note_msg (''xilaxitimer_init: Registered IRQ '' @ show_int IRQ_NUM) s)
                        in bindE (setup_timer (s\<lparr>virt := True\<rparr>)) (\<lambda>s.
                           if \<not> he_platform e then
                             Inr (- 19, note_msg (''xilaxitimer_init: Adding platform device '' @ quoted_device @ '' failed'') s)
                           else bindE (start_timer (set_objs (\<lambda>k. k\<lparr>o_platform := True\<rparr>) s)) (\<lambda>s. Inr (0, s)))))"

text \<open>Unregistering a class that is not registered any more uses memory already freed.\<close>

definition class_unregister :: "handle \<Rightarrow> handle res" where
  "class_unregister s =
     (if o_class (objs s) then Inr (set_objs (\<lambda>k. k\<lparr>o_class := False\<rparr>) s) else Inl UseAfterFree)"

definition xilaxitimer_exit :: "handle \<Rightarrow> handle res" where
  "xilaxitimer_exit s =
     (let s = set_objs (\<lambda>k. k\<lparr>o_device := False\<rparr>) s
      in bindE (class_unregister s) (\<lambda>s.
         bindE (class_unregister s) (\<lambda>s. \<comment> \<open>\<^verbatim>\<open>class_destroy\<close>\<close>
         Inr (note_msg (''xilaxitimer_edit: Exit Device Module '' @ quoted_device @ ''.'')
               (set_objs (\<lambda>k. k\<lparr>o_chrdev := False, o_irq := False, o_platform := False\<rparr>)
                 (note_msg ''gpioChar: Goodbye from the LKM!'' s)\<lparr>virt := False\<rparr>)))))"

section \<open>Message passing\<close>

lemma note_msg_sel [simp]:
  "message (note_msg l s) = message s" "size_of_message (note_msg l s) = size_of_message s"
  "x_flag (note_msg l s) = x_flag s" "timer (note_msg l s) = timer s" "virt (note_msg l s) = virt s"
  "objs (note_msg l s) = objs s" "int_cnt (note_msg l s) = int_cnt s" "numberOpens (note_msg l s) = numberOpens s"
  by (simp_all add: note_msg_def)

lemma isr_ok:
  assumes "virt s"
  shows "\<exists>s'. xilaxitimer_isr s = Inr s' \<and> x_flag s' = 1 \<and> message s' = message s
    \<and> size_of_message s' = size_of_message s \<and> virt s' \<and> int_cnt s' = to_i32 (int_cnt s + 1)
    \<and> timer s' = (timer s)(XIL_AXI_TIMER_TCSR_OFFSET :=
          timer s XIL_AXI_TIMER_TCSR_OFFSET OR XIL_AXI_TIMER_CSR_INT_OCCURED_MASK)"
  using assms by (simp add: xilaxitimer_isr_def ioread32_def iowrite32_def Let_def)

text \<open>
  A message arrives once: after a write that fits the buffer and the next interrupt, a read hands
  the text with the appended count to the reader, all of it whatever length was asked for, and
  returns zero; the read after the following interrupt hands over nothing. A text that does not fit
  together with the count overruns the buffer of the kernel.
\<close>

theorem write_then_read:
  assumes "virt s"
  shows "(length (letters buffer n) < 256 \<longrightarrow>
      (\<exists>r s1 s2 s3 s4 s5. gpio_write buffer n s = Inr (r, s1) \<and> xilaxitimer_isr s1 = Inr s2
        \<and> gpio_read (\<lambda>_. 0) len s2 = Inr (0, letters buffer n, s3)
        \<and> gpio_read (\<lambda>_. 0) len s3 = Inl Blocked
        \<and> xilaxitimer_isr s3 = Inr s4 \<and> gpio_read (\<lambda>_. 0) len s4 = Inr (0, [], s5)))
    \<and> (256 \<le> length (letters buffer n) \<longrightarrow> gpio_write buffer n s = Inl OutOfBounds)"
proof -
  have "\<exists>r s1 s2 s3 s4 s5. gpio_write buffer n s = Inr (r, s1) \<and> xilaxitimer_isr s1 = Inr s2
        \<and> gpio_read (\<lambda>_. 0) len s2 = Inr (0, letters buffer n, s3)
        \<and> gpio_read (\<lambda>_. 0) len s3 = Inl Blocked
        \<and> xilaxitimer_isr s3 = Inr s4 \<and> gpio_read (\<lambda>_. 0) len s4 = Inr (0, [], s5)"
    if fits: "length (letters buffer n) < 256"
  proof -
    obtain r s1 where s1: "gpio_write buffer n s = Inr (r, s1)" "virt s1" "message s1 = letters buffer n"
      "size_of_message s1 = int (length (letters buffer n))"
      using fits assms by (simp add: gpio_write_def Let_def)
    obtain s2 where s2: "xilaxitimer_isr s1 = Inr s2" "x_flag s2 = 1" "message s2 = letters buffer n"
      "size_of_message s2 = int (length (letters buffer n))" "virt s2"
      using isr_ok [OF s1(2)] s1 by auto
    obtain s3 where s3: "gpio_read (\<lambda>_. 0) len s2 = Inr (0, letters buffer n, s3)" "x_flag s3 = 0" "virt s3"
      "size_of_message s3 = 0"
      using s2 by (simp add: gpio_read_def Let_def)
    obtain s4 where s4: "xilaxitimer_isr s3 = Inr s4" "x_flag s4 = 1" "size_of_message s4 = 0"
      using isr_ok [OF s3(3)] s3 by auto
    have "gpio_read (\<lambda>_. 0) len s3 = Inl Blocked" using s3(2) by (simp add: gpio_read_def)
    moreover have "\<exists>s5. gpio_read (\<lambda>_. 0) len s4 = Inr (0, [], s5)"
      using s4(2,3) by (simp add: gpio_read_def Let_def)
    ultimately show ?thesis using s1(1) s2(1) s3(1) s4(1) by blast
  qed
  then show ?thesis by (simp add: gpio_write_def Let_def)
qed

section \<open>Readers and interrupts\<close>

text \<open>
  The device in use: the numbers of interrupts so far and of reads that got through, and the state.
  Each call is one step here; \<open>HandleRace\<close> has them in two.
\<close>

inductive gpio_step :: "nat \<times> nat \<times> handle \<Rightarrow> nat \<times> nat \<times> handle \<Rightarrow> bool" where
  opened: "gpio_open s = (r, s') \<Longrightarrow> gpio_step (i, n, s) (i, n, s')"
| written: "gpio_write buffer len s = Inr (r, s') \<Longrightarrow> gpio_step (i, n, s) (i, n, s')"
| interrupt: "xilaxitimer_isr s = Inr s' \<Longrightarrow> gpio_step (i, n, s) (i + 1, n, s')"
| is_read: "gpio_read copy len s = Inr (r, d, s') \<Longrightarrow> gpio_step (i, n, s) (i, n + 1, s')"
| closed: "gpio_release s = (r, s') \<Longrightarrow> gpio_step (i, n, s) (i, n, s')"

inductive_cases gpio_stepE [elim]: "gpio_step a b"

definition wake_inv :: "nat \<times> nat \<times> handle \<Rightarrow> bool" where
  "wake_inv c = (case c of (i, n, s) \<Rightarrow> n + (if x_flag s = 0 then 0 else 1) \<le> i
     \<and> 0 \<le> size_of_message s \<and> size_of_message s \<le> int (length (message s)) \<and> length (message s) < 256)"

lemma isr_keeps:
  "xilaxitimer_isr s = Inr s' \<Longrightarrow> x_flag s' = 1 \<and> message s' = message s \<and> size_of_message s' = size_of_message s"
  by (cases "virt s") (use isr_ok [of s] in \<open>auto simp: xilaxitimer_isr_def ioread32_def Let_def\<close>)

lemma gpio_step_inv: "gpio_step a b \<Longrightarrow> wake_inv a \<Longrightarrow> wake_inv b"
proof (induction rule: gpio_step.induct)
  case (interrupt s s' i n)
  then show ?case using isr_keeps [OF interrupt(1)] by (auto simp: wake_inv_def split: if_splits)
next
  case (is_read copy len s r d s' i n)
  then show ?case by (auto simp: wake_inv_def gpio_read_def Let_def split: if_splits)
qed (auto simp: wake_inv_def gpio_open_def gpio_write_def gpio_release_def Let_def split: if_splits)

text \<open>
  With one call at a time a reader never gets ahead of the interrupts: whatever the order of
  opening, writing, reading, closing and interrupts, at most as many reads have come back as there
  were interrupts, and the length of the message stays within the buffer.
\<close>

theorem reads_follow_interrupts:
  assumes "gpio_step\<^sup>*\<^sup>* (0, 0, s0) (i, n, s)" and "x_flag s0 = 0" and "size_of_message s0 = 0"
    and "length (message s0) < 256"
  shows "n \<le> i \<and> 0 \<le> size_of_message s \<and> size_of_message s < 256"
proof -
  have "wake_inv (0, 0, s0)" using assms(2-4) by (simp add: wake_inv_def)
  moreover have "wake_inv b" if "gpio_step\<^sup>*\<^sup>* a b" "wake_inv a" for a b
    using that by (induction rule: rtranclp_induct) (auto intro: gpio_step_inv)
  ultimately have "wake_inv (i, n, s)" using assms(1) by blast
  then show ?thesis by (simp add: wake_inv_def split: if_splits)
qed

definition handle0 :: handle where
  "handle0 = \<lparr>majorNumber = 0, message = [], size_of_message = 0, numberOpens = 0, x_flag = 0, int_cnt = 0,
     virt = False, timer = \<lambda>_. 0,
     objs = \<lparr>o_chrdev = False, o_class = False, o_device = False, o_irq = False, o_platform = False\<rparr>,
     messages = []\<rparr>"

theorem write_then_read_witness:
  "\<exists>r s1 s2 s3. gpio_write ''on'' 2 (handle0\<lparr>virt := True\<rparr>) = Inr (r, s1) \<and> xilaxitimer_isr s1 = Inr s2
    \<and> gpio_read (\<lambda>_. 0) 1 s2 = Inr (0, ''on(2 letters)'', s3)"
proof -
  have "letters ''on'' 2 = ''on(2 letters)''" by code_simp
  then show ?thesis using write_then_read [of "handle0\<lparr>virt := True\<rparr>" "''on''" 2 1] by auto
qed

theorem reads_follow_interrupts_witness:
  "\<exists>s. gpio_step\<^sup>*\<^sup>* (0, 0, handle0\<lparr>virt := True\<rparr>) (1, 1, s) \<and> (1 :: nat) \<le> 1 \<and> size_of_message s < 256"
proof -
  let ?s0 = "handle0\<lparr>virt := True\<rparr>"
  obtain s1 where s1: "xilaxitimer_isr ?s0 = Inr s1" "x_flag s1 = 1" using isr_ok [of ?s0] by auto
  obtain s2 where s2: "gpio_read (\<lambda>_. 0) 16 s1 = Inr (0, take (nat (size_of_message s1)) (message s1), s2)"
    using s1(2) by (simp add: gpio_read_def Let_def)
  have "gpio_step (0, 0, ?s0) (0 + 1, 0, s1)" using s1(1) by (rule gpio_step.interrupt)
  moreover have "gpio_step (0 + 1, 0, s1) (0 + 1, 0 + 1, s2)" using s2 by (rule gpio_step.is_read)
  ultimately have run: "gpio_step\<^sup>*\<^sup>* (0, 0, ?s0) (1, 1, s2)" by simp
  then show ?thesis using reads_follow_interrupts [OF run] by (auto simp: handle0_def)
qed

section \<open>Loading\<close>

text \<open>
  Loading and unloading, with every answer of the kernel: it succeeds exactly when all of them are
  good, and then the timer counts down from its start value with the interrupt on; when the
  interrupt is refused or the platform device fails, what was registered before stays; and
  unloading a module that was loaded releases its class twice.
\<close>

theorem load_and_unload:
  assumes "objs s = \<lparr>o_chrdev = False, o_class = False, o_device = False, o_irq = False, o_platform = False\<rparr>"
  shows "(0 \<le> he_major e \<and> he_class e = None \<and> he_device e = None \<and> he_irq e = 0 \<and> he_platform e
      \<longrightarrow> (\<exists>s'. xilaxitimer_init e s = Inr (0, s') \<and> timer s' XIL_AXI_TIMER_TLR_OFFSET = TIMER_CNT
        \<and> timer s' XIL_AXI_TIMER_TCSR_OFFSET = XIL_AXI_TIMER_CSR_ENABLE_TMR_MASK OR
            XIL_AXI_TIMER_CSR_ENABLE_INT_MASK OR XIL_AXI_TIMER_CSR_AUTO_RELOAD_MASK
        \<and> xilaxitimer_exit s' = Inl UseAfterFree))
    \<and> (0 \<le> he_major e \<and> (he_class e = Some err \<or> he_class e = None \<and> he_device e = Some err)
      \<longrightarrow> (\<exists>s'. xilaxitimer_init e s = Inr (err, s') \<and> objs s' = objs s))
    \<and> (0 \<le> he_major e \<and> he_class e = None \<and> he_device e = None \<and> he_irq e \<noteq> 0
      \<longrightarrow> (\<exists>s'. xilaxitimer_init e s = Inr (- 5, s') \<and> o_chrdev (objs s') \<and> o_class (objs s') \<and> o_device (objs s')))
    \<and> (0 \<le> he_major e \<and> he_class e = None \<and> he_device e = None \<and> he_irq e = 0 \<and> \<not> he_platform e
      \<longrightarrow> (\<exists>s'. xilaxitimer_init e s = Inr (- 19, s') \<and> o_irq (objs s') \<and> o_device (objs s')))"
proof -
  have or: "(0x40 OR 0x10) OR 0x80 = (0xD0 :: u32)" "0x80 OR 0x40 OR 0x10 = (0xD0 :: u32)" by simp_all
  show ?thesis
    using assms by (auto simp: xilaxitimer_init_def setup_timer_def start_timer_def ioread32_def iowrite32_def
        set_objs_def timer_consts xilaxitimer_exit_def class_unregister_def Let_def)
qed

theorem load_and_unload_witness:
  "\<exists>s'. xilaxitimer_init \<lparr>he_major = 250, he_class = None, he_device = None, he_irq = - 16, he_platform = True\<rparr> handle0
     = Inr (- 5, s') \<and> o_class (objs s')"
  using load_and_unload [of handle0 "\<lparr>he_major = 250, he_class = None, he_device = None, he_irq = - 16, he_platform = True\<rparr>" 0]
  by (auto simp: handle0_def)

text \<open>
  An interrupt in the middle of loading crashes: the handler is registered before the registers of
  the timer are mapped, and it reads them first thing.
\<close>

theorem early_interrupt:
  assumes "\<not> virt s"
  shows "xilaxitimer_isr s = Inl NullDeref"
  using assms by (simp add: xilaxitimer_isr_def ioread32_def Let_def)

theorem early_interrupt_witness: "xilaxitimer_isr handle0 = Inl NullDeref"
  by (rule early_interrupt) (simp add: handle0_def)

end
