(* ===== verification/Streaming.thy ===== *)
theory Streaming
  imports CStrings
begin

unbundle bit_operations_syntax

text \<open>
  The two streaming programs, \<^verbatim>\<open>adc_test/server/adc-test-server.c\<close>, which sends the samples to a TCP
  client, and \<^verbatim>\<open>dac_player/adc-recorder.c\<close>, which writes them to a file. Both fork: the child copies
  the half of the sample memory that the hardware is not writing to a shared buffer and puts a token
  into a pipe; the parent takes a token and passes half the buffer on, the two halves in turn. The
  two processes and the hardware are interleaved step by step, the copies and the transfers byte
  by byte. The last four fields of the state only record what happened.
\<close>

section \<open>State\<close>

text \<open>The size of a half in bytes, and of half the memory in the units of the position register.\<close>

definition HALF :: nat where "HALF = 4096 * 1024"
definition HALF_POS :: int where "HALF_POS = 512 * 1024"

datatype child = Poll | Copying nat nat | Token

datatype parent = Outer | Listening | Head | Await nat | Sending nat nat | Hangup | Stopped

record duplex =
  d_limit :: int
  d_child :: child
  d_alive :: bool
  d_parent :: parent
  d_pipe :: nat
  d_cfg :: "nat \<Rightarrow> u32"
  d_position :: u32
  d_ram :: "nat \<Rightarrow> u8"
  d_buf :: "nat \<Rightarrow> u8"
  d_file :: bool
  d_handler :: bool
  d_interrupted :: bool
  d_result :: "int option"
  d_out :: "string list"
  d_copied :: "u8 list"
  d_sent :: "u8 list"
  d_read :: nat
  d_base :: nat

text \<open>What a system call of the parent does next: passes on a byte, returns, or fails.\<close>

datatype event = Go | Byte | Return | Fails

definition d_say :: "string \<Rightarrow> duplex \<Rightarrow> duplex" where
  "d_say l s = s\<lparr>d_out := d_out s @ [l]\<rparr>"

definition set_cfg :: "nat \<Rightarrow> u32 \<Rightarrow> duplex \<Rightarrow> duplex" where
  "set_cfg a v s = s\<lparr>d_cfg := (d_cfg s)(a := v)\<rparr>"

section \<open>The child\<close>

text \<open>Whether a half is ready: the position is compared as an \<^verbatim>\<open>int\<close>.\<close>

definition half_ready :: "int \<Rightarrow> int \<Rightarrow> bool" where
  "half_ready limit position \<longleftrightarrow> (limit > 0 \<and> position > limit) \<or> (limit = 0 \<and> position < HALF_POS)"

text \<open>
  A step of the child: polling (not being ready, it sleeps and polls again), copying a byte, writing
  the token, which blocks as long as the pipe is full; \<open>cap\<close> is the number of tokens the pipe holds.
\<close>

definition child_step :: "nat \<Rightarrow> duplex \<Rightarrow> duplex option" where
  "child_step cap s =
     (case d_child s of
        Poll \<Rightarrow>
          if half_ready (d_limit s) (sint (d_position s))
          then Some (s\<lparr>d_child := Copying (if d_limit s > 0 then 0 else HALF) 0,
                       d_limit := if d_limit s > 0 then 0 else HALF_POS\<rparr>)
          else Some s
      | Copying off k \<Rightarrow>
          if k < HALF
          then Some (s\<lparr>d_child := Copying off (k + 1), d_buf := (d_buf s)(off + k := d_ram s (off + k)),
                       d_copied := d_copied s @ [d_ram s (off + k)]\<rparr>)
          else Some (s\<lparr>d_child := Token\<rparr>)
      | Token \<Rightarrow>
          if d_pipe s < cap then Some (s\<lparr>d_child := Poll, d_pipe := d_pipe s + 1\<rparr>) else None)"

section \<open>The parents\<close>

text \<open>Waiting for a token, and then for the transfer of half the buffer.\<close>

definition take_token :: "nat \<Rightarrow> duplex \<Rightarrow> duplex option" where
  "take_token off s =
     (if d_pipe s > 0
      then Some (s\<lparr>d_pipe := d_pipe s - 1, d_read := d_read s + 1, d_parent := Sending off 0\<rparr>)
      else None)"

definition pass_byte :: "nat \<Rightarrow> nat \<Rightarrow> duplex \<Rightarrow> duplex option" where
  "pass_byte off k s =
     (if k < HALF
      then Some (s\<lparr>d_parent := Sending off (k + 1), d_sent := d_sent s @ [d_buf s (off + k)]\<rparr>)
      else None)"

definition after_half :: "nat \<Rightarrow> duplex \<Rightarrow> duplex" where
  "after_half off s = s\<lparr>d_parent := if off = 0 then Await HALF else Head\<rparr>"

text \<open>
  The server. A call of \<^verbatim>\<open>send\<close> that has passed on something may return early, one that has passed
  on nothing may fail, and then the client is given up.
\<close>

definition server_step :: "event \<Rightarrow> duplex \<Rightarrow> duplex option" where
  "server_step e s =
     (case d_parent s of
        Outer \<Rightarrow>
          if d_interrupted s
          then Some (set_cfg 0 (d_cfg s 0 AND NOT 15) s\<lparr>d_alive := False, d_result := Some 0, d_parent := Stopped\<rparr>)
          else Some (set_cfg 4 4 (set_cfg 0 (d_cfg s 0 AND NOT 15) s)\<lparr>d_parent := Listening\<rparr>)
      | Listening \<Rightarrow>
          if e = Fails then Some (d_say ''accept'' s\<lparr>d_result := Some 1, d_parent := Stopped\<rparr>)
          else if e = Return
          then Some (set_cfg 0 (d_cfg s 0 OR 15) (d_say ''new connection'' s)
                       \<lparr>d_handler := True, d_parent := Head, d_sent := [], d_base := d_read s\<rparr>)
          else None
      | Head \<Rightarrow> Some (s\<lparr>d_parent := if d_interrupted s then Hangup else Await 0\<rparr>)
      | Await off \<Rightarrow> take_token off s
      | Sending off k \<Rightarrow>
          (case e of
             Byte \<Rightarrow> pass_byte off k s
           | Return \<Rightarrow> if k > 0 then Some (after_half off s) else None
           | Fails \<Rightarrow> if k = 0 then Some (s\<lparr>d_parent := Hangup\<rparr>) else None
           | Go \<Rightarrow> None)
      | Hangup \<Rightarrow> Some (s\<lparr>d_handler := False, d_parent := Outer\<rparr>)
      | Stopped \<Rightarrow> None)"

text \<open>
  The recorder. \<^verbatim>\<open>fwrite\<close> returns an unsigned number, which is never negative, so that a file that
  takes no more data does not end the loop; a file that could not be opened is a null pointer, which
  ends the process.
\<close>

definition recorder_step :: "event \<Rightarrow> duplex \<Rightarrow> duplex option" where
  "recorder_step e s =
     (case d_parent s of
        Head \<Rightarrow> Some (s\<lparr>d_parent := if d_interrupted s then Hangup else Await 0\<rparr>)
      | Await off \<Rightarrow> take_token off s
      | Sending off k \<Rightarrow>
          if \<not> d_file s then Some (s\<lparr>d_parent := Stopped\<rparr>)
          else (case e of
             Byte \<Rightarrow> pass_byte off k s
           | Return \<Rightarrow> Some (after_half off s)
           | _ \<Rightarrow> None)
      | Hangup \<Rightarrow>
          Some (set_cfg 0 (d_cfg s 0 AND NOT 3) (s\<lparr>d_alive := False\<rparr>)\<lparr>d_result := Some 0, d_parent := Stopped\<rparr>)
      | _ \<Rightarrow> None)"

text \<open>The signal, delivered to the parent only: without the handler it ends the process.\<close>

definition sigint :: "duplex \<Rightarrow> duplex" where
  "sigint s = (if d_handler s then s\<lparr>d_interrupted := True\<rparr> else s\<lparr>d_parent := Stopped\<rparr>)"

section \<open>Starting up\<close>

text \<open>
  The answers of the calls at the start, \<open>st_file\<close> whether the file could be opened. The results of
  \<^verbatim>\<open>mmap\<close> and \<^verbatim>\<open>pipe\<close> are not checked by the programs; here they succeed.
\<close>

record start_env =
  st_open :: int
  st_fork :: int
  st_socket :: int
  st_bind :: int
  st_file :: bool

definition duplex0 :: "(nat \<Rightarrow> u32) \<Rightarrow> u32 \<Rightarrow> (nat \<Rightarrow> u8) \<Rightarrow> duplex" where
  "duplex0 cfg pos ram =
     \<lparr>d_limit = HALF_POS, d_child = Poll, d_alive = False, d_parent = Stopped, d_pipe = 0, d_cfg = cfg,
      d_position = pos, d_ram = ram, d_buf = \<lambda>_. 0, d_file = True, d_handler = False, d_interrupted = False,
      d_result = None, d_out = [], d_copied = [], d_sent = [], d_read = 0, d_base = 0\<rparr>"

text \<open>Both processes after the start of the server; the parent's result when it has ended already.\<close>

definition server_start :: "start_env \<Rightarrow> duplex \<Rightarrow> duplex" where
  "server_start e s =
     (if st_open e < 0 then d_say ''open'' s\<lparr>d_result := Some 1\<rparr>
      else if st_fork e < 0 then s\<lparr>d_result := Some 0\<rparr>
      else let s = s\<lparr>d_alive := True\<rparr>
      in if st_socket e < 0 then d_say ''socket'' s\<lparr>d_result := Some 1\<rparr>
      else if st_bind e < 0 then d_say ''bind'' s\<lparr>d_result := Some 1\<rparr>
      else s\<lparr>d_parent := Outer\<rparr>)"

text \<open>The decimation factor on the command line; \<^verbatim>\<open>-1\<close> without the two arguments.\<close>

definition recorder_number :: "string list \<Rightarrow> int" where
  "recorder_number argv = (if length argv = 3 then strtol (argv ! 1) 10 else - 1)"

definition recorder_usage :: "duplex \<Rightarrow> duplex" where
  "recorder_usage s =
     d_say ''file - output file.'' (d_say ''factor - ADC decimation factor (10 - 65535),''
       (d_say ''Usage: adc-recorder factor file'' s))\<lparr>d_result := Some 1\<rparr>"

text \<open>
  A file that cannot be opened is a null pointer, which is not less than zero: the program goes on.
  The factor is written to the lower half of the register.
\<close>

definition set_low16 :: "u32 \<Rightarrow> int \<Rightarrow> u32" where
  "set_low16 w v = (w AND NOT 0xFFFF) OR word_of_int (v mod 2 ^ 16)"

definition recorder_start :: "string list \<Rightarrow> start_env \<Rightarrow> duplex \<Rightarrow> duplex" where
  "recorder_start argv e s =
     (let number = recorder_number argv; s = s\<lparr>d_file := st_file e\<rparr>
      in if st_open e < 0 then d_say ''open'' s\<lparr>d_result := Some 1\<rparr>
      else if number < 10 \<or> number > 65535 then recorder_usage s
      else if st_fork e < 0 then s\<lparr>d_result := Some 0\<rparr>
      else
        let s = set_cfg 0 (d_cfg s 0 AND NOT 3) (s\<lparr>d_alive := True\<rparr>);
            s = set_cfg 4 (set_low16 (d_cfg s 4) (number mod 2 ^ 16 - 1)) s\<lparr>d_handler := True\<rparr>
        in set_cfg 0 (d_cfg s 0 OR 3) s\<lparr>d_parent := Head\<rparr>)"


section \<open>A consumer of the halves\<close>

text \<open>The half that token number \<open>t\<close> stands for.\<close>

definition half_of :: "nat \<Rightarrow> nat" where
  "half_of t = (if even t then 0 else HALF)"

lemma HALF_pos [simp]: "0 < HALF" "HALF \<noteq> 0" "0 \<noteq> HALF" by (simp_all add: HALF_def)

lemma HALF_POS_pos [simp]: "0 < HALF_POS" "HALF_POS \<noteq> 0" by (simp_all add: HALF_POS_def)

lemma half_of_simps [simp]: "even t \<Longrightarrow> half_of t = 0" "odd t \<Longrightarrow> half_of t = HALF"
  "half_of 0 = 0" "half_of (Suc t) = 0 \<longleftrightarrow> odd t" "half_of t = 0 \<longleftrightarrow> even t"
  by (simp_all add: half_of_def)

lemma ring_addr: "k < HALF \<Longrightarrow> (t * HALF + k) mod (2 * HALF) = half_of t + k"
proof -
  assume k: "k < HALF"
  define r where "r = t mod 2"
  then have t: "t = 2 * (t div 2) + r" by simp
  have r: "r = 0 \<or> r = 1" unfolding r_def by presburger
  have e: "t * HALF + k = (r * HALF + k) + (t div 2) * (2 * HALF)"
    using arg_cong [OF t(1), of "\<lambda>x. x * HALF + k"] by (simp only: distrib_right)
  have "(t * HALF + k) mod (2 * HALF) = (r * HALF + k) mod (2 * HALF)"
    unfolding e by (rule mod_mult_self1)
  also have "\<dots> = r * HALF + k" using r k by auto
  also have "\<dots> = half_of t + k"
  proof -
    have "even t \<longleftrightarrow> r = 0" using t r by presburger
    then show ?thesis using r by (auto simp: half_of_def)
  qed
  finally show ?thesis .
qed

text \<open>
  Where a parent that has passed on every half completely stands: the bytes passed on so far are
  those of the tokens read, up to the one it is passing on.
\<close>

definition parent_at :: "parent \<Rightarrow> nat \<Rightarrow> nat \<Rightarrow> bool" where
  "parent_at p r n \<longleftrightarrow>
     (case p of
        Head \<Rightarrow> even r \<and> n = r * HALF
      | Await off \<Rightarrow> off = half_of r \<and> n = r * HALF
      | Sending off k \<Rightarrow> 1 \<le> r \<and> off = half_of (r - 1) \<and> k \<le> HALF \<and> n = (r - 1) * HALF + k
      | _ \<Rightarrow> True)"

definition parent_ok :: "duplex \<Rightarrow> bool" where
  "parent_ok s \<longleftrightarrow> parent_at (d_parent s) (d_read s) (length (d_sent s))"

text \<open>
  The contract: a parent leaves the child and the memories alone, takes tokens out of the pipe one
  by one, and passes on nothing but the byte of the buffer it has come to.
\<close>

locale consumer =
  fixes pstep :: "duplex \<Rightarrow> duplex \<Rightarrow> bool"
  assumes shared: "pstep s s' \<Longrightarrow> d_child s' = d_child s \<and> d_limit s' = d_limit s \<and> d_buf s' = d_buf s
      \<and> d_copied s' = d_copied s \<and> d_read s' + d_pipe s' = d_read s + d_pipe s"
    and place: "pstep s s' \<Longrightarrow> parent_ok s \<Longrightarrow> parent_ok s'"
    and passes: "pstep s s' \<Longrightarrow> parent_ok s \<Longrightarrow> d_sent s' = d_sent s \<or> (\<exists>off k. d_parent s = Sending off k
      \<and> k < HALF \<and> d_sent s' = d_sent s @ [d_buf s (off + k)])"

text \<open>
  A run in which the parent keeps up: the child never overwrites a byte that has not been passed on.
  Nothing in the programs enforces it.
\<close>

definition keeps_up :: "duplex \<Rightarrow> bool" where
  "keeps_up s \<longleftrightarrow> (\<forall>off k. d_child s = Copying off k \<longrightarrow> length (d_copied s) < length (d_sent s) + 2 * HALF)"

inductive paced :: "(duplex \<Rightarrow> duplex \<Rightarrow> bool) \<Rightarrow> nat \<Rightarrow> duplex \<Rightarrow> duplex \<Rightarrow> bool" for pstep cap where
  hardware: "paced pstep cap s (s\<lparr>d_position := p, d_ram := m\<rparr>)"
| child: "d_alive s \<Longrightarrow> keeps_up s \<Longrightarrow> child_step cap s = Some s' \<Longrightarrow> paced pstep cap s s'"
| parent: "pstep s s' \<Longrightarrow> paced pstep cap s s'"
| signal: "d_handler s \<Longrightarrow> paced pstep cap s (sigint s)"

text \<open>The child and the ring of two halves; \<open>t\<close> is the number of tokens written so far.\<close>

definition child_at :: "child \<Rightarrow> int \<Rightarrow> nat \<Rightarrow> nat \<Rightarrow> bool" where
  "child_at c limit n t \<longleftrightarrow>
     (case c of
        Poll \<Rightarrow> n = t * HALF \<and> limit = (if even t then HALF_POS else 0)
      | Copying off k \<Rightarrow> k \<le> HALF \<and> off = half_of t \<and> n = t * HALF + k \<and> limit = (if even t then 0 else HALF_POS)
      | Token \<Rightarrow> n = Suc t * HALF \<and> limit = (if even t then 0 else HALF_POS))"

definition child_ok :: "duplex \<Rightarrow> bool" where
  "child_ok s \<longleftrightarrow> child_at (d_child s) (d_limit s) (length (d_copied s)) (d_read s + d_pipe s)"

definition ring_at :: "'a list \<Rightarrow> 'a list \<Rightarrow> (nat \<Rightarrow> 'a) \<Rightarrow> bool" where
  "ring_at sent copied buf \<longleftrightarrow> sent = take (length sent) copied
     \<and> (\<forall>i. length sent \<le> i \<and> i < length copied \<longrightarrow> buf (i mod (2 * HALF)) = copied ! i)"

definition ring_ok :: "duplex \<Rightarrow> bool" where
  "ring_ok s \<longleftrightarrow> ring_at (d_sent s) (d_copied s) (d_buf s)"

definition stream_inv :: "duplex \<Rightarrow> bool" where
  "stream_inv s \<longleftrightarrow> child_ok s \<and> parent_ok s \<and> ring_ok s"

lemma child_ok_length: "child_ok s \<Longrightarrow> (d_read s + d_pipe s) * HALF \<le> length (d_copied s)"
  by (auto simp: child_ok_def child_at_def split: child.splits)

text \<open>The laws of the ring: a byte is added that does not hit one still needed, or one is passed on.\<close>

lemma ring_add:
  assumes r: "ring_at sent copied buf" and lt: "length copied < length sent + 2 * HALF"
    and a: "a = length copied mod (2 * HALF)"
  shows "ring_at sent (copied @ [x]) (buf(a := x))"
proof -
  let ?n = "length copied" and ?m = "length sent"
  have le: "?m \<le> ?n" using r unfolding ring_at_def by (metis length_take min.cobounded1)
  have "(buf(a := x)) (i mod (2 * HALF)) = (copied @ [x]) ! i" if i: "?m \<le> i" "i < Suc ?n" for i
  proof (cases "i = ?n")
    case True
    then show ?thesis using a by simp
  next
    case False
    then have d: "i < ?n" "?n - i < 2 * HALF" "0 < ?n - i" using i lt by simp_all
    then have "i mod (2 * HALF) \<noteq> ?n mod (2 * HALF)"
      by (metis mod_eq_dvd_iff_nat dvd_imp_le less_imp_le_nat not_le)
    then show ?thesis using r i(1) d(1) a by (simp add: ring_at_def nth_append)
  qed
  then show ?thesis using r le by (simp add: ring_at_def)
qed

lemma ring_pass:
  assumes r: "ring_at sent copied buf" and lt: "length sent < length copied"
    and a: "a = length sent mod (2 * HALF)"
  shows "ring_at (sent @ [buf a]) copied buf"
  using assms by (auto simp: ring_at_def take_Suc_conv_app_nth)

lemma child_inv:
  assumes step: "child_step cap s = Some s'" and up: "keeps_up s" and inv: "stream_inv s"
  shows "stream_inv s'"
proof -
  have c: "child_ok s" and r: "ring_ok s" using inv by (simp_all add: stream_inv_def)
  have p: "parent_ok s'"
    using step inv by (auto simp: stream_inv_def child_step_def parent_ok_def split: child.splits if_splits)
  have c': "child_ok s'" 
    using step c by (auto simp: child_step_def child_ok_def child_at_def split: child.splits if_splits)
  have "ring_ok s'"
  proof (cases "\<exists>off k. d_child s = Copying off k \<and> k < HALF")
    case True
    then obtain off k where k: "d_child s = Copying off k" "k < HALF" by blast
    then have "off + k = length (d_copied s) mod (2 * HALF)"
      using c ring_addr [OF k(2), of "d_read s + d_pipe s"] by (simp add: child_ok_def child_at_def)
    then show ?thesis
      using step k ring_add [of "d_sent s" "d_copied s" "d_buf s" "off + k" "d_ram s (off + k)"] r up
      by (auto simp: child_step_def ring_ok_def keeps_up_def)
  next
    case False
    then show ?thesis using step r by (auto simp: child_step_def ring_ok_def split: child.splits if_splits)
  qed
  with c' p show ?thesis by (simp add: stream_inv_def)
qed

context consumer
begin

lemma parent_inv:
  assumes step: "pstep s s'" and inv: "stream_inv s"
  shows "stream_inv s'"
proof -
  have c: "child_ok s" and p: "parent_ok s" and r: "ring_ok s" using inv by (simp_all add: stream_inv_def)
  note sh = shared [OF step]
  have "ring_ok s'"
    using passes [OF step p]
  proof
    assume "d_sent s' = d_sent s"
    then show ?thesis using r sh by (simp add: ring_ok_def)
  next
    assume "\<exists>off k. d_parent s = Sending off k \<and> k < HALF \<and> d_sent s' = d_sent s @ [d_buf s (off + k)]"
    then obtain off k where k: "d_parent s = Sending off k" "k < HALF" "d_sent s' = d_sent s @ [d_buf s (off + k)]"
      by blast
    have m: "1 \<le> d_read s" "off = half_of (d_read s - 1)" "length (d_sent s) = (d_read s - 1) * HALF + k"
      using p k(1) by (simp_all add: parent_ok_def parent_at_def)
    obtain q where q: "d_read s = Suc q" using m(1) by (cases "d_read s") auto
    have "length (d_sent s) < length (d_copied s)"
      using child_ok_length [OF c] m(3) k(2) q by (simp add: algebra_simps)
    moreover have "off + k = length (d_sent s) mod (2 * HALF)" using ring_addr [OF k(2), of q] m q by simp
    ultimately show ?thesis using ring_pass [of "d_sent s" "d_copied s" "d_buf s"] r sh k(3) by (simp add: ring_ok_def)
  qed
  moreover have "child_ok s'" using c sh by (simp add: child_ok_def)
  ultimately show ?thesis using place [OF step p] by (simp add: stream_inv_def)
qed

lemma paced_inv: "paced pstep cap s s' \<Longrightarrow> stream_inv s \<Longrightarrow> stream_inv s'"
proof (induction rule: paced.induct)
  case (child s s')
  then show ?case by (blast intro: child_inv)
next
  case (parent s s')
  then show ?case by (blast intro: parent_inv)
qed (simp_all add: stream_inv_def child_ok_def parent_ok_def ring_ok_def sigint_def)

lemma in_order:
  assumes "(paced pstep cap)\<^sup>*\<^sup>* s s'" and "stream_inv s"
  shows "\<exists>rest. d_copied s' = d_sent s' @ rest"
proof -
  have "stream_inv s'" using assms by (induction rule: rtranclp_induct) (auto intro: paced_inv)
  then have "d_sent s' = take (length (d_sent s')) (d_copied s')"
    by (simp add: stream_inv_def ring_ok_def ring_at_def)
  then show ?thesis by (metis append_take_drop_id)
qed

end

section \<open>Both parents keep the contract\<close>

text \<open>
  A connection of the server, and the loop of the recorder, in which no transfer is cut short. The
  steps in which a transfer of less than a half returns are left out.
\<close>

definition full :: "event \<Rightarrow> duplex \<Rightarrow> bool" where
  "full e s \<longleftrightarrow> (\<forall>off k. d_parent s = Sending off k \<longrightarrow> e = Return \<longrightarrow> k = HALF)"

definition connection_step :: "duplex \<Rightarrow> duplex \<Rightarrow> bool" where
  "connection_step s s' \<longleftrightarrow> (\<exists>e. d_parent s \<notin> {Outer, Listening} \<and> full e s \<and> server_step e s = Some s')"

definition recording_step :: "duplex \<Rightarrow> duplex \<Rightarrow> bool" where
  "recording_step s s' \<longleftrightarrow> (\<exists>e. full e s \<and> recorder_step e s = Some s')"

named_theorems streams "unfolding the steps of the parents"

lemmas parent_step_defs [streams] = connection_step_def recording_step_def server_step_def recorder_step_def
  take_token_def pass_byte_def after_half_def set_cfg_def

lemma token_shared:
  "take_token off s = Some s' \<Longrightarrow> d_child s' = d_child s \<and> d_limit s' = d_limit s \<and> d_buf s' = d_buf s
     \<and> d_copied s' = d_copied s \<and> d_read s' + d_pipe s' = d_read s + d_pipe s \<and> d_sent s' = d_sent s
     \<and> d_parent s' = Sending off 0 \<and> d_read s' = Suc (d_read s)"
  by (auto simp: take_token_def split: if_splits)

lemma byte_shared:
  "pass_byte off k s = Some s' \<Longrightarrow> d_child s' = d_child s \<and> d_limit s' = d_limit s \<and> d_buf s' = d_buf s
     \<and> d_copied s' = d_copied s \<and> d_read s' = d_read s \<and> d_pipe s' = d_pipe s \<and> k < HALF
     \<and> d_sent s' = d_sent s @ [d_buf s (off + k)] \<and> d_parent s' = Sending off (k + 1)"
  by (auto simp: pass_byte_def split: if_splits)

lemma half_shared:
  "d_child (after_half off s) = d_child s" "d_limit (after_half off s) = d_limit s" "d_buf (after_half off s) = d_buf s"
  "d_copied (after_half off s) = d_copied s" "d_read (after_half off s) = d_read s" "d_pipe (after_half off s) = d_pipe s"
  "d_sent (after_half off s) = d_sent s" "d_parent (after_half off s) = (if off = 0 then Await HALF else Head)"
  by (simp_all add: after_half_def)

lemma set_cfg_sel [simp]:
  "d_child (set_cfg a v s) = d_child s" "d_limit (set_cfg a v s) = d_limit s" "d_buf (set_cfg a v s) = d_buf s"
  "d_copied (set_cfg a v s) = d_copied s" "d_read (set_cfg a v s) = d_read s" "d_pipe (set_cfg a v s) = d_pipe s"
  "d_sent (set_cfg a v s) = d_sent s" "d_base (set_cfg a v s) = d_base s" "d_parent (set_cfg a v s) = d_parent s"
  "d_alive (set_cfg a v s) = d_alive s" "d_ram (set_cfg a v s) = d_ram s" "d_interrupted (set_cfg a v s) = d_interrupted s"
  "d_position (set_cfg a v s) = d_position s" "d_cfg (set_cfg a v s) = (d_cfg s)(a := v)"
  by (simp_all add: set_cfg_def)

lemma d_say_sel [simp]:
  "d_child (d_say l s) = d_child s" "d_limit (d_say l s) = d_limit s" "d_buf (d_say l s) = d_buf s"
  "d_copied (d_say l s) = d_copied s" "d_read (d_say l s) = d_read s" "d_pipe (d_say l s) = d_pipe s"
  "d_sent (d_say l s) = d_sent s" "d_base (d_say l s) = d_base s" "d_parent (d_say l s) = d_parent s"
  "d_alive (d_say l s) = d_alive s" "d_ram (d_say l s) = d_ram s" "d_interrupted (d_say l s) = d_interrupted s"
  "d_position (d_say l s) = d_position s" "d_cfg (d_say l s) = d_cfg s"
  by (simp_all add: d_say_def)

lemma pred_half: "Suc 0 \<le> r \<Longrightarrow> (r - Suc 0) * HALF + HALF = r * HALF"
  by (cases r) auto

interpretation net: consumer connection_step
proof (unfold_locales, goal_cases)
  case (1 s s')
  then obtain e where "d_parent s \<notin> {Outer, Listening}" "server_step e s = Some s'"
    by (auto simp: connection_step_def)
  then show ?case
    by (cases "d_parent s"; cases e)
       (auto simp: server_step_def half_shared dest: token_shared byte_shared split: if_splits)
next
  case (2 s s')
  then obtain e where e: "d_parent s \<notin> {Outer, Listening}" "full e s" "server_step e s = Some s'"
    by (auto simp: connection_step_def)
  show ?case
  proof (cases "d_parent s")
    case (Sending off k)
    then show ?thesis using e 2(2)
      by (cases e) (auto simp: server_step_def parent_ok_def parent_at_def full_def half_shared pred_half
          dest!: byte_shared split: if_splits)
  qed (use e 2(2) in \<open>auto simp: server_step_def parent_ok_def parent_at_def dest!: token_shared split: if_splits\<close>)
next
  case (3 s s')
  then obtain e where "d_parent s \<notin> {Outer, Listening}" "server_step e s = Some s'"
    by (auto simp: connection_step_def)
  then show ?case
    by (cases "d_parent s"; cases e)
       (auto simp: server_step_def half_shared dest!: token_shared byte_shared split: if_splits)
qed

interpretation disk: consumer recording_step
proof (unfold_locales, goal_cases)
  case (1 s s')
  then obtain e where "full e s" "recorder_step e s = Some s'"
    by (auto simp: recording_step_def)
  then show ?case
    by (cases "d_parent s"; cases e)
       (auto simp: recorder_step_def half_shared dest: token_shared byte_shared split: if_splits)
next
  case (2 s s')
  then obtain e where e: "full e s" "recorder_step e s = Some s'"
    by (auto simp: recording_step_def)
  show ?case
  proof (cases "d_parent s")
    case (Sending off k)
    then show ?thesis using e 2(2)
      by (cases e) (auto simp: recorder_step_def parent_ok_def parent_at_def full_def half_shared pred_half
          dest!: byte_shared split: if_splits)
  qed (use e 2(2) in \<open>auto simp: recorder_step_def parent_ok_def parent_at_def dest!: token_shared split: if_splits\<close>)
next
  case (3 s s')
  then obtain e where "full e s" "recorder_step e s = Some s'"
    by (auto simp: recording_step_def)
  then show ?case
    by (cases "d_parent s"; cases e)
       (auto simp: recorder_step_def half_shared dest!: token_shared byte_shared split: if_splits)
qed


section \<open>The samples arrive in order\<close>

text \<open>A state before the first half is ready, with the parent at the head of its loop.\<close>

definition fresh :: "duplex \<Rightarrow> bool" where
  "fresh s \<longleftrightarrow> d_child s = Poll \<and> d_limit s = HALF_POS \<and> d_parent s = Head \<and> d_pipe s = 0 \<and> d_read s = 0
     \<and> d_copied s = [] \<and> d_sent s = []"

lemma fresh_inv: "fresh s \<Longrightarrow> stream_inv s"
  by (simp add: fresh_def stream_inv_def child_ok_def child_at_def parent_ok_def parent_at_def ring_ok_def ring_at_def)

text \<open>
  C34. What the first client receives, and what the recorder writes, is what the child read from the memory of
  the samples, byte for byte and in this order: from a state with an empty pipe in which the child waits for the
  first half and nothing has been copied or sent, in every interleaving of the two processes and the hardware, as
  long as no transfer is cut short and the child does not overwrite a byte that has not been passed on yet. For a later
  client, which may find tokens in the pipe, see the next property.
\<close>

theorem stream_in_order:
  assumes "fresh s"
  shows "((paced connection_step cap)\<^sup>*\<^sup>* s s' \<longrightarrow> (\<exists>rest. d_copied s' = d_sent s' @ rest))
    \<and> ((paced recording_step cap)\<^sup>*\<^sup>* s s' \<longrightarrow> (\<exists>rest. d_copied s' = d_sent s' @ rest))"
  using net.in_order disk.in_order fresh_inv [OF assms] by blast

section \<open>Which half belongs to which token\<close>

text \<open>The server with everything that can happen around it.\<close>

inductive serving :: "nat \<Rightarrow> duplex \<Rightarrow> duplex \<Rightarrow> bool" for cap where
  hardware: "serving cap s (s\<lparr>d_position := p, d_ram := m\<rparr>)"
| child: "d_alive s \<Longrightarrow> child_step cap s = Some s' \<Longrightarrow> serving cap s s'"
| parent: "server_step e s = Some s' \<Longrightarrow> serving cap s s'"
| signal: "serving cap s (sigint s)"

text \<open>Where the parent stands in its pair of halves, counted from the start of the connection.\<close>

definition pair_at :: "parent \<Rightarrow> nat \<Rightarrow> nat \<Rightarrow> bool" where
  "pair_at p base r \<longleftrightarrow> base \<le> r \<and>
     (case p of
        Head \<Rightarrow> even (r - base)
      | Await off \<Rightarrow> off = half_of (r - base)
      | Sending off k \<Rightarrow> base < r \<and> off = half_of (r - base - 1)
      | _ \<Rightarrow> True)"

definition turn_at :: "child \<Rightarrow> int \<Rightarrow> nat \<Rightarrow> bool" where
  "turn_at c limit t \<longleftrightarrow>
     (case c of
        Poll \<Rightarrow> limit = (if even t then HALF_POS else 0)
      | Copying off k \<Rightarrow> off = half_of t \<and> limit = (if even t then 0 else HALF_POS)
      | Token \<Rightarrow> limit = (if even t then 0 else HALF_POS))"

definition turns_inv :: "duplex \<Rightarrow> bool" where
  "turns_inv s \<longleftrightarrow> pair_at (d_parent s) (d_base s) (d_read s)
     \<and> turn_at (d_child s) (d_limit s) (d_read s + d_pipe s)"

lemma server_keeps:
  assumes "server_step e s = Some s'"
  shows "d_child s' = d_child s \<and> d_limit s' = d_limit s \<and> d_read s' + d_pipe s' = d_read s + d_pipe s"
  using assms
  by (cases "d_parent s"; cases e)
     (auto simp: server_step_def half_shared dest: token_shared byte_shared split: if_splits)

lemma server_pair:
  assumes "server_step e s = Some s'" and "pair_at (d_parent s) (d_base s) (d_read s)"
  shows "pair_at (d_parent s') (d_base s') (d_read s')"
  using assms
  by (cases "d_parent s"; cases e)
     (auto simp: server_step_def pair_at_def after_half_def take_token_def pass_byte_def half_of_def Suc_diff_le
        split: if_splits)

lemma serving_inv: "serving cap s s' \<Longrightarrow> turns_inv s \<Longrightarrow> turns_inv s'"
proof (induction rule: serving.induct)
  case (child s s')
  then show ?case
    by (auto simp: turns_inv_def turn_at_def child_step_def split: child.splits if_splits)
next
  case (parent e s s')
  then show ?case using server_keeps [OF parent(1)] server_pair [OF parent(1)] by (simp add: turns_inv_def)
next
  case (signal s)
  then show ?case by (auto simp: turns_inv_def sigint_def pair_at_def split: parent.splits)
qed (simp add: turns_inv_def)

lemma serving_reach: "(serving cap)\<^sup>*\<^sup>* s s' \<Longrightarrow> turns_inv s \<Longrightarrow> turns_inv s'"
  by (induction rule: rtranclp_induct) (auto intro: serving_inv)

lemma start_inv: "turns_inv (server_start e (duplex0 c p m))"
  by (simp add: server_start_def duplex0_def turns_inv_def pair_at_def turn_at_def Let_def)

fun server_run :: "event list \<Rightarrow> duplex \<Rightarrow> duplex option" where
  "server_run [] s = Some s"
| "server_run (e # es) s = (case server_step e s of None \<Rightarrow> None | Some s' \<Rightarrow> server_run es s')"

text \<open>
  C35. Tokens and halves get out of step when a client leaves in the middle of a pair. In every state
  the server can reach, with clients coming and going, the child fills the half its next token
  stands for, while the parent sends the half of the token it has just taken exactly when the
  number of tokens taken before this connection is even; and a client that is given up at the first
  half of a pair makes that number odd for the next connection when it was even, one that is given
  up at the second half does not.
\<close>

theorem halves_in_turn:
  assumes "(serving cap)\<^sup>*\<^sup>* (server_start e (duplex0 cfg pos ram)) s"
  shows "(d_child s = Copying off k \<longrightarrow> off = half_of (d_read s + d_pipe s))
    \<and> (d_parent s = Sending off k \<longrightarrow> d_base s < d_read s \<and> (off = half_of (d_read s - 1) \<longleftrightarrow> even (d_base s)))
    \<and> (d_parent s = Sending off 0 \<and> \<not> d_interrupted s
        \<longrightarrow> (\<exists>s'. server_run [Fails, Go, Go, Return] s = Some s' \<and> d_parent s' = Head
          \<and> (even (d_base s') = even (d_base s) \<longleftrightarrow> off = HALF)))"
proof -
  have inv: "turns_inv s" using serving_reach [OF assms start_inv] .
  have 1: "d_child s = Copying off k \<longrightarrow> off = half_of (d_read s + d_pipe s)"
    using inv by (auto simp: turns_inv_def turn_at_def)
  have 2: "d_base s < d_read s \<and> off = half_of (d_read s - d_base s - 1)" if "d_parent s = Sending off k" for k
    using inv that by (simp add: turns_inv_def pair_at_def)
  have 3: "off = half_of (d_read s - 1) \<longleftrightarrow> even (d_base s)" if "d_parent s = Sending off k"
  proof -
    have "even (d_read s - d_base s - 1) \<longleftrightarrow> (even (d_read s - 1) \<longleftrightarrow> even (d_base s))"
      using 2 [OF that] by presburger
    then show ?thesis using 2 [OF that] by (auto simp: half_of_def)
  qed
  have 4: "\<exists>s'. server_run [Fails, Go, Go, Return] s = Some s' \<and> d_parent s' = Head
          \<and> (even (d_base s') = even (d_base s) \<longleftrightarrow> off = HALF)"
    if "d_parent s = Sending off 0" "\<not> d_interrupted s"
  proof -
    have "off = HALF \<longleftrightarrow> (even (d_read s) = even (d_base s))"
      using 2 [OF that(1)] by (auto simp: half_of_def)
    then show ?thesis using that by (simp add: server_step_def)
  qed
  show ?thesis using 1 2 3 4 by blast
qed

section \<open>The pipe does not hold the child back\<close>

text \<open>The child after it has copied \<open>k\<close> bytes of a half.\<close>

definition copied_so_far :: "nat \<Rightarrow> nat \<Rightarrow> duplex \<Rightarrow> duplex" where
  "copied_so_far off k s = s\<lparr>d_child := Copying off k,
     d_buf := \<lambda>a. if off \<le> a \<and> a < off + k then d_ram s a else d_buf s a,
     d_copied := d_copied s @ map (d_ram s) [off..<off + k]\<rparr>"

lemma copying_run:
  assumes "d_child s = Copying off 0" and "d_alive s" and "k \<le> HALF"
  shows "(serving cap)\<^sup>*\<^sup>* s (copied_so_far off k s)"
  using assms(3)
proof (induction k)
  case 0
  have "(\<lambda>a. if off \<le> a \<and> a < off + 0 then d_ram s a else d_buf s a) = d_buf s" by (rule ext) auto
  then have "copied_so_far off 0 s = s" using assms(1) by (simp add: copied_so_far_def)
  then show ?case by simp
next
  case (Suc k)
  have "child_step cap (copied_so_far off k s) = Some (copied_so_far off (Suc k) s)"
    using Suc.prems by (auto simp: child_step_def copied_so_far_def fun_eq_iff)
  moreover have "d_alive (copied_so_far off k s)" using assms(2) by (simp add: copied_so_far_def)
  ultimately show ?case using Suc by (meson Suc_leD rtranclp.simps serving.child)
qed

lemma half_run:
  assumes c: "d_child s = Copying off 0" and "d_alive s" and "d_pipe s < cap"
  shows "(serving cap)\<^sup>*\<^sup>* s (copied_so_far off HALF s\<lparr>d_child := Poll, d_pipe := d_pipe s + 1\<rparr>)"
proof -
  let ?t = "copied_so_far off HALF s"
  have "serving cap ?t (?t\<lparr>d_child := Token\<rparr>)"
    using assms by (intro serving.child) (simp_all add: copied_so_far_def child_step_def)
  moreover have "serving cap (?t\<lparr>d_child := Token\<rparr>) (?t\<lparr>d_child := Poll, d_pipe := d_pipe s + 1\<rparr>)"
    using assms by (intro serving.child) (simp_all add: copied_so_far_def child_step_def)
  ultimately show ?thesis using copying_run [OF c assms(2) order_refl, of cap] by (meson rtranclp.rtrancl_into_rtrancl)
qed

lemma poll_run:
  assumes c: "d_child s = Poll" and "d_alive s" and "d_pipe s < cap" and l: "d_limit s \<in> {HALF_POS, 0}"
  shows "\<exists>s'. (serving cap)\<^sup>*\<^sup>* s s' \<and> d_child s' = Poll \<and> d_alive s' \<and> d_pipe s' = d_pipe s + 1
    \<and> d_limit s' = (if d_limit s = 0 then HALF_POS else 0) \<and> d_copied s' = d_copied s @ replicate HALF b
    \<and> d_parent s' = d_parent s \<and> d_sent s' = d_sent s"
proof -
  define off where "off = (if d_limit s > 0 then 0 else HALF)"
  define s1 where "s1 = s\<lparr>d_position := if d_limit s = 0 then 0 else 600000, d_ram := \<lambda>_. b\<rparr>"
  define s2 where "s2 = s1\<lparr>d_child := Copying off 0, d_limit := if d_limit s > 0 then 0 else HALF_POS\<rparr>"
  have "half_ready (d_limit s1) (sint (d_position s1))"
    using l by (auto simp: half_ready_def s1_def HALF_POS_def)
  then have "child_step cap s1 = Some s2"
    using c by (simp add: child_step_def s1_def s2_def off_def)
  then have "serving cap s1 s2" using assms(2) by (intro serving.child) (simp_all add: s1_def)
  moreover have "serving cap s s1" unfolding s1_def by (rule serving.hardware)
  moreover have "(serving cap)\<^sup>*\<^sup>* s2 (copied_so_far off HALF s2\<lparr>d_child := Poll, d_pipe := d_pipe s2 + 1\<rparr>)"
    using assms by (intro half_run) (simp_all add: s1_def s2_def)
  moreover define s3 where "s3 = copied_so_far off HALF s2\<lparr>d_child := Poll, d_pipe := d_pipe s2 + 1\<rparr>"
  ultimately have "(serving cap)\<^sup>*\<^sup>* s s3" by (metis converse_rtranclp_into_rtranclp)
  moreover have "d_child s3 = Poll \<and> d_alive s3 \<and> d_pipe s3 = d_pipe s + 1
    \<and> d_limit s3 = (if d_limit s = 0 then HALF_POS else 0) \<and> d_copied s3 = d_copied s @ replicate HALF b
    \<and> d_parent s3 = d_parent s \<and> d_sent s3 = d_sent s"
    using assms by (auto simp: s3_def copied_so_far_def s1_def s2_def map_replicate_const)
  ultimately show ?thesis by blast
qed

text \<open>
  The pipe does not hold the child back: when it takes at least one token, the server can get into
  a state in which a client has received bytes that are not those the child read, because a half
  was overwritten while it was being sent.
\<close>

theorem overrun_possible:
  assumes "0 < cap" and "0 \<le> st_open e" and "0 \<le> st_fork e" and "0 \<le> st_socket e" and "0 \<le> st_bind e"
  shows "\<exists>s. (serving cap)\<^sup>*\<^sup>* (server_start e (duplex0 cfg pos ram)) s
    \<and> \<not> (\<exists>rest. d_copied s = d_sent s @ rest)"
proof -
  let ?s0 = "server_start e (duplex0 cfg pos ram)"
  have run: "(serving cap)\<^sup>*\<^sup>* a b" if "server_run es a = Some b" for es a b
    using that
    by (induction es arbitrary: a) (auto split: option.splits intro: converse_rtranclp_into_rtranclp serving.parent)
  have "\<exists>s1. server_run [Go, Return, Go] ?s0 = Some s1 \<and> d_parent s1 = Await 0 \<and> d_child s1 = Poll
      \<and> d_limit s1 = HALF_POS \<and> d_alive s1 \<and> d_pipe s1 = 0 \<and> d_copied s1 = [] \<and> d_sent s1 = []"
    using assms(2-5) by (simp add: server_start_def duplex0_def server_step_def Let_def)
  then obtain s1 where r1: "server_run [Go, Return, Go] ?s0 = Some s1" and s1: "d_parent s1 = Await 0"
    "d_child s1 = Poll" "d_limit s1 = HALF_POS" "d_alive s1" "d_pipe s1 = 0" "d_copied s1 = []" "d_sent s1 = []"
    by blast
  obtain s2 where r2: "(serving cap)\<^sup>*\<^sup>* s1 s2" and s2: "d_child s2 = Poll" "d_alive s2" "d_pipe s2 = 1"
    "d_limit s2 = 0" "d_copied s2 = replicate HALF 1" "d_parent s2 = Await 0" "d_sent s2 = []"
    using poll_run [of s1 cap 1] s1 assms(1) by auto
  define s3 where "s3 = s2\<lparr>d_pipe := 0, d_read := d_read s2 + 1, d_parent := Sending 0 0\<rparr>"
  have r3: "serving cap s2 s3"
    using s2 by (intro serving.parent [where e = Go]) (simp add: server_step_def take_token_def s3_def)
  obtain s4 where r4: "(serving cap)\<^sup>*\<^sup>* s3 s4" and s4: "d_child s4 = Poll" "d_alive s4"
    "d_limit s4 = HALF_POS" "d_copied s4 = replicate HALF 1 @ replicate HALF 1" "d_parent s4 = Sending 0 0" "d_sent s4 = []"
    using poll_run [of s3 cap 1] s2 assms(1) by (auto simp: s3_def)
  define s5 where "s5 = s4\<lparr>d_position := 600000, d_ram := \<lambda>_. 2\<rparr>"
  have r5: "serving cap s4 s5" unfolding s5_def by (rule serving.hardware)
  define s6 where "s6 = s5\<lparr>d_child := Copying 0 0, d_limit := 0\<rparr>"
  have r6: "serving cap s5 s6"
    using s4 by (intro serving.child) (simp_all add: s5_def s6_def child_step_def half_ready_def HALF_POS_def)
  define s7 where "s7 = s6\<lparr>d_child := Copying 0 1, d_buf := (d_buf s6)(0 := 2), d_copied := d_copied s6 @ [2]\<rparr>"
  have r7: "serving cap s6 s7"
    using s4 by (intro serving.child) (simp_all add: s5_def s6_def s7_def child_step_def)
  define s8 where "s8 = s7\<lparr>d_parent := Sending 0 1, d_sent := [2]\<rparr>"
  have r8: "serving cap s7 s8"
    using s4 by (intro serving.parent [where e = Byte])
      (simp add: s5_def s6_def s7_def s8_def server_step_def pass_byte_def)
  have "(serving cap)\<^sup>*\<^sup>* ?s0 s8"
    using run [OF r1] r2 r3 r4 r5 r6 r7 r8 by (meson rtranclp.rtrancl_into_rtrancl rtranclp_trans)
  moreover have "d_copied s8 ! 0 = 1" "d_sent s8 = [2]"
    using s4(4) by (simp_all add: s5_def s6_def s7_def s8_def nth_append)
  ultimately show ?thesis by (intro exI [of _ s8]) auto
qed

section \<open>Starting the recorder\<close>

lemma low16: "(0xFFFF :: u32) = mask 16"
  by (simp add: mask_eq_exp_minus_1)

lemma set_low16_bits: "set_low16 w v = (w AND NOT (mask 16)) OR take_bit 16 (word_of_int v)"
proof -
  have "(word_of_int (v mod 2 ^ 16) :: u32) = take_bit 16 (word_of_int v)"
    unfolding take_bit_eq_mod [symmetric] by (auto simp: bit_eq_iff bit_simps)
  then show ?thesis by (simp add: set_low16_def low16)
qed

lemma set_low16_high: "set_low16 w v AND NOT 0xFFFF = w AND NOT 0xFFFF"
  unfolding set_low16_bits low16 by (auto simp: bit_eq_iff bit_simps)

lemma set_low16_low:
  assumes "0 \<le> v" and "v < 2 ^ 16"
  shows "uint (set_low16 w v AND 0xFFFF) = v"
proof -
  have "set_low16 w v AND 0xFFFF = take_bit 16 (word_of_int v)"
    unfolding set_low16_bits low16 by (auto simp: bit_eq_iff bit_simps)
  then have "uint (set_low16 w v AND 0xFFFF) = take_bit 16 (uint (word_of_int v :: u32))"
    by (simp only: unsigned_take_bit_eq)
  then show ?thesis using assms by (simp add: uint_word_of_int take_bit_eq_mod)
qed

text \<open>
  Starting the recorder: with a factor from 10 to 65535 the register of the decimation holds the
  factor less one in its lower half, the upper half is as before, the two bits that start the
  conversion have been cleared and are set, and both processes run; with any other factor, or
  without the two arguments, nothing is touched and the result is the failure code. Whether the
  file could be opened makes no difference here; without a file the first transfer ends the
  parent and leaves the child running.
\<close>

theorem recorder_start_registers:
  assumes "0 \<le> st_open e" and "0 \<le> st_fork e" and "d_alive s = False"
  shows "(10 \<le> recorder_number argv \<and> recorder_number argv \<le> 65535 \<longrightarrow>
      (let s' = recorder_start argv e s
       in uint (d_cfg s' 4 AND 0xFFFF) = recorder_number argv - 1
        \<and> d_cfg s' 4 AND NOT 0xFFFF = d_cfg s 4 AND NOT 0xFFFF \<and> d_cfg s' 0 = d_cfg s 0 OR 3
        \<and> d_parent s' = Head \<and> d_alive s'
        \<and> (\<not> st_file e \<longrightarrow> (\<forall>ev off t. d_parent t = Sending off 0 \<and> d_file t = d_file s'
              \<longrightarrow> recorder_step ev t = Some (t\<lparr>d_parent := Stopped\<rparr>)))))
    \<and> (recorder_number argv < 10 \<or> 65535 < recorder_number argv \<longrightarrow>
      (let s' = recorder_start argv e s in d_result s' = Some 1 \<and> \<not> d_alive s' \<and> d_cfg s' = d_cfg s))"
proof -
  have or: "(w AND NOT 3) OR 3 = w OR 3" for w :: u32 by (auto simp: bit_eq_iff bit_simps)
  have ok: "let s' = recorder_start argv e s
       in uint (d_cfg s' 4 AND 0xFFFF) = recorder_number argv - 1
        \<and> d_cfg s' 4 AND NOT 0xFFFF = d_cfg s 4 AND NOT 0xFFFF \<and> d_cfg s' 0 = d_cfg s 0 OR 3
        \<and> d_parent s' = Head \<and> d_alive s' \<and> d_file s' = st_file e"
    if n: "10 \<le> recorder_number argv" "recorder_number argv \<le> 65535"
  proof -
    have m: "recorder_number argv mod 2 ^ 16 = recorder_number argv" using n by simp
    have low: "uint (set_low16 w (recorder_number argv - 1) AND 0xFFFF) = recorder_number argv - 1" for w
      using n by (intro set_low16_low) simp_all
    show ?thesis using assms n m or
      by (simp only: recorder_start_def Let_def m) (simp add: set_cfg_def set_low16_high [simplified] low)
  qed
  have "d_result (recorder_usage t) = Some 1 \<and> d_alive (recorder_usage t) = d_alive t
      \<and> d_cfg (recorder_usage t) = d_cfg t" for t
    by (simp add: recorder_usage_def d_say_def)
  then have no: "let s' = recorder_start argv e s in d_result s' = Some 1 \<and> \<not> d_alive s' \<and> d_cfg s' = d_cfg s"
    if "recorder_number argv < 10 \<or> 65535 < recorder_number argv"
    using assms that by (simp add: recorder_start_def Let_def)
  show ?thesis using ok no by (auto simp: Let_def recorder_step_def)
qed

text \<open>
  When the server gives up before or between connections, because there is no socket, no address or
  no connection to accept, it returns 1 and leaves its child running; only the end after a signal
  stops the child, puts the converter into reset and returns 0.
\<close>

theorem server_leaves_child:
  assumes "0 \<le> st_open e" and "0 \<le> st_fork e"
  shows "(st_socket e < 0 \<or> st_bind e < 0 \<longrightarrow>
      (let s' = server_start e s in d_result s' = Some 1 \<and> d_alive s'))
    \<and> (d_parent s = Listening \<and> d_alive s \<longrightarrow>
      (\<exists>s'. server_step Fails s = Some s' \<and> d_result s' = Some 1 \<and> d_parent s' = Stopped \<and> d_alive s'))
    \<and> (d_parent s = Outer \<and> d_interrupted s \<longrightarrow>
      (\<exists>s'. server_step ev s = Some s' \<and> d_result s' = Some 0 \<and> d_parent s' = Stopped \<and> \<not> d_alive s'
        \<and> d_cfg s' 0 AND 15 = 0))"
proof -
  have "(w AND NOT 15) AND 15 = 0" for w :: u32 by (auto simp: bit_eq_iff bit_simps)
  then show ?thesis using assms by (auto simp: server_start_def server_step_def Let_def)
qed

section \<open>Concrete starts\<close>

definition env0 :: start_env where
  "env0 = \<lparr>st_open = 3, st_fork = 100, st_socket = 4, st_bind = 0, st_file = True\<rparr>"

definition idle0 :: duplex where "idle0 = duplex0 (\<lambda>_. 0) 0 (\<lambda>_. 0)"

theorem stream_in_order_witness:
  "\<exists>s'. (paced connection_step 1)\<^sup>*\<^sup>* (idle0\<lparr>d_parent := Head\<rparr>) s' \<and> d_parent s' = Await 0
    \<and> (\<exists>rest. d_copied s' = d_sent s' @ rest)"
proof -
  let ?s = "idle0\<lparr>d_parent := Head\<rparr>"
  have "fresh ?s" by (simp add: fresh_def idle0_def duplex0_def)
  moreover have "connection_step ?s (?s\<lparr>d_parent := Await 0\<rparr>)"
    by (auto simp: connection_step_def full_def server_step_def idle0_def duplex0_def)
  then have "(paced connection_step 1)\<^sup>*\<^sup>* ?s (?s\<lparr>d_parent := Await 0\<rparr>)" by (blast intro: paced.parent)
  ultimately show ?thesis using stream_in_order [of ?s 1 "?s\<lparr>d_parent := Await 0\<rparr>"]
    by (intro exI [of _ "?s\<lparr>d_parent := Await 0\<rparr>"]) simp
qed

theorem halves_in_turn_witness:
  "\<exists>s. (serving 1)\<^sup>*\<^sup>* (server_start env0 idle0) s \<and> d_child s = Copying 0 0 \<and> 0 = half_of (d_read s + d_pipe s)"
proof -
  let ?s0 = "server_start env0 idle0"
  let ?s1 = "?s0\<lparr>d_position := 600000, d_ram := d_ram ?s0\<rparr>"
  let ?s2 = "?s1\<lparr>d_child := Copying 0 0, d_limit := 0\<rparr>"
  have "serving 1 ?s0 ?s1" by (rule serving.hardware)
  moreover have "serving 1 ?s1 ?s2"
    by (rule serving.child) (simp_all add: child_step_def half_ready_def server_start_def env0_def idle0_def
        duplex0_def HALF_POS_def Let_def)
  ultimately have run: "(serving 1)\<^sup>*\<^sup>* ?s0 ?s2" by (meson converse_rtranclp_into_rtranclp rtranclp.rtrancl_refl)
  have "0 = half_of (d_read ?s2 + d_pipe ?s2)"
    using halves_in_turn [OF run [unfolded idle0_def], of 0 0] by (simp add: idle0_def)
  with run show ?thesis by (intro exI [of _ ?s2]) simp
qed

theorem overrun_possible_witness:
  "\<exists>s. (serving 16384)\<^sup>*\<^sup>* (server_start env0 idle0) s \<and> \<not> (\<exists>rest. d_copied s = d_sent s @ rest)"
  unfolding idle0_def by (rule overrun_possible) (simp_all add: env0_def)

theorem recorder_start_registers_witness:
  "uint (d_cfg (recorder_start [''adc-recorder'', ''16'', ''out''] env0 idle0) 4 AND 0xFFFF) = 15"
proof -
  have "recorder_number [''adc-recorder'', ''16'', ''out''] = 16" by code_simp
  moreover have "d_alive idle0 = False" by (simp add: idle0_def duplex0_def)
  ultimately show ?thesis
    using recorder_start_registers [of env0 idle0 "[''adc-recorder'', ''16'', ''out'']"] by (simp add: env0_def Let_def)
qed

theorem server_leaves_child_witness:
  "d_alive (server_start (env0\<lparr>st_bind := - 1\<rparr>) idle0)"
  using server_leaves_child [of "env0\<lparr>st_bind := - 1\<rparr>" idle0] by (simp add: env0_def Let_def)

end
