(* ===== verification/Capture.thy ===== *)
theory Capture
  imports CStrings
begin

unbundle bit_operations_syntax

text \<open>
  Three programs that map the registers and the sample memory of a converter directly:
  \<^verbatim>\<open>adc_recorder/adc-recorder.c\<close> prints a block of samples, \<^verbatim>\<open>adc_recorder_trigger/adc-recorder-trigger.c\<close>
  prints the samples around a trigger, \<^verbatim>\<open>dac_player/dac-player.c\<close> plays a file. The registers are
  bytes, since they are written with accesses of two sizes; the readings of a status register that
  the hardware gives are a list, and a program that waits longer than the list is blocked.
\<close>

section \<open>Memory\<close>

text \<open>Little-endian numbers of \<open>n\<close> bytes.\<close>

definition put_le :: "nat \<Rightarrow> nat \<Rightarrow> int \<Rightarrow> (nat \<Rightarrow> u8) \<Rightarrow> nat \<Rightarrow> u8" where
  "put_le n a v m = (\<lambda>x. if a \<le> x \<and> x < a + n then word_of_int (v div 256 ^ (x - a)) else m x)"

definition get_le :: "nat \<Rightarrow> nat \<Rightarrow> (nat \<Rightarrow> u8) \<Rightarrow> int" where
  "get_le n a m = (\<Sum>i<n. uint (m (a + i)) * 256 ^ i)"

lemma get_put_same: "get_le n a (put_le n a v m) = v mod 256 ^ n"
proof -
  have "(\<Sum>i<k. uint (word_of_int (v div 256 ^ i) :: u8) * 256 ^ i) = v mod 256 ^ k" for k
  proof (induction k)
    case 0
    then show ?case by simp
  next
    case (Suc k)
    have "v mod 256 ^ Suc k = 256 ^ k * (v div 256 ^ k mod 256) + v mod 256 ^ k"
      unfolding power_Suc2 by (rule zmod_zmult2_eq) simp
    then show ?case using Suc by (simp add: uint_word_of_int)
  qed
  moreover have "get_le n a (put_le n a v m) = (\<Sum>i<n. uint (word_of_int (v div 256 ^ i) :: u8) * 256 ^ i)"
    unfolding get_le_def by (rule sum.cong) (simp_all add: put_le_def)
  ultimately show ?thesis by simp
qed

lemma get_put_other: "a + n \<le> b \<or> b + k \<le> a \<Longrightarrow> get_le k b (put_le n a v m) = get_le k b m"
  unfolding get_le_def by (rule sum.cong) (auto simp: put_le_def)

datatype region = Cfg | Sts | Ram

record cap =
  c_map :: "region \<Rightarrow> nat option"
  c_cfg :: "nat \<Rightarrow> u8"
  c_ram :: "nat \<Rightarrow> u8"
  c_status :: "u32 list"
  c_fifo :: "u8 list list"
  c_lines :: "string list"

definition c_say :: "string \<Rightarrow> cap \<Rightarrow> cap" where
  "c_say l s = s\<lparr>c_lines := c_lines s @ [l]\<rparr>"

text \<open>An access of \<open>n\<close> bytes; a mapping that failed is not checked for and crashes when it is used.\<close>

definition inside :: "region \<Rightarrow> nat \<Rightarrow> nat \<Rightarrow> cap \<Rightarrow> unit res" where
  "inside r a n s =
     (case c_map s r of None \<Rightarrow> Inl NullDeref | Some sz \<Rightarrow> guardE (a + n \<le> sz) OutOfBounds)"

definition store :: "nat \<Rightarrow> nat \<Rightarrow> int \<Rightarrow> cap \<Rightarrow> cap res" where
  "store n a v s = bindE (inside Cfg a n s) (\<lambda>_. Inr (s\<lparr>c_cfg := put_le n a v (c_cfg s)\<rparr>))"

text \<open>\<^verbatim>\<open>|=\<close> and \<^verbatim>\<open>&= ~\<close> on a register of \<open>n\<close> bytes.\<close>

definition update :: "nat \<Rightarrow> nat \<Rightarrow> (u32 \<Rightarrow> u32) \<Rightarrow> cap \<Rightarrow> cap res" where
  "update n a f s = store n a (uint (f (word_of_int (get_le n a (c_cfg s))))) s"

definition status :: "nat \<Rightarrow> cap \<Rightarrow> (u32 \<times> cap) res" where
  "status a s =
     bindE (inside Sts a 4 s) (\<lambda>_.
     case c_status s of [] \<Rightarrow> Inl Blocked | w # ws \<Rightarrow> Inr (w, s\<lparr>c_status := ws\<rparr>))"

text \<open>The two 16-bit samples at an address, as the programs print them.\<close>

definition sample_text :: "(nat \<Rightarrow> u8) \<Rightarrow> nat \<Rightarrow> string" where
  "sample_text m a =
     pad 5 (show_int (to_i16 (get_le 2 a m))) @ '' '' @ pad 5 (show_int (to_i16 (get_le 2 (a + 2) m)))"

definition print_sample :: "cap \<Rightarrow> nat \<Rightarrow> cap res" where
  "print_sample s a = bindE (inside Ram a 4 s) (\<lambda>_. Inr (c_say (sample_text (c_ram s) a) s))"

text \<open>The start of each program: the file of the memory is opened and the regions are mapped.\<close>

definition cap0 :: "(region \<Rightarrow> nat option) \<Rightarrow> (nat \<Rightarrow> u8) \<Rightarrow> (nat \<Rightarrow> u8) \<Rightarrow> u32 list \<Rightarrow> cap" where
  "cap0 mp cfg ram ws = \<lparr>c_map = mp, c_cfg = cfg, c_ram = ram, c_status = ws, c_fifo = [], c_lines = []\<rparr>"

definition mapped :: "(region \<Rightarrow> bool) \<Rightarrow> nat \<Rightarrow> region \<Rightarrow> nat option" where
  "mapped ok pages r = (if ok r then Some (if r = Ram then pages * 4096 else 4096) else None)"

section \<open>A block of samples\<close>

definition recorder_setup :: "cap \<Rightarrow> cap res" where
  "recorder_setup s =
     bindE (update 4 0 (\<lambda>w. w AND NOT 4) s) (\<lambda>s.
     bindE (update 4 0 (\<lambda>w. w OR 4) s) (\<lambda>s.
     bindE (update 4 0 (\<lambda>w. w AND NOT 1) s) (\<lambda>s.
     bindE (update 4 0 (\<lambda>w. w OR 1) s) (\<lambda>s.
     bindE (update 4 0 (\<lambda>w. w AND NOT 2) s) (\<lambda>s.
     bindE (store 4 4 (1024 * 1024 - 1) s) (\<lambda>s.
     update 4 0 (\<lambda>w. w OR 2) s))))))"

definition adc_recorder :: "int \<Rightarrow> cap \<Rightarrow> (int \<times> cap) res" where
  "adc_recorder fd s =
     (if fd < 0 then Inr (1, c_say ''open'' s)
      else bindE (recorder_setup s) (\<lambda>s.
           bindE (runE print_sample s (map (\<lambda>i. 4 * i) [0..<1024 * 1024])) (\<lambda>s. Inr (0, s))))"

section \<open>The samples around a trigger\<close>

definition trigger_setup :: "cap \<Rightarrow> cap res" where
  "trigger_setup s =
     bindE (update 2 0 (\<lambda>w. w AND NOT 1) s) (\<lambda>s.
     bindE (update 2 0 (\<lambda>w. w OR 1) s) (\<lambda>s.
     bindE (store 2 2 0 s) (\<lambda>s.
     bindE (store 2 4 1 s) (\<lambda>s.
     bindE (store 2 6 1 s) (\<lambda>s.
     bindE (store 4 8 (1024 - 1) s) (\<lambda>s.
     bindE (store 4 12 (1024 * 1024 - 1) s) (\<lambda>s.
     bindE (store 2 16 5 s) (\<lambda>s.
     bindE (update 2 0 (\<lambda>w. w OR 2) s) (\<lambda>s.
     update 2 0 (\<lambda>w. w AND NOT 2) s)))))))))"

text \<open>Waiting until the oscilloscope has stopped: bit 0 of the status.\<close>

function wait_stopped :: "cap \<Rightarrow> cap res" where
  "wait_stopped s =
     (case status 0 s of
        Inl e \<Rightarrow> Inl e
      | Inr (w, s') \<Rightarrow> if w AND 1 \<noteq> 0 then wait_stopped s' else Inr s')"
  by auto
termination
  by (relation "measure (\<lambda>s. length (c_status s))")
     (auto simp: status_def res_simps split: list.splits)

declare wait_stopped.simps [simp del]

definition ring_start :: "u32 \<Rightarrow> u32" where
  "ring_start w = (drop_bit 1 w - 1024) AND 0x007FFFC0"

definition ring_offset :: "u32 \<Rightarrow> nat \<Rightarrow> nat" where
  "ring_offset start i = unat (((start + of_nat i) AND 0x007FFFFF) * 4)"

definition adc_trigger :: "int \<Rightarrow> cap \<Rightarrow> (int \<times> cap) res" where
  "adc_trigger fd s =
     (if fd < 0 then Inr (1, c_say ''open'' s)
      else bindE (trigger_setup s) (\<lambda>s.
           bindE (wait_stopped s) (\<lambda>s.
           bindE (status 0 s) (\<lambda>(w, s).
           bindE (runE print_sample s (map (ring_offset (ring_start w)) [0..<1024 * 1024])) (\<lambda>s.
           Inr (0, s))))))"

section \<open>Playing a file\<close>

function wait_room :: "cap \<Rightarrow> cap res" where
  "wait_room s =
     (case status 4 s of
        Inl e \<Rightarrow> Inl e
      | Inr (w, s') \<Rightarrow> if w > 16384 then wait_room s' else Inr s')"
  by auto
termination
  by (relation "measure (\<lambda>s. length (c_status s))")
     (auto simp: status_def res_simps split: list.splits)

declare wait_room.simps [simp del]

text \<open>
  The loop: \<open>ints\<close> says for each round whether the signal has arrived before it. The bytes are those
  of the file; the end of the file ends the loop.
\<close>

function play :: "bool list \<Rightarrow> u8 list \<Rightarrow> cap \<Rightarrow> cap res" where
  "play ints bytes s =
     (if (case ints of [] \<Rightarrow> False | b # _ \<Rightarrow> b) \<or> bytes = [] then Inr s
      else bindE (wait_room s) (\<lambda>s.
           bindE (inside Ram 0 (length (take 65536 bytes)) s) (\<lambda>_.
           play (tl ints) (drop 65536 bytes) (s\<lparr>c_fifo := c_fifo s @ [take 65536 bytes]\<rparr>))))"
  by auto
termination
  by (relation "measure (\<lambda>(ints, bytes, s). length bytes)") (auto simp: length_greater_0_conv)

declare play.simps [simp del]

definition player_usage :: "cap \<Rightarrow> cap" where
  "player_usage s =
     c_say ''file - input file.'' (c_say ''factor - DAC interpolation factor (10 - 65535),''
       (c_say ''Usage: dac-player factor file'' s))"

text \<open>
  \<open>file\<close> is what the file holds, \<open>None\<close> when it cannot be opened; the null pointer is not less than
  zero, and reading from it crashes, unless the signal has already arrived.
\<close>

definition dac_player :: "string list \<Rightarrow> int \<Rightarrow> u8 list option \<Rightarrow> bool list \<Rightarrow> cap \<Rightarrow> (int \<times> cap) res" where
  "dac_player argv fd file ints s =
     (let number = if length argv = 3 then strtol (argv ! 1) 10 else - 1
      in if fd < 0 then Inr (1, c_say ''open'' s)
      else if number < 10 \<or> number > 65535 then Inr (1, player_usage s)
      else bindE (store 2 6 (number mod 2 ^ 16 - 1) s) (\<lambda>s.
           case file of
             None \<Rightarrow> if (case ints of [] \<Rightarrow> False | b # _ \<Rightarrow> b) then Inr (0, s) else Inl NullDeref
           | Some bytes \<Rightarrow> bindE (play ints bytes s) (\<lambda>s. Inr (0, s))))"

section \<open>What the recorders print\<close>

lemma store_ok:
  "c_map s Cfg = Some sz \<Longrightarrow> a + n \<le> sz \<Longrightarrow> store n a v s = Inr (s\<lparr>c_cfg := put_le n a v (c_cfg s)\<rparr>)"
  by (simp add: store_def inside_def)

lemma print_run:
  assumes "c_map s Ram = Some sz" and "\<forall>a \<in> set as. a + 4 \<le> sz"
  shows "runE print_sample s as = Inr (s\<lparr>c_lines := c_lines s @ map (sample_text (c_ram s)) as\<rparr>)"
  using assms by (induction as arbitrary: s) (simp_all add: print_sample_def inside_def c_say_def)

text \<open>What setting up leaves alone.\<close>

definition same_but_cfg :: "cap \<Rightarrow> cap \<Rightarrow> bool" where
  "same_but_cfg s s' \<longleftrightarrow> c_map s' = c_map s \<and> c_ram s' = c_ram s \<and> c_lines s' = c_lines s \<and> c_status s' = c_status s"

lemma setups_keep:
  assumes "c_map s Cfg = Some 4096"
  shows "\<exists>s'. recorder_setup s = Inr s' \<and> same_but_cfg s s' \<and> get_le 4 4 (c_cfg s') = 1048575"
    and "\<exists>s'. trigger_setup s = Inr s' \<and> same_but_cfg s s' \<and> get_le 4 8 (c_cfg s') = 1023
      \<and> get_le 4 12 (c_cfg s') = 1048575 \<and> get_le 2 16 (c_cfg s') = 5"
  using assms by (simp_all add: recorder_setup_def trigger_setup_def update_def store_ok get_put_same get_put_other
      same_but_cfg_def)

text \<open>
  The block recorder touches nothing outside the regions it has mapped and prints the 1048576
  samples of the memory in order; it does nothing when the memory cannot be opened, and crashes at
  its first access when the registers cannot be mapped, which it does not check.
\<close>

theorem recorder_prints_block:
  assumes "c_map s = mapped ok 1024"
  shows "(0 \<le> fd \<and> ok Cfg \<and> ok Ram \<longrightarrow> (\<exists>s'. adc_recorder fd s = Inr (0, s')
        \<and> c_lines s' = c_lines s @ map (\<lambda>i. sample_text (c_ram s) (4 * i)) [0..<1048576]))
    \<and> (fd < 0 \<longrightarrow> adc_recorder fd s = Inr (1, c_say ''open'' s))
    \<and> (0 \<le> fd \<and> \<not> ok Cfg \<longrightarrow> adc_recorder fd s = Inl NullDeref)"
proof -
  have "\<exists>s'. adc_recorder fd s = Inr (0, s')
        \<and> c_lines s' = c_lines s @ map (\<lambda>i. sample_text (c_ram s) (4 * i)) [0..<1048576]"
    if ok: "0 \<le> fd" "ok Cfg" "ok Ram"
  proof -
    obtain s1 where s1: "recorder_setup s = Inr s1" "same_but_cfg s s1"
      using setups_keep(1) [of s] assms ok by (auto simp: mapped_def)
    have "runE print_sample s1 (map (\<lambda>i. 4 * i) [0..<1024 * 1024])
      = Inr (s1\<lparr>c_lines := c_lines s1 @ map (sample_text (c_ram s1)) (map (\<lambda>i. 4 * i) [0..<1024 * 1024])\<rparr>)"
      using assms ok s1(2) by (intro print_run [of _ "1024 * 4096"]) (auto simp: mapped_def same_but_cfg_def simp del: upt.simps)
    then show ?thesis using ok s1 by (simp add: adc_recorder_def comp_def same_but_cfg_def del: upt.simps)
  qed
  moreover have "adc_recorder fd s = Inl NullDeref" if "0 \<le> fd" "\<not> ok Cfg"
    using that assms by (simp add: adc_recorder_def recorder_setup_def update_def store_def inside_def mapped_def)
  ultimately show ?thesis by (auto simp: adc_recorder_def)
qed

lemma unat_and_low: "unat (y AND 0x007FFFFF) = unat y mod 2 ^ 23" for y :: u32
proof -
  have "(0x007FFFFF :: u32) = mask 23" by (simp add: mask_eq_exp_minus_1)
  then show ?thesis by (simp only: low_mask_mod)
qed

lemma ring_start_val: "unat (ring_start w) = (unat (drop_bit 1 w - 1024) mod 2 ^ 23) div 64 * 64"
proof -
  let ?y = "drop_bit 1 w - 1024 :: u32"
  have m: "(0x007FFFC0 :: u32) = mask 23 AND NOT (mask 6)" by (simp add: mask_eq_exp_minus_1)
  have "ring_start w = push_bit 6 (drop_bit 6 (?y AND mask 23))"
    unfolding ring_start_def m by (auto simp: bit_eq_iff bit_simps)
  moreover have "unat (drop_bit 6 (?y AND mask 23)) = unat ?y mod 2 ^ 23 div 64"
    by (simp only: drop_bit_unat low_mask_mod) simp
  moreover have "unat (push_bit 6 z) = unat z * 64" if "unat z < 2 ^ 26" for z :: u32
    using that by (simp add: push_bit_eq_mult unat_word_ariths)
  moreover have "unat ?y mod 2 ^ 23 div 64 < 2 ^ 26" by simp
  ultimately show ?thesis by metis
qed

lemma ring_offset_val: "ring_offset start i = 4 * ((unat start + i) mod 2 ^ 23)"
proof -
  have "unat (start + of_nat i) mod 2 ^ 23 = (unat start + i) mod 2 ^ 23"
    by (simp add: unat_word_ariths unat_of_nat mod_mod_cancel mod_add_right_eq)
  moreover have "unat (z * 4) = unat z * 4" if "unat z < 2 ^ 23" for z :: u32
    using that by (simp add: unat_word_ariths)
  ultimately show ?thesis unfolding ring_offset_def by (simp add: unat_and_low)
qed

lemma wait_stopped_run:
  assumes "c_map s Sts = Some 4096" and "c_status s = busy @ w0 # rest" and "\<forall>b \<in> set busy. b AND 1 \<noteq> 0"
    and "w0 AND 1 = 0"
  shows "wait_stopped s = Inr (s\<lparr>c_status := rest\<rparr>)"
  using assms
proof (induction busy arbitrary: s)
  case Nil
  then show ?case by (subst wait_stopped.simps) (simp add: status_def inside_def)
next
  case (Cons b busy)
  have "wait_stopped s = wait_stopped (s\<lparr>c_status := busy @ w0 # rest\<rparr>)"
    using Cons.prems by (subst wait_stopped.simps) (simp add: status_def inside_def)
  with Cons show ?case by simp
qed

text \<open>
  The trigger recorder, once the hardware has stopped, prints 1048576 samples from the ring of
  8388608, beginning 1024 samples before the stop, rounded down to a multiple of 64, each from its
  place in the ring, wrapping at its end; every access lies inside what is mapped, and the
  numbers of samples and the decimation are in their registers.
\<close>

theorem trigger_prints_ring:
  assumes "0 \<le> fd" and "c_map s = mapped (\<lambda>_. True) 8192" and "c_status s = busy @ w0 # w # rest"
    and "\<forall>b \<in> set busy. b AND 1 \<noteq> 0" and "w0 AND 1 = 0"
  shows "\<exists>s'. adc_trigger fd s = Inr (0, s')
    \<and> c_lines s' = c_lines s @ map (\<lambda>i. sample_text (c_ram s) (4 * ((unat (ring_start w) + i) mod 8388608))) [0..<1048576]
    \<and> unat (ring_start w) = (unat (drop_bit 1 w - 1024) mod 8388608) div 64 * 64
    \<and> get_le 4 8 (c_cfg s') = 1023 \<and> get_le 4 12 (c_cfg s') = 1048575 \<and> get_le 2 16 (c_cfg s') = 5"
proof -
  obtain s1 where s1: "trigger_setup s = Inr s1" "same_but_cfg s s1" "get_le 4 8 (c_cfg s1) = 1023"
    "get_le 4 12 (c_cfg s1) = 1048575" "get_le 2 16 (c_cfg s1) = 5"
    using setups_keep(2) [of s] assms(2) by (auto simp: mapped_def)
  let ?s = "s1\<lparr>c_status := rest\<rparr>" and ?as = "map (ring_offset (ring_start w)) [0..<1024 * 1024]"
  have wait: "wait_stopped s1 = Inr (s1\<lparr>c_status := w # rest\<rparr>)"
    using wait_stopped_run [of s1 busy w0 "w # rest"] assms s1(2) by (simp add: mapped_def same_but_cfg_def)
  have st: "status 0 (s1\<lparr>c_status := w # rest\<rparr>) = Inr (w, ?s)"
    using assms(2) s1(2) by (simp add: status_def inside_def mapped_def same_but_cfg_def)
  have "ring_offset start i + 4 \<le> 8192 * 4096" for start i
  proof -
    have "(unat start + i) mod 2 ^ 23 < 8388608" by simp
    then show ?thesis unfolding ring_offset_val by simp
  qed
  then have "runE print_sample ?s ?as = Inr (?s\<lparr>c_lines := c_lines s @ map (sample_text (c_ram s)) ?as\<rparr>)"
    using print_run [of ?s "8192 * 4096" ?as] assms(2) s1(2)
    by (simp add: mapped_def same_but_cfg_def image_iff del: upt.simps)
  then show ?thesis
    using assms(1) s1 wait st ring_start_val [of w]
    by (simp add: adc_trigger_def comp_def ring_offset_val del: upt.simps)
qed

section \<open>What is played\<close>

lemma wait_room_run:
  assumes "wait_room s = Inr s'"
  shows "\<exists>ws w. c_status s = ws @ w # c_status s' \<and> w \<le> 16384 \<and> (\<forall>x \<in> set ws. x > 16384)
    \<and> s' = s\<lparr>c_status := c_status s'\<rparr>"
  using assms
proof (induction s rule: wait_room.induct)
  case (1 s)
  show ?case
  proof (cases "status 4 s")
    case (Inl e)
    then show ?thesis using 1(2) by (subst (asm) wait_room.simps) simp
  next
    case (Inr p)
    obtain w s1 where p: "p = (w, s1)" by (cases p)
    have st: "c_status s = w # c_status s1" "s1 = s\<lparr>c_status := c_status s1\<rparr>"
      using Inr p by (auto simp: status_def res_simps split: list.splits)
    show ?thesis
    proof (cases "w > 16384")
      case True
      then have "wait_room s1 = Inr s'" using 1(2) Inr p by (subst (asm) wait_room.simps) simp
      then obtain ws v where "c_status s1 = ws @ v # c_status s'" "v \<le> 16384" "\<forall>x \<in> set ws. x > 16384"
        "s' = s1\<lparr>c_status := c_status s'\<rparr>" using 1(1) [OF Inr p [symmetric] True] by blast
      then show ?thesis using st True by (intro exI [of _ "w # ws"] exI [of _ v]) (metis append_Cons cap.surjective cap.update_convs(4) set_ConsD)
    next
      case False
      then have "s' = s1" using 1(2) Inr p by (subst (asm) wait_room.simps) simp
      then show ?thesis using st False by (intro exI [of _ "[]"] exI [of _ w]) simp
    qed
  qed
qed

definition roomy :: "u32 list \<Rightarrow> nat" where
  "roomy ws = length (filter (\<lambda>w. w \<le> 16384) ws)"

lemma wait_room_returns:
  assumes "c_map s Sts = Some 4096" and "0 < roomy (c_status s)"
  shows "\<exists>s'. wait_room s = Inr s' \<and> roomy (c_status s') + 1 = roomy (c_status s)"
  using assms
proof (induction "c_status s" arbitrary: s)
  case Nil
  then show ?case by (simp add: roomy_def)
next
  case (Cons w ws)
  have cs: "c_status s = w # ws" using Cons.hyps(2) by (rule sym)
  have st: "status 4 s = Inr (w, s\<lparr>c_status := ws\<rparr>)" by (simp add: status_def inside_def Cons.prems(1) cs)
  show ?case
  proof (cases "w > 16384")
    case True
    then have "roomy (c_status s) = roomy ws" using Cons.hyps(2) by (simp add: roomy_def flip: Cons.hyps(2))
    then show ?thesis
      using Cons.hyps(1) [of "s\<lparr>c_status := ws\<rparr>"] Cons.prems True st by (subst wait_room.simps) simp
  next
    case False
    then show ?thesis using st by (subst wait_room.simps) (simp add: roomy_def flip: Cons.hyps(2))
  qed
qed

lemma play_prefix:
  assumes "play ints bytes s = Inr s'"
  shows "\<exists>chunks. c_fifo s' = c_fifo s @ chunks \<and> (\<forall>c \<in> set chunks. 0 < length c \<and> length c \<le> 65536)
    \<and> (\<exists>rest. bytes = concat chunks @ rest) \<and> (True \<notin> set ints \<longrightarrow> concat chunks = bytes)
    \<and> c_cfg s' = c_cfg s"
  using assms
proof (induction ints bytes s rule: play.induct)
  case (1 ints bytes s)
  show ?case
  proof (cases "(case ints of [] \<Rightarrow> False | b # _ \<Rightarrow> b) \<or> bytes = []")
    case True
    then have "s' = s" using 1(2) by (subst (asm) play.simps) simp
    with True show ?thesis by (intro exI [of _ "[]"]) (auto split: list.splits)
  next
    case False
    obtain s1 where s1: "wait_room s = Inr s1" "inside Ram 0 (length (take 65536 bytes)) s1 = Inr ()"
      "play (tl ints) (drop 65536 bytes) (s1\<lparr>c_fifo := c_fifo s1 @ [take 65536 bytes]\<rparr>) = Inr s'"
      using 1(2) False by (subst (asm) play.simps) (auto simp: res_simps)
    have keep: "c_fifo s1 = c_fifo s" "c_cfg s1 = c_cfg s"
      using wait_room_run [OF s1(1)] by (metis cap.select_convs(2,5) cap.surjective cap.update_convs(4))+
    obtain chunks rest where c: "c_fifo s' = (c_fifo s @ [take 65536 bytes]) @ chunks"
      "\<forall>c \<in> set chunks. 0 < length c \<and> length c \<le> 65536" "drop 65536 bytes = concat chunks @ rest"
      "True \<notin> set (tl ints) \<longrightarrow> concat chunks = drop 65536 bytes" "c_cfg s' = c_cfg s"
    proof -
      have "\<exists>chunks. c_fifo s' = (c_fifo s @ [take 65536 bytes]) @ chunks
          \<and> (\<forall>c \<in> set chunks. 0 < length c \<and> length c \<le> 65536) \<and> (\<exists>rest. drop 65536 bytes = concat chunks @ rest)
          \<and> (True \<notin> set (tl ints) \<longrightarrow> concat chunks = drop 65536 bytes) \<and> c_cfg s' = c_cfg s"
        using 1(1) [OF False s1(1,2,3)] keep by simp
      then show thesis using that by blast
    qed
    have "bytes = concat (take 65536 bytes # chunks) @ rest"
      using c(3) append_take_drop_id [of 65536 bytes] by simp
    moreover have "True \<notin> set ints \<longrightarrow> concat (take 65536 bytes # chunks) = bytes"
      using c(4) append_take_drop_id [of 65536 bytes] by (cases ints) simp_all
    moreover have "\<forall>c \<in> set (take 65536 bytes # chunks). 0 < length c \<and> length c \<le> 65536"
      using c(2) False by simp
    moreover have "c_fifo s' = c_fifo s @ (take 65536 bytes # chunks)" using c(1) by simp
    ultimately show ?thesis
      using c(5) by - (intro exI [of _ "take 65536 bytes # chunks"] conjI exI [of _ rest]; assumption)
  qed
qed

lemma play_returns:
  assumes "c_map s Sts = Some 4096" and "c_map s Ram = Some (32 * 4096)" and "length bytes \<le> 65536 * roomy (c_status s)"
  shows "\<exists>s'. play ints bytes s = Inr s'"
  using assms
proof (induction ints bytes s rule: play.induct)
  case (1 ints bytes s)
  show ?case
  proof (cases "(case ints of [] \<Rightarrow> False | b # _ \<Rightarrow> b) \<or> bytes = []")
    case True
    then show ?thesis by (subst play.simps) simp
  next
    case False
    then have "0 < roomy (c_status s)" using 1(4) by (auto intro: ccontr)
    then obtain s1 where s1: "wait_room s = Inr s1" "roomy (c_status s1) + 1 = roomy (c_status s)"
      using wait_room_returns 1(2) by blast
    have keep: "c_map s1 = c_map s"
      using wait_room_run [OF s1(1)] by (metis cap.select_convs(1) cap.surjective cap.update_convs(4))
    have ins: "inside Ram 0 (length (take 65536 bytes)) s1 = Inr ()"
      using 1(3) keep by (simp add: inside_def guardE_def)
    have "length (drop 65536 bytes) \<le> 65536 * roomy (c_status s1)" using 1(4) s1(2) by simp
    then show ?thesis
      using 1(1) [OF False s1(1) ins] 1(2,3) keep s1(1) ins False by (subst play.simps) simp
  qed
qed

text \<open>
  C37. The player plays the file: what reaches the FIFO, in pieces of at most 65536 bytes, is the file
  from its beginning, all of it when no signal arrives; and with a usable factor and enough
  readings of the FIFO that show room, the program ends, with result zero and the factor less one
  in its register.
\<close>

theorem player_plays_file:
  assumes "c_map s = mapped (\<lambda>_. True) 32" and "0 \<le> fd" and "length argv = 3"
    and "10 \<le> strtol (argv ! 1) 10" and "strtol (argv ! 1) 10 \<le> 65535"
    and "length bytes \<le> 65536 * roomy (c_status s)" and "c_fifo s = []"
  shows "\<exists>s'. dac_player argv fd (Some bytes) ints s = Inr (0, s')
    \<and> (\<exists>rest. bytes = concat (c_fifo s') @ rest) \<and> (\<forall>c \<in> set (c_fifo s'). length c \<le> 65536)
    \<and> (True \<notin> set ints \<longrightarrow> concat (c_fifo s') = bytes) \<and> get_le 2 6 (c_cfg s') = strtol (argv ! 1) 10 - 1"
proof -
  let ?n = "strtol (argv ! 1) 10"
  have n: "?n mod 2 ^ 16 - 1 = ?n - 1" "(?n - 1) mod 256 ^ 2 = ?n - 1" using assms(4,5) by simp_all
  let ?s = "s\<lparr>c_cfg := put_le 2 6 (?n - 1) (c_cfg s)\<rparr>"
  have st: "store 2 6 (?n mod 2 ^ 16 - 1) s = Inr ?s" using assms(1) n by (simp add: store_ok mapped_def)
  obtain s' where s': "play ints bytes ?s = Inr s'"
    using play_returns [of ?s bytes ints] assms(1,6) by (auto simp: mapped_def)
  have reg: "get_le 2 6 (c_cfg ?s) = ?n - 1" using n by (simp add: get_put_same)
  have "dac_player argv fd (Some bytes) ints s = Inr (0, s')"
    using assms(2-5) st s' by (simp add: dac_player_def)
  moreover obtain chunks rest where "c_fifo s' = chunks" "\<forall>c \<in> set chunks. 0 < length c \<and> length c \<le> 65536"
    "bytes = concat chunks @ rest" "True \<notin> set ints \<longrightarrow> concat chunks = bytes" "c_cfg s' = c_cfg ?s"
  proof -
    have "c_fifo ?s = []" using assms(7) by simp
    then show thesis using play_prefix [OF s'] that by (metis append_Nil)
  qed
  ultimately show ?thesis using reg by (intro exI [of _ s']) auto
qed

section \<open>Concrete runs\<close>

theorem recorder_prints_block_witness:
  "\<exists>s'. adc_recorder 3 (cap0 (mapped (\<lambda>_. True) 1024) (\<lambda>_. 0) (\<lambda>_. 7) []) = Inr (0, s')
    \<and> length (c_lines s') = 1048576"
proof -
  have "c_map (cap0 (mapped (\<lambda>_. True) 1024) (\<lambda>_. 0) (\<lambda>_. 7) []) = mapped (\<lambda>_. True) 1024" by (simp add: cap0_def)
  from recorder_prints_block [OF this, of 3] show ?thesis by (auto simp: cap0_def simp del: upt.simps)
qed

theorem trigger_prints_ring_witness:
  "\<exists>s'. adc_trigger 3 (cap0 (mapped (\<lambda>_. True) 8192) (\<lambda>_. 0) (\<lambda>_. 7) [5, 4, 2200]) = Inr (0, s')
    \<and> length (c_lines s') = 1048576"
proof -
  have "\<exists>s'. adc_trigger 3 (cap0 (mapped (\<lambda>_. True) 8192) (\<lambda>_. 0) (\<lambda>_. 7) [5, 4, 2200]) = Inr (0, s')
      \<and> c_lines s' = [] @ map (\<lambda>i. sample_text (\<lambda>_. 7) (4 * ((unat (ring_start 2200) + i) mod 8388608))) [0..<1048576]"
    using trigger_prints_ring [of 3 "cap0 (mapped (\<lambda>_. True) 8192) (\<lambda>_. 0) (\<lambda>_. 7) [5, 4, 2200]" "[5]" 4 2200 "[]"]
    by (simp add: cap0_def del: upt.simps) blast
  then show ?thesis by (auto simp del: upt.simps)
qed

theorem player_plays_file_witness:
  "\<exists>s'. dac_player [''dac-player'', ''16'', ''in''] 3 (Some [1, 2, 3]) []
      (cap0 (mapped (\<lambda>_. True) 32) (\<lambda>_. 0) (\<lambda>_. 0) [20000, 100]) = Inr (0, s')
    \<and> concat (c_fifo s') = [1, 2, 3] \<and> get_le 2 6 (c_cfg s') = 15"
proof -
  have "strtol ([''dac-player'', ''16'', ''in''] ! 1) 10 = 16" by code_simp
  moreover have "roomy [20000, 100] = 1" by (simp add: roomy_def)
  ultimately show ?thesis
    using player_plays_file [of "cap0 (mapped (\<lambda>_. True) 32) (\<lambda>_. 0) (\<lambda>_. 0) [20000, 100]" 3
        "[''dac-player'', ''16'', ''in'']" "[1, 2, 3]" "[]"]
    by (auto simp: cap0_def)
qed

end
