(* ===== verification/Versions.thy ===== *)
theory Versions
  imports ZynqIO
begin

unbundle bit_operations_syntax

text \<open>
  What version 1.0 of the acquisition program does differently at the level of the registers,
  \<^verbatim>\<open>projects/lago_v1_0/src/zynq_io.c\<close>, \<^verbatim>\<open>zynq_io.h\<close> and the file header of its \<^verbatim>\<open>lago.c\<close>: the registers of the
  high voltages are numbered differently, the voltage is set with another calibration line, and
  the set-up leaves the working mode alone. Everything else is as in version 1.2.
\<close>

section \<open>Version 1.0\<close>

definition V10_CFG_HV1_OFFSET :: nat where "V10_CFG_HV1_OFFSET = 0x40"
definition V10_CFG_HV2_OFFSET :: nat where "V10_CFG_HV2_OFFSET = 0x44"
definition V10_CFG_HV3_OFFSET :: nat where "V10_CFG_HV3_OFFSET = 0x4C"
definition V10_CFG_HV4_OFFSET :: nat where "V10_CFG_HV4_OFFSET = 0x48"

lemmas v10_offsets = V10_CFG_HV1_OFFSET_def V10_CFG_HV2_OFFSET_def V10_CFG_HV3_OFFSET_def V10_CFG_HV4_OFFSET_def

text \<open>The calibration line for gain 1.45, in \<^verbatim>\<open>set_voltage\<close> and in the header of a data file.\<close>

definition v10_gain_a :: flt where "v10_gain_a = fcvt FLOAT (fdec 382061 7)"
definition v10_gain_b :: flt where "v10_gain_b = fcvt FLOAT (fdec 411435 5)"

definition v10_dac_of_hv :: "int \<Rightarrow> u32 res" where
  "v10_dac_of_hv v =
     bindE (f_to_u32 (fsub FLOAT (f_of_int FLOAT v) v10_gain_b)) (\<lambda>u.
     bindE (fdiv FLOAT (f_of_int FLOAT (uint u)) v10_gain_a) f_to_u32)"

definition v10_set_voltage :: "nat \<Rightarrow> int \<Rightarrow> io \<Rightarrow> io res" where
  "v10_set_voltage off v s =
     bindE (v10_dac_of_hv v) (\<lambda>dac_val.
     bindE (dev_write CFG off dac_val s) (\<lambda>s'.
     Inr (put_line (''The DAC value is: '' @ show_d dac_val @ '' DACs'')
           (put_line (''The Voltage is: '' @ show_int v @ '' mV'') s'))))"

text \<open>What the status command of version 1.0 shows is computed with the line for gain 3.2.\<close>

definition v10_rd_cfg_status :: "io \<Rightarrow> (int \<times> io) res" where
  "v10_rd_cfg_status s =
     bindE (dev_read CFG CFG_TRLVL_1_OFFSET s) (\<lambda>t1.
     let s = put_line (''#Trigger Level Ch1 = '' @ show_d t1) s in
     bindE (dev_read CFG CFG_TRLVL_2_OFFSET s) (\<lambda>t2.
     let s = put_line (''#Trigger Level Ch2 = '' @ show_d t2) s in
     bindE (dev_read CFG V10_CFG_HV1_OFFSET s) (\<lambda>h1.
     let s = put_line (''#High Voltage 1    = '' @ show_fix 1 (hv_of_dac h1) @ '' mV'') s in
     bindE (dev_read CFG V10_CFG_HV2_OFFSET s) (\<lambda>h2.
     let s = put_line (''#High Voltage 2    = '' @ show_fix 1 (hv_of_dac h2) @ '' mV'') s in
     bindE (dev_read CFG CFG_TR_SCAL_A_OFFSET s) (\<lambda>sa.
     let s = put_line (''#Trigger Scaler 1  = '' @ show_d sa) s in
     bindE (dev_read CFG CFG_TR_SCAL_B_OFFSET s) (\<lambda>sb.
     let s = put_line (''#Trigger Scaler 2  = '' @ show_d sb) s in
     bindE (dev_read CFG CFG_RESET_GRAL_OFFSET s) (\<lambda>g.
     let s = (if drop_bit 4 g AND 1 = 1
              then put_line ''#No GPS device is present or enabled'' s
              else put_line ''#Using GPS data'' s) in
     bindE (dev_read CFG CFG_RESET_GRAL_OFFSET s) (\<lambda>m.
     let s = (if drop_bit 5 m AND 1 = 0
              then put_line ''#Working mode is SLAVE'' s
              else put_line ''#Working mode is MASTER'' s)
     in Inr (0, put_line ''Status from registers complete!'' (put_line [] s))))))))))"

definition v10_init_system :: "io \<Rightarrow> (int \<times> io) res" where
  "v10_init_system s =
     bindE (dev_write CFG CFG_TRLVL_1_OFFSET 8190 s) (\<lambda>s.
     bindE (dev_write CFG CFG_TRLVL_2_OFFSET 8190 s) (\<lambda>s.
     bindE (dev_write CFG CFG_STRLVL_1_OFFSET 8190 s) (\<lambda>s.
     bindE (dev_write CFG CFG_STRLVL_2_OFFSET 8190 s) (\<lambda>s.
     bindE (dev_write CFG V10_CFG_HV1_OFFSET 0 s) (\<lambda>s.
     bindE (dev_write CFG V10_CFG_HV2_OFFSET 0 s) (\<lambda>s.
     bindE (reset_gral (\<lambda>r. r AND NOT 8) s) (\<lambda>s.
     bindE (reset_gral (\<lambda>r. r AND NOT 1) s) (\<lambda>s.
     bindE (reset_gral (\<lambda>r. r AND NOT 4) s) (\<lambda>s.
     bindE (reset_gral (\<lambda>r. r AND NOT 2) s) (\<lambda>s.
     bindE (dev_write CFG CFG_NSAMPLES_OFFSET (1024 * 1024) s) (\<lambda>s.
     bindE (dev_write CFG CFG_TR_SCAL_A_OFFSET 1 s) (\<lambda>s.
     bindE (dev_write CFG CFG_TR_SCAL_B_OFFSET 1 s) (\<lambda>s.
     bindE (reset_gral (\<lambda>r. r OR FGPS_EN_MASK) s) (\<lambda>s.
     bindE (reset_gral (\<lambda>r. r OR 8) s) (\<lambda>s.
     Inr (0, s))))))))))))))))"

section \<open>The voltage that is shown\<close>

lemma v10_gains:
  "383 / 10000 \<ge> fval v10_gain_a" "fval v10_gain_a \<ge> 382 / 10000" "man v10_gain_a \<noteq> 0"
  "41143 / 10000 \<le> fval v10_gain_b" "fval v10_gain_b \<le> 41144 / 10000"
proof -
  have a: "v10_gain_a = Flt 10255872 (- 28)" unfolding v10_gain_a_def by code_simp
  have b: "v10_gain_b = Flt 8628417 (- 21)" unfolding v10_gain_b_def by code_simp
  show "383 / 10000 \<ge> fval v10_gain_a" "fval v10_gain_a \<ge> 382 / 10000" "man v10_gain_a \<noteq> 0"
    "41143 / 10000 \<le> fval v10_gain_b" "fval v10_gain_b \<le> 41144 / 10000"
    by (simp_all add: a b fval_def power_int_minus inverse_eq_divide)
qed

lemma v10_dac:
  assumes "5 \<le> v" and "v \<le> 2500"
  obtains d where "v10_dac_of_hv v = Inr d" and "fval v10_gain_a * uint d \<le> real_of_int v - 5 + 1 / 1000"
    and "real_of_int v - 5 - fval v10_gain_a - 1 / 1000 \<le> fval v10_gain_a * uint d"
proof -
  have g: "real_of_int 5 - 999 / 1000 \<le> fval v10_gain_b" "fval v10_gain_b \<le> real_of_int 5 - 1 / 1000"
    "38 / 1000 \<le> fval v10_gain_a" "fval v10_gain_a \<le> 1 / 10"
    using v10_gains by simp_all
  show thesis
    using dac_close [OF assms(1) _ assms(2) g v10_gains(3)] that unfolding v10_dac_of_hv_def by auto
qed

text \<open>
  Version 1.0 shows a wrong high voltage: it sets the voltage with the calibration line for gain
  1.45 and its status command reads the register back with the line for gain 3.2, so that for
  every request from 20 to 1000 mV what is shown is more than twice the request.
\<close>

theorem v10_status_misreports:
  assumes "io_ready s" and "20 \<le> v" and "v \<le> 1000"
  shows "\<exists>s'. v10_set_voltage V10_CFG_HV1_OFFSET v s = Inr s'
    \<and> 2 * v < fval (hv_of_dac (peek CFG s' V10_CFG_HV1_OFFSET))
    \<and> (\<exists>s2. v10_rd_cfg_status s' = Inr (0, s2) \<and> ''#High Voltage 1    = ''
        @ show_fix 1 (hv_of_dac (peek CFG s' V10_CFG_HV1_OFFSET)) @ '' mV'' \<in> set (io_out s2))"
proof -
  obtain d where d: "v10_dac_of_hv v = Inr d" "fval v10_gain_a * uint d \<le> real_of_int v - 5 + 1 / 1000"
    "real_of_int v - 5 - fval v10_gain_a - 1 / 1000 \<le> fval v10_gain_a * uint d"
    using v10_dac [of v] assms(2,3) by auto
  have n: "0 \<le> real_of_int (uint d)" by (rule uint_real_nonneg)
  have "fval v10_gain_a * uint d \<le> 383 / 10000 * uint d" "382 / 10000 * uint d \<le> fval v10_gain_a * uint d"
    using v10_gains(1,2) n by (intro mult_right_mono; simp)+
  then have u: "real_of_int v - 51 / 10 \<le> 383 / 10000 * uint d" "382 / 10000 * uint d \<le> 996"
    using d(2,3) v10_gains(1) assms(2,3) by linarith+
  have "882 / 10000 * uint d \<le> fval gain_a * uint d" "fval gain_a * uint d \<le> 883 / 10000 * uint d"
    using gain_bounds(1,2) n by (intro mult_right_mono; simp)+
  then have y: "fval gain_a * uint d \<le> 2493" "2 * real_of_int v - 7 \<le> fval gain_a * uint d"
    using u assms(2) by linarith+
  have "2 * real_of_int v < fval (hv_of_dac d)" using hv_readback [OF y(1)] y(2) gain_bounds(3) by linarith
  moreover have "\<exists>s'. v10_set_voltage V10_CFG_HV1_OFFSET v s = Inr s' \<and> io_ready s' \<and> peek CFG s' V10_CFG_HV1_OFFSET = d"
    using d(1) assms(1) by (simp add: v10_set_voltage_def io_simps v10_offsets)
  moreover have "\<exists>s2. v10_rd_cfg_status t = Inr (0, s2) \<and> ''#High Voltage 1    = ''
        @ show_fix 1 (hv_of_dac (peek CFG t V10_CFG_HV1_OFFSET)) @ '' mV'' \<in> set (io_out s2)" if "io_ready t" for t
    using that by (simp add: v10_rd_cfg_status_def io_simps cfg_offsets v10_offsets Let_def)
  ultimately show ?thesis by auto
qed

theorem v10_status_misreports_witness:
  "\<exists>s'. v10_set_voltage V10_CFG_HV1_OFFSET 900 \<lparr>io_fd = \<lambda>_. 3, io_map = \<lambda>_. Some 4096, io_reg = \<lambda>_ _. 0,
        io_log = [], dev_size = 4096, io_out = []\<rparr> = Inr s'
    \<and> 1800 < fval (hv_of_dac (peek CFG s' V10_CFG_HV1_OFFSET))"
  using v10_status_misreports [of "\<lparr>io_fd = \<lambda>_. 3, io_map = \<lambda>_. Some 4096, io_reg = \<lambda>_ _. 0,
      io_log = [], dev_size = 4096, io_out = []\<rparr>" 900]
  by (auto simp: io_ready_def)

text \<open>
  The set-up of version 1.0 and that of version 1.2 agree on every register except the high
  voltages and the working mode: run on the same registers, version 1.0 clears the first two
  voltage registers by its numbers, which are those of the third and the fourth voltage in version
  1.2, and keeps the bit of the working mode that version 1.2 sets.
\<close>

theorem setups_differ:
  assumes "io_ready s"
  shows "\<exists>s0 s2. v10_init_system s = Inr (0, s0) \<and> init_system s = Inr (0, s2)
    \<and> (\<forall>b off. b \<noteq> CFG \<or> off \<notin> {CFG_HV1_OFFSET, CFG_HV2_OFFSET, CFG_HV3_OFFSET, CFG_HV4_OFFSET, CFG_RESET_GRAL_OFFSET}
        \<longrightarrow> peek b s0 off = peek b s2 off)
    \<and> V10_CFG_HV1_OFFSET = CFG_HV3_OFFSET \<and> V10_CFG_HV2_OFFSET = CFG_HV4_OFFSET
    \<and> peek CFG s0 CFG_HV3_OFFSET = 0 \<and> peek CFG s0 CFG_HV1_OFFSET = peek CFG s CFG_HV1_OFFSET
    \<and> peek CFG s2 CFG_HV1_OFFSET = 0 \<and> peek CFG s2 CFG_HV3_OFFSET = peek CFG s CFG_HV3_OFFSET
    \<and> peek CFG s2 CFG_RESET_GRAL_OFFSET = peek CFG s0 CFG_RESET_GRAL_OFFSET OR 0x20"
  using assms
  by (simp add: v10_init_system_def init_system_def io_simps cfg_offsets v10_offsets)

theorem setups_differ_witness:
  "\<exists>s0. v10_init_system \<lparr>io_fd = \<lambda>_. 3, io_map = \<lambda>_. Some 4096, io_reg = \<lambda>_ _. 77,
        io_log = [], dev_size = 4096, io_out = []\<rparr> = Inr (0, s0)
    \<and> peek CFG s0 CFG_HV1_OFFSET = 77"
  using setups_differ [of "\<lparr>io_fd = \<lambda>_. 3, io_map = \<lambda>_. Some 4096, io_reg = \<lambda>_ _. 77,
      io_log = [], dev_size = 4096, io_out = []\<rparr>"]
  by (auto simp: io_ready_def peek_def)

end
