(* ===== verification/AxiDma.thy ===== *)
theory AxiDma
  imports CStrings
begin

text \<open>
  The kernel module \<^verbatim>\<open>dma_loopback/axidma.c\<close>, which tests a looped-back pair of channels of the DMA
  engine when it is loaded. The answers of the kernel and what the hardware delivers are arguments;
  the state holds what the module has acquired and not given back, the transfers that are still
  running, and its messages.
\<close>

section \<open>State\<close>

datatype resource = TxChan | RxChan | SrcBuf | DestBuf | TxMap | RxMap

text \<open>
  The answers: the channels, the two allocations, the two descriptors, the cookies of submission,
  and what comes of the transfers: whether the wait for the sending one ends in time, its status,
  whether the receiving one has ended by then, and the bytes it delivers.
\<close>

datatype dma_status = Complete | InProgress | Error

record dma_env =
  ax_tx :: bool
  ax_rx :: bool
  ax_src :: bool
  ax_dest :: bool
  ax_rx_desc :: bool
  ax_tx_desc :: bool
  ax_rx_submit :: int
  ax_tx_submit :: int
  ax_in_time :: bool
  ax_status :: dma_status
  ax_rx_ended :: bool
  ax_delivered :: "nat \<Rightarrow> u8"

record axidma =
  x_held :: "resource set"
  x_running :: "resource set"
  x_log :: "string list"

definition ax_note :: "string \<Rightarrow> axidma \<Rightarrow> axidma" where
  "ax_note l s = s\<lparr>x_log := x_log s @ [l]\<rparr>"

definition ax_acquire :: "resource set \<Rightarrow> axidma \<Rightarrow> axidma" where
  "ax_acquire r s = s\<lparr>x_held := x_held s \<union> r\<rparr>"

text \<open>Memory handed back while a transfer from or to it is running is a fault.\<close>

definition ax_release :: "resource set \<Rightarrow> axidma \<Rightarrow> axidma res" where
  "ax_release r s = (if r \<inter> x_running s = {} then Inr (s\<lparr>x_held := x_held s - r\<rparr>) else Inl UseAfterFree)"

section \<open>The test\<close>

definition dma_length :: nat where "dma_length = 32 * 1024"

text \<open>The cookie of a submitted buffer, or \<^verbatim>\<open>-EBUSY\<close>.\<close>

definition axidma_prep_buffer :: "bool \<Rightarrow> int \<Rightarrow> axidma \<Rightarrow> int \<times> axidma" where
  "axidma_prep_buffer desc submit s =
     (if \<not> desc then (- 16, ax_note ''dmaengine_prep_slave_single error'' s) else (submit, s))"

text \<open>
  Starting a transfer. Waiting covers one of the two only: the other may still be running, and the
  one waited for may be too when the wait has timed out or its status is not complete.
\<close>

definition axidma_start_transfer :: "dma_env \<Rightarrow> resource \<Rightarrow> bool \<Rightarrow> axidma \<Rightarrow> axidma" where
  "axidma_start_transfer e buf wait s =
     (let s = s\<lparr>x_running := insert buf (x_running s)\<rparr>
      in if \<not> wait then s
         else
           let s = ax_note ''Waiting for DMA to complete...'' s;
               s = s\<lparr>x_running := x_running s - (if ax_in_time e \<and> ax_status e \<noteq> InProgress then {buf} else {})
                                                - (if ax_rx_ended e then {DestBuf} else {})\<rparr>
           in if \<not> ax_in_time e then ax_note ''DMA timed out'' s
              else if ax_status e \<noteq> Complete
              then ax_note (''DMA returned completion callback status of: ''
                           @ (if ax_status e = Error then ''error'' else ''in progress'')) s
              else s)"

definition src_byte :: "nat \<Rightarrow> u8" where "src_byte i = of_nat i"

text \<open>The destination buffer is zeroed; what was delivered is in it when the receiving transfer has ended.\<close>

definition dest_byte :: "dma_env \<Rightarrow> nat \<Rightarrow> u8" where
  "dest_byte e i = (if ax_rx_ended e then ax_delivered e i else 0)"

fun buffers_differ :: "dma_env \<Rightarrow> nat list \<Rightarrow> bool" where
  "buffers_differ e [] = False"
| "buffers_differ e (i # is) = (dest_byte e i \<noteq> src_byte i \<or> buffers_differ e is)"

definition axidma_test_transfer :: "dma_env \<Rightarrow> axidma \<Rightarrow> axidma res" where
  "axidma_test_transfer e s =
     (let s = ax_acquire ((if ax_src e then {SrcBuf} else {}) \<union> (if ax_dest e then {DestBuf} else {})) s
      in if \<not> ax_src e \<or> \<not> ax_dest e then Inr (ax_note ''Allocating DMA memory failed'' s)
      else
        let s = ax_acquire {TxMap, RxMap} s;
            (rx_cookie, s) = axidma_prep_buffer (ax_rx_desc e) (ax_rx_submit e) s;
            (tx_cookie, s) = axidma_prep_buffer (ax_tx_desc e) (ax_tx_submit e) s
        in if rx_cookie < 0 \<or> tx_cookie < 0 then Inr (ax_note ''xdma_prep_buffer error'' s)
        else
          let s = ax_note ''Starting DMA transfers'' s;
              s = axidma_start_transfer e DestBuf False s;
              s = axidma_start_transfer e SrcBuf True s
          in bindE (ax_release {RxMap} s) (\<lambda>s.
             bindE (ax_release {TxMap} s) (\<lambda>s.
             let s = (if buffers_differ e [0..<dma_length] then ax_note ''DMA transfer failure'' s else s);
                 s = ax_note (''DMA bytes sent: '' @ show_nat dma_length) s
             in bindE (ax_release {SrcBuf} s) (ax_release {DestBuf}))))"

definition axidma_init :: "dma_env \<Rightarrow> axidma \<Rightarrow> (int \<times> axidma) res" where
  "axidma_init e s =
     (let s = ax_note ''AXI DMA module initialized'' s;
          s = ax_acquire ((if ax_tx e then {TxChan} else {}) \<union> (if ax_rx e then {RxChan} else {})) s
      in if \<not> ax_rx e \<or> \<not> ax_tx e then Inr (- 1, ax_note ''DMA channel request error'' s)
      else bindE (axidma_test_transfer e s) (\<lambda>s.
           bindE (ax_release {TxChan} s) (\<lambda>s.
           bindE (ax_release {RxChan} s) (\<lambda>s. Inr (0, s)))))"

definition axidma_exit :: "axidma \<Rightarrow> axidma" where
  "axidma_exit s = ax_note ''AXI DMA module exited'' s"

section \<open>What loading does\<close>

lemma buffers_differ_iff: "buffers_differ e is \<longleftrightarrow> (\<exists>i \<in> set is. dest_byte e i \<noteq> src_byte i)"
  by (induction "is") auto

definition loaded0 :: axidma where "loaded0 = \<lparr>x_held = {}, x_running = {}, x_log = []\<rparr>"

text \<open>What a load acquires and does not give back.\<close>

definition leaked :: "dma_env \<Rightarrow> resource set" where
  "leaked e =
     (if \<not> ax_rx e \<or> \<not> ax_tx e then (if ax_tx e then {TxChan} else {}) \<union> (if ax_rx e then {RxChan} else {})
      else if \<not> ax_src e \<or> \<not> ax_dest e then (if ax_src e then {SrcBuf} else {}) \<union> (if ax_dest e then {DestBuf} else {})
      else if \<not> ax_rx_desc e \<or> \<not> ax_tx_desc e \<or> ax_rx_submit e < 0 \<or> ax_tx_submit e < 0
      then {SrcBuf, DestBuf, TxMap, RxMap} else {})"

text \<open>The transfers are started.\<close>

definition started :: "dma_env \<Rightarrow> bool" where
  "started e \<longleftrightarrow> ax_rx e \<and> ax_tx e \<and> ax_src e \<and> ax_dest e \<and> ax_rx_desc e \<and> ax_tx_desc e
     \<and> 0 \<le> ax_rx_submit e \<and> 0 \<le> ax_tx_submit e"

lemma ax_sel [simp]:
  "x_held (ax_note l s) = x_held s" "x_running (ax_note l s) = x_running s" "x_log (ax_note l s) = x_log s @ [l]"
  "x_held (ax_acquire r s) = x_held s \<union> r" "x_running (ax_acquire r s) = x_running s" "x_log (ax_acquire r s) = x_log s"
  by (simp_all add: ax_note_def ax_acquire_def)

lemma prep_result:
  "fst (axidma_prep_buffer desc c s) < 0 \<longleftrightarrow> \<not> desc \<or> c < 0"
  "x_held (snd (axidma_prep_buffer desc c s)) = x_held s" "x_running (snd (axidma_prep_buffer desc c s)) = x_running s"
  by (simp_all add: axidma_prep_buffer_def)

text \<open>The test when it does not get as far as the transfers, and when it does.\<close>

lemma test_no_memory:
  assumes "\<not> ax_src e \<or> \<not> ax_dest e"
  shows "\<exists>s'. axidma_test_transfer e s = Inr s' \<and> x_running s' = x_running s
    \<and> x_held s' = x_held s \<union> ((if ax_src e then {SrcBuf} else {}) \<union> (if ax_dest e then {DestBuf} else {}))"
  using assms by (simp add: axidma_test_transfer_def)

lemma test_no_descriptor:
  assumes "ax_src e" and "ax_dest e" and "\<not> ax_rx_desc e \<or> \<not> ax_tx_desc e \<or> ax_rx_submit e < 0 \<or> ax_tx_submit e < 0"
  shows "\<exists>s'. axidma_test_transfer e s = Inr s' \<and> x_running s' = x_running s
    \<and> x_held s' = x_held s \<union> {SrcBuf, DestBuf, TxMap, RxMap}"
  using assms by (auto simp: axidma_test_transfer_def axidma_prep_buffer_def Let_def)

text \<open>The state in which the memory is given back.\<close>

definition transferred :: "dma_env \<Rightarrow> axidma \<Rightarrow> axidma" where
  "transferred e s = axidma_start_transfer e SrcBuf True (axidma_start_transfer e DestBuf False
     (ax_note ''Starting DMA transfers'' (ax_acquire {TxMap, RxMap} (ax_acquire {SrcBuf, DestBuf} s))))"

lemma transferred_sel:
  "x_held (transferred e s) = x_held s \<union> {SrcBuf, DestBuf, TxMap, RxMap}"
  "x_running s = {} \<Longrightarrow> x_running (transferred e s)
     = (if ax_in_time e \<and> ax_status e \<noteq> InProgress then {} else {SrcBuf}) \<union> (if ax_rx_ended e then {} else {DestBuf})"
  by (auto simp: transferred_def axidma_start_transfer_def Let_def)

lemma transferred_log:
  "''DMA transfer failure'' \<notin> set (x_log s) \<Longrightarrow> ''DMA transfer failure'' \<notin> set (x_log (transferred e s))"
  by (auto simp: transferred_def axidma_start_transfer_def Let_def)

lemma test_started:
  assumes "started e"
  shows "axidma_test_transfer e s =
    bindE (ax_release {RxMap} (transferred e s)) (\<lambda>s.
    bindE (ax_release {TxMap} s) (\<lambda>s.
    let s = (if buffers_differ e [0..<dma_length] then ax_note ''DMA transfer failure'' s else s);
        s = ax_note (''DMA bytes sent: '' @ show_nat dma_length) s
    in bindE (ax_release {SrcBuf} s) (ax_release {DestBuf})))"
  using assms by (simp add: axidma_test_transfer_def started_def axidma_prep_buffer_def transferred_def Let_def insert_commute)

lemma ax_release_ok: "r \<inter> x_running s = {} \<Longrightarrow> ax_release r s = Inr (s\<lparr>x_held := x_held s - r\<rparr>)"
  by (simp add: ax_release_def)

lemma test_ends:
  assumes "started e" and "x_running s = {}" and "''DMA transfer failure'' \<notin> set (x_log s)"
  shows "if ax_rx_ended e \<and> ax_in_time e \<and> ax_status e \<noteq> InProgress
    then \<exists>s'. axidma_test_transfer e s = Inr s' \<and> x_running s' = {} \<and> x_held s' = x_held s - {SrcBuf, DestBuf, TxMap, RxMap}
      \<and> (''DMA transfer failure'' \<in> set (x_log s') \<longleftrightarrow> buffers_differ e [0..<dma_length])
      \<and> (''DMA bytes sent: '' @ show_nat dma_length) \<in> set (x_log s')
    else axidma_test_transfer e s = Inl UseAfterFree"
proof -
  define t where "t = transferred e s"
  have run: "x_running t = (if ax_in_time e \<and> ax_status e \<noteq> InProgress then {} else {SrcBuf})
      \<union> (if ax_rx_ended e then {} else {DestBuf})"
    and held: "x_held t = x_held s \<union> {SrcBuf, DestBuf, TxMap, RxMap}"
    and log: "''DMA transfer failure'' \<notin> set (x_log t)"
    using assms transferred_sel transferred_log by (simp_all add: t_def)
  have maps: "RxMap \<notin> x_running t" "TxMap \<notin> x_running t" using run by auto
  show ?thesis
  proof (cases "ax_rx_ended e \<and> ax_in_time e \<and> ax_status e \<noteq> InProgress")
    case True
    then show ?thesis
      using run held log unfolding test_started [OF assms(1)] t_def [symmetric]
      by (auto simp: ax_release_ok Let_def)
  next
    case False
    then show ?thesis
      using run maps unfolding test_started [OF assms(1)] t_def [symmetric]
      by (auto simp: ax_release_def Let_def)
  qed
qed

text \<open>
  C38. Loading the module, for every answer of the kernel: without both channels it fails with -1 and
  keeps the one it got; in every other case that ends it returns zero, also when the test could
  not be done, and then it keeps the memory it had allocated and mapped. Once the transfers are
  started it returns safely exactly when both have ended: only the sending one is waited for, with
  a time limit, and the memory is freed regardless. Then the failure message is there exactly when
  the bytes delivered are not the numbers from 0 to 32767 modulo 256, and the bytes are said to
  have been sent in either case.
\<close>

theorem axidma_init_outcome:
  "(\<not> started e \<longrightarrow> (\<exists>s'. axidma_init e loaded0 = Inr (if ax_rx e \<and> ax_tx e then 0 else - 1, s')
      \<and> x_held s' = leaked e))
   \<and> (started e \<and> ax_rx_ended e \<and> ax_in_time e \<and> ax_status e \<noteq> InProgress \<longrightarrow>
      (\<exists>s'. axidma_init e loaded0 = Inr (0, s') \<and> x_held s' = {}
        \<and> (''DMA transfer failure'' \<in> set (x_log s') \<longleftrightarrow> (\<exists>i < dma_length. ax_delivered e i \<noteq> of_nat i))
        \<and> ''DMA bytes sent: '' @ show_nat dma_length \<in> set (x_log s')))
   \<and> (started e \<and> \<not> (ax_rx_ended e \<and> ax_in_time e \<and> ax_status e \<noteq> InProgress) \<longrightarrow>
      axidma_init e loaded0 = Inl UseAfterFree)"
proof -
  have mem: "buffers_differ e [0..<dma_length] \<longleftrightarrow> (\<exists>i < dma_length. ax_delivered e i \<noteq> of_nat i)" if "ax_rx_ended e"
    using that by (auto simp: buffers_differ_iff dest_byte_def src_byte_def)
  define s where "s = ax_acquire {TxChan, RxChan} (ax_note ''AXI DMA module initialized'' loaded0)"
  have s: "x_running s = {}" "''DMA transfer failure'' \<notin> set (x_log s)" "x_held s = {TxChan, RxChan}"
    by (simp_all add: s_def loaded0_def)
  have init: "axidma_init e loaded0 = bindE (axidma_test_transfer e s) (\<lambda>s.
      bindE (ax_release {TxChan} s) (\<lambda>s. bindE (ax_release {RxChan} s) (\<lambda>s. Inr (0, s))))" if "ax_tx e" "ax_rx e"
    using that by (simp add: axidma_init_def s_def Let_def insert_commute)
  have fail: "\<exists>s'. axidma_init e loaded0 = Inr (if ax_rx e \<and> ax_tx e then 0 else - 1, s') \<and> x_held s' = leaked e"
    if "\<not> started e"
  proof (cases "ax_rx e \<and> ax_tx e")
    case False
    then show ?thesis by (auto simp: axidma_init_def leaked_def loaded0_def)
  next
    case True
    show ?thesis
    proof (cases "ax_src e \<and> ax_dest e")
      case False
      then obtain s' where "axidma_test_transfer e s = Inr s'" "x_running s' = {}"
        "x_held s' = {TxChan, RxChan} \<union> ((if ax_src e then {SrcBuf} else {}) \<union> (if ax_dest e then {DestBuf} else {}))"
        using test_no_memory [of e s] s by auto
      then show ?thesis using True False init by (auto simp: ax_release_ok leaked_def)
    next
      case alloc: True
      then have "\<not> ax_rx_desc e \<or> \<not> ax_tx_desc e \<or> ax_rx_submit e < 0 \<or> ax_tx_submit e < 0"
        using that True by (auto simp: started_def)
      moreover obtain s' where "axidma_test_transfer e s = Inr s'" "x_running s' = {}"
        "x_held s' = {TxChan, RxChan} \<union> {SrcBuf, DestBuf, TxMap, RxMap}"
        using test_no_descriptor [of e s] calculation s alloc by auto
      ultimately show ?thesis using True alloc init by (auto simp: ax_release_ok leaked_def)
    qed
  qed
  have wait: "\<exists>s'. axidma_init e loaded0 = Inr (0, s') \<and> x_held s' = {}
        \<and> (''DMA transfer failure'' \<in> set (x_log s') \<longleftrightarrow> (\<exists>i < dma_length. ax_delivered e i \<noteq> of_nat i))
        \<and> ''DMA bytes sent: '' @ show_nat dma_length \<in> set (x_log s')"
    if st: "started e" and ok: "ax_rx_ended e" "ax_in_time e" "ax_status e \<noteq> InProgress"
  proof -
    obtain s' where "axidma_test_transfer e s = Inr s'" "x_running s' = {}" "x_held s' = {TxChan, RxChan}"
      "''DMA transfer failure'' \<in> set (x_log s') \<longleftrightarrow> buffers_differ e [0..<dma_length]"
      "''DMA bytes sent: '' @ show_nat dma_length \<in> set (x_log s')"
      using test_ends [OF st s(1,2)] ok s(3) by auto
    then show ?thesis using st init mem [OF ok(1)] by (auto simp: ax_release_ok started_def)
  qed
  have busy: "axidma_init e loaded0 = Inl UseAfterFree"
    if "started e" "\<not> (ax_rx_ended e \<and> ax_in_time e \<and> ax_status e \<noteq> InProgress)"
    using test_ends [OF that(1) s(1,2)] that init by (simp add: started_def)
  show ?thesis using fail wait busy by blast
qed

theorem axidma_init_outcome_witness:
  "\<exists>s'. axidma_init \<lparr>ax_tx = True, ax_rx = False, ax_src = True, ax_dest = True, ax_rx_desc = True, ax_tx_desc = True,
      ax_rx_submit = 1, ax_tx_submit = 1, ax_in_time = True, ax_status = Complete, ax_rx_ended = True,
      ax_delivered = \<lambda>_. 0\<rparr> loaded0 = Inr (- 1, s') \<and> x_held s' = {TxChan}"
  using axidma_init_outcome [of "\<lparr>ax_tx = True, ax_rx = False, ax_src = True, ax_dest = True, ax_rx_desc = True,
      ax_tx_desc = True, ax_rx_submit = 1, ax_tx_submit = 1, ax_in_time = True, ax_status = Complete, ax_rx_ended = True,
      ax_delivered = \<lambda>_. 0\<rparr>"]
  by (simp add: started_def leaked_def)

end
