(* ===== verification/Blink.thy ===== *)
theory Blink
  imports CStrings
begin

text \<open>
  The kernel module \<^verbatim>\<open>apps/dma/LKM/blink.c\<close>: a character device that at most one process is meant to
  have open and whose commands turn a light on and off. Opening is split where another process can
  come in between, after the test of the counter.
\<close>

section \<open>State\<close>

record blink =
  Device_Open :: int
  module_refs :: int
  mmio :: "u32 option"
  major_num :: int
  registered :: bool
  k_out :: "string list"

definition printk_b :: "string \<Rightarrow> blink \<Rightarrow> blink" where
  "printk_b l s = s\<lparr>k_out := k_out s @ [l]\<rparr>"

section \<open>Operations\<close>

definition set_blink_ctrl :: "blink \<Rightarrow> blink res" where
  "set_blink_ctrl s =
     (let s = printk_b ''KERNEL PRINT : set_blink_ctrl '' s
      in case mmio s of None \<Rightarrow> Inl NullDeref | Some _ \<Rightarrow> Inr (s\<lparr>mmio := Some 1\<rparr>))"

definition reset_blink_ctrl :: "blink \<Rightarrow> blink res" where
  "reset_blink_ctrl s =
     (let s = printk_b ''KERNEL PRINT : reset_blink_ctrl '' s
      in case mmio s of None \<Rightarrow> Inl NullDeref | Some _ \<Rightarrow> Inr (s\<lparr>mmio := Some 0\<rparr>))"

text \<open>
  The test of the counter, and what follows when the device was free. Opening and closing print the
  addresses of kernel objects, whose text is an argument.
\<close>

definition open_check :: "blink \<Rightarrow> bool" where
  "open_check s \<longleftrightarrow> Device_Open s = 0"

definition open_take :: "blink \<Rightarrow> blink" where
  "open_take s = s\<lparr>Device_Open := to_i32 (Device_Open s + 1), module_refs := module_refs s + 1\<rparr>"

definition device_open :: "string \<Rightarrow> blink \<Rightarrow> int \<times> blink" where
  "device_open fil s =
     (let s = printk_b (''device_open('' @ fil @ '')'') s
      in if open_check s then (0, open_take s) else (- 16, s))"

definition device_release :: "string \<Rightarrow> string \<Rightarrow> blink \<Rightarrow> int \<times> blink" where
  "device_release inode fil s =
     (0, printk_b (''device_release('' @ inode @ '','' @ fil @ '')'') s\<lparr>
       Device_Open := to_i32 (Device_Open s - 1), module_refs := module_refs s - 1\<rparr>)"

definition device_read :: "blink \<Rightarrow> int \<times> blink" where "device_read s = (0, s)"
definition device_write :: "blink \<Rightarrow> int \<times> blink" where "device_write s = (0, s)"

text \<open>The two commands are distinct numbers that the header builds with \<^verbatim>\<open>_IOR\<close>.\<close>

definition IOR :: "nat \<Rightarrow> nat" where
  "IOR nr = 2 * 2 ^ 30 + 4 * 2 ^ 16 + 100 * 2 ^ 8 + nr"

definition IOCTL_ON_LED :: nat where "IOCTL_ON_LED = IOR 0"
definition IOCTL_STOP_LED :: nat where "IOCTL_STOP_LED = IOR 1"

definition device_ioctl :: "nat \<Rightarrow> blink \<Rightarrow> (int \<times> blink) res" where
  "device_ioctl ioctl_num s =
     (if ioctl_num = IOCTL_ON_LED then bindE (set_blink_ctrl s) (\<lambda>s. Inr (0, s))
      else if ioctl_num = IOCTL_STOP_LED then bindE (reset_blink_ctrl s) (\<lambda>s. Inr (0, s))
      else Inr (0, s))"

text \<open>
  Loading: when the registration fails, the result is a variable that was never set, here the
  argument \<open>ret_val\<close>. Whether the register can be mapped is not checked.
\<close>

definition init_module :: "int \<Rightarrow> int \<Rightarrow> u32 option \<Rightarrow> blink \<Rightarrow> int \<times> blink" where
  "init_module ret_val reg io s =
     (let s = s\<lparr>major_num := reg, registered := reg \<ge> 0\<rparr>
      in if reg < 0
         then (ret_val, printk_b (''Sorry, registering the character device  failed with '' @ show_int ret_val) s)
         else (0, (foldl (\<lambda>s l. printk_b l s) s
                [''Registeration is a success The major device number is '' @ show_int reg @ ''.'',
                 ''If you want to talk to the device driver,'',
                 ''Than create a device file by following command. '',
                 ''mknod /dev/blink_dev c '' @ show_int reg @ '' 0'',
                 ''The device file name is important, because'',
                 ''the ioctl program assumes that's the'',
                 ''file you'll use.''])\<lparr>mmio := io\<rparr>))"

definition cleanup_module :: "blink \<Rightarrow> blink" where
  "cleanup_module s = s\<lparr>mmio := None, registered := False\<rparr>"

section \<open>Processes\<close>

text \<open>
  What each process is doing: it has not opened the device, has passed the test, or has it open.
  The kernel releases a file once for every successful opening.
\<close>

datatype proc = Away | Passed | Holding

type_synonym procs = "nat \<Rightarrow> proc"

text \<open>\<open>at_once\<close>: opening is not interrupted. In \<open>interleaved\<close> it may be, after the test.\<close>

inductive at_once :: "procs \<times> blink \<Rightarrow> procs \<times> blink \<Rightarrow> bool" where
  opens: "f p = Away \<Longrightarrow> device_open fil s = (0, s') \<Longrightarrow> at_once (f, s) (f(p := Holding), s')"
| refused: "f p = Away \<Longrightarrow> device_open fil s = (r, s') \<Longrightarrow> r \<noteq> 0 \<Longrightarrow> at_once (f, s) (f, s')"
| commands: "f p = Holding \<Longrightarrow> device_ioctl cmd s = Inr (r, s') \<Longrightarrow> at_once (f, s) (f, s')"
| closes: "f p = Holding \<Longrightarrow> device_release inode fil s = (r, s') \<Longrightarrow> at_once (f, s) (f(p := Away), s')"

inductive interleaved :: "procs \<times> blink \<Rightarrow> procs \<times> blink \<Rightarrow> bool" where
  checks: "f p = Away \<Longrightarrow> open_check s \<Longrightarrow> interleaved (f, s) (f(p := Passed), s)"
| takes: "f p = Passed \<Longrightarrow> interleaved (f, s) (f(p := Holding), open_take s)"
| leaves: "f p = Holding \<Longrightarrow> device_release inode fil s = (r, s') \<Longrightarrow> interleaved (f, s) (f(p := Away), s')"

text \<open>Nobody, or exactly one process, has the device open, as the counters say.\<close>

definition exclusive :: "procs \<times> blink \<Rightarrow> bool" where
  "exclusive c = (case c of (f, s) \<Rightarrow> Device_Open s = module_refs s
     \<and> ((Device_Open s = 0 \<and> (\<forall>p. f p = Away))
        \<or> (Device_Open s = 1 \<and> (\<exists>p. f p = Holding \<and> (\<forall>q. q \<noteq> p \<longrightarrow> f q = Away)))))"

lemma ioctl_counts: "device_ioctl cmd s = Inr (r, s') \<Longrightarrow> Device_Open s' = Device_Open s \<and> module_refs s' = module_refs s"
  by (auto simp: device_ioctl_def set_blink_ctrl_def reset_blink_ctrl_def printk_b_def res_simps Let_def
      split: if_splits option.splits)

lemma small32: "to_i32 0 = 0" "to_i32 1 = 1" by (simp_all add: to_i32_def)

lemma at_once_exclusive: "at_once a b \<Longrightarrow> exclusive a \<Longrightarrow> exclusive b"
proof (induction rule: at_once.induct)
  case (opens f p fil s s')
  then show ?case by (auto simp: exclusive_def device_open_def open_check_def open_take_def small32 printk_b_def Let_def split: if_splits)
next
  case (refused f p fil s r s')
  then have "s' = printk_b (''device_open('' @ fil @ '')'') s" by (simp add: device_open_def Let_def split: if_splits)
  then have "Device_Open s' = Device_Open s" "module_refs s' = module_refs s" by (simp_all add: printk_b_def)
  then have "exclusive (f, s') = exclusive (f, s)" by (simp only: exclusive_def prod.case)
  with refused(4) show ?case by blast
next
  case (commands f p cmd s r s')
  then have "exclusive (f, s') = exclusive (f, s)" using ioctl_counts [OF commands(2)] by (simp only: exclusive_def prod.case)
  with commands(3) show ?case by blast
next
  case (closes f p inode fil s r s')
  then have one: "Device_Open s = 1" "module_refs s = 1" by (auto simp: exclusive_def)
  then obtain h where "\<forall>q. q \<noteq> h \<longrightarrow> f q = Away" using closes(3) by (auto simp: exclusive_def)
  then have "\<forall>q. q \<noteq> p \<longrightarrow> f q = Away" using closes(1) by (metis proc.distinct(3))
  then show ?case using closes one by (auto simp: exclusive_def device_release_def small32 printk_b_def)
qed

definition blink0 :: blink where
  "blink0 = \<lparr>Device_Open = 0, module_refs = 0, mmio = Some 0, major_num = 250, registered = True, k_out = []\<rparr>"

text \<open>
  C39. The device is exclusive only as long as opening is not interrupted: then at most one process has
  it open, in every order of opening, commands and closing by any number of processes, and the
  counters agree with that; but when a process is interrupted between testing the counter and
  incrementing it, two processes can have the device open at the same time.
\<close>

theorem device_exclusive:
  "(at_once\<^sup>*\<^sup>* (\<lambda>_. Away, blink0) (f, s) \<longrightarrow> (f p = Holding \<and> f q = Holding \<longrightarrow> p = q)
      \<and> Device_Open s = (if \<exists>p. f p = Holding then 1 else 0) \<and> module_refs s = Device_Open s)
   \<and> (\<exists>f s. interleaved\<^sup>*\<^sup>* (\<lambda>_. Away, blink0) (f, s) \<and> f 0 = Holding \<and> f 1 = Holding \<and> Device_Open s = 2)"
proof -
  have "exclusive b" if "at_once\<^sup>*\<^sup>* a b" "exclusive a" for a b
    using that by (induction rule: rtranclp_induct) (auto intro: at_once_exclusive)
  moreover have "exclusive (\<lambda>_. Away, blink0)" by (simp add: exclusive_def blink0_def)
  ultimately have inv: "exclusive (f, s)" if "at_once\<^sup>*\<^sup>* (\<lambda>_. Away, blink0) (f, s)" using that by blast
  have ok: "(f p = Holding \<and> f q = Holding \<longrightarrow> p = q)
      \<and> Device_Open s = (if \<exists>p. f p = Holding then 1 else 0) \<and> module_refs s = Device_Open s"
    if "at_once\<^sup>*\<^sup>* (\<lambda>_. Away, blink0) (f, s)"
    using inv [OF that] by (auto simp: exclusive_def) (metis proc.distinct(3))+
  let ?f0 = "\<lambda>_ :: nat. Away"
  let ?f1 = "?f0(0 := Passed)" let ?f2 = "?f1(1 := Passed)" let ?f3 = "?f2(0 := Holding)" let ?f4 = "?f3(1 := Holding)"
  have "interleaved (?f0, blink0) (?f1, blink0)" "interleaved (?f1, blink0) (?f2, blink0)"
    by (rule interleaved.checks; simp add: open_check_def blink0_def)+
  moreover have "interleaved (?f2, blink0) (?f3, open_take blink0)"
    "interleaved (?f3, open_take blink0) (?f4, open_take (open_take blink0))"
    by (rule interleaved.takes; simp)+
  ultimately have "interleaved\<^sup>*\<^sup>* (?f0, blink0) (?f4, open_take (open_take blink0))"
    by (meson rtranclp.rtrancl_into_rtrancl rtranclp.rtrancl_refl)
  moreover have "Device_Open (open_take (open_take blink0)) = 2" by (simp add: open_take_def blink0_def to_i32_def)
  ultimately have "\<exists>f s. interleaved\<^sup>*\<^sup>* (\<lambda>_. Away, blink0) (f, s) \<and> f 0 = Holding \<and> f 1 = Holding \<and> Device_Open s = 2"
    by (intro exI [of _ ?f4] exI [of _ "open_take (open_take blink0)"]) simp
  with ok show ?thesis by blast
qed

theorem device_exclusive_witness:
  "\<exists>s. at_once\<^sup>*\<^sup>* (\<lambda>_. Away, blink0) ((\<lambda>_. Away)(5 := Holding), s) \<and> Device_Open s = 1"
proof -
  let ?f = "(\<lambda>_. Away)(5 := Holding) :: procs" and ?s = "snd (device_open ''f'' blink0)"
  have "at_once (\<lambda>_. Away, blink0) (?f, ?s)"
    by (rule at_once.opens [where fil = "''f''"]) (simp_all add: device_open_def open_check_def blink0_def printk_b_def Let_def)
  then have run: "at_once\<^sup>*\<^sup>* (\<lambda>_. Away, blink0) (?f, ?s)" by (rule r_into_rtranclp)
  moreover have "\<exists>p. ?f p = Holding" by (rule exI [of _ 5]) simp
  ultimately have "Device_Open ?s = 1" using device_exclusive [of ?f ?s 0 0] by (simp only: if_True)
  with run show ?thesis by blast
qed

end
