(* ===== verification/DmaRegs.thy ===== *)
theory DmaRegs
  imports Capture
begin

unbundle bit_operations_syntax

text \<open>
  The program \<^verbatim>\<open>projects/dma_loopback/dma_test.c\<close>: one copy of 32 bytes by the DMA engine, programmed
  through its registers. The readings that the two status registers give are lists; the program is
  blocked when it polls a register longer than its list. What the engine has put into the
  destination when it is printed at last is an argument.
\<close>

section \<open>State and register access\<close>

definition MM2S_CONTROL_REGISTER :: nat where "MM2S_CONTROL_REGISTER = 0x00"
definition MM2S_STATUS_REGISTER :: nat where "MM2S_STATUS_REGISTER = 0x04"
definition MM2S_START_ADDRESS :: nat where "MM2S_START_ADDRESS = 0x18"
definition MM2S_LENGTH :: nat where "MM2S_LENGTH = 0x28"
definition S2MM_CONTROL_REGISTER :: nat where "S2MM_CONTROL_REGISTER = 0x30"
definition S2MM_STATUS_REGISTER :: nat where "S2MM_STATUS_REGISTER = 0x34"
definition S2MM_DESTINATION_ADDRESS :: nat where "S2MM_DESTINATION_ADDRESS = 0x48"
definition S2MM_LENGTH :: nat where "S2MM_LENGTH = 0x58"

text \<open>Registers are numbered as the array is, in words.\<close>

record engine =
  g_reads :: "nat \<Rightarrow> u32 list"
  g_writes :: "(nat \<times> u32) list"
  g_lines :: "string list"

definition g_say :: "string \<Rightarrow> engine \<Rightarrow> engine" where
  "g_say l s = s\<lparr>g_lines := g_lines s @ [l]\<rparr>"

definition dma_set :: "nat \<Rightarrow> u32 \<Rightarrow> engine \<Rightarrow> engine" where
  "dma_set off v s = s\<lparr>g_writes := g_writes s @ [(drop_bit 2 off, v)]\<rparr>"

definition dma_get :: "nat \<Rightarrow> engine \<Rightarrow> (u32 \<times> engine) res" where
  "dma_get off s =
     (let r = drop_bit 2 off
      in case g_reads s r of
           [] \<Rightarrow> Inl Blocked
         | v # vs \<Rightarrow> Inr (v, s\<lparr>g_reads := (g_reads s)(r := vs)\<rparr>))"

section \<open>Printing\<close>

definition zeros :: "nat \<Rightarrow> string \<Rightarrow> string" where
  "zeros w t = replicate (w - length t) CHR ''0'' @ t"

definition status_words :: "u32 \<Rightarrow> string" where
  "status_words v =
     (if v AND 0x00000001 \<noteq> 0 then '' halted'' else '' running'') @
     (if v AND 0x00000002 \<noteq> 0 then '' idle'' else '''') @
     (if v AND 0x00000008 \<noteq> 0 then '' SGIncld'' else '''') @
     (if v AND 0x00000010 \<noteq> 0 then '' DMAIntErr'' else '''') @
     (if v AND 0x00000020 \<noteq> 0 then '' DMASlvErr'' else '''') @
     (if v AND 0x00000040 \<noteq> 0 then '' DMADecErr'' else '''') @
     (if v AND 0x00000100 \<noteq> 0 then '' SGIntErr'' else '''') @
     (if v AND 0x00000200 \<noteq> 0 then '' SGSlvErr'' else '''') @
     (if v AND 0x00000400 \<noteq> 0 then '' SGDecErr'' else '''') @
     (if v AND 0x00001000 \<noteq> 0 then '' IOC_Irq'' else '''') @
     (if v AND 0x00002000 \<noteq> 0 then '' Dly_Irq'' else '''') @
     (if v AND 0x00004000 \<noteq> 0 then '' Err_Irq'' else '''')"

definition status_line :: "string \<Rightarrow> nat \<Rightarrow> u32 \<Rightarrow> string" where
  "status_line title off v =
     title @ '' status (0x'' @ zeros 8 (show_hex (unat v)) @ ''@0x'' @ zeros 2 (show_hex off) @ ''):'' @ status_words v"

definition dma_s2mm_status :: "engine \<Rightarrow> engine res" where
  "dma_s2mm_status s =
     bindE (dma_get S2MM_STATUS_REGISTER s) (\<lambda>(v, s).
     Inr (g_say (status_line ''Stream to memory-mapped'' S2MM_STATUS_REGISTER v) s))"

definition dma_mm2s_status :: "engine \<Rightarrow> engine res" where
  "dma_mm2s_status s =
     bindE (dma_get MM2S_STATUS_REGISTER s) (\<lambda>(v, s).
     Inr (g_say (status_line ''Memory-mapped to stream'' MM2S_STATUS_REGISTER v) s))"

definition memdump :: "(nat \<Rightarrow> u8) \<Rightarrow> nat \<Rightarrow> string" where
  "memdump p byte_count =
     concat (map (\<lambda>offset. zeros 2 (show_hex (unat (p offset))) @ (if offset mod 4 = 3 then '' '' else ''''))
       [0..<byte_count])"

section \<open>Waiting\<close>

text \<open>A transfer counts as done when the bits 12 and 1 of its status are set.\<close>

definition transfer_done :: "u32 \<Rightarrow> bool" where
  "transfer_done v \<longleftrightarrow> \<not> (v AND push_bit 12 1 = 0 \<or> v AND push_bit 1 1 = 0)"

lemma status_reads_less:
  "dma_s2mm_status s = Inr s' \<Longrightarrow> length (g_reads s' r) \<le> length (g_reads s r)"
  "dma_mm2s_status s = Inr s' \<Longrightarrow> length (g_reads s' r) \<le> length (g_reads s r)"
  by (auto simp: dma_s2mm_status_def dma_mm2s_status_def dma_get_def g_say_def res_simps Let_def split: list.splits)

function poll_done :: "nat \<Rightarrow> engine \<Rightarrow> engine res" where
  "poll_done off s =
     bindE (dma_get off s) (\<lambda>(v, s1).
     if transfer_done v then Inr s1
     else bindE (dma_s2mm_status s1) (\<lambda>s2. bindE (dma_mm2s_status s2) (poll_done off)))"
  by auto
termination
proof (relation "measure (\<lambda>(off, s). length (g_reads s (drop_bit 2 off)))", simp)
  fix off s x v s1 s2 s3
  assume "dma_get off s = Inr x" "(v, s1) = x" "dma_s2mm_status s1 = Inr s2" "dma_mm2s_status s2 = Inr s3"
  then have "length (g_reads s3 (drop_bit 2 off)) < length (g_reads s (drop_bit 2 off))"
    using status_reads_less(1) [of s1 s2 "drop_bit 2 off"] status_reads_less(2) [of s2 s3 "drop_bit 2 off"]
    by (auto simp: dma_get_def Let_def split: list.splits)
  then show "((off, s3), (off, s)) \<in> measure (\<lambda>(off, s). length (g_reads s (drop_bit 2 off)))" by simp
qed

declare poll_done.simps [simp del]

definition dma_mm2s_sync :: "engine \<Rightarrow> engine res" where "dma_mm2s_sync = poll_done MM2S_STATUS_REGISTER"
definition dma_s2mm_sync :: "engine \<Rightarrow> engine res" where "dma_s2mm_sync = poll_done S2MM_STATUS_REGISTER"

section \<open>The program\<close>

text \<open>
  \<open>maps_ok\<close>: the three mappings succeeded; otherwise the first access to the one that failed crashes.
\<close>

definition both_status :: "engine \<Rightarrow> engine res" where
  "both_status s = bindE (dma_s2mm_status s) dma_mm2s_status"

definition program_engine :: "(nat \<Rightarrow> u8) \<Rightarrow> engine \<Rightarrow> engine res" where
  "program_engine source s =
     (let s = g_say (''Source memory block:      '' @ memdump (put_le 4 0 0x11223344 source) 32) s;
          s = g_say (''Destination memory block: '' @ memdump (\<lambda>_. 0) 32) s;
          s = g_say ''Resetting DMA'' s
      in bindE (both_status (dma_set MM2S_CONTROL_REGISTER 4 (dma_set S2MM_CONTROL_REGISTER 4 s))) (\<lambda>s.
         bindE (both_status (dma_set MM2S_CONTROL_REGISTER 0 (dma_set S2MM_CONTROL_REGISTER 0
           (g_say ''Halting DMA'' s)))) (\<lambda>s.
         bindE (dma_s2mm_status (dma_set S2MM_DESTINATION_ADDRESS 0x0f000000
           (g_say ''Writing destination address'' s))) (\<lambda>s.
         bindE (dma_mm2s_status (dma_set MM2S_START_ADDRESS 0x0e000000
           (g_say ''Writing source address...'' s))) (\<lambda>s.
         bindE (dma_s2mm_status (dma_set S2MM_CONTROL_REGISTER 0xf001
           (g_say ''Starting S2MM channel with all interrupts masked...'' s))) (\<lambda>s.
         bindE (dma_mm2s_status (dma_set MM2S_CONTROL_REGISTER 0xf001
           (g_say ''Starting MM2S channel with all interrupts masked...'' s))) (\<lambda>s.
         bindE (dma_s2mm_status (dma_set S2MM_LENGTH 32
           (g_say ''Writing S2MM transfer length...'' s))) (\<lambda>s.
         dma_mm2s_status (dma_set MM2S_LENGTH 32 (g_say ''Writing MM2S transfer length...'' s))))))))))"

definition dma_test_main :: "bool \<Rightarrow> (nat \<Rightarrow> u8) \<Rightarrow> (nat \<Rightarrow> u8) \<Rightarrow> engine \<Rightarrow> engine res" where
  "dma_test_main maps_ok source delivered s =
     (if \<not> maps_ok then Inl OutOfBounds
      else bindE (program_engine source s) (\<lambda>s.
           bindE (dma_mm2s_sync (g_say ''Waiting for MM2S synchronization...'' s)) (\<lambda>s.
           bindE (dma_s2mm_sync (g_say ''Waiting for S2MM sychronization...'' s)) (\<lambda>s.
           bindE (both_status s) (\<lambda>s.
           Inr (g_say (''Destination memory block: '' @ memdump delivered 32) s))))))"

section \<open>When it ends\<close>

text \<open>Register 1 is the status of the sending, 13 that of the receiving channel.\<close>

lemma regs: "drop_bit 2 MM2S_STATUS_REGISTER = 1" "drop_bit 2 S2MM_STATUS_REGISTER = 13"
  by (simp_all add: MM2S_STATUS_REGISTER_def S2MM_STATUS_REGISTER_def drop_bit_eq_div)

text \<open>Both lines together take one reading of each register.\<close>

lemma status_eq:
  "dma_s2mm_status s = (case g_reads s 13 of [] \<Rightarrow> Inl Blocked | v # vs \<Rightarrow>
     Inr (g_say (status_line ''Stream to memory-mapped'' S2MM_STATUS_REGISTER v) (s\<lparr>g_reads := (g_reads s)(13 := vs)\<rparr>)))"
  "dma_mm2s_status s = (case g_reads s 1 of [] \<Rightarrow> Inl Blocked | v # vs \<Rightarrow>
     Inr (g_say (status_line ''Memory-mapped to stream'' MM2S_STATUS_REGISTER v) (s\<lparr>g_reads := (g_reads s)(1 := vs)\<rparr>)))"
  by (simp_all add: dma_s2mm_status_def dma_mm2s_status_def dma_get_def regs Let_def split: list.splits)

lemma g_say_sel [simp]: "g_reads (g_say l s) = g_reads s" "g_writes (g_say l s) = g_writes s"
  by (simp_all add: g_say_def)

lemma both_blocked:
  "g_reads s 13 = [] \<or> g_reads s 1 = [] \<Longrightarrow>
    bindE (dma_s2mm_status s) (\<lambda>s2. bindE (dma_mm2s_status s2) f) = Inl Blocked"
  by (auto simp: status_eq split: list.splits)

lemma both_read:
  assumes "g_reads s 13 \<noteq> []" "g_reads s 1 \<noteq> []"
  shows "\<exists>s2 s3. dma_s2mm_status s = Inr s2 \<and> dma_mm2s_status s2 = Inr s3
    \<and> g_reads s3 13 = tl (g_reads s 13) \<and> g_reads s3 1 = tl (g_reads s 1) \<and> g_writes s3 = g_writes s"
  using assms by (auto simp: status_eq neq_Nil_conv)

text \<open>What polling takes from the two lists: the register polled, and the other one.\<close>

fun polled :: "u32 list \<Rightarrow> u32 list \<Rightarrow> (u32 list \<times> u32 list) option" where
  "polled [] others = None"
| "polled (v # own) others =
     (if transfer_done v then Some (own, others)
      else case (own, others) of (w # own', x # others') \<Rightarrow> polled own' others' | _ \<Rightarrow> None)"

lemma polled_ends:
  "\<forall>i \<ge> k. i < length own \<longrightarrow> transfer_done (own ! i) \<Longrightarrow> 2 * k + 1 \<le> length own \<Longrightarrow> k \<le> length others \<Longrightarrow>
    \<exists>a b. polled own others = Some (drop a own, drop b others) \<and> a \<le> 2 * k + 1 \<and> b \<le> k"
proof (induction own others arbitrary: k rule: polled.induct)
  case (1 others)
  then show ?case by simp
next
  case (2 v own others)
  show ?case
  proof (cases "transfer_done v")
    case True
    then show ?thesis by (intro exI [of _ 1] exI [of _ 0]) simp
  next
    case False
    then have "k \<noteq> 0" using 2(2) [rule_format, of 0] by auto
    then obtain j where k: "k = Suc j" using not0_implies_Suc by blast
    then obtain w own' x others' where parts: "own = w # own'" "others = x # others'"
      using 2(3,4) by (cases own; cases others) auto
    have "\<forall>i \<ge> j. i < length own' \<longrightarrow> transfer_done (own' ! i)"
    proof (intro allI impI)
      fix i assume "j \<le> i" "i < length own'"
      then show "transfer_done (own' ! i)" using 2(2) [rule_format, of "Suc (Suc i)"] parts k by simp
    qed
    then obtain a b where "polled own' others' = Some (drop a own', drop b others')" "a \<le> 2 * j + 1" "b \<le> j"
      using 2(1) [OF False refl parts, of j] 2(3,4) parts k by auto
    then show ?thesis using False parts k by (intro exI [of _ "Suc (Suc a)"] exI [of _ "Suc b"]) simp
  qed
qed

lemma polled_some: "polled own others = Some p \<Longrightarrow> \<exists>v \<in> set own. transfer_done v"
  by (induction own others rule: polled.induct) (auto split: if_splits list.splits)

lemma polled_rest: "polled own others = Some (a, b) \<Longrightarrow> set b \<subseteq> set others"
  by (induction own others rule: polled.induct) (auto split: if_splits list.splits)

text \<open>\<open>other r\<close> is the status register that is not \<open>r\<close>.\<close>

definition other :: "nat \<Rightarrow> nat" where "other r = (if r = 1 then 13 else 1)"

lemma other_vals: "other 1 = 13" "other 13 = 1" by (simp_all add: other_def)

lemma poll_polled:
  assumes "drop_bit 2 off \<in> {1, 13}"
  shows "(case polled (g_reads s (drop_bit 2 off)) (g_reads s (other (drop_bit 2 off))) of
      None \<Rightarrow> poll_done off s = Inl Blocked
    | Some (a, b) \<Rightarrow> \<exists>s'. poll_done off s = Inr s' \<and> g_reads s' (drop_bit 2 off) = a
        \<and> g_reads s' (other (drop_bit 2 off)) = b \<and> g_writes s' = g_writes s)"
  using assms
proof (induction off s rule: poll_done.induct)
  case (1 off s)
  define r where "r = drop_bit 2 off"
  have r: "r \<in> {1, 13}" "other r \<noteq> r" using 1(2) by (auto simp: r_def other_def)
  show ?case
  proof (cases "g_reads s r")
    case Nil
    then show ?thesis by (subst poll_done.simps) (simp add: dma_get_def Let_def r_def)
  next
    case (Cons v own)
    define s1 where "s1 = s\<lparr>g_reads := (g_reads s)(r := own)\<rparr>"
    have get: "dma_get off s = Inr (v, s1)" using Cons by (simp add: dma_get_def s1_def r_def)
    have s1: "g_reads s1 r = own" "g_reads s1 (other r) = g_reads s (other r)" "g_writes s1 = g_writes s"
      using r(2) by (simp_all add: s1_def)
    show ?thesis
    proof (cases "transfer_done v")
      case True
      then show ?thesis using Cons get s1 by (subst poll_done.simps) (simp add: r_def)
    next
      case False
      have step: "poll_done off s = bindE (dma_s2mm_status s1) (\<lambda>s2. bindE (dma_mm2s_status s2) (poll_done off))"
        using get False by (subst poll_done.simps) simp
      show ?thesis
      proof (cases "own = [] \<or> g_reads s (other r) = []")
        case True
        then have "poll_done off s = Inl Blocked"
          using both_blocked [of s1 "poll_done off"] r s1 step by (auto simp: other_def)
        then show ?thesis using Cons False True by (auto simp: r_def split: list.splits)
      next
        case more: False
        then obtain w own' x others' where parts: "own = w # own'" "g_reads s (other r) = x # others'"
          by (meson neq_Nil_conv)
        then obtain s2 s3 where s3: "dma_s2mm_status s1 = Inr s2" "dma_mm2s_status s2 = Inr s3"
          "g_reads s3 r = own'" "g_reads s3 (other r) = others'" "g_writes s3 = g_writes s"
          using both_read [of s1] r s1 by (auto simp: other_def)
        then show ?thesis
          using 1(1) [OF get refl False s3(1,2)] 1(2) step Cons False parts by (auto simp: r_def split: option.splits prod.splits)
      qed
    qed
  qed
qed

text \<open>
  What the engine is told, as words of its register file: reset and halt both channels, then the
  destination, the source, start both, the receiving one first, and the lengths in the same order.
\<close>

definition transfer_program :: "(nat \<times> u32) list" where
  "transfer_program = [(12, 4), (0, 4), (12, 0), (0, 0), (18, 0x0f000000), (6, 0x0e000000),
     (12, 0xf001), (0, 0xf001), (22, 32), (10, 32)]"

lemma program_reads:
  "5 \<le> length (g_reads s 13) \<and> 5 \<le> length (g_reads s 1) \<Longrightarrow>
    \<exists>s'. program_engine source s = Inr s' \<and> g_reads s' 13 = drop 5 (g_reads s 13) \<and> g_reads s' 1 = drop 5 (g_reads s 1)
      \<and> g_writes s' = g_writes s @ transfer_program"
  "\<not> (5 \<le> length (g_reads s 13) \<and> 5 \<le> length (g_reads s 1)) \<Longrightarrow> program_engine source s = Inl Blocked"
  by (auto simp: program_engine_def both_status_def status_eq dma_set_def transfer_program_def Let_def drop_bit_eq_div
      MM2S_CONTROL_REGISTER_def MM2S_START_ADDRESS_def MM2S_LENGTH_def S2MM_CONTROL_REGISTER_def
      S2MM_DESTINATION_ADDRESS_def S2MM_LENGTH_def split: list.splits)

lemma sync_polled:
  "(case polled (g_reads s 1) (g_reads s 13) of None \<Rightarrow> dma_mm2s_sync s = Inl Blocked
    | Some (a, b) \<Rightarrow> \<exists>s'. dma_mm2s_sync s = Inr s' \<and> g_reads s' 1 = a \<and> g_reads s' 13 = b \<and> g_writes s' = g_writes s)"
  "(case polled (g_reads s 13) (g_reads s 1) of None \<Rightarrow> dma_s2mm_sync s = Inl Blocked
    | Some (a, b) \<Rightarrow> \<exists>s'. dma_s2mm_sync s = Inr s' \<and> g_reads s' 13 = a \<and> g_reads s' 1 = b \<and> g_writes s' = g_writes s)"
  using poll_polled [of MM2S_STATUS_REGISTER s] poll_polled [of S2MM_STATUS_REGISTER s]
  unfolding regs other_vals dma_mm2s_sync_def dma_s2mm_sync_def by blast+

lemma both_reads:
  "g_reads s 13 \<noteq> [] \<and> g_reads s 1 \<noteq> [] \<Longrightarrow> \<exists>s'. both_status s = Inr s' \<and> g_writes s' = g_writes s"
  "\<not> (g_reads s 13 \<noteq> [] \<and> g_reads s 1 \<noteq> []) \<Longrightarrow> both_status s = Inl Blocked"
  by (auto simp: both_status_def status_eq split: list.splits)

text \<open>Whether the readings let the program end, and the run in either case.\<close>

definition enough :: "u32 list \<Rightarrow> u32 list \<Rightarrow> bool" where
  "enough rs ms \<longleftrightarrow> 5 \<le> length rs \<and> 5 \<le> length ms \<and>
     (\<exists>a b c d. polled (drop 5 ms) (drop 5 rs) = Some (a, b) \<and> polled b a = Some (c, d) \<and> c \<noteq> [] \<and> d \<noteq> [])"

definition engine0 :: "u32 list \<Rightarrow> u32 list \<Rightarrow> engine" where
  "engine0 rs ms = \<lparr>g_reads = (\<lambda>_. [])(13 := rs, 1 := ms), g_writes = [], g_lines = []\<rparr>"

lemma main_blocked:
  assumes "\<not> enough rs ms"
  shows "dma_test_main True source delivered (engine0 rs ms) = Inl Blocked"
proof (cases "5 \<le> length rs \<and> 5 \<le> length ms")
  case False
  then show ?thesis using program_reads(2) [of "engine0 rs ms" source] by (simp add: dma_test_main_def engine0_def)
next
  case True
  then obtain s where s: "program_engine source (engine0 rs ms) = Inr s" "g_reads s 13 = drop 5 rs" "g_reads s 1 = drop 5 ms"
    using program_reads(1) [of "engine0 rs ms" source] by (auto simp: engine0_def)
  let ?w = "\<lambda>s. g_say ''Waiting for MM2S synchronization...'' s" and ?v = "\<lambda>s. g_say ''Waiting for S2MM sychronization...'' s"
  show ?thesis
  proof (cases "polled (drop 5 ms) (drop 5 rs)")
    case None
    then show ?thesis using sync_polled(1) [of "?w s"] s by (simp add: dma_test_main_def)
  next
    case (Some p)
    then obtain a b s2 where one: "polled (drop 5 ms) (drop 5 rs) = Some (a, b)" "dma_mm2s_sync (?w s) = Inr s2"
      "g_reads s2 1 = a" "g_reads s2 13 = b"
      using sync_polled(1) [of "?w s"] s by (cases p) auto
    show ?thesis
    proof (cases "polled b a")
      case None
      then show ?thesis using sync_polled(2) [of "?v s2"] s one by (simp add: dma_test_main_def)
    next
      case (Some q)
      then obtain c d s3 where two: "polled b a = Some (c, d)" "dma_s2mm_sync (?v s2) = Inr s3"
        "g_reads s3 13 = c" "g_reads s3 1 = d"
        using sync_polled(2) [of "?v s2"] one by (cases q) auto
      then have "\<not> (c \<noteq> [] \<and> d \<noteq> [])" using assms one True by (auto simp: enough_def)
      then show ?thesis using both_reads(2) [of s3] s one two by (simp add: dma_test_main_def)
    qed
  qed
qed

lemma main_returns:
  assumes "enough rs ms"
  shows "\<exists>s'. dma_test_main True source delivered (engine0 rs ms) = Inr s' \<and> g_writes s' = transfer_program
    \<and> last (g_lines s') = ''Destination memory block: '' @ memdump delivered 32"
proof -
  let ?w = "\<lambda>s. g_say ''Waiting for MM2S synchronization...'' s" and ?v = "\<lambda>s. g_say ''Waiting for S2MM sychronization...'' s"
  obtain a b c d where e: "polled (drop 5 ms) (drop 5 rs) = Some (a, b)" "polled b a = Some (c, d)" "c \<noteq> []" "d \<noteq> []"
    "5 \<le> length rs" "5 \<le> length ms"
    using assms by (auto simp: enough_def)
  then obtain s where s: "program_engine source (engine0 rs ms) = Inr s" "g_reads s 13 = drop 5 rs" "g_reads s 1 = drop 5 ms"
    "g_writes s = transfer_program"
    using program_reads(1) [of "engine0 rs ms" source] by (auto simp: engine0_def)
  obtain s2 where one: "dma_mm2s_sync (?w s) = Inr s2" "g_reads s2 1 = a" "g_reads s2 13 = b" "g_writes s2 = transfer_program"
    using sync_polled(1) [of "?w s"] s e by auto
  obtain s3 where two: "dma_s2mm_sync (?v s2) = Inr s3" "g_reads s3 13 = c" "g_reads s3 1 = d" "g_writes s3 = transfer_program"
    using sync_polled(2) [of "?v s2"] one e by auto
  obtain s4 where "both_status s3 = Inr s4" "g_writes s4 = transfer_program"
    using both_reads(1) [of s3] two e by auto
  then show ?thesis using s one two by (simp add: dma_test_main_def g_say_def)
qed

lemma enough_done:
  assumes "\<forall>i \<ge> k. i < length rs \<longrightarrow> transfer_done (rs ! i)" "\<forall>i \<ge> k. i < length ms \<longrightarrow> transfer_done (ms ! i)"
    and "3 * k + 7 \<le> length rs" "3 * k + 7 \<le> length ms"
  shows "enough rs ms"
proof -
  have "\<exists>a b. polled (drop 5 ms) (drop 5 rs) = Some (drop a (drop 5 ms), drop b (drop 5 rs)) \<and> a \<le> 2 * k + 1 \<and> b \<le> k"
    using assms by (intro polled_ends) auto
  then obtain a b where one: "polled (drop 5 ms) (drop 5 rs) = Some (drop (a + 5) ms, drop (b + 5) rs)" "a \<le> 2 * k + 1" "b \<le> k"
    by auto
  have "\<exists>c d. polled (drop (b + 5) rs) (drop (a + 5) ms) = Some (drop c (drop (b + 5) rs), drop d (drop (a + 5) ms))
      \<and> c \<le> 2 * k + 1 \<and> d \<le> k"
    using assms one by (intro polled_ends) auto
  then obtain c d where "polled (drop (b + 5) rs) (drop (a + 5) ms) = Some (drop (c + (b + 5)) rs, drop (d + (a + 5)) ms)"
      "c \<le> 2 * k + 1" "d \<le> k"
    by auto
  then show ?thesis using one assms by (auto simp: enough_def)
qed

text \<open>
  C36. The copy, for all readings of the two status registers. When the program returns it has
  written the engine's registers exactly in the order of \<open>transfer_program\<close>, has seen a status
  with the bits 12 and 1 set for either channel, and prints the destination at last. It returns
  whenever both transfers are done from some reading on; it waits for ever when one of them never
  is, whatever errors the status shows.
\<close>

theorem dma_copy_ends:
  "(\<forall>s'. dma_test_main True source delivered (engine0 rs ms) = Inr s' \<longrightarrow> g_writes s' = transfer_program
      \<and> last (g_lines s') = ''Destination memory block: '' @ memdump delivered 32
      \<and> (\<exists>v \<in> set rs. transfer_done v) \<and> (\<exists>v \<in> set ms. transfer_done v))
   \<and> ((\<forall>v \<in> set rs. \<not> transfer_done v) \<or> (\<forall>v \<in> set ms. \<not> transfer_done v) \<longrightarrow>
      dma_test_main True source delivered (engine0 rs ms) = Inl Blocked)
   \<and> ((\<forall>i \<ge> k. i < length rs \<longrightarrow> transfer_done (rs ! i)) \<and> (\<forall>i \<ge> k. i < length ms \<longrightarrow> transfer_done (ms ! i))
      \<and> 3 * k + 7 \<le> length rs \<and> 3 * k + 7 \<le> length ms \<longrightarrow>
      (\<exists>s'. dma_test_main True source delivered (engine0 rs ms) = Inr s'))"
proof -
  have seen: "(\<exists>v \<in> set rs. transfer_done v) \<and> (\<exists>v \<in> set ms. transfer_done v)" if "enough rs ms"
  proof -
    from that obtain a b c d where e: "polled (drop 5 ms) (drop 5 rs) = Some (a, b)" "polled b a = Some (c, d)"
      by (auto simp: enough_def)
    then show ?thesis using polled_some [OF e(1)] polled_some [OF e(2)] polled_rest [OF e(1)] by (meson in_set_dropD subsetD)
  qed
  consider "enough rs ms" | "\<not> enough rs ms" by blast
  then show ?thesis
  proof cases
    case 1
    then show ?thesis using main_returns [OF 1, of source delivered] seen by auto
  next
    case 2
    then show ?thesis using main_blocked [OF 2] enough_done [of k rs ms] by auto
  qed
qed

theorem dma_copy_ends_witness:
  "\<exists>s'. dma_test_main True (\<lambda>_. 0) (\<lambda>_. 7) (engine0 (replicate 7 0x1002) (replicate 7 0x1002)) = Inr s'"
  using dma_copy_ends [of "\<lambda>_. 0" "\<lambda>_. 7" "replicate 7 0x1002" "replicate 7 0x1002" 0]
  by (simp add: transfer_done_def push_bit_eq_mult)

end
