(* ===== verification/Acqua.thy ===== *)
theory Acqua
  imports CStrings
begin

unbundle bit_operations_syntax

text \<open>
  The byte layer of the earlier acquisition program \<^verbatim>\<open>projects/lago_test/lago.c\<close>: blocks of bytes that
  come over a USB channel are put into a circular buffer, a run of four bytes 255 gives the
  alignment of the words, and the words that are complete are taken out. What is done with a word is
  not part of this theory: the words a call takes out are its result.
\<close>

section \<open>Unsigned arithmetic without wrapping\<close>

lemma u32_less: "unat (w :: u32) < 2 ^ 32"
  using unsigned_less [of w] by simp

lemma u32_add: "unat a + k < 2 ^ 32 \<Longrightarrow> unat (a + of_nat k :: u32) = unat a + k"
  by (simp add: unat_word_ariths unat_of_nat)

lemma u32_sub: "k \<le> unat a \<Longrightarrow> k < 2 ^ 32 \<Longrightarrow> unat (a - of_nat k :: u32) = unat a - k"
  by (simp add: unat_sub_if' word_le_nat_alt unat_of_nat)

lemma u32_add1: "unat a + 1 < 2 ^ 32 \<Longrightarrow> unat (a + 1 :: u32) = unat a + 1"
  using u32_add [of a 1] by simp

section \<open>The circular buffer\<close>

definition CIRCSIZE :: nat where "CIRCSIZE = 65536"

record circ =
  circbuf :: "nat \<Rightarrow> u8"
  bufwrite :: u32
  bufread :: u32
  bufsync :: bool

text \<open>
  \<^verbatim>\<open>flReadChannel\<close> stores \<open>cb\<close> bytes, here those of \<open>hw\<close>; an access past the end of the buffer is a fault.
\<close>

definition read_channel :: "nat \<Rightarrow> (nat \<Rightarrow> u8) \<Rightarrow> circ \<Rightarrow> circ res" where
  "read_channel cb hw s =
     (let p = unat (bufwrite s) mod CIRCSIZE
      in if p + cb \<le> CIRCSIZE
         then Inr (s\<lparr>circbuf := (\<lambda>i. if p \<le> i \<and> i < p + cb then hw (i - p) else circbuf s i),
                     bufwrite := bufwrite s + of_nat cb\<rparr>)
         else Inl OutOfBounds)"

definition byte_at :: "circ \<Rightarrow> u32 \<Rightarrow> u8" where
  "byte_at s i = circbuf s (unat i mod CIRCSIZE)"

text \<open>Looking for the alignment: \<open>ok\<close> counts the bytes 255 in a row.\<close>

function find_sync :: "nat \<Rightarrow> circ \<Rightarrow> circ" where
  "find_sync ok s =
     (if bufread s < bufwrite s - 4 \<and> \<not> bufsync s then
        let ok = (if byte_at s (bufread s) = 0xff then ok + 1 else 0)
        in find_sync ok (s\<lparr>bufread := bufread s + 1, bufsync := if ok = 4 then True else bufsync s\<rparr>)
      else s)"
  by pat_completeness auto
termination
proof (relation "measure (\<lambda>(ok, s). unat (bufwrite s - 4) - unat (bufread s))", simp)
  fix ok :: nat and s :: circ and x
  assume "bufread s < bufwrite s - 4 \<and> \<not> bufsync s"
  then have less: "unat (bufread s) < unat (bufwrite s - 4)" by (simp add: word_less_nat_alt)
  then have "unat (bufread s + 1) = unat (bufread s) + 1"
    by (intro u32_add1) (use u32_less [of "bufwrite s - 4"] in linarith)
  then show "((x, s\<lparr>bufread := bufread s + 1, bufsync := if x = 4 then True else bufsync s\<rparr>), ok, s)
      \<in> measure (\<lambda>(ok, s). unat (bufwrite s - 4) - unat (bufread s))"
    using less by simp
qed

declare find_sync.simps [simp del]

definition rebase :: "circ \<Rightarrow> circ" where
  "rebase s =
     (if bufread s > 2 * of_nat CIRCSIZE
      then s\<lparr>bufread := bufread s - of_nat CIRCSIZE, bufwrite := bufwrite s - of_nat CIRCSIZE\<rparr>
      else s)"

definition be32 :: "u8 \<Rightarrow> u8 \<Rightarrow> u8 \<Rightarrow> u8 \<Rightarrow> u32" where
  "be32 a b c d = push_bit 24 (ucast a) + push_bit 16 (ucast b) + push_bit 8 (ucast c) + ucast d"

definition word_at :: "circ \<Rightarrow> u32" where
  "word_at s = be32 (byte_at s (bufread s)) (byte_at s (bufread s + 1)) (byte_at s (bufread s + 2))
     (byte_at s (bufread s + 3))"

text \<open>
  Taking out words. With fewer than four bytes ever written the bound of the loop wraps and the loop
  might not end: then there is no result.
\<close>

partial_function (option) drain :: "circ \<Rightarrow> (u32 list \<times> circ) option" where
  "drain s =
     (if bufread s < bufwrite s - 4
      then Option.bind (drain (s\<lparr>bufread := bufread s + 4\<rparr>)) (\<lambda>(ws, s'). Some (word_at s # ws, s'))
      else Some ([], s))"

text \<open>
  One call. Without \<open>clean\<close> the status byte says whether a block of 16384 bytes is there; a cleaning
  call reads 32768 bytes from the channel named. With \<open>wr\<close> zero what was read is thrown away. A
  transfer that fails ends the program.
\<close>

definition BLOCK :: nat where "BLOCK = 16384"

definition acqua_read :: "int \<Rightarrow> int \<Rightarrow> u8 \<Rightarrow> (nat \<Rightarrow> u8) option \<Rightarrow> circ \<Rightarrow> (int \<times> u32 list \<times> circ) res" where
  "acqua_read wr clean idData hw s =
     (if clean = 0 \<and> idData AND 128 \<noteq> 128 then Inr (0, [], s)
      else let cb = (if clean = 0 then BLOCK else 2 * BLOCK)
      in case hw of
           None \<Rightarrow> Inl (Exit 1)
         | Some f \<Rightarrow>
             bindE (read_channel cb f s) (\<lambda>s.
             let s = (if wr = 0 then s\<lparr>bufread := bufwrite s\<rparr> else s);
                 s = (if bufsync s then s else find_sync 0 s)
             in case drain (rebase s) of
                  None \<Rightarrow> Inl Blocked
                | Some (ws, s) \<Rightarrow> Inr (1, ws, s)))"

text \<open>A run: the cleaning call of the start, and then one block after the other.\<close>

fun acqua_blocks :: "(nat \<Rightarrow> u8) list \<Rightarrow> circ \<Rightarrow> (u32 list \<times> circ) res" where
  "acqua_blocks [] s = Inr ([], s)"
| "acqua_blocks (f # fs) s =
     bindE (acqua_read 1 0 128 (Some f) s) (\<lambda>(_, ws, s).
     bindE (acqua_blocks fs s) (\<lambda>(vs, s). Inr (ws @ vs, s)))"

section \<open>The specification: bytes waiting\<close>

text \<open>
  Complete words, the last one to four bytes always being kept; the search for four bytes 255 in a
  row, which does not look at the last four.
\<close>

fun chunk :: "u8 list \<Rightarrow> u32 list \<times> u8 list" where
  "chunk (a # b # c # d # e # xs) = (case chunk (e # xs) of (ws, r) \<Rightarrow> (be32 a b c d # ws, r))"
| "chunk xs = ([], xs)"

fun scan :: "nat \<Rightarrow> u8 list \<Rightarrow> bool \<times> u8 list" where
  "scan ok [] = (False, [])"
| "scan ok (x # xs) =
     (if length xs < 4 then (False, x # xs)
      else let ok = (if x = 0xff then ok + 1 else 0) in if ok = 4 then (True, xs) else scan ok xs)"

definition spec_step :: "u8 list \<Rightarrow> bool \<times> u8 list \<Rightarrow> u32 list \<times> bool \<times> u8 list" where
  "spec_step b p =
     (let (sync, d) = (if fst p then (True, snd p @ b) else scan 0 (snd p @ b));
          (ws, r) = chunk d
      in (ws, sync, r))"

fun spec_blocks :: "u8 list list \<Rightarrow> bool \<times> u8 list \<Rightarrow> u32 list \<times> bool \<times> u8 list" where
  "spec_blocks [] p = ([], p)"
| "spec_blocks (b # bs) p =
     (let (ws, p) = spec_step b p; (vs, p) = spec_blocks bs p in (ws @ vs, p))"

text \<open>The abstraction: the bytes between the reader and the writer.\<close>

definition pending :: "circ \<Rightarrow> u8 list" where
  "pending s = map (\<lambda>i. circbuf s ((unat (bufread s) + i) mod CIRCSIZE)) [0..<unat (bufwrite s) - unat (bufread s)]"

definition circ_ok :: "circ \<Rightarrow> bool" where
  "circ_ok s \<longleftrightarrow> bufread s \<le> bufwrite s \<and> unat (bufwrite s) - unat (bufread s) \<le> 4
     \<and> BLOCK dvd unat (bufwrite s) \<and> unat (bufwrite s) \<le> 9 * BLOCK"

section \<open>The operations on the bytes waiting\<close>

definition in_range :: "circ \<Rightarrow> bool" where
  "in_range s \<longleftrightarrow> unat (bufread s) \<le> unat (bufwrite s) \<and> 4 \<le> unat (bufwrite s) \<and> unat (bufwrite s) < 2 ^ 31"

lemma length_pending: "length (pending s) = unat (bufwrite s) - unat (bufread s)"
  by (simp add: pending_def)

lemma pending_nth: "i < length (pending s) \<Longrightarrow> pending s ! i = circbuf s ((unat (bufread s) + i) mod CIRCSIZE)"
  by (simp add: pending_def)

lemma more_iff: "in_range s \<Longrightarrow> bufread s < bufwrite s - 4 \<longleftrightarrow> 4 < length (pending s)"
  using u32_sub [of 4 "bufwrite s"] by (auto simp: in_range_def word_less_nat_alt length_pending)

lemma sync_irrelevant [simp]: "pending (s\<lparr>bufsync := b\<rparr>) = pending s" "in_range (s\<lparr>bufsync := b\<rparr>) = in_range s"
  by (simp_all add: pending_def in_range_def)

lemma read_ahead: "in_range s \<Longrightarrow> k \<le> length (pending s) \<Longrightarrow> unat (bufread s + of_nat k) = unat (bufread s) + k"
  by (intro u32_add) (auto simp: in_range_def length_pending)

lemma pending_advance:
  assumes "in_range s" "k \<le> length (pending s)"
  shows "pending (s\<lparr>bufread := bufread s + of_nat k\<rparr>) = drop k (pending s)"
    "in_range (s\<lparr>bufread := bufread s + of_nat k\<rparr>)"
proof -
  show "in_range (s\<lparr>bufread := bufread s + of_nat k\<rparr>)"
    using read_ahead [OF assms] assms by (auto simp: in_range_def length_pending)
  show "pending (s\<lparr>bufread := bufread s + of_nat k\<rparr>) = drop k (pending s)"
    using read_ahead [OF assms] assms by (intro nth_equalityI) (simp_all add: pending_nth length_pending add.assoc)
qed

lemma byte_pending: "in_range s \<Longrightarrow> k < length (pending s) \<Longrightarrow> byte_at s (bufread s + of_nat k) = pending s ! k"
  using read_ahead [of s k] by (simp add: byte_at_def pending_nth)

lemma find_sync_scan:
  assumes "in_range s" "\<not> bufsync s"
  shows "\<exists>k b. find_sync ok s = s\<lparr>bufread := bufread s + of_nat k, bufsync := b\<rparr> \<and> k \<le> length (pending s)
    \<and> scan ok (pending s) = (b, drop k (pending s))"
  using assms
proof (induction "length (pending s)" arbitrary: ok s)
  case 0
  then have "find_sync ok s = s" by (subst find_sync.simps) (simp add: more_iff)
  moreover have "pending s = []" using 0 by simp
  ultimately show ?case using 0 by (intro exI [of _ 0] exI [of _ False]) simp
next
  case (Suc n)
  then obtain x xs where p: "pending s = x # xs" by (metis length_Suc_conv)
  show ?case
  proof (cases "4 < length (pending s)")
    case False
    then have "find_sync ok s = s" using Suc.prems by (subst find_sync.simps) (simp add: more_iff)
    moreover have "scan ok (pending s) = (False, pending s)" using False p by (simp)
    ultimately show ?thesis using Suc.prems by (intro exI [of _ 0] exI [of _ False]) simp
  next
    case True
    define ok' where "ok' = (if x = 0xff then ok + 1 else 0 :: nat)"
    define s1 where "s1 = s\<lparr>bufread := bufread s + 1, bufsync := ok' = 4\<rparr>"
    have x: "byte_at s (bufread s) = x" using byte_pending [of s 0] Suc p by simp
    have s1: "pending s1 = xs" "in_range s1"
      using pending_advance [of s 1] Suc p by (simp_all add: s1_def)
    have fs: "find_sync ok s = find_sync ok' s1"
      using Suc.prems True x by (subst find_sync.simps) (simp add: more_iff ok'_def s1_def Let_def)
    show ?thesis
    proof (cases "ok' = 4")
      case True
      then have "find_sync ok' s1 = s1" by (subst find_sync.simps) (simp add: s1_def)
      then show ?thesis using fs True p \<open>4 < length (pending s)\<close>
        by (auto simp: s1_def ok'_def Let_def intro!: exI [of _ 1] exI [of _ True])
    next
      case False
      have "n = length (pending s1)" "\<not> bufsync s1" using Suc.hyps(2) p s1 False by (simp_all add: s1_def)
      then obtain k b where k: "find_sync ok' s1 = s1\<lparr>bufread := bufread s1 + of_nat k, bufsync := b\<rparr>"
        "k \<le> length xs" "scan ok' xs = (b, drop k xs)"
        using Suc.hyps(1) [of s1 ok'] s1 by auto
      have "find_sync ok s = s\<lparr>bufread := bufread s + of_nat (Suc k), bufsync := b\<rparr>"
        using fs k(1) by (simp add: s1_def add.assoc)
      moreover have "scan ok (pending s) = (b, drop (Suc k) (pending s))"
        using p True False k(3) \<open>4 < length (pending s)\<close> by (simp add: ok'_def Let_def)
      ultimately show ?thesis using k(2) p by (metis Suc_le_mono length_Cons)
    qed
  qed
qed

lemma drain_chunk:
  assumes "in_range s"
  shows "\<exists>k. drain s = Some (fst (chunk (pending s)), s\<lparr>bufread := bufread s + of_nat k\<rparr>) \<and> k \<le> length (pending s)
    \<and> snd (chunk (pending s)) = drop k (pending s)"
  using assms
proof (induction "length (pending s)" arbitrary: s rule: less_induct)
  case less
  show ?case
  proof (cases "4 < length (pending s)")
    case False
    then have "drain s = Some ([], s)" using less.prems by (subst drain.simps) (simp add: more_iff)
    moreover have "chunk (pending s) = ([], pending s)" using False by (cases "pending s" rule: chunk.cases) auto
    ultimately show ?thesis by (intro exI [of _ 0]) simp
  next
    case True
    then obtain a b c d e xs where p: "pending s = a # b # c # d # e # xs"
      by (cases "pending s" rule: chunk.cases) auto
    have w: "word_at s = be32 a b c d"
      using byte_pending [of s 0] byte_pending [of s 1] byte_pending [of s 2] byte_pending [of s 3] less.prems p
      by (simp add: word_at_def)
    define s1 where "s1 = s\<lparr>bufread := bufread s + 4\<rparr>"
    have s1: "pending s1 = e # xs" "in_range s1"
      using pending_advance [of s 4] less.prems p by (simp_all add: s1_def)
    then obtain k where k: "drain s1 = Some (fst (chunk (e # xs)), s1\<lparr>bufread := bufread s1 + of_nat k\<rparr>)"
      "k \<le> length (e # xs)" "snd (chunk (e # xs)) = drop k (e # xs)"
      using less.hyps [of s1] p by auto
    have "drain s = Some (word_at s # fst (chunk (e # xs)), s\<lparr>bufread := bufread s + of_nat (Suc (Suc (Suc (Suc k))))\<rparr>)"
      using less.prems True k(1) by (subst drain.simps) (simp add: more_iff s1_def algebra_simps)
    moreover have "chunk (pending s) = (be32 a b c d # fst (chunk (e # xs)), snd (chunk (e # xs)))"
      by (simp add: p split: prod.splits)
    moreover have "drop (Suc (Suc (Suc (Suc k)))) (pending s) = drop k (e # xs)" by (simp only: p drop_Suc_Cons)
    moreover have "Suc (Suc (Suc (Suc k))) \<le> length (pending s)" using k(2) p by simp
    ultimately show ?thesis using k(3) w by (intro exI [of _ "Suc (Suc (Suc (Suc k)))"]) (simp only: fst_conv snd_conv simp_thms)
  qed
qed

lemma wrap_back: "65536 \<le> n \<Longrightarrow> (n - 65536 + i) mod 65536 = (n + i) mod 65536" for n i :: nat
proof -
  assume "65536 \<le> n"
  then obtain m where "n = 65536 + m" using le_Suc_ex by blast
  then have "n - 65536 + i = m + i" "n + i = (m + i) + 65536" by simp_all
  then show ?thesis by (simp only: mod_add_self2)
qed

lemma rebase_pending:
  assumes "in_range s" "unat (bufwrite s) \<le> unat (bufread s) + 32768"
  shows "pending (rebase s) = pending s" "in_range (rebase s)" "bufsync (rebase s) = bufsync s"
    "unat (bufwrite (rebase s)) = (if 131072 < unat (bufread s) then unat (bufwrite s) - 65536 else unat (bufwrite s))"
proof -
  have gt: "bufread s > 2 * of_nat CIRCSIZE \<longleftrightarrow> 131072 < unat (bufread s)"
    by (simp add: word_less_nat_alt CIRCSIZE_def)
  have sub: "unat (bufread s - of_nat CIRCSIZE) = unat (bufread s) - 65536"
    "unat (bufwrite s - of_nat CIRCSIZE) = unat (bufwrite s) - 65536" if "131072 < unat (bufread s)"
    using that assms(1) u32_sub [of 65536 "bufread s"] u32_sub [of 65536 "bufwrite s"]
    by (simp_all add: CIRCSIZE_def in_range_def)
  show "bufsync (rebase s) = bufsync s" by (simp add: rebase_def)
  show "pending (rebase s) = pending s"
  proof (cases "131072 < unat (bufread s)")
    case True
    have "(unat (bufread s) - 65536 + i) mod 65536 = (unat (bufread s) + i) mod 65536" for i
      using True by (intro wrap_back) simp
    then show ?thesis using sub True assms(1)
      by (simp add: rebase_def gt pending_def CIRCSIZE_def in_range_def)
  qed (simp add: rebase_def gt)
  show "in_range (rebase s)" using sub assms(1) by (auto simp: rebase_def gt in_range_def)
  show "unat (bufwrite (rebase s)) = (if 131072 < unat (bufread s) then unat (bufwrite s) - 65536 else unat (bufwrite s))"
    using sub by (simp add: rebase_def gt)
qed

lemma read_channel_pending:
  assumes "circ_ok s"
  shows "\<exists>s1. read_channel BLOCK f s = Inr s1 \<and> pending s1 = pending s @ map f [0..<BLOCK] \<and> in_range s1
    \<and> bufsync s1 = bufsync s \<and> bufread s1 = bufread s \<and> unat (bufwrite s1) = unat (bufwrite s) + BLOCK"
proof -
  define p where "p = unat (bufwrite s) mod 65536"
  define s1 where "s1 = s\<lparr>circbuf := (\<lambda>i. if p \<le> i \<and> i < p + BLOCK then f (i - p) else circbuf s i),
      bufwrite := bufwrite s + of_nat BLOCK\<rparr>"
  obtain q where q: "unat (bufwrite s) = 16384 * q" using assms by (auto simp: circ_ok_def BLOCK_def)
  have "16384 * q mod (16384 * 4) = 16384 * (q mod 4)" by (rule mult_mod_right [symmetric])
  then have p: "p = 16384 * (q mod 4)" by (simp add: p_def q)
  have "q mod 4 < 4" by simp
  then have room: "p + BLOCK \<le> 65536" by (simp only: p BLOCK_def)
  have w: "unat (bufwrite s1) = unat (bufwrite s) + BLOCK"
    using assms u32_add [of "bufwrite s" BLOCK] by (simp add: s1_def circ_ok_def BLOCK_def)
  have old: "circbuf s1 ((unat (bufread s) + i) mod CIRCSIZE) = circbuf s ((unat (bufread s) + i) mod CIRCSIZE)"
    if "i < length (pending s)" for i
  proof -
    define d where "d = unat (bufwrite s) - unat (bufread s) - i"
    have "d \<le> unat (bufwrite s) - unat (bufread s)" by (simp add: d_def)
    then have d: "0 < d" "d \<le> 4" "unat (bufread s) + i + d = unat (bufwrite s)"
      using that assms by (simp_all add: d_def length_pending circ_ok_def)
    define j where "j = (unat (bufread s) + i) mod 65536"
    have "(j + d) mod 65536 = p" by (simp add: j_def p_def mod_add_left_eq d(3))
    moreover have j: "j < 65536" by (simp add: j_def)
    moreover have "(j + d) mod 65536 = j + d - 65536" if "65536 \<le> j + d"
      using that j d(2) le_mod_geq [OF that] by simp
    ultimately have "\<not> (p \<le> j \<and> j < p + BLOCK)"
      using d(1,2) by (cases "j + d < 65536") (auto simp: BLOCK_def)
    then show ?thesis by (auto simp: s1_def CIRCSIZE_def j_def)
  qed
  have new: "circbuf s1 ((unat (bufwrite s) + i) mod CIRCSIZE) = f i" if "i < BLOCK" for i
  proof -
    have "(unat (bufwrite s) + i) mod 65536 = (p + i) mod 65536" by (simp add: p_def mod_add_left_eq)
    also have "\<dots> = p + i" using that room by simp
    finally show ?thesis using that by (simp add: s1_def CIRCSIZE_def)
  qed
  have le: "unat (bufread s) \<le> unat (bufwrite s)" using assms by (simp add: circ_ok_def word_le_nat_alt)
  have s1_read: "bufread s1 = bufread s" by (simp add: s1_def)
  have pend: "pending s1 = pending s @ map f [0..<BLOCK]"
  proof (rule nth_equalityI)
    show "length (pending s1) = length (pending s @ map f [0..<BLOCK])" using w le by (simp add: length_pending s1_def)
    fix i assume i: "i < length (pending s1)"
    show "pending s1 ! i = (pending s @ map f [0..<BLOCK]) ! i"
    proof (cases "i < length (pending s)")
      case True
      then show ?thesis using old [OF True] i by (simp add: pending_nth nth_append s1_def)
    next
      case False
      then have "unat (bufread s) + i = unat (bufwrite s) + (i - length (pending s))" "i - length (pending s) < BLOCK"
        using le i w by (simp_all add: length_pending s1_def)
      then have "pending s1 ! i = f (i - length (pending s))"
        using pending_nth [OF i] new [of "i - length (pending s)"] by (simp only: s1_read)
      then show ?thesis using False \<open>i - length (pending s) < BLOCK\<close> by (simp add: nth_append)
    qed
  qed
  have "read_channel BLOCK f s = Inr s1" using room by (simp add: read_channel_def s1_def CIRCSIZE_def Let_def flip: p_def)
  moreover have "in_range s1" using w le assms by (simp add: in_range_def s1_def circ_ok_def BLOCK_def)
  ultimately show ?thesis using pend w by (intro exI [of _ s1]) (simp add: s1_def)
qed

lemma chunk_rest: "length (snd (chunk xs)) \<le> 4"
  by (induction xs rule: chunk.induct) (auto split: prod.splits)

text \<open>One block: the call does to the bytes waiting what the specification says.\<close>

lemma acqua_read_spec:
  assumes "circ_ok s" "spec_step (map f [0..<BLOCK]) (bufsync s, pending s) = (ws, p)"
  shows "\<exists>s'. acqua_read 1 0 128 (Some f) s = Inr (1, ws, s') \<and> (bufsync s', pending s') = p \<and> circ_ok s'"
proof -
  obtain s1 where s1: "read_channel BLOCK f s = Inr s1" "pending s1 = pending s @ map f [0..<BLOCK]" "in_range s1"
    "bufsync s1 = bufsync s" "bufread s1 = bufread s" "unat (bufwrite s1) = unat (bufwrite s) + BLOCK"
    using read_channel_pending [OF assms(1)] by blast
  define s2 where "s2 = (if bufsync s1 then s1 else find_sync 0 s1)"
  obtain k b where s2: "s2 = s1\<lparr>bufread := bufread s1 + of_nat k, bufsync := b\<rparr>" "k \<le> length (pending s1)"
    "(b, drop k (pending s1)) = (if bufsync s1 then (True, pending s1) else scan 0 (pending s1))"
  proof (cases "bufsync s1")
    case True
    then show ?thesis using that [where k = 0 and b = True] by (simp add: s2_def)
  next
    case False
    then show ?thesis using that find_sync_scan [OF s1(3) False, of 0] by (auto simp: s2_def)
  qed
  have p2: "pending s2 = drop k (pending s1)" "in_range s2" "bufsync s2 = b" "bufwrite s2 = bufwrite s1"
    using pending_advance [OF s1(3) s2(2)] by (simp_all add: s2(1))
  have le: "unat (bufread s) \<le> unat (bufwrite s)" "unat (bufwrite s) \<le> unat (bufread s) + 4"
    using assms(1) by (auto simp: circ_ok_def word_le_nat_alt)
  have r2: "unat (bufread s2) = unat (bufread s) + k" using read_ahead [OF s1(3) s2(2)] s1(5) by (simp add: s2(1))
  have near: "unat (bufwrite s2) \<le> unat (bufread s2) + 32768" using le r2 p2(4) s1(6) by (simp add: BLOCK_def)
  define s3 where "s3 = rebase s2"
  have s3: "pending s3 = drop k (pending s1)" "in_range s3" "bufsync s3 = b"
    "unat (bufwrite s3) = (if 131072 < unat (bufread s2) then unat (bufwrite s2) - 65536 else unat (bufwrite s2))"
    using rebase_pending [OF p2(2) near] p2 by (simp_all add: s3_def)
  obtain m where m: "drain s3 = Some (fst (chunk (pending s3)), s3\<lparr>bufread := bufread s3 + of_nat m\<rparr>)"
    "m \<le> length (pending s3)" "snd (chunk (pending s3)) = drop m (pending s3)"
    using drain_chunk [OF s3(2)] by blast
  define s4 where "s4 = s3\<lparr>bufread := bufread s3 + of_nat m\<rparr>"
  have s4: "pending s4 = snd (chunk (pending s3))" "in_range s4" "bufsync s4 = b" "bufwrite s4 = bufwrite s3"
    using pending_advance [OF s3(2) m(2)] m(3) s3(3) by (simp_all add: s4_def)
  have spec: "chunk (pending s3) = (ws, snd p)" "fst p = b"
    using assms(2) s2(3) s1(2,4) s3(1) by (auto simp: spec_step_def split: if_splits prod.splits)
  have "circ_ok s4"
  proof -
    obtain q where q: "unat (bufwrite s) = BLOCK * q" "q \<le> 9" using assms(1) by (auto simp: circ_ok_def BLOCK_def)
    have "unat (bufwrite s3) = BLOCK * (if 131072 < unat (bufread s2) then q + 1 - 4 else q + 1)"
      using s3(4) p2(4) s1(6) q le r2 by (auto simp: BLOCK_def)
    moreover have "(if 131072 < unat (bufread s2) then q + 1 - 4 else q + 1) \<le> 9"
      using q le r2 by (cases "q = 9") (auto simp: BLOCK_def)
    ultimately obtain q' where "unat (bufwrite s3) = BLOCK * q'" "q' \<le> 9" by blast
    then have "BLOCK dvd unat (bufwrite s3)" "unat (bufwrite s3) \<le> 9 * BLOCK" by simp_all
    moreover have "length (pending s4) \<le> 4" using s4(1) chunk_rest [of "pending s3"] by simp
    ultimately show ?thesis using s4(2,4) by (simp add: circ_ok_def in_range_def length_pending word_le_nat_alt)
  qed
  moreover have "acqua_read 1 0 128 (Some f) s = Inr (1, ws, s4)"
    using s1(1) m(1) spec by (simp add: acqua_read_def s2_def s3_def s4_def)
  ultimately show ?thesis using s4 spec by (intro exI [of _ s4]) (simp add: prod_eq_iff)
qed

lemma acqua_blocks_spec:
  assumes "circ_ok s" "spec_blocks (map (\<lambda>f. map f [0..<BLOCK]) fs) (bufsync s, pending s) = (ws, p)"
  shows "\<exists>s'. acqua_blocks fs s = Inr (ws, s') \<and> (bufsync s', pending s') = p \<and> circ_ok s'"
  using assms
proof (induction fs arbitrary: s ws p)
  case Nil
  then show ?case by auto
next
  case (Cons f fs)
  obtain us q where us: "spec_step (map f [0..<BLOCK]) (bufsync s, pending s) = (us, q)" by (metis surj_pair)
  obtain vs r where vs: "spec_blocks (map (\<lambda>f. map f [0..<BLOCK]) fs) q = (vs, r)" by (metis surj_pair)
  obtain s1 where s1: "acqua_read 1 0 128 (Some f) s = Inr (1, us, s1)" "(bufsync s1, pending s1) = q" "circ_ok s1"
    using acqua_read_spec [OF Cons.prems(1) us] by blast
  obtain s2 where "acqua_blocks fs s1 = Inr (vs, s2)" "(bufsync s2, pending s2) = r" "circ_ok s2"
    using Cons.IH [OF s1(3)] vs s1(2) by metis
  then show ?case using Cons.prems(2) us vs s1(1) by auto
qed

section \<open>The start and the whole run\<close>

definition circ0 :: circ where
  "circ0 = \<lparr>circbuf = (\<lambda>_. 0), bufwrite = 0, bufread = 0, bufsync = False\<rparr>"

definition acqua_run :: "(nat \<Rightarrow> u8) \<Rightarrow> (nat \<Rightarrow> u8) list \<Rightarrow> (u32 list \<times> circ) res" where
  "acqua_run c fs = bindE (acqua_read 0 27 0 (Some c) circ0) (\<lambda>(_, _, s). acqua_blocks fs s)"

definition block :: "(nat \<Rightarrow> u8) \<Rightarrow> u8 list" where "block f = map f [0..<BLOCK]"

lemma length_block [simp]: "length (block f) = BLOCK" by (simp add: block_def)

lemma block_nth: "length b = BLOCK \<Longrightarrow> block (nth b) = b"
  using map_nth [of b] by (simp add: block_def)

lemma start_clean:
  "\<exists>s. acqua_read 0 27 0 (Some c) circ0 = Inr (1, [], s) \<and> circ_ok s \<and> pending s = [] \<and> \<not> bufsync s"
proof -
  obtain s1 where s1: "read_channel (2 * BLOCK) c circ0 = Inr s1" "bufwrite s1 = of_nat (2 * BLOCK)" "\<not> bufsync s1"
    by (simp add: read_channel_def circ0_def BLOCK_def CIRCSIZE_def)
  define s where "s = s1\<lparr>bufread := bufwrite s1\<rparr>"
  have w: "unat (bufwrite s) = 2 * BLOCK" using s1(2) by (simp add: s_def BLOCK_def unat_of_nat)
  have none: "\<not> bufread s < bufwrite s - 4" using w u32_sub [of 4 "bufwrite s"] by (simp add: s_def word_less_nat_alt BLOCK_def)
  have "find_sync 0 s = s" using none by (subst find_sync.simps) simp
  moreover have "rebase s = s" using w by (simp add: rebase_def s_def word_less_nat_alt CIRCSIZE_def BLOCK_def)
  moreover have "drain s = Some ([], s)" using none by (subst drain.simps) simp
  ultimately have "acqua_read 0 27 0 (Some c) circ0 = Inr (1, [], s)"
    using s1 by (simp add: acqua_read_def flip: s_def) (simp add: s_def)
  moreover have "circ_ok s" using w by (simp add: circ_ok_def s_def)
  moreover have "pending s = []" by (simp add: pending_def s_def)
  moreover have "\<not> bufsync s" using s1(3) by (simp add: s_def)
  ultimately show ?thesis by blast
qed

lemma run_spec:
  "\<exists>s'. acqua_run c fs = Inr (fst (spec_blocks (map block fs) (False, [])), s')
    \<and> (bufsync s', pending s') = snd (spec_blocks (map block fs) (False, [])) \<and> circ_ok s'"
proof -
  obtain s where s: "acqua_read 0 27 0 (Some c) circ0 = Inr (1, [], s)" "circ_ok s" "pending s = []" "\<not> bufsync s"
    using start_clean by blast
  obtain ws p where wp: "spec_blocks (map block fs) (False, []) = (ws, p)" by (metis surj_pair)
  have "spec_blocks (map (\<lambda>f. map f [0..<BLOCK]) fs) (bufsync s, pending s) = (ws, p)"
    using wp s(3,4) by (simp add: block_def [abs_def])
  then show ?thesis using acqua_blocks_spec [OF s(2)] s(1) wp by (fastforce simp: acqua_run_def)
qed

section \<open>Words in order\<close>

lemma chunk_append:
  "chunk (xs @ ys) = (fst (chunk xs) @ fst (chunk (snd (chunk xs) @ ys)), snd (chunk (snd (chunk xs) @ ys)))"
  by (induction xs rule: chunk.induct) (auto split: prod.splits)

lemma chunk_short: "length p \<le> 4 \<Longrightarrow> chunk p = ([], p)"
  by (cases p rule: chunk.cases) auto

lemma spec_synced:
  "length p \<le> 4 \<Longrightarrow> spec_blocks bs (True, p) = (fst (chunk (p @ concat bs)), True, snd (chunk (p @ concat bs)))"
proof (induction bs arbitrary: p)
  case Nil
  then show ?case by (simp add: chunk_short)
next
  case (Cons b bs)
  obtain ws r where c: "chunk (p @ b) = (ws, r)" by (metis surj_pair)
  then have "length r \<le> 4" using chunk_rest [of "p @ b"] by simp
  then show ?case
    using Cons.IH [of r] chunk_append [of "p @ b" "concat bs"] c by (simp add: spec_step_def)
qed

text \<open>
  C10. What is read from the channel arrives. Once the words are aligned, a sequence of blocks of any
  length is accepted without an access outside the buffer, and the words handed on are the bytes
  waiting and the bytes of the blocks, four at a time, in order, nothing lost and nothing
  repeated across the ends of the blocks and of the buffer; the last one to four bytes wait for the
  next block. The state stays in its invariant, so the counters never wrap.
\<close>

theorem acqua_words_in_order:
  assumes "circ_ok s" "bufsync s"
  shows "\<exists>s'. acqua_blocks fs s = Inr (fst (chunk (pending s @ concat (map block fs))), s')
    \<and> pending s' = snd (chunk (pending s @ concat (map block fs))) \<and> circ_ok s' \<and> bufsync s'"
proof -
  have "length (pending s) \<le> 4" using assms(1) by (simp add: circ_ok_def length_pending)
  then show ?thesis
    using acqua_blocks_spec [OF assms(1), of fs] spec_synced [of "pending s" "map block fs"] assms(2)
    by (auto simp: block_def [abs_def])
qed

section \<open>Finding the alignment\<close>

lemma scan_skip: "255 \<notin> set us \<Longrightarrow> 4 \<le> length vs \<Longrightarrow> scan 0 (us @ vs) = scan 0 vs"
  by (induction us) (auto simp: Let_def)

lemma scan_marks: "ok + m < 4 \<Longrightarrow> 4 \<le> length xs \<Longrightarrow> scan ok (replicate m 255 @ xs) = scan (ok + m) xs"
  by (induction m arbitrary: ok) (auto simp: Let_def)

lemma scan_found: "4 \<le> length rest \<Longrightarrow> scan 0 (255 # 255 # 255 # 255 # rest) = (True, rest)"
  by (auto simp: Let_def)

lemma scan_four: "length xs = 4 \<Longrightarrow> scan ok xs = (False, xs)"
  by (cases xs) auto

lemma scan_clear: "255 \<notin> set xs \<Longrightarrow> scan ok xs = (False, drop (length xs - 4) xs)"
proof (induction xs arbitrary: ok)
  case (Cons x xs)
  show ?case
  proof (cases "length xs < 4")
    case False
    then have "Suc (length xs) - 4 = Suc (length xs - 4)" by simp
    then show ?thesis using Cons False by (auto simp: Let_def)
  qed simp
qed simp

text \<open>
  C27. The alignment can be wrong, and for good. The search takes the first four bytes 255 in a row
  for the marker: when the byte before the marker is 255, too, as the last byte of a word may be, all the
  words are taken one byte too early, the first beginning with the last byte of the marker. And a
  marker that lies across the place four bytes before the end of a block is not found at all, as the
  count of bytes 255 starts again with each block.
\<close>

theorem acqua_misaligned:
  assumes "length b = BLOCK" "255 \<notin> set us"
  shows "(b = us @ replicate 5 255 @ rest \<and> 4 \<le> length rest \<longrightarrow>
      (\<exists>s'. acqua_run c [nth b] = Inr (fst (chunk (255 # rest)), s') \<and> bufsync s'))
    \<and> (b = us @ replicate 4 255 @ rest \<and> rest \<noteq> [] \<and> length rest < 4 \<and> 255 \<notin> set rest \<and> length b' = BLOCK \<and> 255 \<notin> set b' \<longrightarrow>
      (\<exists>s'. acqua_run c [nth b, nth b'] = Inr ([], s') \<and> \<not> bufsync s'))"
proof (intro conjI impI)
  assume b: "b = us @ replicate 5 255 @ rest \<and> 4 \<le> length rest"
  then have "scan 0 b = (True, 255 # rest)"
    using scan_skip [OF assms(2), of "replicate 5 255 @ rest"] scan_found [of "255 # rest"] by (simp add: eval_nat_numeral)
  then have "spec_blocks [block (nth b)] (False, []) = (fst (chunk (255 # rest)), True, snd (chunk (255 # rest)))"
    using assms(1) by (simp add: spec_step_def block_nth split: prod.splits)
  then show "\<exists>s'. acqua_run c [nth b] = Inr (fst (chunk (255 # rest)), s') \<and> bufsync s'"
    using run_spec [of c "[nth b]"] by auto
next
  assume b: "b = us @ replicate 4 255 @ rest \<and> rest \<noteq> [] \<and> length rest < 4 \<and> 255 \<notin> set rest \<and> length b' = BLOCK \<and> 255 \<notin> set b'"
  define pre where "pre = replicate (4 - length rest) (255 :: u8)"
  have "replicate 4 255 @ rest = replicate (length rest) 255 @ pre @ rest"
    using b by (simp add: pre_def flip: replicate_add append_assoc)
  then have "scan 0 (replicate 4 255 @ rest) = (False, pre @ rest)"
    using scan_marks [of 0 "length rest" "pre @ rest"] b scan_four [of "pre @ rest"] by (simp add: pre_def)
  then have one: "scan 0 b = (False, pre @ rest)" using scan_skip [OF assms(2), of "replicate 4 255 @ rest"] b by simp
  have two: "scan 0 ((pre @ rest) @ b') = (False, drop (length (rest @ b') - 4) (rest @ b'))"
    using scan_marks [of 0 "4 - length rest" "rest @ b'"] scan_clear [of "rest @ b'" "4 - length rest"] b
    by (simp add: pre_def BLOCK_def)
  have "spec_blocks [block (nth b), block (nth b')] (False, []) = ([], False, drop (length (rest @ b') - 4) (rest @ b'))"
    using assms(1) b one two by (simp add: spec_step_def block_nth chunk_short pre_def)
  then show "\<exists>s'. acqua_run c [nth b, nth b'] = Inr ([], s') \<and> \<not> bufsync s'"
    using run_spec [of c "[nth b, nth b']"] by auto
qed

theorem acqua_words_in_order_witness:
  "\<exists>s'. acqua_blocks [\<lambda>_. 7] (circ0\<lparr>bufsync := True\<rparr>) = Inr (fst (chunk (block (\<lambda>_. 7))), s')"
  using acqua_words_in_order [of "circ0\<lparr>bufsync := True\<rparr>" "[\<lambda>_. 7]"] by (auto simp: circ_ok_def circ0_def pending_def)

theorem acqua_misaligned_witness:
  "\<exists>s'. acqua_run (\<lambda>_. 0) [nth (replicate (BLOCK - 9) 0 @ replicate 5 255 @ [1, 2, 3, 4])] = Inr ([be32 255 1 2 3], s')"
  using acqua_misaligned [of "replicate (BLOCK - 9) 0 @ replicate 5 255 @ [1, 2, 3, 4]" "replicate (BLOCK - 9) 0" "[1, 2, 3, 4]" "\<lambda>_. 0" "[]"]
  by (auto simp: BLOCK_def)

end
