(* ===== verification/TrigTest.thy ===== *)
theory TrigTest
  imports Capture Daq
begin

unbundle bit_operations_syntax

text \<open>
  The first program that reads the words of the trigger, \<^verbatim>\<open>projects/trigger_test/trigger_test.c\<close> (and
  \<^verbatim>\<open>lago_test/lago_test.c\<close>, the same file): it waits until the hardware has left a half of the
  memory, writes the words of that half to a file and goes on to the other half. The addresses that are
  read are recorded. What the hardware has written when a half is read is given with every
  reading of its position, and the list of readings ends when the signal arrives.
\<close>

section \<open>State\<close>

definition MID :: nat where "MID = 512 * 1024"

record trig =
  t_cap :: cap
  t_limit :: int
  t_position :: "int option"
  t_file :: "string list"
  t_dp :: int
  t_cdp :: int
  t_cnt :: int
  t_pnt :: int
  t_read :: "nat list"

definition t_line :: "string \<Rightarrow> trig \<Rightarrow> trig" where
  "t_line l s = s\<lparr>t_file := t_file s @ [l]\<rparr>"

definition on_cap :: "(cap \<Rightarrow> cap res) \<Rightarrow> trig \<Rightarrow> trig res" where
  "on_cap f s = bindE (f (t_cap s)) (\<lambda>c. Inr (s\<lparr>t_cap := c\<rparr>))"

section \<open>Registers\<close>

definition thresholds :: "int \<Rightarrow> cap \<Rightarrow> cap res" where
  "thresholds lvl s =
     bindE (store 4 8 lvl s) (\<lambda>s.
     bindE (store 4 10 8190 s) (\<lambda>s.
     bindE (store 4 12 8190 s) (\<lambda>s.
     store 4 14 8190 s)))"

definition start_writer :: "cap \<Rightarrow> cap res" where
  "start_writer s =
     bindE (update 4 0 (\<lambda>w. w AND NOT 1) s) (\<lambda>s.
     bindE (update 4 0 (\<lambda>w. w AND NOT 4) s) (\<lambda>s.
     bindE (update 4 0 (\<lambda>w. w AND NOT 2) s) (\<lambda>s.
     bindE (store 4 4 (1024 * 1024) s) (\<lambda>s.
     bindE (update 4 0 (\<lambda>w. w OR 2) s) (\<lambda>s.
     bindE (update 4 0 (\<lambda>w. w OR 1) s) (\<lambda>s.
     update 4 0 (\<lambda>w. w OR 4) s))))))"

definition stop_writer :: "cap \<Rightarrow> cap res" where
  "stop_writer s =
     bindE (update 4 0 (\<lambda>w. w AND NOT 1) s) (\<lambda>s.
     bindE (update 4 0 (\<lambda>w. w AND NOT 2) s) (\<lambda>s.
     update 4 0 (\<lambda>w. w AND NOT 4) s))"

section \<open>Reading a half\<close>

text \<open>
  Which half is ready, if one is: the byte offset at which reading begins, and the new limit.
\<close>

definition half_window :: "int \<Rightarrow> int \<Rightarrow> (nat \<times> int) option" where
  "half_window lmt position =
     (if (lmt > 0 \<and> position > lmt) \<or> (lmt = 0 \<and> position < int MID)
      then Some (if lmt > 0 then 0 else MID, if lmt > 0 then 0 else int MID)
      else None)"

definition t_counter :: "u32 \<Rightarrow> trig \<Rightarrow> trig" where
  "t_counter wo s =
     (let pnt = t_cnt s; cnt = uint (wo AND 0x3FFFFFFF); dp = cnt - pnt - 1
      in t_line (''# c '' @ show_int cnt)
           (s\<lparr>t_pnt := pnt, t_cnt := cnt, t_dp := dp,
              t_cdp := if dp > 0 \<and> pnt \<noteq> 0 then to_i32 (t_cdp s + dp) else t_cdp s\<rparr>))"

definition t_decode :: "u32 \<Rightarrow> trig \<Rightarrow> trig" where
  "t_decode wo s =
     (let k = drop_bit 30 wo
      in if k = 0 then t_line (sample_line wo) s
         else if k = 1 then
           t_line (''# t '' @ show_nat (unat (drop_bit 27 wo AND 0x7)) @ '' '' @ show_nat (unat (wo AND 0x7FFFFFF))) s
         else if k = 2 then t_counter wo s
         else s\<lparr>t_cap := c_say (''# E 3 - unknown word from FPGA: '' @ show_nat (unat (drop_bit 27 wo)) @ '' ''
                @ show_hex (unat (drop_bit 27 wo))) (c_say ''# E @@@'' (t_cap s))\<rparr>)"

definition ram_word :: "nat \<Rightarrow> cap \<Rightarrow> u32 res" where
  "ram_word a s = bindE (inside Ram a 4 s) (\<lambda>_. Inr (word_of_int (get_le 4 a (c_ram s))))"

definition t_step :: "trig \<Rightarrow> nat \<Rightarrow> trig res" where
  "t_step s a = bindE (ram_word a (t_cap s)) (\<lambda>wo. Inr (t_decode wo (s\<lparr>t_read := t_read s @ [a]\<rparr>)))"

definition window_addrs :: "nat \<Rightarrow> nat list" where
  "window_addrs offset = map (\<lambda>i. offset + 4 * i) [0..<MID]"

text \<open>One turn of the loop: the hardware's position and what it has written so far.\<close>

definition t_turn :: "trig \<Rightarrow> u32 \<times> (nat \<Rightarrow> u8) \<Rightarrow> trig res" where
  "t_turn s t =
     (let s = s\<lparr>t_cap := (t_cap s)\<lparr>c_ram := snd t\<rparr>\<rparr>
      in bindE (inside Sts 0 4 (t_cap s)) (\<lambda>_.
         let position = to_i32 (uint (fst t)); s = s\<lparr>t_position := Some position\<rparr>
         in case half_window (t_limit s) position of
              None \<Rightarrow> Inr s
            | Some (offset, lmt) \<Rightarrow> runE t_step (s\<lparr>t_limit := lmt\<rparr>) (window_addrs offset)))"

section \<open>The program\<close>

text \<open>
  The end: the words of the half the writer is in are read, to no effect. The position was never set
  when the signal came at once.
\<close>

definition t_finish :: "trig \<Rightarrow> trig res" where
  "t_finish s =
     bindE (on_cap stop_writer s) (\<lambda>s.
     case t_position s of
       None \<Rightarrow> Inl OutOfBounds
     | Some position \<Rightarrow>
         let offset = (if t_limit s > 0 then 0 else MID);
             lmt = (if t_limit s > 0 then position else position - int MID)
         in runE (\<lambda>s a. bindE (ram_word a (t_cap s)) (\<lambda>_. Inr (s\<lparr>t_read := t_read s @ [a]\<rparr>)))
              (s\<lparr>t_limit := lmt\<rparr>) (map (\<lambda>i. offset + 4 * i) [0..<nat lmt]))"

definition trigger_test :: "string list \<Rightarrow> bool \<Rightarrow> int \<Rightarrow> (u32 \<times> (nat \<Rightarrow> u8)) list \<Rightarrow> trig \<Rightarrow> (int \<times> trig) res" where
  "trigger_test argv fopened mfd turns s =
     (if length argv < 2 then Inl (Exit 1)
      else if \<not> fopened then Inl (Exit 1)
      else if mfd < 0 then Inr (1, s)
      else if length argv = 2 then Inl NullDeref
      else let s = s\<lparr>t_limit := int MID\<rparr>
      in bindE (on_cap (thresholds (atoi (argv ! 2))) s) (\<lambda>s.
         bindE (on_cap start_writer s) (\<lambda>s.
         bindE (runE t_turn s turns) (\<lambda>s.
         bindE (t_finish s) (\<lambda>s. Inr (0, s))))))"

section \<open>What is read\<close>

lemma t_decode_keeps [simp]:
  "t_read (t_decode wo s) = t_read s" "t_limit (t_decode wo s) = t_limit s" "t_position (t_decode wo s) = t_position s"
  "c_map (t_cap (t_decode wo s)) = c_map (t_cap s)"
  by (simp_all add: t_decode_def t_counter_def t_line_def c_say_def Let_def)

lemma t_steps:
  assumes "c_map (t_cap s) Ram = Some sz" "\<forall>a \<in> set as. a + 4 \<le> sz"
  shows "\<exists>s'. runE t_step s as = Inr s' \<and> t_read s' = t_read s @ as \<and> t_limit s' = t_limit s
    \<and> t_position s' = t_position s \<and> c_map (t_cap s') = c_map (t_cap s)"
  using assms
proof (induction as arbitrary: s)
  case (Cons a as)
  define s1 where "s1 = t_decode (word_of_int (get_le 4 a (c_ram (t_cap s)))) (s\<lparr>t_read := t_read s @ [a]\<rparr>)"
  have "t_step s a = Inr s1" using Cons.prems by (simp add: t_step_def ram_word_def inside_def s1_def)
  moreover have "t_read s1 = t_read s @ [a]" "t_limit s1 = t_limit s" "t_position s1 = t_position s" "c_map (t_cap s1) = c_map (t_cap s)"
    by (simp_all add: s1_def)
  ultimately show ?case using Cons.IH [of s1] Cons.prems by auto
qed auto

text \<open>The addresses of the first \<open>n\<close> windows, which begin at 0 and at \<^verbatim>\<open>512*1024\<close> in turn.\<close>

definition window_offset :: "nat \<Rightarrow> nat" where
  "window_offset k = (if even k then 0 else MID)"

definition limit_after :: "nat \<Rightarrow> int" where
  "limit_after n = (if even n then int MID else 0)"

lemma half_window_turn:
  "half_window (limit_after n) p = None \<or> half_window (limit_after n) p = Some (window_offset n, limit_after (Suc n))"
  by (auto simp: half_window_def limit_after_def window_offset_def MID_def)

lemma window_inside: "a \<in> set (window_addrs (window_offset n)) \<Longrightarrow> a + 4 \<le> 5 * MID"
  by (auto simp: window_addrs_def window_offset_def)

lemma t_turns:
  assumes "c_map (t_cap s) Ram = Some (8 * MID)" "c_map (t_cap s) Sts = Some 4096" "t_limit s = limit_after n"
  shows "\<exists>s' m. runE t_turn s turns = Inr s' \<and> n \<le> m
    \<and> t_read s' = t_read s @ concat (map (\<lambda>k. window_addrs (window_offset k)) [n..<m])
    \<and> t_limit s' = limit_after m \<and> c_map (t_cap s') = c_map (t_cap s)"
  using assms
proof (induction turns arbitrary: s n)
  case Nil
  then show ?case by (intro exI [of _ s] exI [of _ n]) simp
next
  case (Cons t turns)
  define s1 where "s1 = s\<lparr>t_cap := (t_cap s)\<lparr>c_ram := snd t\<rparr>, t_position := Some (to_i32 (uint (fst t)))\<rparr>"
  have s1: "t_read s1 = t_read s" "t_limit s1 = limit_after n" "c_map (t_cap s1) = c_map (t_cap s)"
    using Cons.prems by (simp_all add: s1_def)
  show ?case
  proof (cases "half_window (limit_after n) (to_i32 (uint (fst t)))")
    case None
    then have "t_turn s t = Inr s1" using Cons.prems by (simp add: t_turn_def inside_def s1_def Let_def)
    then show ?thesis using Cons.IH [of s1 n] Cons.prems s1 by auto
  next
    case (Some w)
    then have w: "half_window (limit_after n) (to_i32 (uint (fst t))) = Some (window_offset n, limit_after (Suc n))"
      using half_window_turn [of n] by (metis option.distinct(1))
    define s2 where "s2 = s1\<lparr>t_limit := limit_after (Suc n)\<rparr>"
    have "\<forall>a \<in> set (window_addrs (window_offset n)). a + 4 \<le> 8 * MID" using window_inside [of _ n] by fastforce
    then obtain s3 where s3: "runE t_step s2 (window_addrs (window_offset n)) = Inr s3"
      "t_read s3 = t_read s @ window_addrs (window_offset n)" "t_limit s3 = limit_after (Suc n)"
      "c_map (t_cap s3) = c_map (t_cap s)"
      using t_steps [of s2 "8 * MID" "window_addrs (window_offset n)"] s1 Cons.prems by (auto simp: s2_def)
    have "t_turn s t = Inr s3" using w s3(1) Cons.prems by (simp add: t_turn_def inside_def s2_def s1_def Let_def)
    moreover obtain s' m where m: "runE t_turn s3 turns = Inr s'" "Suc n \<le> m"
      "t_read s' = t_read s3 @ concat (map (\<lambda>k. window_addrs (window_offset k)) [Suc n..<m])"
      "t_limit s' = limit_after m" "c_map (t_cap s') = c_map (t_cap s3)"
      using Cons.IH [of s3 "Suc n"] s3 Cons.prems by auto
    moreover have "[n..<m] = n # [Suc n..<m]" using m(2) by (simp add: upt_conv_Cons)
    ultimately show ?thesis using s3 by (intro exI [of _ s'] exI [of _ m]) simp
  qed
qed

text \<open>After a turn the limit and the position are on the same side of the middle.\<close>

lemma t_turn_position:
  assumes "t_turn s t = Inr s'" "c_map (t_cap s) Ram = Some (8 * MID)" "t_limit s = limit_after n"
  shows "t_position s' = Some (to_i32 (uint (fst t)))
    \<and> (if to_i32 (uint (fst t)) < int MID then t_limit s' = int MID
       else if int MID < to_i32 (uint (fst t)) then t_limit s' = 0
       else t_limit s' = 0 \<or> t_limit s' = int MID)"
proof -
  define p where "p = to_i32 (uint (fst t))"
  define s1 where "s1 = s\<lparr>t_cap := (t_cap s)\<lparr>c_ram := snd t\<rparr>, t_position := Some p\<rparr>"
  have turn: "(case half_window (limit_after n) p of None \<Rightarrow> Inr s1
      | Some (offset, lmt) \<Rightarrow> runE t_step (s1\<lparr>t_limit := lmt\<rparr>) (window_addrs offset)) = Inr s'"
    using assms(1,3) unfolding s1_def p_def by (auto simp: t_turn_def res_simps Let_def)
  show ?thesis
  proof (cases "half_window (limit_after n) p")
    case None
    then have "s' = s1" using turn by simp
    then show ?thesis using None assms(3)
      by (auto simp: s1_def half_window_def limit_after_def p_def MID_def split: if_splits)
  next
    case (Some w)
    then have w: "half_window (limit_after n) p = Some (window_offset n, limit_after (Suc n))"
      using half_window_turn [of n] by (metis option.distinct(1))
    then have side: "if even n then int MID < p else p < int MID"
      by (auto simp: half_window_def limit_after_def MID_def split: if_splits)
    have "\<forall>a \<in> set (window_addrs (window_offset n)). a + 4 \<le> 8 * MID" using window_inside [of _ n] by fastforce
    then have "t_limit s' = limit_after (Suc n) \<and> t_position s' = Some p"
      using t_steps [of "s1\<lparr>t_limit := limit_after (Suc n)\<rparr>" "8 * MID" "window_addrs (window_offset n)"] turn w assms(2)
      by (auto simp: s1_def)
    then show ?thesis using side by (auto simp: limit_after_def p_def [symmetric] split: if_splits)
  qed
qed

lemma t_turns_position:
  assumes "runE t_turn s turns = Inr s'" "turns \<noteq> []"
    and "c_map (t_cap s) Ram = Some (8 * MID)" "c_map (t_cap s) Sts = Some 4096" "t_limit s = limit_after n"
  shows "t_position s' = Some (to_i32 (uint (fst (last turns))))
    \<and> (if to_i32 (uint (fst (last turns))) < int MID then t_limit s' = int MID
       else if int MID < to_i32 (uint (fst (last turns))) then t_limit s' = 0
       else t_limit s' = 0 \<or> t_limit s' = int MID)"
proof -
  have split: "runE t_turn s turns = bindE (runE t_turn s (butlast turns)) (\<lambda>s1. runE t_turn s1 [last turns])"
    using assms(2) runE_append [of t_turn s "butlast turns" "[last turns]"] by simp
  obtain s1 m where s1: "runE t_turn s (butlast turns) = Inr s1" "t_limit s1 = limit_after m" "c_map (t_cap s1) = c_map (t_cap s)"
    using t_turns [OF assms(3-5), of "butlast turns"] by blast
  then have "t_turn s1 (last turns) = Inr s'" using assms(1) unfolding split by (auto simp: res_simps)
  then show ?thesis using t_turn_position [of s1 "last turns" s' m] s1(2,3) assms(3) by simp
qed

section \<open>The last words\<close>

lemma last_words:
  assumes "c_map (t_cap s) Ram = Some sz"
  shows "runE (\<lambda>s a. bindE (ram_word a (t_cap s)) (\<lambda>_. Inr (s\<lparr>t_read := t_read s @ [a]\<rparr>))) s as
    = (if \<forall>a \<in> set as. a + 4 \<le> sz then Inr (s\<lparr>t_read := t_read s @ as\<rparr>) else Inl OutOfBounds)"
  using assms
proof (induction as arbitrary: s)
  case (Cons a as)
  then show ?case
    using Cons.IH [of "s\<lparr>t_read := t_read s @ [a]\<rparr>"] by (simp add: ram_word_def inside_def guardE_def)
qed simp

lemma stop_writer_run:
  assumes "c_map (t_cap s) Cfg = Some 4096"
  shows "\<exists>c. on_cap stop_writer s = Inr (s\<lparr>t_cap := c\<rparr>) \<and> c_map c = c_map (t_cap s)"
  using assms by (simp add: on_cap_def stop_writer_def update_def store_ok) (rule exI, rule conjI, rule refl, simp)

lemma finish_run:
  assumes "c_map (t_cap s) Ram = Some (8 * MID)" "c_map (t_cap s) Cfg = Some 4096" "t_position s = Some p"
    and "if p < int MID then t_limit s = int MID else if int MID < p then t_limit s = 0 else t_limit s = 0 \<or> t_limit s = int MID"
  shows "(t_finish s = Inl OutOfBounds \<longleftrightarrow> 1441792 < p)
    \<and> (p \<le> 1048576 \<longrightarrow> (\<exists>s' as. t_finish s = Inr s' \<and> t_read s' = t_read s @ as \<and> (\<forall>a \<in> set as. a + 4 \<le> 2621440)))"
proof -
  obtain c where c: "on_cap stop_writer s = Inr (s\<lparr>t_cap := c\<rparr>)" "c_map c = c_map (t_cap s)"
    using stop_writer_run [OF assms(2)] by blast
  define off where "off = (if t_limit s > 0 then 0 else MID)"
  define lmt where "lmt = (if t_limit s > 0 then p else p - int MID)"
  define as where "as = map (\<lambda>i. off + 4 * i) [0..<nat lmt]"
  have inside: "(\<forall>a \<in> set as. a + 4 \<le> n) \<longleftrightarrow> lmt \<le> 0 \<or> int off + 4 * lmt \<le> int n" for n
  proof (cases "lmt \<le> 0")
    case False
    then obtain k where k: "nat lmt = Suc k" by (metis nat_0_iff not0_implies_Suc not_le)
    have "(\<forall>a \<in> set as. a + 4 \<le> n) \<longleftrightarrow> (\<forall>i < nat lmt. off + 4 * i + 4 \<le> n)" by (auto simp: as_def)
    also have "\<dots> \<longleftrightarrow> off + 4 * nat lmt \<le> n" unfolding k by (auto simp: less_Suc_eq_le intro: le_trans)
    also have "\<dots> \<longleftrightarrow> int off + 4 * lmt \<le> int n" using False by linarith
    finally show ?thesis using False by simp
  qed (simp add: as_def)
  have fin: "t_finish s = (if \<forall>a \<in> set as. a + 4 \<le> 8 * MID then Inr (s\<lparr>t_cap := c, t_limit := lmt, t_read := t_read s @ as\<rparr>)
      else Inl OutOfBounds)"
    using c assms(1,3) last_words [of "s\<lparr>t_cap := c, t_limit := lmt\<rparr>" "8 * MID" as]
    by (simp add: t_finish_def Let_def off_def lmt_def as_def)
  have "(\<forall>a \<in> set as. a + 4 \<le> 8 * MID) \<longleftrightarrow> p \<le> 1441792"
    unfolding inside using assms(4) by (auto simp: off_def lmt_def MID_def split: if_splits)
  moreover have "p \<le> 1048576 \<Longrightarrow> \<forall>a \<in> set as. a + 4 \<le> 2621440"
    unfolding inside using assms(4) by (auto simp: off_def lmt_def MID_def split: if_splits)
  ultimately show ?thesis using fin by auto
qed

text \<open>
  C26. The second half is not the second half. The memory holds \<^verbatim>\<open>1024*1024\<close> words in 4194304 bytes, but the second
  window begins at byte \<^verbatim>\<open>512*1024\<close> where it should begin at word \<^verbatim>\<open>512*1024\<close>. With its three regions mapped, and
  whatever positions the hardware reports, the reading loop reads the two windows in turn, does not fail and does not read past byte 2621440, so that
  three quarters of the second half are never written to the file, and three quarters of the first half
  are read in both windows. The final part, after the signal, reads up to the position seen last without a bound: it
  stays below the same byte if that position is at most \<^verbatim>\<open>1024*1024\<close>, the number of samples, and it leaves the
  mapped memory exactly if it is above 1441792.
\<close>

theorem trigger_windows:
  assumes "c_map (t_cap s) Ram = Some (8 * MID)" "c_map (t_cap s) Sts = Some 4096" "c_map (t_cap s) Cfg = Some 4096"
    and "t_limit s = int MID" "t_read s = []" "turns \<noteq> []"
  shows "\<exists>s' m. runE t_turn s turns = Inr s' \<and> t_read s' = concat (map (\<lambda>k. window_addrs (window_offset k)) [0..<m])
    \<and> (\<forall>a \<in> set (t_read s'). a + 4 \<le> 2621440)
    \<and> (\<forall>i < MID - 131072. window_addrs MID ! i = window_addrs 0 ! (i + 131072))
    \<and> (t_finish s' = Inl OutOfBounds \<longleftrightarrow> 1441792 < to_i32 (uint (fst (last turns))))
    \<and> (to_i32 (uint (fst (last turns))) \<le> 1048576 \<longrightarrow>
        (\<exists>s''. t_finish s' = Inr s'' \<and> (\<forall>a \<in> set (t_read s''). a + 4 \<le> 2621440)))"
proof -
  have lim: "t_limit s = limit_after 0" using assms(4) by (simp add: limit_after_def)
  obtain s' m where m: "runE t_turn s turns = Inr s'"
    "t_read s' = concat (map (\<lambda>k. window_addrs (window_offset k)) [0..<m])" "c_map (t_cap s') = c_map (t_cap s)"
    using t_turns [OF assms(1,2) lim, of turns] assms(5) by auto
  moreover have a: "\<forall>a \<in> set (t_read s'). a + 4 \<le> 2621440" using m(2) window_inside by (fastforce simp: MID_def)
  moreover have "\<forall>i < MID - 131072. window_addrs MID ! i = window_addrs 0 ! (i + 131072)"
    by (auto simp: window_addrs_def MID_def)
  moreover note t_turns_position [OF m(1) assms(6,1,2) lim]
  then have "(t_finish s' = Inl OutOfBounds \<longleftrightarrow> 1441792 < to_i32 (uint (fst (last turns))))
    \<and> (to_i32 (uint (fst (last turns))) \<le> 1048576 \<longrightarrow>
        (\<exists>s'' as. t_finish s' = Inr s'' \<and> t_read s'' = t_read s' @ as \<and> (\<forall>a \<in> set as. a + 4 \<le> 2621440)))"
    using assms(1,3) m(3) by (intro finish_run) simp_all
  ultimately show ?thesis by fastforce
qed

text \<open>Two windows are read, and the last position is in the first half; one where the end leaves the memory.\<close>

theorem trigger_windows_witness:
  "let s = \<lparr>t_cap = cap0 (mapped (\<lambda>_. True) 1024) (\<lambda>_. 0) (\<lambda>_. 0) [], t_limit = int MID, t_position = None,
      t_file = [], t_dp = 0, t_cdp = 0, t_cnt = 0, t_pnt = 0, t_read = []\<rparr>
   in (\<exists>s' s''. runE t_turn s [(600000, \<lambda>_. 0), (10, \<lambda>_. 0)] = Inr s' \<and> t_finish s' = Inr s'')
     \<and> (\<exists>s'. runE t_turn s [(1441793, \<lambda>_. 0)] = Inr s' \<and> t_finish s' = Inl OutOfBounds)"
proof -
  let ?s = "\<lparr>t_cap = cap0 (mapped (\<lambda>_. True) 1024) (\<lambda>_. 0) (\<lambda>_. 0) [], t_limit = int MID, t_position = None,
      t_file = [], t_dp = 0, t_cdp = 0, t_cnt = 0, t_pnt = 0, t_read = []\<rparr>"
  have m: "c_map (t_cap ?s) Ram = Some (8 * MID)" "c_map (t_cap ?s) Sts = Some 4096" "c_map (t_cap ?s) Cfg = Some 4096"
    by (simp_all add: cap0_def mapped_def MID_def)
  have t: "t_limit ?s = int MID" "t_read ?s = []" by simp_all
  have p: "to_i32 (uint (10 :: u32)) = 10" "to_i32 (uint (1441793 :: u32)) = 1441793" by (simp_all add: to_i32_def)
  obtain s1 where "runE t_turn ?s [(600000, \<lambda>_. 0), (10, \<lambda>_. 0)] = Inr s1" "\<exists>s2. t_finish s1 = Inr s2"
    using trigger_windows [OF m t, of "[(600000, \<lambda>_. 0), (10, \<lambda>_. 0)]"] p(1) by (auto simp del: runE.simps)
  moreover obtain s3 where "runE t_turn ?s [(1441793, \<lambda>_. 0)] = Inr s3" "t_finish s3 = Inl OutOfBounds"
    using trigger_windows [OF m t, of "[(1441793, \<lambda>_. 0)]"] p(2) by (auto simp del: runE.simps)
  ultimately show ?thesis unfolding Let_def by blast
qed

section \<open>What the registers hold\<close>

lemma get_put_inner:
  assumes "a \<le> b" "b + k \<le> a + n"
  shows "get_le k b (put_le n a v m) = v div 256 ^ (b - a) mod 256 ^ k"
proof -
  have "get_le k b (put_le n a v m) = get_le k b (put_le k b (v div 256 ^ (b - a)) m)"
    unfolding get_le_def
  proof (rule sum.cong)
    fix i assume "i \<in> {..<k}"
    then have i: "b + i < a + n" "i < k" using assms by auto
    have "b + i - a = (b - a) + i" using assms(1) by simp
    then have "v div 256 ^ (b + i - a) = v div 256 ^ (b - a) div 256 ^ i"
      by (simp add: power_add zdiv_zmult2_eq)
    then show "uint (put_le n a v m (b + i)) * 256 ^ i = uint (put_le k b (v div 256 ^ (b - a)) m (b + i)) * 256 ^ i"
      using i assms(1) by (simp add: put_le_def)
  qed simp
  then show ?thesis by (simp add: get_put_same)
qed

lemma get_le_join: "get_le (j + k) a m = get_le j a m + 256 ^ j * get_le k (a + j) m"
  by (induction k) (simp_all add: get_le_def algebra_simps power_add)

lemma update_ok:
  "c_map s Cfg = Some sz \<Longrightarrow> a + n \<le> sz \<Longrightarrow>
    update n a f s = Inr (s\<lparr>c_cfg := put_le n a (uint (f (word_of_int (get_le n a (c_cfg s))))) (c_cfg s)\<rparr>)"
  by (simp add: update_def store_ok)

lemma set_again: "(((((w AND NOT a) AND NOT c) AND NOT b) OR b) OR a) OR c = w OR (a OR b OR c)" for w a b c :: u32
  by (auto simp: bit_eq_iff bit_simps)

lemma modules_run: "(((((w AND NOT 1) AND NOT 4) AND NOT 2) OR 2) OR 1) OR 4 = w OR 7" for w :: u32
proof -
  have "(1 OR 2 OR 4 :: u32) = 7" by simp
  then show ?thesis using set_again [of w 1 4 2] by simp
qed

definition control :: "cap \<Rightarrow> u32" where
  "control s = word_of_int (get_le 4 0 (c_cfg s))"

text \<open>An update of the control register leaves the others alone.\<close>

definition same_above :: "nat \<Rightarrow> cap \<Rightarrow> cap \<Rightarrow> bool" where
  "same_above a s s' \<longleftrightarrow> c_map s' = c_map s \<and> (\<forall>n b. a \<le> b \<longrightarrow> get_le n b (c_cfg s') = get_le n b (c_cfg s))"

lemma control_step:
  assumes "c_map s Cfg = Some 4096"
  obtains s' where "update 4 0 f s = Inr s'" "c_map s' Cfg = Some 4096" "control s' = f (control s)"
    "get_le 4 0 (c_cfg s') = uint (f (control s))" "same_above 4 s s'"
proof
  let ?s = "s\<lparr>c_cfg := put_le 4 0 (uint (f (control s))) (c_cfg s)\<rparr>"
  have u: "uint x mod 256 ^ 4 = uint x" for x :: u32 using uint_lt2p [of x] by simp
  have "c_cfg ?s = put_le 4 0 (uint (f (control s))) (c_cfg s)" by simp
  then have g: "get_le 4 0 (c_cfg ?s) = uint (f (control s))" by (simp only: get_put_same u)
  then show "get_le 4 0 (c_cfg ?s) = uint (f (control s))" .
  show "control ?s = f (control s)" using g by (simp only: control_def word_of_int_uint)
  show "update 4 0 f s = Inr ?s" using assms by (simp add: update_ok control_def)
  show "c_map ?s Cfg = Some 4096" using assms by simp
  show "same_above 4 s ?s" by (simp add: same_above_def get_put_other)
qed

lemma samples_step:
  assumes "c_map s Cfg = Some 4096"
  obtains s' where "store 4 4 (1024 * 1024) s = Inr s'" "c_map s' Cfg = Some 4096" "control s' = control s"
    "get_le 4 4 (c_cfg s') = 1048576" "same_above 8 s s'"
proof
  let ?s = "s\<lparr>c_cfg := put_le 4 4 (1024 * 1024) (c_cfg s)\<rparr>"
  show "store 4 4 (1024 * 1024) s = Inr ?s" "c_map ?s Cfg = Some 4096" "same_above 8 s ?s" "get_le 4 4 (c_cfg ?s) = 1048576"
    "control ?s = control s"
    using assms by (simp_all add: store_ok same_above_def get_put_other get_put_same control_def)
qed

lemma start_writer_ok:
  assumes "c_map s Cfg = Some 4096"
  shows "\<exists>s'. start_writer s = Inr s' \<and> (\<forall>n b. 8 \<le> b \<longrightarrow> get_le n b (c_cfg s') = get_le n b (c_cfg s))
    \<and> get_le 4 4 (c_cfg s') = 1048576 \<and> get_le 4 0 (c_cfg s') = uint (control s OR 7)"
proof -
  obtain s1 where s1: "update 4 0 (\<lambda>w. w AND NOT 1) s = Inr s1" "c_map s1 Cfg = Some 4096"
    "control s1 = control s AND NOT 1" "same_above 4 s s1" by (rule control_step [OF assms])
  obtain s2 where s2: "update 4 0 (\<lambda>w. w AND NOT 4) s1 = Inr s2" "c_map s2 Cfg = Some 4096"
    "control s2 = control s1 AND NOT 4" "same_above 4 s1 s2" by (rule control_step [OF s1(2)])
  obtain s3 where s3: "update 4 0 (\<lambda>w. w AND NOT 2) s2 = Inr s3" "c_map s3 Cfg = Some 4096"
    "control s3 = control s2 AND NOT 2" "same_above 4 s2 s3" by (rule control_step [OF s2(2)])
  obtain s4 where s4: "store 4 4 (1024 * 1024) s3 = Inr s4" "c_map s4 Cfg = Some 4096" "control s4 = control s3"
    "get_le 4 4 (c_cfg s4) = 1048576" "same_above 8 s3 s4" by (rule samples_step [OF s3(2)])
  obtain s5 where s5: "update 4 0 (\<lambda>w. w OR 2) s4 = Inr s5" "c_map s5 Cfg = Some 4096"
    "control s5 = control s4 OR 2" "same_above 4 s4 s5" by (rule control_step [OF s4(2)])
  obtain s6 where s6: "update 4 0 (\<lambda>w. w OR 1) s5 = Inr s6" "c_map s6 Cfg = Some 4096"
    "control s6 = control s5 OR 1" "same_above 4 s5 s6" by (rule control_step [OF s5(2)])
  obtain s7 where s7: "update 4 0 (\<lambda>w. w OR 4) s6 = Inr s7"
    "get_le 4 0 (c_cfg s7) = uint (control s6 OR 4)" "same_above 4 s6 s7" by (rule control_step [OF s6(2)])
  have "start_writer s = Inr s7" using s1 s2 s3 s4 s5 s6 s7 by (simp add: start_writer_def)
  moreover have "get_le 4 0 (c_cfg s7) = uint (control s OR 7)"
    unfolding s7(2) s6(3) s5(3) s4(3) s3(3) s2(3) s1(3) modules_run ..
  moreover have "get_le 4 4 (c_cfg s7) = 1048576" "\<forall>n b. 8 \<le> b \<longrightarrow> get_le n b (c_cfg s7) = get_le n b (c_cfg s)"
    using s1(4) s2(4) s3(4) s4(4,5) s5(4) s6(4) s7(3) by (simp_all add: same_above_def)
  ultimately show ?thesis by blast
qed

text \<open>
  The thresholds end up in 16-bit halves: the four registers are written as 32-bit words two bytes
  apart, each overwriting the upper half of the one before. After the set-up the halves at 8, 10,
  12 and 14 hold the level of the command line modulo 65536 and three times 8190, the half at 16 is cleared
  although no register there was named, and read as the 32-bit register it was written to, the level
  has 8190 in its upper half. The number of samples is 1048576 and the three modules run.
\<close>

theorem trigger_registers:
  assumes "c_map s Cfg = Some 4096" "bindE (thresholds lvl s) start_writer = Inr s'"
  shows "get_le 2 8 (c_cfg s') = lvl mod 65536 \<and> get_le 2 10 (c_cfg s') = 8190 \<and> get_le 2 12 (c_cfg s') = 8190
    \<and> get_le 2 14 (c_cfg s') = 8190 \<and> get_le 2 16 (c_cfg s') = 0
    \<and> get_le 4 8 (c_cfg s') = lvl mod 65536 + 8190 * 65536
    \<and> get_le 4 4 (c_cfg s') = 1048576
    \<and> get_le 4 0 (c_cfg s') = uint (control s OR 7)"
proof -
  define m where "m = put_le 4 14 8190 (put_le 4 12 8190 (put_le 4 10 8190 (put_le 4 8 lvl (c_cfg s))))"
  have th: "thresholds lvl s = Inr (s\<lparr>c_cfg := m\<rparr>)"
    using assms(1) by (simp add: thresholds_def store_ok m_def)
  have halves: "get_le 2 8 m = lvl mod 65536" "get_le 2 10 m = 8190" "get_le 2 12 m = 8190" "get_le 2 14 m = 8190"
    "get_le 2 16 m = 0" "get_le 4 0 m = get_le 4 0 (c_cfg s)"
    by (simp_all add: m_def get_put_other get_put_inner)
  have "get_le 4 8 m = lvl mod 65536 + 8190 * 65536"
    using get_le_join [of 2 2 8 m] halves by simp
  then show ?thesis
    using start_writer_ok [of "s\<lparr>c_cfg := m\<rparr>"] assms th halves by (auto simp: control_def)
qed

theorem trigger_registers_witness:
  "\<exists>s'. bindE (thresholds 300 (cap0 (mapped (\<lambda>_. True) 1024) (\<lambda>_. 0) (\<lambda>_. 0) [])) start_writer = Inr s'
    \<and> get_le 4 8 (c_cfg s') = 300 + 8190 * 65536"
proof -
  let ?s = "cap0 (mapped (\<lambda>_. True) 1024) (\<lambda>_. 0) (\<lambda>_. 0) []"
  have m: "c_map ?s Cfg = Some 4096" by (simp add: cap0_def mapped_def)
  then obtain c where "thresholds 300 ?s = Inr c" "c_map c Cfg = Some 4096" by (simp add: thresholds_def store_ok)
  then obtain s' where "bindE (thresholds 300 ?s) start_writer = Inr s'" using start_writer_ok [of c] by auto
  then show ?thesis using trigger_registers [OF m, of 300 s'] by simp
qed

end
