(* ===== verification/ParamType.thy ===== *)
theory ParamType
  imports Params
begin

text \<open>
  The type of the command-line parser: what holds of its state before it holds afterwards, whatever
  the arguments are. The rules in \<open>fit_rules\<close> follow the error monad, so that each parsing
  step is one introduction; the parser of the predecessor is checked with the same rules.
\<close>

section \<open>Everything fits\<close>

text \<open>
  The type of the parser's state: every string fits its buffer of \<^verbatim>\<open>MAXCHRLEN\<close> characters with the
  terminating zero, the device number selects one of the four spaces and the offset is a 32-bit number.
\<close>

definition params_fit :: "params \<Rightarrow> bool" where
  "params_fit p \<longleftrightarrow> (\<forall>s \<in> {charAction p, charReg p, charFile p, charCount p, scByte p, scRegister p, charRegValue p}.
       length s < MAXCHRLEN)
     \<and> 0 \<le> n_dev p \<and> n_dev p \<le> 3 \<and> reg_off p < 2 ^ 32"

definition outcome_fits :: "(int \<times> params) res \<Rightarrow> bool" where
  "outcome_fits r = (case r of Inl f \<Rightarrow> f \<in> {NullDeref, OutOfBounds, Exit 1}
     | Inr (v, p) \<Rightarrow> v \<in> {0, 1} \<and> params_fit p)"

named_theorems fit_rules "parser steps whose outcome fits"

lemma fits_Inr [fit_rules]: "v = 0 \<or> v = 1 \<Longrightarrow> params_fit p \<Longrightarrow> outcome_fits (Inr (v, p))"
  by (simp add: outcome_fits_def)

lemma fits_exit [fit_rules]: "outcome_fits (Inl (Exit 1))"
  by (simp add: outcome_fits_def)

lemma fits_arg [fit_rules]: "(\<And>a. outcome_fits (f a)) \<Longrightarrow> outcome_fits (bindE (arg_at argv i) f)"
  by (auto simp: outcome_fits_def arg_at_def)

lemma fits_if [fit_rules]: "(b \<Longrightarrow> outcome_fits x) \<Longrightarrow> (\<not> b \<Longrightarrow> outcome_fits y) \<Longrightarrow> outcome_fits (if b then x else y)"
  by simp

lemma StrcpyS_fits [simp]: "0 < n \<Longrightarrow> n \<le> MAXCHRLEN \<Longrightarrow> length (StrcpyS d n a) < MAXCHRLEN"
  using StrcpyS_bounded [of n d a] by simp

lemma sizes [simp]: "0 < MAXCHRLEN" "16 \<le> MAXCHRLEN" "MAXFILENAMELEN \<le> MAXCHRLEN" "0 < MAXFILENAMELEN"
  by (simp_all add: MAXCHRLEN_def MAXFILENAMELEN_def)

lemma strtoul_offset: "nat (strtoul a b) < 2 ^ 32"
  by (simp add: strtoul_def Let_def nat_less_iff)

lemma fits_option [fit_rules]:
  "(x = None \<Longrightarrow> outcome_fits y) \<Longrightarrow> (\<And>a. x = Some a \<Longrightarrow> outcome_fits (f a))
    \<Longrightarrow> outcome_fits (case x of None \<Rightarrow> y | Some a \<Rightarrow> f a)"
  by (cases x) simp_all

lemma parse_device_fits: "params_fit p \<Longrightarrow> outcome_fits (parse_device argv p)"
  unfolding parse_device_def Let_def
  by (intro fit_rules) (auto simp: params_fit_def dev_of_def split: if_splits intro: less_le_trans [OF strtoul_offset])

lemma parse_set_fits: "params_fit p \<Longrightarrow> outcome_fits (parse_set argv p)"
  unfolding parse_set_def Let_def
  by (intro fit_rules) (auto simp: params_fit_def dest!: cfg_reg_of_page)

lemma parse_file_fits: "params_fit p \<Longrightarrow> outcome_fits (parse_file argv p)"
  unfolding parse_file_def by (intro fit_rules) (auto simp: params_fit_def)

lemma parse_options_fits: "params_fit p \<Longrightarrow> outcome_fits (Inr (parse_options argv arg p))"
proof (induction argv arg p rule: parse_options.induct)
  case (1 argv arg p)
  have "params_fit (p\<lparr>charFile := StrcpyS (charFile p) 16 a, fFile := True\<rparr>)"
    "params_fit (p\<lparr>charCount := StrcpyS (charCount p) 16 a, fCount := True\<rparr>)"
    "params_fit (p\<lparr>scByte := StrcpyS (scByte p) 16 a, fByte := True\<rparr>)"
    "params_fit (p\<lparr>p_out := l\<rparr>)" for a l
    using 1(4) by (simp_all add: params_fit_def)
  then show ?case
    using 1 by (subst parse_options.simps) (simp add: outcome_fits_def)
qed

lemma parse_rest_fits: "params_fit p \<Longrightarrow> outcome_fits (parse_rest argv p)"
  unfolding parse_rest_def
  by (intro fit_rules parse_device_fits parse_set_fits parse_file_fits parse_options_fits) (auto simp: params_fit_def)

lemma parse_action_fits: "params_fit p \<Longrightarrow> fst (parse_action p) \<in> {None, Some 0, Some 1} \<and> params_fit (snd (parse_action p))"
  by (simp add: parse_action_def params_fit_def MAXCHRLEN_def)

section \<open>Which command lines fault\<close>

text \<open>An argument that the parser reads is missing, although it has got as far as reading it.\<close>

definition missing_argument :: "string list \<Rightarrow> bool" where
  "missing_argument argv \<longleftrightarrow> 2 \<le> length argv \<and>
     ((argv ! 1 = ''-r'' \<or> argv ! 1 = ''-w'') \<and>
        (length argv = 2 \<or> dev_of (argv ! 2) \<noteq> None \<and> (length argv = 3 \<or> argv ! 1 = ''-w'' \<and> length argv = 4))
      \<or> argv ! 1 = ''-s'' \<and> (length argv = 2 \<or> cfg_reg_of (argv ! 2) \<noteq> None \<and> length argv = 3))"

definition voltage_refused :: "string list \<Rightarrow> bool" where
  "voltage_refused argv \<longleftrightarrow> 4 \<le> length argv \<and> argv ! 1 = ''-s'' \<and> cfg_reg_of (argv ! 2) \<noteq> None
     \<and> is_voltage (argv ! 2) \<and> 2500 < atoi (take 15 (argv ! 3))"

lemma take_is_short: "length s < n \<Longrightarrow> take n a = s \<longleftrightarrow> a = s"
  by (cases "length a \<le> n") auto

lemma copied:
  "length s < 1023 \<Longrightarrow> StrcpyS d MAXCHRLEN a = s \<longleftrightarrow> a = s"
  "dev_of (StrcpyS d MAXCHRLEN a) = dev_of a" "cfg_reg_of (StrcpyS d MAXCHRLEN a) = cfg_reg_of a"
  "is_voltage (StrcpyS d MAXCHRLEN a) = is_voltage a" "StrcpyS d 16 a = take 15 a"
  by (simp_all add: StrcpyS_def MAXCHRLEN_def dev_of_def cfg_reg_of_def is_voltage_def take_is_short min_def)

lemma device_faults:
  assumes "2 \<le> length argv"
  shows "parse_device argv p = Inl f \<longleftrightarrow> f = NullDeref \<and>
    (length argv = 2 \<or> dev_of (argv ! 2) \<noteq> None \<and> (length argv = 3 \<or> fWriteReg p \<and> length argv = 4))"
  using assms by (auto simp: parse_device_def arg_at_def copied Let_def split: option.split)

lemma set_faults:
  assumes "2 \<le> length argv"
  shows "parse_set argv p = Inl f \<longleftrightarrow>
    f = NullDeref \<and> (length argv = 2 \<or> cfg_reg_of (argv ! 2) \<noteq> None \<and> length argv = 3)
    \<or> f = Exit 1 \<and> 4 \<le> length argv \<and> cfg_reg_of (argv ! 2) \<noteq> None \<and> is_voltage (argv ! 2)
      \<and> 2500 < atoi (take 15 (argv ! 3))"
  using assms by (auto simp: parse_set_def arg_at_def copied Let_def split: option.split)

lemma file_faults: "parse_file argv p \<noteq> Inl f"
  by (simp add: parse_file_def)

lemma parse_param_faults:
  "parse_param argv p = Inl f \<longleftrightarrow>
     f = NullDeref \<and> missing_argument argv \<or> f = Exit 1 \<and> voltage_refused argv"
proof (cases "2 \<le> length argv")
  case False
  then show ?thesis by (simp add: parse_param_def missing_argument_def voltage_refused_def Let_def)
next
  case True
  then have rest: "parse_rest argv q = Inl f \<longleftrightarrow>
      (if fReadReg q \<or> fWriteReg q then parse_device argv q = Inl f
       else if fSetCfgReg q then parse_set argv q = Inl f else False)"
    if "fReadReg q \<or> fWriteReg q \<or> fSetCfgReg q \<or> fToFile q" for q
    using that file_faults by (auto simp: parse_rest_def)
  show ?thesis
    using True
    by (simp add: parse_param_def parse_action_def clear_flags_def Let_def copied rest device_faults set_faults
        missing_argument_def voltage_refused_def del: not_None_eq)
qed

text \<open>
  C12. The command line is parsed type-safely. The calls that do not return are known exactly: a null pointer is
  read if and only if the action reads or writes a device, or sets a register, and an argument it needs is missing
  (the register; after a known one the offset or the value; after \<^verbatim>\<open>-w\<close> also the value), and the program
  exits with 1 if and only if a voltage above 2500 is asked for, in the first 15 characters of its value. Otherwise the result is 0 or 1, and a state in
  which every string fits its buffer, the device is one of four and the offset a 32-bit number is followed by such
  a state.
\<close>

theorem parse_param_well_formed:
  assumes "params_fit p"
  shows "(parse_param argv p = Inl f \<longleftrightarrow> f = NullDeref \<and> missing_argument argv \<or> f = Exit 1 \<and> voltage_refused argv)
    \<and> (parse_param argv p = Inr (v, p') \<longrightarrow> (v = 0 \<or> v = 1) \<and> params_fit p')"
proof -
  define q where "q = clear_flags p\<lparr>charAction := StrcpyS (charAction (clear_flags p)) MAXCHRLEN (argv ! 1)\<rparr>"
  have c: "params_fit (clear_flags p)" "params_fit q"
    using assms by (simp_all add: params_fit_def clear_flags_def q_def)
  obtain r q' where a: "parse_action q = (r, q')" by (cases "parse_action q")
  then have "r \<in> {None, Some 0, Some 1}" "params_fit q'" using parse_action_fits [OF c(2)] by simp_all
  then have "outcome_fits (parse_param argv p)"
    unfolding parse_param_def Let_def q_def [symmetric] a prod.case
    using c(1) by (intro fit_rules parse_rest_fits) auto
  then show ?thesis using parse_param_faults by (auto simp: outcome_fits_def)
qed

theorem parse_param_well_formed_witness:
  "parse_param [''lago'', ''-r'', ''cfg''] params0 = Inl NullDeref
   \<and> parse_param [''lago'', ''-s'', ''hv1'', ''2600''] params0 = Inl (Exit 1)
   \<and> (\<exists>v p'. parse_param [''lago'', ''-r'', ''cfg'', ''8''] params0 = Inr (v, p') \<and> params_fit p')"
proof -
  have fit: "params_fit params0" by (simp add: params_fit_def params0_def MAXCHRLEN_def)
  have m: "missing_argument [''lago'', ''-r'', ''cfg'']" "voltage_refused [''lago'', ''-s'', ''hv1'', ''2600'']"
    by code_simp+
  have no: "\<not> missing_argument [''lago'', ''-r'', ''cfg'', ''8'']" "\<not> voltage_refused [''lago'', ''-r'', ''cfg'', ''8'']"
    by code_simp+
  note t = parse_param_well_formed [OF fit]
  have "parse_param [''lago'', ''-r'', ''cfg'', ''8''] params0 \<noteq> Inl f" for f
    using t [of "[''lago'', ''-r'', ''cfg'', ''8'']" f] no by blast
  then obtain x where "parse_param [''lago'', ''-r'', ''cfg'', ''8''] params0 = Inr x"
    by (cases "parse_param [''lago'', ''-r'', ''cfg'', ''8''] params0") auto
  moreover obtain v p' where "x = (v, p')" by (cases x)
  ultimately show ?thesis using t m by blast
qed

end
