(* ===== verification/UioApp.thy ===== *)
theory UioApp
  imports TrigTest LagoMain Versions ParamType
begin

unbundle bit_operations_syntax

text \<open>
  The predecessor of the acquisition program, \<^verbatim>\<open>projects/lago_test/uio_app.c\<close>: its command line, the
  devices, the single-register commands, and an acquisition that reads the memory half by half.
  The clock, the files and the counters are those of version 1.2, kept in the same record; the globals
  that only this program has are beside it. \<^verbatim>\<open>gps_elips\<close> is the field \<open>gps_alt\<close>.
\<close>

section \<open>State\<close>

definition MTD_TRG :: nat where "MTD_TRG = 8"

text \<open>\<^verbatim>\<open>ptC1\<close> \dots \<^verbatim>\<open>ptDD\<close> and \<^verbatim>\<open>gfT1\<close> \dots \<^verbatim>\<open>gGPSTM\<close> are lists in the order of their declaration.\<close>

record uio =
  u_daq :: daq
  u_pt :: "u32 list"
  u_gf :: "u32 list"
  u_ptD1 :: u32
  u_ptD2 :: u32
  u_lat :: int
  u_lon :: int
  u_elips :: int
  u_limit :: int
  u_r :: "int list"
  u_rates :: "int list"
  u_rates2 :: "int list"

definition on_daq :: "(daq \<Rightarrow> daq res) \<Rightarrow> uio \<Rightarrow> uio res" where
  "on_daq f u = bindE (f (u_daq u)) (\<lambda>d. Inr (u\<lparr>u_daq := d\<rparr>))"

section \<open>Single registers\<close>

definition u_rd_reg_value :: "int \<Rightarrow> nat \<Rightarrow> io \<Rightarrow> (int \<times> io) res" where
  "u_rd_reg_value dev off s =
     (case bank_of dev of
        None \<Rightarrow> Inr (- 1, put_line (''Invalid option: '' @ show_int dev) s)
      | Some b \<Rightarrow> bindE (dev_read b off s) (\<lambda>v. Inr (sint v, s)))"

definition u_wr_reg_value :: "int \<Rightarrow> nat \<Rightarrow> u32 \<Rightarrow> io \<Rightarrow> (int \<times> io) res" where
  "u_wr_reg_value dev off v s =
     (case bank_of dev of
        None \<Rightarrow> Inr (- 1, put_line (''Invalid option: '' @ show_int dev) s)
      | Some b \<Rightarrow> bindE (dev_write b off v s) (\<lambda>s. Inr (0, s)))"

definition u_rd_cfg_status :: "io \<Rightarrow> (int \<times> io) res" where
  "u_rd_cfg_status s =
     bindE (dev_read CFG CFG_TRLVL_1_OFFSET s) (\<lambda>t1.
     let s = put_line (''#Trigger Level Ch1 = '' @ show_d t1) s in
     bindE (dev_read CFG CFG_TRLVL_2_OFFSET s) (\<lambda>t2.
     let s = put_line (''#Trigger Level Ch2 = '' @ show_d t2) s in
     bindE (dev_read CFG V10_CFG_HV1_OFFSET s) (\<lambda>h1.
     let s = put_line (''#High Voltage 1    = '' @ show_d h1) s in
     bindE (dev_read CFG V10_CFG_HV2_OFFSET s) (\<lambda>h2.
     let s = put_line (''#High Voltage 2    = '' @ show_d h2) s
     in Inr (0, put_line ''Status from registers complete!'' (put_line [] s))))))"

text \<open>The voltage is unsigned here; the calibration line is that of version 1.0.\<close>

definition u_set_voltage :: "nat \<Rightarrow> u32 \<Rightarrow> io \<Rightarrow> io res" where
  "u_set_voltage off v s =
     bindE (v10_dac_of_hv (uint v)) (\<lambda>dac_val.
     bindE (dev_write CFG off dac_val s) (\<lambda>s.
     Inr (put_line (''The DAC value is: '' @ show_d dac_val @ '' DACs'')
           (put_line (''The Voltage is: '' @ show_d v @ '' mV'') s))))"

definition u_init_system :: "io \<Rightarrow> io res" where
  "u_init_system s =
     bindE (dev_write CFG CFG_TRLVL_1_OFFSET 8190 s) (\<lambda>s.
     bindE (dev_write CFG CFG_TRLVL_2_OFFSET 8190 s) (\<lambda>s.
     bindE (dev_write CFG CFG_STRLVL_1_OFFSET 8190 s) (\<lambda>s.
     bindE (dev_write CFG CFG_STRLVL_2_OFFSET 8190 s) (\<lambda>s.
     bindE (reset_gral (\<lambda>r. r AND NOT 1) s) (\<lambda>s.
     bindE (reset_gral (\<lambda>r. r AND NOT 4) s) (\<lambda>s.
     bindE (reset_gral (\<lambda>r. r AND NOT 2) s) (\<lambda>s.
     bindE (dev_write CFG CFG_NSAMPLES_OFFSET (1024 * 1024) s) (\<lambda>s.
     bindE (reset_gral (\<lambda>r. r OR 2) s) (\<lambda>s.
     bindE (reset_gral (\<lambda>r. r OR 1) s) (\<lambda>s.
     bindE (reset_gral (\<lambda>r. r OR 16) s) (\<lambda>s.
     bindE (dev_read CFG CFG_RESET_GRAL_OFFSET s) (\<lambda>reg_val.
     bindE (dev_write CFG CFG_RESET_GRAL_OFFSET (reg_val OR 4) s) (\<lambda>s.
     Inr (put_line (''written reg_val : 0x'' @ hex8 ((reg_val OR 4) AND 0xFFFF)) s))))))))))))))"

section \<open>Devices\<close>

definition u_intc_init :: "map_env \<Rightarrow> io \<Rightarrow> (int \<times> io) res" where
  "u_intc_init e s =
     bindE (uio_init INTC ''intc_init'' ''/dev/uio0'' e (put_line ''Initializing INTC device...'' s)) (\<lambda>(r, s).
     if r \<noteq> 0 then Inr (r, s) else enable_interrupt s)"

definition u_mem_init :: "int \<Rightarrow> int \<Rightarrow> bool \<Rightarrow> io \<Rightarrow> (int \<times> io) res" where
  "u_mem_init opened pagesize ok s =
     (let s = put_line ''Initializing mem device...'' s; s1 = s\<lparr>io_fd := (io_fd s)(MEM := opened)\<rparr>
      in if opened < 1
         then Inr (- 1, put_line ''mem_init: Invalid device file:/dev/mem.'' s1)
         else bindE (cmul 1024 pagesize) (\<lambda>sz.
              let s2 = mmap_dev MEM ok (s1\<lparr>dev_size := sz\<rparr>)
              in if \<not> ok then Inr (- 1, put_line ''mem_init: mmap call failure.'' s2)
                 else Inr (0, s2)))"

definition u_init_devices :: "world \<Rightarrow> io \<Rightarrow> io res" where
  "u_init_devices w s =
     bindE (case w_mem w of (opened, page, ok) \<Rightarrow> u_mem_init opened page ok s) (\<lambda>(_, s).
     bindE (u_intc_init (w_intc w) s) (\<lambda>(_, s).
     bindE (cfg_init (w_cfg w) (put_line ''Initializing CFG device...'' s)) (\<lambda>(_, s).
     bindE (sts_init (w_sts w) (put_line ''Initializing STS device...'' s)) (\<lambda>(_, s).
     bindE (xadc_init (w_xadc w) (put_line ''Initializing XADC device...'' s)) (\<lambda>(_, s). Inr s)))))"

definition u_wait_for_interrupt :: "irq \<Rightarrow> u32 \<Rightarrow> io \<Rightarrow> (int \<times> io) res" where
  \<comment> \<open>the second argument is what \<^verbatim>\<open>read\<close> leaves in \<^verbatim>\<open>info\<close>\<close>
  "u_wait_for_interrupt v info s =
     (if irq_write v \<noteq> 4 then Inl (Exit 1)
      else let s = put_line (''ret is : '' @ show_int (irq_poll v)) (irq_hw v s)
      in if 1 \<le> irq_poll v then
           (if irq_read v = 4 then
              bindE (dev_read INTC XIL_AXI_INTC_IPR_OFFSET s) (\<lambda>value.
              if value AND 1 \<noteq> 0 then
                bindE (dev_write INTC XIL_AXI_INTC_IAR_OFFSET 1 s) (\<lambda>s.
                Inr (irq_poll v, put_line (''Interrupt #'' @ show_nat (unat info) @ ''!'') s))
              else Inr (irq_poll v, s))
            else Inl (Exit 1))
         else Inr (irq_poll v, s))"

section \<open>Command line\<close>

definition u_parse_action :: "params \<Rightarrow> int option \<times> params" where
  "u_parse_action p =
     (if charAction p = ''-r'' then (None, p\<lparr>fReadReg := True\<rparr>)
      else if charAction p = ''-w'' then (None, p\<lparr>fWriteReg := True\<rparr>)
      else if charAction p = ''-a'' then (Some 1, p\<lparr>fGetCfgStatus := True\<rparr>)
      else if charAction p = ''-v'' then (Some 0, p\<lparr>fshowversion := True\<rparr>)
      else if charAction p = ''-s'' then (None, p\<lparr>fSetCfgReg := True\<rparr>)
      else if charAction p = ''-f'' then (None, p\<lparr>fToFile := True\<rparr>)
      else if charAction p = ''-o'' then (Some 1, p\<lparr>fToStdout := True\<rparr>)
      else if charAction p = ''-t'' then (Some 1, p\<lparr>fGetPT := True\<rparr>)
      else if charAction p = ''-g'' then (Some 1, p\<lparr>fGetGPS := True\<rparr>)
      else (Some 0, p))"

definition u_parse_device :: "string list \<Rightarrow> params \<Rightarrow> (int \<times> params) res" where
  "u_parse_device argv p =
     bindE (arg_at argv 2) (\<lambda>a2.
     let p = p\<lparr>charReg := StrcpyS (charReg p) MAXCHRLEN a2\<rparr>
     in case dev_of (charReg p) of None \<Rightarrow> Inr (0, p)
        | Some k \<Rightarrow>
            bindE (arg_at argv 3) (\<lambda>a3.
            let p = p\<lparr>n_dev := k, reg_off := nat (strtoul a3 16)\<rparr>
            in if fWriteReg p
               then bindE (arg_at argv 4) (\<lambda>a4. Inr (1, p\<lparr>reg_val := word_of_int (strtoul a4 10)\<rparr>))
               else Inr (1, p)))"

definition u_cfg_reg_of :: "string \<Rightarrow> nat option" where
  "u_cfg_reg_of r =
     (if r = ''t1'' then Some CFG_TRLVL_1_OFFSET
      else if r = ''t2'' then Some CFG_TRLVL_2_OFFSET
      else if r = ''st1'' then Some CFG_STRLVL_1_OFFSET
      else if r = ''st2'' then Some CFG_STRLVL_2_OFFSET
      else if r = ''hv1'' then Some V10_CFG_HV1_OFFSET
      else if r = ''hv2'' then Some V10_CFG_HV2_OFFSET
      else None)"

definition u_parse_set :: "string list \<Rightarrow> params \<Rightarrow> (int \<times> params) res" where
  "u_parse_set argv p =
     bindE (arg_at argv 2) (\<lambda>a2.
     let p = p\<lparr>charReg := StrcpyS (charReg p) MAXCHRLEN a2\<rparr>
     in case u_cfg_reg_of (charReg p) of None \<Rightarrow> Inr (0, p)
        | Some off \<Rightarrow>
            let p = p\<lparr>reg_off := off\<rparr>
            in bindE (arg_at argv 3) (\<lambda>a3.
               let p = p\<lparr>charRegValue := StrcpyS (charRegValue p) 16 a3\<rparr>
               in if take 2 (charReg p) = ''hv''
                  then (if atoi (charRegValue p) > 2500 then Inl (Exit 1)
                        else Inr (1, p\<lparr>fRegValue := True\<rparr>))
                  else Inr (1, p)))"

definition u_parse_rest :: "string list \<Rightarrow> params \<Rightarrow> (int \<times> params) res" where
  "u_parse_rest argv p =
     (if fReadReg p \<or> fWriteReg p then u_parse_device argv p
      else if fSetCfgReg p then u_parse_set argv p
      else if fToFile p then parse_file argv p
      else bindE (arg_at argv 2) (\<lambda>a2.
           Inr (parse_options argv 3 (p\<lparr>scRegister := StrcpyS (scRegister p) MAXCHRLEN a2\<rparr>))))"

definition u_parse_param :: "string list \<Rightarrow> params \<Rightarrow> (int \<times> params) res" where
  "u_parse_param argv p =
     (let p = clear_flags p
      in if length argv < 2 then Inr (0, p)
         else case u_parse_action (p\<lparr>charAction := StrcpyS (charAction p) MAXCHRLEN (argv ! 1)\<rparr>) of
                (Some v, p) \<Rightarrow> Inr (v, p)
              | (None, p) \<Rightarrow> u_parse_rest argv p)"

definition u_show_usage :: "string \<Rightarrow> params \<Rightarrow> string list" where
  "u_show_usage progname p =
     (if fshowversion p
      then [''LAGO ACQUA BRC v'' @ show_int 2 @ ''r'' @ show_int 0 @ '' data v'' @ show_int DATAVERSION]
      else
     [[], tabs 1 ''The LAGO ACQUA suite'',
      tabs 1 ''Data acquisition system for the LAGO BRC electronic'',
      tabs 1 ''(c) 2012-Today, The LAGO Project, http://lagoproject.org'',
      tabs 1 ''(c) 2012, LabDPR, http://labdpr.cab.cnea.gov.ar'',
      [], tabs 1 ''The LAGO Project, lago@lagoproject.org'',
      [], tabs 1 ''DPR Lab. 2012'',
      tabs 1 ''H. Arnaldi, lharnaldi@gmail.com - H. Asorey, asoreyh@gmail.com'',
      tabs 1 (''LAGO v'' @ show_int 2 @ ''r'' @ show_int 0 @ '' comms soft''), [],
      ''Usage: '' @ progname @ '' <action> <register> <value> [options]'',
      [], tabs 1 ''Actions:'',
      tabs 1 (''-a'' @ tabs 4 ''Get all registers status''),
      tabs 1 (''-s'' @ tabs 4 ''Set registers''),
      tabs 1 (''-f'' @ tabs 4 ''Start DAQ and save data to file''),
      tabs 1 (''-o'' @ tabs 4 ''Start DAQ and send data to stdout''),
      tabs 1 (''-g'' @ tabs 4 ''Get GPS data''),
      tabs 1 (''-t'' @ tabs 4 ''Get Pressure and Temperature data''),
      tabs 1 (''-v'' @ tabs 4 ''Show DAQ version''),
      [], tabs 1 ''Registers:'',
      tabs 1 (''t1, t2, t3'' @ tabs 3 ''Specify triggers 1, 2 and 3''),
      tabs 1 (''hv1, hv2, hv3'' @ tabs 3 ''Specify high voltages ...''),
      [], tabs 1 ''Options:'',
      tabs 1 (''-f <filename>'' @ tabs 3 ''Specify file name''),
      tabs 1 (''-c <# bytes>'' @ tabs 3 ''Number of bytes to read/write''),
      tabs 1 (''-b <byte>'' @ tabs 3 ''Value to load into register''), [], []])"

text \<open>The parser is type-safe, as that of version 1.2 is.\<close>

lemma u_cfg_reg_small: "u_cfg_reg_of r = Some off \<Longrightarrow> off < 4096"
  by (auto simp: u_cfg_reg_of_def cfg_offsets v10_offsets split: if_splits)

lemma u_parse_rest_fits:
  assumes "params_fit p"
  shows "outcome_fits (u_parse_rest argv p)"
  unfolding u_parse_rest_def u_parse_device_def u_parse_set_def Let_def using assms
  by (intro fit_rules parse_file_fits parse_options_fits)
    (auto simp: params_fit_def dev_of_def split: if_splits intro: less_le_trans [OF strtoul_offset] dest!: u_cfg_reg_small)

lemma u_parse_param_fits:
  assumes "params_fit p"
  shows "outcome_fits (u_parse_param argv p)"
proof -
  define q where "q = clear_flags p\<lparr>charAction := StrcpyS (charAction (clear_flags p)) MAXCHRLEN (argv ! 1)\<rparr>"
  have c: "params_fit (clear_flags p)" "params_fit q"
    using assms by (simp_all add: params_fit_def clear_flags_def q_def)
  obtain r q' where a: "u_parse_action q = (r, q')" by (cases "u_parse_action q")
  have "fst (u_parse_action q) \<in> {None, Some 0, Some 1} \<and> params_fit (snd (u_parse_action q))"
    using c(2) by (simp add: u_parse_action_def params_fit_def MAXCHRLEN_def)
  then have "r \<in> {None, Some 0, Some 1}" "params_fit q'" using a by simp_all
  then show ?thesis
    unfolding u_parse_param_def Let_def q_def [symmetric] a prod.case
    using c(1) by (intro fit_rules u_parse_rest_fits) auto
qed

section \<open>A new file\<close>

definition u_header_text :: "string list" where
  "u_header_text =
     [''# v '' @ show_int DATAVERSION,
      ''# #'',
      ''# # This is a LAGO raw data file, version '' @ show_int DATAVERSION,
      ''# # It contains the following data:'',
      ''# #   <N1> <N2>        : line with values of the 2 ADC for a triggered pulse'',
      ''# #   # t <C> <V>      : end of a trigger'',
      ''# #                      gives the channel trigger (<C>: 3 bit mask) and 40MHZ clock count (<V>) of the trigger time'',
      ''# #   # c <C>          : internal trigger counter'',
      ''# #   # x f <V>        : 40 MHz frequency'',
      ''# #   # x r C1-DD <V>  : raw temperature and pressure sensor value'',
      ''# #   # x r D1 <V>     : raw temperature/pressure value'',
      ''# #   # x r D2 <V>     : raw temperature/pressure value'',
      ''# #   # x h <HH:MM:SS> <DD/MM/YYYY> <S> : GPS time (every new second, last number is seconds since EPOCH)'',
      ''# #   # x s <T> C <P> hPa <A> m : temperature <T>, pressure <P> and altitude (from pressure) <A>'',
      ''# #   # x g <LAT> <LON> <ALT>   : GPS data - latitude, longitude, altitude'',
      ''# #   # x b <B1> <B2> <B3>      : baselines (NOT IMPLEMENTED IN LAGO)'',
      ''# # In case of error, an unfinished line will be finished by # E @@@'',
      ''# # Followed by a line with # E <N> and the error message in human readable format, where <N> is the error code:'',
      ''# #   # E 1 : read timeout of 2 seconds'',
      ''# #   # E 2 : too many buffer reading tries'',
      ''# #   # E 3 : unknown word from FPGA'',
      ''# #'',
      ''# # Current registers setting'',
      ''# #'']"

definition u_settings :: "u32 list \<Rightarrow> string list" where
  "u_settings gf =
     [''# x c T1 '' @ show_d (gf ! 0), ''# x c T2 '' @ show_d (gf ! 1), ''# x c T3 '' @ show_d (gf ! 2),
      ''# x c HV1 '' @ show_d (gf ! 6), ''# x c HV2 '' @ show_d (gf ! 7), ''# x c HV3 '' @ show_d (gf ! 8),
      ''# x c GPSTM UTC'', ''# #'']"

definition u_new_file :: "daq_env \<Rightarrow> u32 list \<Rightarrow> daq \<Rightarrow> daq res" where
  "u_new_file e gf d =
     (let d = (if \<not> d_toStdout d then open_file e d else d)
      in emits (u_header_text @ u_settings gf
           @ [''# # This file was started on '' @ hostname e, ''# # Machine local time was '' @ local_time e]
           @ (if falseGPS d then [''# # WARNING, there is no GPS, using PC time''] else [])
           @ [''# #'']) d)"

section \<open>The words of the memory\<close>

definition u_trigger :: "u32 \<Rightarrow> daq \<Rightarrow> daq res" where
  "u_trigger wo d =
     emit (''# t '' @ show_nat (unat (drop_bit 27 wo AND 0x7)) @ '' '' @ show_nat (unat (wo AND 0x7FFFFFF))) d"

definition u_pps_clock :: "daq_env \<Rightarrow> u32 list \<Rightarrow> u32 \<Rightarrow> daq \<Rightarrow> daq res" where
  "u_pps_clock e gf wo d =
     (if falseGPS d then
        let d = d\<lparr>fileDate := (fileDate d)\<lparr>tm_sec := tm_sec (fileDate d) + 1\<rparr>\<rparr>
        in if tm_sec (fileDate d) = 60 \<and> tm_min (fileDate d) = 59
           then (if \<not> d_toStdout d then u_new_file e gf d else Inr d)
           else Inr (normalise d)
      else
        let h = uint (drop_bit 16 wo AND 0xFF)
        in bindE
             (if to_u32 (tm_hour (fileDate d)) \<noteq> h then
                let d = (if to_u32 (tm_hour (fileDate d)) > h
                         then d\<lparr>fileDate := (fileDate d)\<lparr>tm_mday := tm_mday (fileDate d) + 1\<rparr>\<rparr> else d);
                    d = d\<lparr>fileDate := (fileDate d)\<lparr>tm_hour := h\<rparr>\<rparr>
                in if \<not> d_toStdout d then u_new_file e gf d else Inr d
              else Inr d)
             (\<lambda>d. Inr (d\<lparr>fileDate := (fileDate d)\<lparr>tm_hour := h,
                           tm_min := uint (drop_bit 8 wo AND 0xFF), tm_sec := uint (wo AND 0xFF)\<rparr>\<rparr>)))"

definition u_date :: "daq \<Rightarrow> string" where
  "u_date d =
     (let t = fileDate d
      in show_int0 2 (tm_hour t) @ '':'' @ show_int0 2 (tm_min t) @ '':'' @ show_int0 2 (tm_sec t)
         @ '' '' @ show_int0 2 (tm_mday t) @ ''/'' @ show_int0 2 (tm_mon t + 1) @ ''/''
         @ show_int0 4 (tm_year t + 1900) @ '' '' @ show_int (fileTime d))"

definition u_progress :: "int list \<Rightarrow> daq \<Rightarrow> string" where
  "u_progress r d =
     ''# '' @ u_date d @ '' - second '' @ show_int (mtd_seconds d) @ '' - rates: '' @ show_int (r ! 1) @ '' ''
       @ show_int (r ! 2) @ '' '' @ show_int (r ! 4) @ '' ('' @ show_int (r ! 3) @ '' - '' @ show_int (r ! 5)
       @ '' - '' @ show_int (r ! 6) @ '') ['' @ show_int (r ! 7) @ '']'' @ [CR]"

text \<open>
  The rates are meant to be indexed with \<^verbatim>\<open>j\<close>, which counts from 0 to 7; the code indexes them with
  \<^verbatim>\<open>i\<close>, the number of the word in the window.
\<close>

definition add_rate :: "nat \<Rightarrow> uio \<Rightarrow> uio" where
  "add_rate i u =
     u\<lparr>u_rates := (u_rates u)[i := to_i32 (u_rates u ! i + u_r u ! i)],
       u_rates2 := (u_rates2 u)[i := to_i32 (u_rates2 u ! i + u_r u ! i * u_r u ! i)],
       u_r := (u_r u)[i := 0]\<rparr>"

definition count_rates :: "nat \<Rightarrow> uio \<Rightarrow> uio res" where
  "count_rates i u = (if i < MTD_TRG then Inr ((add_rate i ^^ MTD_TRG) u) else Inl OutOfBounds)"

definition u_pps :: "daq_env \<Rightarrow> nat \<Rightarrow> u32 \<Rightarrow> uio \<Rightarrow> uio res" where
  "u_pps e i wo u =
     bindE (on_daq (\<lambda>d.
       bindE (u_pps_clock e (u_gf u) wo d) (\<lambda>d.
       let d = normalise (d\<lparr>mtd_seconds := to_i32 (mtd_seconds d + 1)\<rparr>)
       in bindE (emit (''# x h   '' @ u_date d) d) (\<lambda>d.
          Inr (d\<lparr>d_console := d_console d @ [u_progress (u_r u) d]\<rparr>)))) u)
     (count_rates i)"

definition high24 :: "u32 \<Rightarrow> int" where
  "high24 wo = to_i32 (uint (wo AND 0xFFFFFF) * 2 ^ 8)"

definition with_low :: "int \<Rightarrow> u32 \<Rightarrow> int" where
  "with_low tmp wo = to_i32 (tmp + uint (wo AND 0xFF))"

definition u_gps :: "u32 \<Rightarrow> uio \<Rightarrow> uio res" where
  "u_gps wo u =
     (let k = drop_bit 24 wo AND 0x7
      in if k = 0 then Inr (u\<lparr>u_lat := high24 wo\<rparr>)
         else if k = 1 then
           bindE (fdiv DOUBLE (f_of_int DOUBLE (with_low (u_lat u) wo)) (fdec 3600000 0)) (\<lambda>v.
           Inr (u\<lparr>u_daq := (u_daq u)\<lparr>gps_lat := v\<rparr>\<rparr>))
         else if k = 2 then Inr (u\<lparr>u_lon := high24 wo\<rparr>)
         else if k = 3 then
           bindE (fdiv DOUBLE (f_of_int DOUBLE (with_low (u_lon u) wo)) (fdec 3600000 0)) (\<lambda>v.
           Inr (u\<lparr>u_daq := (u_daq u)\<lparr>gps_lon := v\<rparr>\<rparr>))
         else if k = 4 then Inr (u\<lparr>u_elips := high24 wo\<rparr>)
         else if k = 5 then
           bindE (fdiv DOUBLE (f_of_int DOUBLE (with_low (u_elips u) wo)) (fdec 100 0)) (\<lambda>v.
           on_daq (\<lambda>d. emit (''# x g '' @ show_fix 6 (gps_lat d) @ '' '' @ show_fix 6 (gps_lon d)
                 @ '' '' @ show_fix 2 (gps_alt d)) d) (u\<lparr>u_daq := (u_daq u)\<lparr>gps_alt := v\<rparr>\<rparr>))
         else Inr u)"

definition u_status :: "daq_env \<Rightarrow> nat \<Rightarrow> u32 \<Rightarrow> uio \<Rightarrow> uio res" where
  "u_status e i wo u =
     (let k = drop_bit 27 wo
      in if k = 0x18 then on_daq (emit (''# x f         '' @ show_nat (unat (wo AND 0x03FFFFFF)) @ '' '')) u
         else if k = 0x19 then
           bindE (on_daq (emit (''# x r D2         '' @ show_nat (unat (wo AND 0xFFFF)) @ '' '')) u) (\<lambda>u.
           Inr (u\<lparr>u_ptD2 := wo AND 0xFFFF\<rparr>))
         else if k = 0x1A then
           bindE (on_daq (emit (''# x r D1         '' @ show_nat (unat (wo AND 0xFFFF)) @ '' '')) u) (\<lambda>u.
           Inr (u\<lparr>u_ptD1 := wo AND 0xFFFF\<rparr>))
         else if k = 0x1B then u_pps e i wo u
         else if k = 0x1C then u_gps wo u
         else on_daq (emits [''# E @@@'', ''# E 3 - unknown word from FPGA: '' @ show_nat (unat k) @ '' ''
                             @ show_hex (unat k)]) u)"

definition u_decode :: "daq_env \<Rightarrow> nat \<Rightarrow> u32 \<Rightarrow> uio \<Rightarrow> uio res" where
  "u_decode e i wo u =
     (if drop_bit 30 wo = 0 then on_daq (emit (sample_line wo)) u
      else if drop_bit 30 wo = 1 then on_daq (u_trigger wo) u
      else if drop_bit 30 wo = 2 then on_daq (on_counter wo) u
      else u_status e i wo u)"

definition u_word :: "daq_env \<Rightarrow> io \<Rightarrow> nat \<Rightarrow> uio \<Rightarrow> nat \<Rightarrow> uio res" where
  "u_word e s offset u i = bindE (dev_read MEM (offset + 4 * i) s) (\<lambda>wo. u_decode e i wo u)"

section \<open>Acquisition\<close>

text \<open>
  The test for the receiver is a logical \<^verbatim>\<open>&&\<close> where the bit was meant: it holds for every value but 0.
\<close>

definition u_first_time :: "daq_env \<Rightarrow> io \<Rightarrow> uio \<Rightarrow> uio res" where
  "u_first_time e s u =
     (if \<not> fFirstTime (u_daq u) then Inr u
      else bindE (dev_read CFG CFG_RESET_GRAL_OFFSET s) (\<lambda>g.
        let d = (u_daq u)\<lparr>fileTime := now e, fileDate := gmtime (now e)\<rparr>;
            d = (if g \<noteq> 0 then d\<lparr>falseGPS := True\<rparr>
                 else normalise (d\<lparr>fileDate := \<lparr>tm_sec = 55, tm_min = 55, tm_hour = 10, tm_mday = 29,
                                                 tm_mon = 8, tm_year = 2018\<rparr>\<rparr>));
            u = (if fhout d \<noteq> StdOut then u\<lparr>u_pt := replicate 11 10, u_gf := replicate 10 10\<rparr> else u)
        in bindE (u_new_file e (u_gf u) d) (\<lambda>d. Inr (u\<lparr>u_daq := d\<lparr>fFirstTime := False\<rparr>\<rparr>))))"

definition u_read_buffer :: "daq_env \<Rightarrow> io \<Rightarrow> int \<Rightarrow> uio \<Rightarrow> (int \<times> uio) res" where
  "u_read_buffer e s position u =
     bindE (u_first_time e s (u\<lparr>u_daq := start_call (u_daq u)\<rparr>)) (\<lambda>u.
     case half_window (u_limit u) position of
       None \<Rightarrow> Inr (1, u)
     | Some (offset, lmt) \<Rightarrow>
         bindE (runE (u_word e s offset) (u\<lparr>u_limit := lmt\<rparr>) [0..<MID]) (\<lambda>u. Inr (1, u)))"

text \<open>What the hardware does before each reading of its position; the list ends with the signal.\<close>

fun u_loop :: "daq_env \<Rightarrow> (io \<Rightarrow> io) list \<Rightarrow> io \<Rightarrow> uio \<Rightarrow> (io \<times> uio) res" where
  "u_loop e [] s u = Inr (s, u)"
| "u_loop e (hw # hs) s u =
     (let s = hw s
      in bindE (dev_read STS STS_STATUS_OFFSET s) (\<lambda>p.
         bindE (u_read_buffer e s (sint p) u) (\<lambda>(_, u). u_loop e hs s u)))"

definition u_acquire :: "daq_env \<Rightarrow> (io \<Rightarrow> io) list \<Rightarrow> io \<Rightarrow> uio \<Rightarrow> (io \<times> uio) res" where
  "u_acquire e hs s u = u_loop e hs s (u\<lparr>u_limit := int MID\<rparr>)"

section \<open>The program\<close>

definition u_run_action :: "world \<Rightarrow> (io \<Rightarrow> io) list \<Rightarrow> params \<Rightarrow> io \<Rightarrow> uio \<Rightarrow> (io \<times> uio) res" where
  "u_run_action w hs p s u =
     (if fReadReg p then bindE (u_rd_reg_value (n_dev p) (reg_off p) s) (\<lambda>(_, s). Inr (s, u))
      else if fWriteReg p then bindE (u_wr_reg_value (n_dev p) (reg_off p) (reg_val p) s) (\<lambda>(_, s). Inr (s, u))
      else if fSetCfgReg p then
        (if fRegValue p
         then bindE (u_set_voltage (reg_off p) (word_of_int (atoi (charRegValue p))) s) (\<lambda>s. Inr (s, u))
         else bindE (u_wr_reg_value 1 (reg_off p) (word_of_int (atoi (charRegValue p))) s) (\<lambda>(_, s). Inr (s, u)))
      else if fGetCfgStatus p then bindE (u_rd_cfg_status s) (\<lambda>(_, s). Inr (s, u))
      else if fGetPT p \<or> fGetGPS p then Inr (s, u)
      else if fToFile p \<or> fToStdout p then
        u_acquire (w_daq w) hs s
          (u\<lparr>u_daq := (u_daq u)\<lparr>d_toStdout := fToStdout p, d_charFile := charFile p\<rparr>\<rparr>)
      else Inr (s, u))"

definition u_main :: "world \<Rightarrow> (io \<Rightarrow> io) list \<Rightarrow> string list \<Rightarrow> params \<Rightarrow> io \<Rightarrow> uio \<Rightarrow> (int \<times> (io \<times> int list) \<times> uio) res" where
  "u_main w hs argv p0 s u =
     bindE (u_parse_param argv p0) (\<lambda>(ok, p).
     if ok = 0 then
       bindE (arg_at argv 0) (\<lambda>prog.
       Inr (1, (s\<lparr>io_out := io_out s @ p_out p @ u_show_usage prog p\<rparr>, []), u))
     else
       bindE (u_init_devices w s) (\<lambda>s.
       bindE (u_run_action w hs p s u) (\<lambda>(s, u).
       Inr (0, close_devices s, u))))"

section \<open>Which windows can be read\<close>

text \<open>A step that goes on: it returns and the output is open.\<close>

definition open_out :: "daq \<Rightarrow> bool" where
  "open_out d \<longleftrightarrow> fhout d \<noteq> NoFile"

definition lives :: "daq res \<Rightarrow> bool" where
  "lives r \<longleftrightarrow> (\<exists>d. r = Inr d \<and> open_out d)"

definition ready :: "int \<Rightarrow> uio \<Rightarrow> bool" where
  "ready lmt u \<longleftrightarrow> open_out (u_daq u) \<and> u_limit u = lmt"

definition goes_on :: "int \<Rightarrow> uio res \<Rightarrow> bool" where
  "goes_on lmt r \<longleftrightarrow> (\<exists>u. r = Inr u \<and> ready lmt u)"

named_theorems live_rules "steps that return with the output open"

lemma lives_Inr [live_rules]: "open_out d \<Longrightarrow> lives (Inr d)"
  by (simp add: lives_def)

lemma lives_bind [live_rules]: "lives m \<Longrightarrow> (\<And>d. open_out d \<Longrightarrow> lives (f d)) \<Longrightarrow> lives (bindE m f)"
  by (auto simp: lives_def)

lemma lives_if [live_rules]: "(b \<Longrightarrow> lives m) \<Longrightarrow> (\<not> b \<Longrightarrow> lives m') \<Longrightarrow> lives (if b then m else m')"
  by simp

lemma lives_emit [live_rules]: "open_out d \<Longrightarrow> lives (emit l d)"
  by (simp add: lives_def emit_def open_out_def)

lemma lives_emits [live_rules]: "open_out d \<Longrightarrow> lives (emits ls d)"
proof (induction ls arbitrary: d)
  case (Cons l ls)
  have "emits (l # ls) d = bindE (emit l d) (emits ls)" by (simp add: emits_def [abs_def])
  then show ?case using Cons by (auto intro: live_rules)
qed (simp add: emits_def lives_def)

lemma goes_on_Inr [live_rules]: "ready k u \<Longrightarrow> goes_on k (Inr u)"
  by (simp add: goes_on_def)

lemma goes_on_bind [live_rules]: "goes_on k m \<Longrightarrow> (\<And>u. ready k u \<Longrightarrow> goes_on k (f u)) \<Longrightarrow> goes_on k (bindE m f)"
  by (auto simp: goes_on_def)

lemma goes_on_if [live_rules]: "(b \<Longrightarrow> goes_on k m) \<Longrightarrow> (\<not> b \<Longrightarrow> goes_on k m') \<Longrightarrow> goes_on k (if b then m else m')"
  by simp

lemma goes_on_daq [live_rules]: "u_limit u = k \<Longrightarrow> lives (f (u_daq u)) \<Longrightarrow> goes_on k (on_daq f u)"
  by (auto simp: on_daq_def goes_on_def lives_def ready_def)

lemma goes_on_flt [live_rules]: "man y \<noteq> 0 \<Longrightarrow> (\<And>v. goes_on k (f v)) \<Longrightarrow> goes_on k (bindE (fdiv p x y) f)"
  by (simp add: fdiv_def Let_def)

lemma open_normalise [simp]: "open_out (normalise d) = open_out d"
  by (simp add: open_out_def normalise_def Let_def)

lemma lives_new_file:
  assumes "\<forall>p. fopen_ok e p" "open_out d \<or> \<not> d_toStdout d"
  shows "lives (u_new_file e gf d)"
  unfolding u_new_file_def Let_def using assms
  by (intro live_rules) (auto simp: open_out_def open_file_def Let_def)

lemma lives_clock:
  assumes "\<forall>p. fopen_ok e p" "open_out d"
  shows "lives (u_pps_clock e gf wo d)"
  unfolding u_pps_clock_def Let_def using assms
  by (intro live_rules lives_new_file) (auto simp: open_out_def normalise_def Let_def)

text \<open>Only a second that does not come among the first eight words of a window stops the program.\<close>

lemma u_pps_outcome:
  assumes "\<forall>p. fopen_ok e p" "ready k u"
  shows "if i < 8 then goes_on k (u_pps e i wo u) else u_pps e i wo u = Inl OutOfBounds"
proof -
  define f where "f d = bindE (u_pps_clock e (u_gf u) wo d) (\<lambda>d.
       let d = normalise (d\<lparr>mtd_seconds := to_i32 (mtd_seconds d + 1)\<rparr>)
       in bindE (emit (''# x h   '' @ u_date d) d) (\<lambda>d.
          Inr (d\<lparr>d_console := d_console d @ [u_progress (u_r u) d]\<rparr>)))" for d
  have "lives (f (u_daq u))"
    unfolding f_def Let_def using assms
    by (intro live_rules lives_clock) (auto simp: open_out_def normalise_def Let_def ready_def)
  then have g: "goes_on k (on_daq f u)" using assms(2) by (simp add: goes_on_daq ready_def)
  have "u_daq ((add_rate i ^^ n) v) = u_daq v \<and> u_limit ((add_rate i ^^ n) v) = u_limit v" for n v
    by (induction n) (simp_all add: add_rate_def)
  then show ?thesis using g unfolding u_pps_def f_def [symmetric]
    by (auto simp: goes_on_def count_rates_def MTD_TRG_def ready_def)
qed

lemma gps_scales: "man (fdec 3600000 0) \<noteq> 0" "man (fdec 100 0) \<noteq> 0"
  by code_simp+

lemma goes_on_gps: "ready k u \<Longrightarrow> goes_on k (u_gps wo u)"
  unfolding u_gps_def Let_def by (intro live_rules gps_scales) (simp_all add: open_out_def ready_def)

lemma second_is_status: "drop_bit 27 wo = 0x1B \<Longrightarrow> drop_bit 30 wo = 3" for wo :: u32
proof -
  assume k: "drop_bit 27 wo = 0x1B"
  have "drop_bit 30 wo = drop_bit 3 (drop_bit 27 wo)" by simp
  then show ?thesis unfolding k by simp
qed

lemma u_decode_outcome:
  assumes "\<forall>p. fopen_ok e p" "ready k u"
  shows "if drop_bit 27 wo = 0x1B \<and> 8 \<le> i then u_decode e i wo u = Inl OutOfBounds
    else goes_on k (u_decode e i wo u)"
proof (cases "drop_bit 27 wo = 0x1B")
  case True
  then show ?thesis
    using u_pps_outcome [OF assms, of i wo] second_is_status [OF True] by (auto simp: u_decode_def u_status_def Let_def)
next
  case False
  have r: "open_out (u_daq u)" "u_limit u = k" using assms(2) by (simp_all add: ready_def)
  have "lives (on_counter wo (u_daq u))" "lives (u_trigger wo (u_daq u))"
    unfolding on_counter_def u_trigger_def Let_def using r(1) by (intro live_rules; simp add: open_out_def)+
  then show ?thesis
    using False r assms(2) unfolding u_decode_def u_status_def Let_def
    by (auto intro!: live_rules goes_on_gps simp: ready_def)
qed

text \<open>The words of a window that stop the program.\<close>

definition late_second :: "io \<Rightarrow> nat \<Rightarrow> nat \<Rightarrow> bool" where
  "late_second s offset i \<longleftrightarrow> 8 \<le> i \<and> drop_bit 27 (peek MEM s (offset + 4 * i)) = 0x1B"

lemma u_words_outcome:
  assumes "\<forall>p. fopen_ok e p" "ready k u" "\<forall>i \<in> set js. dev_read MEM (offset + 4 * i) s = Inr (peek MEM s (offset + 4 * i))"
  shows "if \<exists>i \<in> set js. late_second s offset i then runE (u_word e s offset) u js = Inl OutOfBounds
    else goes_on k (runE (u_word e s offset) u js)"
  using assms(2,3)
proof (induction js arbitrary: u)
  case Nil
  then show ?case by (simp add: goes_on_def)
next
  case (Cons i js)
  have r: "u_word e s offset u i = u_decode e i (peek MEM s (offset + 4 * i)) u"
    using Cons.prems(2) by (simp add: u_word_def)
  have o: "if late_second s offset i then u_word e s offset u i = Inl OutOfBounds else goes_on k (u_word e s offset u i)"
    using u_decode_outcome [OF assms(1) Cons.prems(1), of "peek MEM s (offset + 4 * i)" i] r
    by (simp add: late_second_def conj_commute)
  show ?case
  proof (cases "late_second s offset i")
    case True
    then show ?thesis using o by auto
  next
    case False
    then obtain u1 where "u_word e s offset u i = Inr u1" "ready k u1" using o by (auto simp: goes_on_def)
    then show ?thesis using Cons.IH [of u1] Cons.prems(2) False by auto
  qed
qed

text \<open>The mapped memory of a run, in which everything is read.\<close>

definition uio_ready :: "io \<Rightarrow> bool" where
  "uio_ready s \<longleftrightarrow> io_ready s \<and> (\<exists>n. io_map s MEM = Some n \<and> 5 * MID \<le> n)"

lemma uio_words:
  assumes "uio_ready s" "half_window lmt p = Some (offset, lmt')"
  shows "\<forall>i \<in> set [0..<MID]. dev_read MEM (offset + 4 * i) s = Inr (peek MEM s (offset + 4 * i))"
proof
  fix i assume "i \<in> set [0..<MID]"
  then have "(offset + 4 * i) mod 4 = 0" "offset + 4 * i + 4 \<le> 5 * MID"
    using assms(2) by (auto simp: half_window_def MID_def split: if_splits)
  then show "dev_read MEM (offset + 4 * i) s = Inr (peek MEM s (offset + 4 * i))"
    using assms(1) unfolding uio_ready_def dev_read_def by (fastforce intro: accessible_word)
qed

text \<open>The date the first call starts from, without a receiver (\<open>b\<close>) or with one.\<close>

definition first_date :: "daq_env \<Rightarrow> bool \<Rightarrow> daq \<Rightarrow> daq" where
  "first_date e b d =
     (if b then d\<lparr>fileTime := now e, fileDate := gmtime (now e), falseGPS := True\<rparr>
      else normalise (d\<lparr>fileTime := now e, fileDate := \<lparr>tm_sec = 55, tm_min = 55, tm_hour = 10, tm_mday = 29,
                                                 tm_mon = 8, tm_year = 2018\<rparr>\<rparr>))"

lemma first_date_sel [simp]:
  "d_toStdout (first_date e b d) = d_toStdout d" "open_out (first_date e b d) = open_out d"
  "falseGPS (first_date e b d) = (b \<or> falseGPS d)"
  by (simp_all add: first_date_def open_out_def normalise_def Let_def)

lemma u_first_time_form:
  assumes "io_ready s" "fFirstTime d"
  shows "\<exists>gf v. u_limit v = u_limit u \<and> u_first_time e s (u\<lparr>u_daq := d\<rparr>)
    = bindE (u_new_file e gf (first_date e (peek CFG s CFG_RESET_GRAL_OFFSET \<noteq> 0) d))
        (\<lambda>d. Inr (v\<lparr>u_daq := d\<lparr>fFirstTime := False\<rparr>\<rparr>))"
proof -
  let ?d = "first_date e (peek CFG s CFG_RESET_GRAL_OFFSET \<noteq> 0) d"
  define v where "v = (if fhout ?d \<noteq> StdOut then u\<lparr>u_daq := d, u_pt := replicate 11 10, u_gf := replicate 10 10\<rparr> else u\<lparr>u_daq := d\<rparr>)"
  have "u_first_time e s (u\<lparr>u_daq := d\<rparr>) = bindE (u_new_file e (u_gf v) ?d) (\<lambda>d. Inr (v\<lparr>u_daq := d\<lparr>fFirstTime := False\<rparr>\<rparr>))"
    using assms by (simp add: u_first_time_def io_simps cfg_offsets Let_def v_def first_date_def)
  moreover have "u_limit v = u_limit u" by (simp add: v_def)
  ultimately show ?thesis by blast
qed

lemma start_call_open: "d_toStdout (start_call d) \<Longrightarrow> open_out (start_call d)" "open_out d \<Longrightarrow> open_out (start_call d)"
  "fFirstTime (start_call d) = fFirstTime d" "falseGPS (start_call d) = falseGPS d"
  by (auto simp: start_call_def open_out_def)

lemma u_first_time_outcome:
  assumes "\<forall>p. fopen_ok e p" "io_ready s" "fFirstTime (u_daq u) \<or> open_out (u_daq u)"
  shows "goes_on (u_limit u) (u_first_time e s (u\<lparr>u_daq := start_call (u_daq u)\<rparr>))"
proof (cases "fFirstTime (u_daq u)")
  case True
  then obtain gf v where v: "u_limit v = u_limit u" "u_first_time e s (u\<lparr>u_daq := start_call (u_daq u)\<rparr>)
    = bindE (u_new_file e gf (first_date e (peek CFG s CFG_RESET_GRAL_OFFSET \<noteq> 0) (start_call (u_daq u))))
        (\<lambda>d. Inr (v\<lparr>u_daq := d\<lparr>fFirstTime := False\<rparr>\<rparr>))"
    using u_first_time_form [OF assms(2), of "start_call (u_daq u)" u e] start_call_open(3) by metis
  have "lives (u_new_file e gf (first_date e (peek CFG s CFG_RESET_GRAL_OFFSET \<noteq> 0) (start_call (u_daq u))))"
    using start_call_open(1) by (intro lives_new_file assms(1)) auto
  then show ?thesis using v by (auto simp: lives_def goes_on_def ready_def open_out_def)
next
  case False
  then show ?thesis
    using assms(3) start_call_open(2,3) by (auto simp: u_first_time_def goes_on_def ready_def)
qed

text \<open>The turns that can be read to the end, from this limit on.\<close>

fun turns_ok :: "(io \<Rightarrow> io) list \<Rightarrow> io \<Rightarrow> int \<Rightarrow> bool" where
  "turns_ok [] s lmt = True"
| "turns_ok (hw # hs) s lmt =
     (case half_window lmt (sint (peek STS (hw s) STS_STATUS_OFFSET)) of
        None \<Rightarrow> turns_ok hs (hw s) lmt
      | Some (offset, lmt') \<Rightarrow>
          (\<forall>i < MID. \<not> late_second (hw s) offset i) \<and> turns_ok hs (hw s) lmt')"

lemma u_read_buffer_outcome:
  assumes "\<forall>p. fopen_ok e p" "uio_ready s" "fFirstTime (u_daq u) \<or> open_out (u_daq u)"
  shows "case half_window (u_limit u) p of
      None \<Rightarrow> \<exists>u'. u_read_buffer e s p u = Inr (1, u') \<and> ready (u_limit u) u'
    | Some (offset, lmt) \<Rightarrow>
        if \<exists>i < MID. late_second s offset i then u_read_buffer e s p u = Inl OutOfBounds
        else \<exists>u'. u_read_buffer e s p u = Inr (1, u') \<and> ready lmt u'"
proof -
  have i: "io_ready s" using assms(2) by (simp add: uio_ready_def)
  obtain u1 where u1: "u_first_time e s (u\<lparr>u_daq := start_call (u_daq u)\<rparr>) = Inr u1" "ready (u_limit u) u1"
    using u_first_time_outcome [OF assms(1) i assms(3)] by (auto simp: goes_on_def)
  then have l: "u_limit u1 = u_limit u" by (simp add: ready_def)
  show ?thesis
  proof (cases "half_window (u_limit u) p")
    case None
    then show ?thesis using u1 l by (simp add: u_read_buffer_def)
  next
    case (Some w)
    obtain offset lmt where w: "w = (offset, lmt)" by (cases w)
    have "ready lmt (u1\<lparr>u_limit := lmt\<rparr>)" using u1(2) by (simp add: ready_def)
    from u_words_outcome [OF assms(1) this uio_words [OF assms(2) Some [unfolded w]]]
    show ?thesis using u1(1) l Some w by (auto simp: u_read_buffer_def goes_on_def split: if_splits)
  qed
qed

lemma u_loop_outcome:
  assumes "\<forall>p. fopen_ok e p" "\<forall>hw \<in> set hs. \<forall>s. io_map (hw s) = io_map s" "uio_ready s"
    "fFirstTime (u_daq u) \<or> open_out (u_daq u)"
  shows "if turns_ok hs s (u_limit u) then \<exists>s' u'. u_loop e hs s u = Inr (s', u') else u_loop e hs s u = Inl OutOfBounds"
  using assms(2-4)
proof (induction hs arbitrary: s u)
  case Nil
  then show ?case by simp
next
  case (Cons hw hs)
  have m: "uio_ready (hw s)" using Cons.prems(1,2) by (simp add: uio_ready_def io_ready_def)
  then have p: "dev_read STS STS_STATUS_OFFSET (hw s) = Inr (peek STS (hw s) STS_STATUS_OFFSET)"
    by (simp add: uio_ready_def io_simps sts_xadc_offsets)
  define pos where "pos = sint (peek STS (hw s) STS_STATUS_OFFSET)"
  note r = u_read_buffer_outcome [OF assms(1) m Cons.prems(3), of pos]
  have l: "u_loop e (hw # hs) s u = bindE (u_read_buffer e (hw s) pos u) (\<lambda>(_, u). u_loop e hs (hw s) u)"
    using p by (simp add: Let_def pos_def)
  have IH: "turns_ok hs (hw s) k \<Longrightarrow> \<exists>s' v. u_loop e hs (hw s) u' = Inr (s', v)"
    "\<not> turns_ok hs (hw s) k \<Longrightarrow> u_loop e hs (hw s) u' = Inl OutOfBounds" if "ready k u'" for k u'
    using Cons.IH [of "hw s" u'] Cons.prems(1) m that by (auto simp: ready_def)
  show ?case
  proof (cases "half_window (u_limit u) pos")
    case None
    then obtain u' where "u_read_buffer e (hw s) pos u = Inr (1, u')" "ready (u_limit u) u'" using r by auto
    then show ?thesis using None l IH [of "u_limit u" u'] by (simp add: pos_def)
  next
    case (Some w)
    obtain offset lmt where w: "w = (offset, lmt)" by (cases w)
    show ?thesis
    proof (cases "\<exists>i < MID. late_second (hw s) offset i")
      case True
      then show ?thesis using Some w r l by (auto simp: pos_def)
    next
      case False
      then obtain u' where "u_read_buffer e (hw s) pos u = Inr (1, u')" "ready lmt u'"
        using r unfolding Some w option.case prod.case if_not_P [OF False] by blast
      then show ?thesis using Some w l False IH [of lmt u'] by (auto simp: pos_def)
    qed
  qed
qed

text \<open>
  C9. The acquisition of the predecessor does not survive a second. Whatever the hardware does, a run whose
  files open ends either regularly, with the signal, or with an access outside the arrays of the rates;
  and it is the latter exactly when one of the windows it reads has a pulse-per-second word anywhere
  but among its first eight words, because the rates are indexed with the number of the word.
\<close>

theorem uio_stops_at_seconds:
  assumes "\<forall>p. fopen_ok e p" "\<forall>hw \<in> set hs. \<forall>s. io_map (hw s) = io_map s" "uio_ready s"
    "fFirstTime (u_daq u) \<or> fhout (u_daq u) \<noteq> NoFile"
  shows "u_acquire e hs s u = Inl OutOfBounds \<and> \<not> turns_ok hs s (int MID)
    \<or> (\<exists>s' u'. u_acquire e hs s u = Inr (s', u')) \<and> turns_ok hs s (int MID)"
  using u_loop_outcome [OF assms(1-3), of "u\<lparr>u_limit := int MID\<rparr>"] assms(4)
  by (auto simp: u_acquire_def open_out_def split: if_splits)

definition uio0 :: uio where
  "uio0 = \<lparr>u_daq = daq0, u_pt = [], u_gf = replicate 10 0, u_ptD1 = 0, u_ptD2 = 0, u_lat = 0, u_lon = 0, u_elips = 0,
     u_limit = 0, u_r = replicate 8 0, u_rates = replicate 8 0, u_rates2 = replicate 8 0\<rparr>"

definition seconds_only :: "io \<Rightarrow> io" where
  \<comment> \<open>the hardware is in the upper half and every word is a pulse per second\<close>
  "seconds_only s = s\<lparr>io_reg := (io_reg s)(STS := \<lambda>_. 600000, MEM := \<lambda>_. 0xD8000000)\<rparr>"

theorem uio_stops_at_seconds_witness:
  "u_acquire env0 [seconds_only] (io0\<lparr>io_map := \<lambda>_. Some 4194304\<rparr>) uio0 = Inl OutOfBounds"
proof -
  have h: "half_window (int MID) 600000 = Some (0, 0)" by (simp add: half_window_def MID_def)
  have p: "peek STS (seconds_only s) STS_STATUS_OFFSET = 600000" for s by (simp add: seconds_only_def peek_def)
  have "late_second (seconds_only s) 0 8" for s by (simp add: late_second_def seconds_only_def peek_def)
  moreover have "8 < MID" by (simp add: MID_def)
  ultimately have "\<exists>i < MID. late_second (seconds_only s) 0 i" for s by blast
  then have "\<not> turns_ok [seconds_only] s (int MID)" for s using h by (simp add: p)
  moreover have "io_map (seconds_only s) = io_map s" for s by (simp add: seconds_only_def)
  ultimately show ?thesis
    using uio_stops_at_seconds [of env0 "[seconds_only]" "io0\<lparr>io_map := \<lambda>_. Some 4194304\<rparr>" uio0]
    by (auto simp: env0_def uio_ready_def io_ready_def MID_def uio0_def daq0_def)
qed

section \<open>Positions\<close>

text \<open>A position comes in six words: the upper 24 and the lower 8 bits of each coordinate.\<close>

definition gps_word :: "int \<Rightarrow> int \<Rightarrow> u32" where
  "gps_word k x = word_of_int (28 * 2 ^ 27 + k * 2 ^ 24 + x)"

definition coord_words :: "int \<Rightarrow> int \<Rightarrow> u32 list" where
  "coord_words k v = [gps_word k (v mod 2 ^ 32 div 256), gps_word (k + 1) (v mod 256)]"

lemma gps_word_fields:
  assumes "0 \<le> k" "k < 8" "0 \<le> x" "x < 2 ^ 24"
  shows "drop_bit 30 (gps_word k x) = 3" "drop_bit 27 (gps_word k x) = 0x1C"
    "drop_bit 24 (gps_word k x) AND 0x7 = word_of_int k"
    "uint (gps_word k x AND 0xFFFFFF) = x" "uint (gps_word k x AND 0xFF) = x mod 256"
proof -
  define w where "w = gps_word k x"
  have u: "uint w = 28 * 2 ^ 27 + k * 2 ^ 24 + x"
    unfolding w_def gps_word_def using assms by (subst uint_word_of_int_eq) (simp_all add: take_bit_int_eq_self)
  have d: "uint (drop_bit n w) = uint w div 2 ^ n" for n
    using drop_bit_unat [of n w] by (metis of_nat_numeral of_nat_power uint_nat zdiv_int)
  have m: "uint (v AND mask n) = uint v mod 2 ^ n" for v :: u32 and n
    using low_mask_mod [of v n] by (metis of_nat_numeral of_nat_power uint_nat zmod_int)
  show "drop_bit 30 (gps_word k x) = 3"
    using u assms by (simp add: word_uint_eq_iff d flip: w_def)
  show "drop_bit 27 (gps_word k x) = 0x1C"
    using u assms by (simp add: word_uint_eq_iff d flip: w_def)
  have "uint w = x + (224 + k) * 2 ^ 24" "x + (224 + k) * 2 ^ 24 = x + (224 + k) * 65536 * 256" using u by simp_all
  then have e: "uint w mod 2 ^ 24 = x" "uint w mod 256 = x mod 256"
    using assms(3,4) mod_mult_self1 [of x "224 + k" "2 ^ 24"] mod_mult_self1 [of x "(224 + k) * 65536" 256]
    by (simp_all add: mult.commute)
  have "uint w = x + (224 + k) * 2 ^ 24" using u by simp
  then have "uint (drop_bit 24 w) = 224 + k" using assms(3,4) by (simp add: d)
  moreover have "(224 + k) mod 8 = k" using assms(1,2) by presburger
  ultimately have "uint (drop_bit 24 w AND mask 3) = k" by (simp add: m)
  then have "drop_bit 24 w AND mask 3 = word_of_int k" by (metis word_of_int_uint)
  then show "drop_bit 24 (gps_word k x) AND 0x7 = word_of_int k" by (simp add: mask_eq_exp_minus_1 flip: w_def)
  show "uint (gps_word k x AND 0xFFFFFF) = x" "uint (gps_word k x AND 0xFF) = x mod 256"
    using m [of w 24] m [of w 8] e assms(3,4) by (simp_all add: mask_eq_exp_minus_1 flip: w_def)
qed

lemma halves_of: "0 \<le> v mod 2 ^ 32 div 256" "v mod 2 ^ 32 div 256 < 2 ^ 24" "0 \<le> v mod 256" "v mod 256 < 2 ^ 24" for v :: int
  using pos_mod_bound [of 256 v] by simp_all

text \<open>What is decoded from the two words of a coordinate.\<close>

lemma coord_decoded:
  assumes "in_i32 v" "0 \<le> k" "k < 7"
  shows "with_low (high24 (gps_word k (v mod 2 ^ 32 div 256))) (gps_word (k + 1) (v mod 256)) = v"
proof -
  have t: "to_i32 (to_i32 a + b) = to_i32 (a + b)" for a b :: int
    using mod_add_left_eq [of "a + 2147483648" 4294967296 b] by (simp add: to_i32_def algebra_simps)
  have "v mod 2 ^ 32 mod 256 = v mod 256" by (rule mod_mod_cancel) simp
  then have "v mod 2 ^ 32 div 256 * 256 + v mod 256 = v mod 2 ^ 32" by (metis div_mult_mod_eq)
  then have "v mod 2 ^ 32 div 256 * 2 ^ 8 + v mod 256 = v mod 2 ^ 32" by simp
  moreover have "to_i32 (v mod 2 ^ 32) = v" 
    using assms(1) to_i32_id [of v] mod_add_left_eq [of v 4294967296 2147483648] by (simp add: to_i32_def)
  ultimately show ?thesis
    using gps_word_fields(4) [OF assms(2) _ halves_of(1,2)] gps_word_fields(5) [OF _ _ halves_of(3,4), of "k + 1"] assms
    by (simp add: with_low_def high24_def t)
qed

lemma u_decode_gps:
  assumes "0 \<le> k" "k < 8" "0 \<le> x" "x < 2 ^ 24"
  shows "u_decode e i (gps_word k x) u = u_gps (gps_word k x) u"
  by (simp add: u_decode_def u_status_def gps_word_fields [OF assms] Let_def)

definition scaled :: "int \<Rightarrow> int \<Rightarrow> flt res" where
  "scaled n v = fdiv DOUBLE (f_of_int DOUBLE v) (fdec n 0)"

lemma first_words:
  "u_decode e i (gps_word 0 (v mod 2 ^ 32 div 256)) u = Inr (u\<lparr>u_lat := high24 (gps_word 0 (v mod 2 ^ 32 div 256))\<rparr>)"
  "u_decode e i (gps_word 2 (v mod 2 ^ 32 div 256)) u = Inr (u\<lparr>u_lon := high24 (gps_word 2 (v mod 2 ^ 32 div 256))\<rparr>)"
  "u_decode e i (gps_word 4 (v mod 2 ^ 32 div 256)) u = Inr (u\<lparr>u_elips := high24 (gps_word 4 (v mod 2 ^ 32 div 256))\<rparr>)"
  by (simp_all only: u_decode_gps halves_of zero_le_numeral order_refl numeral_less_iff num.simps zero_less_numeral semiring_norm
    u_gps_def gps_word_fields(3) Let_def)
    simp_all

lemma second_word_1:
  assumes "in_i32 v" "u_lat u = high24 (gps_word 0 (v mod 2 ^ 32 div 256))"
  shows "u_decode e i (gps_word 1 (v mod 256)) u
      = bindE (scaled 3600000 v) (\<lambda>a. Inr (u\<lparr>u_daq := (u_daq u)\<lparr>gps_lat := a\<rparr>\<rparr>))"
  using coord_decoded [OF assms(1), of 0] assms(2) u_decode_gps [OF _ _ halves_of(3,4), of 1 e i v u]
    gps_word_fields(3) [OF _ _ halves_of(3,4), of 1 v]
  by (simp add: u_gps_def Let_def scaled_def)

lemma second_word_3:
  assumes "in_i32 v" "u_lon u = high24 (gps_word 2 (v mod 2 ^ 32 div 256))"
  shows "u_decode e i (gps_word 3 (v mod 256)) u
      = bindE (scaled 3600000 v) (\<lambda>a. Inr (u\<lparr>u_daq := (u_daq u)\<lparr>gps_lon := a\<rparr>\<rparr>))"
  using coord_decoded [OF assms(1), of 2] assms(2) u_decode_gps [OF _ _ halves_of(3,4), of 3 e i v u]
    gps_word_fields(3) [OF _ _ halves_of(3,4), of 3 v]
  by (simp add: u_gps_def Let_def scaled_def)

lemma second_word_5:
  assumes "in_i32 v" "u_elips u = high24 (gps_word 4 (v mod 2 ^ 32 div 256))"
  shows "u_decode e i (gps_word 5 (v mod 256)) u
      = bindE (scaled 100 v) (\<lambda>a. on_daq (\<lambda>d. emit (''# x g '' @ show_fix 6 (gps_lat d) @ '' '' @ show_fix 6 (gps_lon d)
          @ '' '' @ show_fix 2 (gps_alt d)) d) (u\<lparr>u_daq := (u_daq u)\<lparr>gps_alt := a\<rparr>\<rparr>))"
  using coord_decoded [OF assms(1), of 4] assms(2) u_decode_gps [OF _ _ halves_of(3,4), of 5 e i v u]
    gps_word_fields(3) [OF _ _ halves_of(3,4), of 5 v]
  by (simp add: u_gps_def Let_def scaled_def)

lemmas second_words = second_word_1 second_word_3 second_word_5

text \<open>A quotient as close to the exact one as the format allows.\<close>

definition close_to :: "flt \<Rightarrow> real \<Rightarrow> bool" where
  "close_to z r \<longleftrightarrow> \<bar>fval z - r\<bar> \<le> \<bar>r\<bar> * 2 powi (- 53)"

lemma scaled_close:
  assumes "in_i32 v" "0 < n" "n < 2 ^ 53" "man (fdec n 0) \<noteq> 0"
  obtains z where "scaled n v = Inr z" "close_to z (v / n)"
proof -
  have "fval (f_of_int DOUBLE v) = v" using assms(1) by (intro f_of_int_exact) (auto simp: in_i32_iff)
  moreover have "fval (fdec n 0) = n"
    using f_of_int_exact [of n 53] assms(2,3) by (simp add: fdec_def f_of_int_def)
  ultimately show ?thesis
    using fdiv_error [OF assms(4), of 53 "f_of_int DOUBLE v"] that by (auto simp: close_to_def scaled_def)
qed

text \<open>
  C21. Positions survive the transmission: a latitude and a longitude in milliseconds of arc and a height in
  centimetres, any 32-bit numbers, sent in six words, leave in the program the three coordinates
  in degrees and metres, each correct to the last bit of the format, and one line with
  them is written to the file that is open.
\<close>

theorem uio_position_roundtrip:
  assumes "in_i32 lat" "in_i32 lon" "in_i32 alt" "fhout (u_daq u) \<noteq> NoFile"
  shows "\<exists>u'. runE (\<lambda>u (i, wo). u_decode e i wo u) u (zip [0..<6] (coord_words 0 lat @ coord_words 2 lon @ coord_words 4 alt)) = Inr u'
    \<and> close_to (gps_lat (u_daq u')) (lat / 3600000) \<and> close_to (gps_lon (u_daq u')) (lon / 3600000)
    \<and> close_to (gps_alt (u_daq u')) (alt / 100)
    \<and> d_out (u_daq u') = d_out (u_daq u) @ [(fhout (u_daq u), ''# x g '' @ show_fix 6 (gps_lat (u_daq u'))
        @ '' '' @ show_fix 6 (gps_lon (u_daq u')) @ '' '' @ show_fix 2 (gps_alt (u_daq u')))]"
proof -
  obtain a where a: "scaled 3600000 lat = Inr a" "close_to a (lat / 3600000)"
    using scaled_close [OF assms(1), of 3600000] gps_scales by auto
  obtain b where b: "scaled 3600000 lon = Inr b" "close_to b (lon / 3600000)"
    using scaled_close [OF assms(2), of 3600000] gps_scales by auto
  obtain c where c: "scaled 100 alt = Inr c" "close_to c (alt / 100)"
    using scaled_close [OF assms(3), of 100] gps_scales by auto
  have z: "[0..<6] = [0, 1, 2, 3, 4, 5 :: nat]" by code_simp
  show ?thesis
    using assms(4) a b c
    by (simp add: z coord_words_def first_words second_words assms(1-3) on_daq_def emit_def del: power_numeral)
qed

theorem uio_position_roundtrip_witness:
  "\<exists>u'. runE (\<lambda>u (i, wo). u_decode env0 i wo u) uio0
      (zip [0..<6] (coord_words 0 (- 124000000) @ coord_words 2 (- 256000000) @ coord_words 4 84500)) = Inr u'
    \<and> close_to (gps_lat (u_daq u')) (- 124000000 / 3600000) \<and> length (d_out (u_daq u')) = 1"
  using uio_position_roundtrip [of "- 124000000" "- 256000000" 84500 uio0 env0]
  by (auto simp: in_i32_def uio0_def daq0_def)

section \<open>The receiver\<close>

lemma lives_read [live_rules]:
  "io_ready s \<Longrightarrow> off mod 4 = 0 \<Longrightarrow> off + 4 \<le> 4096 \<Longrightarrow> (\<And>v. lives (f v)) \<Longrightarrow> lives (bindE (dev_read b off s) f)"
  by (simp add: dev_read_ready)

lemma new_file_keeps_flag:
  assumes "io_ready s" "\<forall>p. fopen_ok e p" "d_toStdout d \<Longrightarrow> open_out d"
  shows "\<exists>d'. new_file e s d = Inr d' \<and> falseGPS d' = falseGPS d"
    "\<exists>d'. u_new_file e gf d = Inr d' \<and> falseGPS d' = falseGPS d"
proof -
  have "lives (new_file e s d)"
    unfolding new_file_def Let_def using assms
    by (intro live_rules) (auto simp: open_out_def open_file_def Let_def cfg_offsets)
  then show "\<exists>d'. new_file e s d = Inr d' \<and> falseGPS d' = falseGPS d"
    using kept_new_file [of d d e s] by (auto simp: lives_def kept_def keeps_def)
  have "kept d (u_new_file e gf d)"
    unfolding u_new_file_def Let_def by (intro kept_rules) (auto intro: keeps_open)
  moreover have "lives (u_new_file e gf d)" using assms(2,3) by (auto intro: lives_new_file)
  ultimately show "\<exists>d'. u_new_file e gf d = Inr d' \<and> falseGPS d' = falseGPS d"
    by (auto simp: lives_def kept_def keeps_def)
qed

lemma bit_test: "drop_bit n g AND 1 = 1 \<longleftrightarrow> bit g n" for g :: u32
  by (simp add: and_one_eq bit_iff_odd_drop_bit mod_2_eq_odd)

text \<open>
  C25. The two programs disagree about the receiver. On the same registers and the same record, the first
  call of the predecessor takes it for absent whenever the control register is not zero, that of version
  1.2 exactly when bit 4 is set; they differ exactly for the values that are not zero and have
  a cleared bit 4. The registers are mapped, every file can be opened, and the flag of a simulated clock is not set before.
\<close>

theorem receiver_test_differs:
  assumes "io_ready s" "\<forall>p. fopen_ok e p" "fFirstTime (u_daq u)" "\<not> falseGPS (u_daq u)"
  shows "\<exists>u' d'. u_first_time e s (u\<lparr>u_daq := start_call (u_daq u)\<rparr>) = Inr u'
    \<and> first_time e s (start_call (u_daq u)) = Inr d'
    \<and> (falseGPS (u_daq u') \<longleftrightarrow> peek CFG s CFG_RESET_GRAL_OFFSET \<noteq> 0)
    \<and> (falseGPS d' \<longleftrightarrow> bit (peek CFG s CFG_RESET_GRAL_OFFSET) 4)
    \<and> (falseGPS (u_daq u') \<noteq> falseGPS d' \<longleftrightarrow>
        peek CFG s CFG_RESET_GRAL_OFFSET \<noteq> 0 \<and> \<not> bit (peek CFG s CFG_RESET_GRAL_OFFSET) 4)"
proof -
  let ?g = "peek CFG s CFG_RESET_GRAL_OFFSET" and ?d = "start_call (u_daq u)"
  have g: "dev_read CFG CFG_RESET_GRAL_OFFSET s = Inr ?g" using assms(1) by (simp add: io_simps cfg_offsets)
  have d: "fFirstTime ?d" "\<not> falseGPS ?d" "d_toStdout ?d \<Longrightarrow> open_out ?d"
    using assms(3,4) by (auto simp: start_call_def open_out_def)
  have f: "falseGPS (first_date e b ?d) = b" "d_toStdout (first_date e b ?d) \<Longrightarrow> open_out (first_date e b ?d)" for b
    using d by auto
  obtain x where x: "new_file e s (first_date e (bit ?g 4) ?d) = Inr x" "falseGPS x = bit ?g 4"
    using new_file_keeps_flag(1) [OF assms(1,2) f(2)] f(1) by metis
  have "first_time e s ?d = bindE (new_file e s (first_date e (bit ?g 4) ?d)) (\<lambda>d. Inr (d\<lparr>fFirstTime := False\<rparr>))"
    using g d(1) by (simp add: first_time_def first_date_def bit_test Let_def)
  then have r: "\<exists>d'. first_time e s ?d = Inr d' \<and> falseGPS d' = bit ?g 4" using x by simp
  obtain gf v where "u_first_time e s (u\<lparr>u_daq := ?d\<rparr>)
      = bindE (u_new_file e gf (first_date e (?g \<noteq> 0) ?d)) (\<lambda>d. Inr (v\<lparr>u_daq := d\<lparr>fFirstTime := False\<rparr>\<rparr>))"
    using u_first_time_form [OF assms(1) d(1), of u e] by blast
  moreover obtain y where "u_new_file e gf (first_date e (?g \<noteq> 0) ?d) = Inr y" "falseGPS y = (?g \<noteq> 0)"
    using new_file_keeps_flag(2) [OF assms(1,2) f(2)] f(1) by metis
  ultimately have "\<exists>u'. u_first_time e s (u\<lparr>u_daq := ?d\<rparr>) = Inr u' \<and> falseGPS (u_daq u') = (?g \<noteq> 0)" by simp
  then show ?thesis using r by (metis bit_0_eq bot_apply bot_bool_def)
qed

theorem receiver_test_differs_witness:
  "\<exists>u' d'. u_first_time env0 (io0\<lparr>io_reg := \<lambda>_ _. 7\<rparr>) (uio0\<lparr>u_daq := start_call (daq0\<lparr>fFirstTime := True, falseGPS := False\<rparr>)\<rparr>) = Inr u'
    \<and> first_time env0 (io0\<lparr>io_reg := \<lambda>_ _. 7\<rparr>) (start_call (daq0\<lparr>fFirstTime := True, falseGPS := False\<rparr>)) = Inr d'
    \<and> falseGPS (u_daq u') \<and> \<not> falseGPS d'"
proof -
  have b: "\<not> bit (7 :: u32) 4" by (simp add: bit_iff_odd)
  show ?thesis
    using b receiver_test_differs [of "io0\<lparr>io_reg := \<lambda>_ _. 7\<rparr>" env0 "uio0\<lparr>u_daq := daq0\<lparr>fFirstTime := True, falseGPS := False\<rparr>\<rparr>"]
    by (auto simp: io_ready_def io0_def env0_def peek_def)
qed

end
