(* ===== verification/AcquaFile.thy ===== *)
theory AcquaFile
  imports Acqua UioApp
begin

unbundle bit_operations_syntax

text \<open>
  What \<^verbatim>\<open>projects/lago_test/lago.c\<close> does with the words: the data file, and beside it a file of metadata with
  the mean and the deviation of the rates and baselines, written when the file is closed. The
  state is that of \<open>UioApp\<close>, which this program came before, with the globals only it has. The
  calculation of pressure and temperature is in a file that is not part of the repository: the argument
  \<open>press\<close> is what it does to the state. The statistics are 32 bits wide and wrap round.
\<close>

section \<open>Square roots and scientific notation\<close>

fun isqrt_bits :: "nat \<Rightarrow> int \<Rightarrow> int \<Rightarrow> int" where
  "isqrt_bits 0 n r = r"
| "isqrt_bits (Suc k) n r = isqrt_bits k n (if (r + 2 ^ k) * (r + 2 ^ k) \<le> n then r + 2 ^ k else r)"

definition isqrt :: "int \<Rightarrow> int" where
  "isqrt n = isqrt_bits (ilog2 n div 2 + 1) n 0"

lemma isqrt_bits_floor:
  assumes "0 \<le> r" "r * r \<le> n" "n < (r + 2 ^ k) * (r + 2 ^ k)"
  shows "isqrt_bits k n r * isqrt_bits k n r \<le> n \<and> n < (isqrt_bits k n r + 1) * (isqrt_bits k n r + 1)
    \<and> 0 \<le> isqrt_bits k n r"
  using assms
proof (induction k arbitrary: r)
  case (Suc k)
  have "r + 2 ^ k + 2 ^ k = r + 2 ^ Suc k" by simp
  then have "n < (r + 2 ^ k + 2 ^ k) * (r + 2 ^ k + 2 ^ k)" using Suc.prems(3) by (simp only:)
  then show ?case using Suc.IH [of "r + 2 ^ k"] Suc.IH [of r] Suc.prems by (auto simp: not_le)
qed simp

text \<open>The integer square root is the floor of the real one.\<close>

lemma isqrt_floor:
  assumes "0 < n"
  shows "isqrt n * isqrt n \<le> n \<and> n < (isqrt n + 1) * (isqrt n + 1)"
proof -
  have "n < 2 ^ (ilog2 n + 1)" using ilog2_bounds [OF assms] by simp
  also have "(2 :: int) ^ (ilog2 n + 1) \<le> 2 ^ (2 * (ilog2 n div 2 + 1))" by (intro power_increasing) simp_all
  also have "\<dots> = 2 ^ (ilog2 n div 2 + 1) * 2 ^ (ilog2 n div 2 + 1)" by (simp only: mult_2 power_add)
  finally have "n < (0 + 2 ^ (ilog2 n div 2 + 1)) * (0 + 2 ^ (ilog2 n div 2 + 1))" by (simp only: add_0)
  from isqrt_bits_floor [OF order_refl _ this] show ?thesis using assms by (auto simp only: isqrt_def mult_zero_left less_imp_le)
qed

text \<open>The square root, correctly rounded; \<open>None\<close> is not a number.\<close>

definition fsqrt :: "nat \<Rightarrow> flt \<Rightarrow> flt option" where
  "fsqrt p x =
     (if man x < 0 then None
      else if man x = 0 then Some (Flt 0 0)
      else let j = 2 * p + 2 + (if odd (expo x) then 1 else 0); n = man x * 2 ^ j; r = isqrt n
           in Some (fround_dy p (2 * r + (if r * r = n then 0 else 1)) ((expo x - int j) div 2 - 1)))"

definition show_lf :: "flt option \<Rightarrow> string" where
  "show_lf x = (case x of None \<Rightarrow> ''nan'' | Some y \<Rightarrow> show_fix 6 y)"

definition show_le :: "flt \<Rightarrow> string" where
  "show_le x =
     (if man x = 0 then ''0.000000e+00''
      else let n = \<bar>man x\<bar> * p2 (expo x); d = p2 (- expo x);
               k = (if d \<le> n then int (length (show_nat (nat (n div d)))) - 1
                    else - int (length (show_nat (nat ((d - 1) div n)))));
               g = rne (n * 10 ^ nat (6 - k)) (d * 10 ^ nat (k - 6));
               (g, k) = (if g = 10 ^ 7 then (10 ^ 6, k + 1) else (g, k));
               t = show_int g
           in (if man x < 0 then ''-'' else []) @ take 1 t @ ''.'' @ drop 1 t @ ''e''
              @ (if k < 0 then ''-'' else ''+'') @ show_int0 2 \<bar>k\<bar>)"

section \<open>State\<close>

record acq =
  q_uio :: uio
  fhmtd :: stream
  q_meta :: "(stream \<times> string) list"
  q_bl :: "flt list"
  gpsDate :: "u8 list"
  configs_lines :: "string list"

definition on_uio :: "(uio \<Rightarrow> uio res) \<Rightarrow> acq \<Rightarrow> acq res" where
  "on_uio f q = bindE (f (q_uio q)) (\<lambda>u. Inr (q\<lparr>q_uio := u\<rparr>))"

definition on_file :: "(daq \<Rightarrow> daq res) \<Rightarrow> acq \<Rightarrow> acq res" where
  "on_file f = on_uio (on_daq f)"

definition upd_daq :: "(daq \<Rightarrow> daq) \<Rightarrow> acq \<Rightarrow> acq" where
  "upd_daq f q = q\<lparr>q_uio := (q_uio q)\<lparr>u_daq := f (u_daq (q_uio q))\<rparr>\<rparr>"

definition meta :: "string \<Rightarrow> acq \<Rightarrow> acq res" where
  "meta l q = (if fhmtd q = NoFile then Inl NullDeref else Inr (q\<lparr>q_meta := q_meta q @ [(fhmtd q, l)]\<rparr>))"

definition metas :: "string list \<Rightarrow> acq \<Rightarrow> acq res" where
  "metas ls q = runE (\<lambda>q l. meta l q) q ls"

section \<open>Metadata\<close>

definition quotient :: "int \<Rightarrow> int \<Rightarrow> flt res" where
  "quotient n d = fdiv DOUBLE (f_of_int DOUBLE n) (f_of_int DOUBLE d)"

text \<open>Mean and deviation from the sum and the sum of squares of \<open>d\<close> values.\<close>

definition mean_dev :: "int \<Rightarrow> int \<Rightarrow> int \<Rightarrow> (flt \<times> flt option) res" where
  "mean_dev d n n2 =
     bindE (quotient n d) (\<lambda>avg.
     bindE (quotient n2 d) (\<lambda>sq.
     Inr (avg, fsqrt DOUBLE (fsub DOUBLE sq (fmul DOUBLE avg avg)))))"

fun mean_devs :: "int \<Rightarrow> (int \<times> int) list \<Rightarrow> (flt \<times> flt option) list res" where
  "mean_devs d [] = Inr []"
| "mean_devs d ((n, n2) # xs) =
     bindE (mean_dev d n n2) (\<lambda>x. bindE (mean_devs d xs) (\<lambda>ys. Inr (x # ys)))"

definition statistics :: "int \<Rightarrow> int list \<Rightarrow> int list \<Rightarrow> (flt \<times> flt option) list res" where
  "statistics d ns n2s =
     (if d = 0 then Inr (map (\<lambda>_. (f_of_int DOUBLE (- 1), Some (f_of_int DOUBLE (- 1)))) ns)
      else mean_devs d (zip ns n2s))"

definition stat_lines :: "string \<Rightarrow> string \<Rightarrow> nat \<Rightarrow> (flt \<times> flt option) list \<Rightarrow> string list" where
  \<comment> \<open>all but the first; \<open>base\<close> is the number shown for index 0\<close>
  "stat_lines avg dev base xs =
     map (\<lambda>i. avg @ show_int0 2 (int (i + base)) @ ''='' @ show_lf (Some (fst (xs ! i)))) [1..<length xs]
     @ map (\<lambda>i. dev @ show_int0 2 (int (i + base)) @ ''='' @ show_lf (snd (xs ! i))) [1..<length xs]"

definition close_metadata :: "acq \<Rightarrow> acq res" where
  "close_metadata q =
     (if fhmtd q = NoFile then Inr q
      else let u = q_uio q; d = u_daq u
      in bindE (statistics (mtd_seconds d) (u_rates u) (u_rates2 u)) (\<lambda>rs.
         bindE (metas (stat_lines ''triggerRateAvg'' ''trigggerRateDev'' 0 rs) q) (\<lambda>q.
         bindE (statistics (mtd_cbl d) (mtd_bl d) (mtd_bl2 d)) (\<lambda>bs.
         bindE (if mtd_cbl d = 0 then Inr (f_of_int DOUBLE (- 1)) else quotient (mtd_cdp d) (mtd_cbl d)) (\<lambda>cdpf.
         bindE (metas (stat_lines ''baselineAvg'' ''baselineDev'' 1 bs
                 @ [''daqTime='' @ show_int (mtd_seconds d), ''totalPulses='' @ show_int (mtd_cbl d),
                    ''totalPulsesLost='' @ show_int (mtd_cdp d), ''fractionPulsesLost='' @ show_le cdpf]) q) (\<lambda>q.
         Inr (q\<lparr>q_uio := u\<lparr>u_rates := replicate MTD_TRG 0, u_rates2 := replicate MTD_TRG 0,
                 u_daq := d\<lparr>mtd_bl := replicate 3 0, mtd_bl2 := replicate 3 0, mtd_seconds := 0, mtd_cbl := 0,
                            mtd_cdp := 0\<rparr>\<rparr>\<rparr>)))))))"

section \<open>A new file\<close>

definition acq_open :: "daq_env \<Rightarrow> acq \<Rightarrow> acq" where
  "acq_open e q =
     (let q = upd_daq (open_file e) q; m = charCurrentMetaData (u_daq (q_uio q))
      in q\<lparr>fhmtd := if fopen_ok e m then DatFile m else NoFile\<rparr>)"

definition acq_header_text :: "string list" where
  "acq_header_text = u_header_text[4 := ''# #   <N1> <N2> <N3>   : line with values of the 3 ADC for a triggered pulse'']"

definition acq_settings :: "u32 list \<Rightarrow> string list" where
  "acq_settings gf =
     (u_settings gf)[6 := (if gf ! 9 = 0 then ''# x c GPSTM UTC'' else ''# x c GPSTM GPS'')]"

definition NewFile :: "daq_env \<Rightarrow> acq \<Rightarrow> acq res" where
  "NewFile e q =
     bindE (if d_toStdout (u_daq (q_uio q)) then Inr q
            else bindE (close_metadata q) (\<lambda>q. Inr (acq_open e q))) (\<lambda>q.
     let d = u_daq (q_uio q) in
     bindE (on_file (emits (acq_header_text @ acq_settings (u_gf (q_uio q)) @ [''# # This file was started on '' @ hostname e])) q) (\<lambda>q.
     bindE (meta (''daqHost='' @ [CHR 0x22] @ hostname e @ [CHR 0x22]) q) (\<lambda>q.
     bindE (on_file (emit (''# # Machine local time was '' @ local_time e)) q) (\<lambda>q.
     bindE (meta (''machineTime='' @ [CHR 0x22] @ local_time e @ [CHR 0x22]) q) (\<lambda>q.
     bindE (on_file (emits ((if falseGPS d then [''# # WARNING, there is no GPS, using PC time''] else []) @ [''# #''])) q) (\<lambda>q.
     metas ([''dataFile='' @ [CHR 0x22] @ charCurrentFile d @ [CHR 0x22],
             ''metadataFile='' @ [CHR 0x22] @ charCurrentMetaData d @ [CHR 0x22],
             ''daqVersion='' @ show_int 2,
             ''daqUseGPS='' @ (if falseGPS d then ''false'' else ''true'') @ ''dataVersion='' @ show_int DATAVERSION]
            @ configs_lines q
            @ [''version='' @ [CHR 0x22] @ ''LAGO ACQUA BRC v'' @ show_int 2 @ ''r'' @ show_int 0 @ '' data v''
               @ show_int DATAVERSION @ [CHR 0x22]]) q))))))"

section \<open>The words\<close>

definition chan :: "nat \<Rightarrow> u32 \<Rightarrow> int" where
  "chan k wo = uint (drop_bit (20 - 10 * k) wo AND 0x3FF)"

definition acq_sample :: "u32 \<Rightarrow> daq \<Rightarrow> daq res" where
  "acq_sample wo d =
     bindE (emit (show_int (chan 0 wo) @ '' '' @ show_int (chan 1 wo) @ '' '' @ show_int (chan 2 wo)) d) (\<lambda>d.
     let d = d\<lparr>mtd_iBin := to_i32 (mtd_iBin d + 1)\<rparr>
     in Inr (if mtd_iBin d = MTD_BLBIN
             then d\<lparr>mtd_bl := map (\<lambda>k. to_i32 (mtd_bl d ! k + chan k wo)) [0, 1, 2],
                    mtd_bl2 := map (\<lambda>k. to_i32 (mtd_bl2 d ! k + chan k wo * chan k wo)) [0, 1, 2],
                    mtd_cbl := to_i32 (mtd_cbl d + 1)\<rparr>
             else d))"

definition acq_trigger :: "u32 \<Rightarrow> uio \<Rightarrow> uio res" where
  "acq_trigger wo u =
     (let trig = unat (drop_bit 27 wo AND 0x7)
      in bindE (on_daq (u_trigger wo) u) (\<lambda>u.
         Inr (u\<lparr>u_r := (u_r u)[trig := to_i32 (u_r u ! trig + 1)], u_daq := (u_daq u)\<lparr>mtd_iBin := 0\<rparr>\<rparr>)))"

definition acq_clock :: "daq_env \<Rightarrow> u32 \<Rightarrow> acq \<Rightarrow> acq res" where
  "acq_clock e wo q =
     (if falseGPS (u_daq (q_uio q)) then
        let q = upd_daq (\<lambda>d. d\<lparr>fileDate := (fileDate d)\<lparr>tm_sec := tm_sec (fileDate d) + 1\<rparr>\<rparr>) q; d = u_daq (q_uio q)
        in if tm_sec (fileDate d) = 60 \<and> tm_min (fileDate d) = 59
           then (if \<not> d_toStdout d then NewFile e q else Inr q)
           else Inr (upd_daq normalise q)
      else
        let h = uint (drop_bit 16 wo AND 0xFF); d = u_daq (q_uio q)
        in bindE
             (if to_u32 (tm_hour (fileDate d)) \<noteq> h then
                let q = (if to_u32 (tm_hour (fileDate d)) > h
                         then upd_daq (\<lambda>d. d\<lparr>fileDate := (fileDate d)\<lparr>tm_mday := tm_mday (fileDate d) + 1\<rparr>\<rparr>) q else q);
                    q = upd_daq (\<lambda>d. d\<lparr>fileDate := (fileDate d)\<lparr>tm_hour := h\<rparr>\<rparr>) q
                in if \<not> d_toStdout d then NewFile e q else Inr q
              else Inr q)
             (\<lambda>q. Inr (upd_daq (\<lambda>d. d\<lparr>fileDate := (fileDate d)\<lparr>tm_hour := h,
                           tm_min := uint (drop_bit 8 wo AND 0xFF), tm_sec := uint (wo AND 0xFF)\<rparr>\<rparr>) q)))"

text \<open>Here the rates are indexed with their own counter.\<close>

definition acq_rates :: "uio \<Rightarrow> uio" where
  "acq_rates u = foldl (\<lambda>u i. add_rate i u) u [0..<MTD_TRG]"

definition acq_pps :: "daq_env \<Rightarrow> u32 \<Rightarrow> acq \<Rightarrow> acq res" where
  "acq_pps e wo q =
     bindE (acq_clock e wo q) (\<lambda>q.
     let q = upd_daq (\<lambda>d. normalise (d\<lparr>mtd_seconds := to_i32 (mtd_seconds d + 1)\<rparr>)) q
     in bindE (on_file (\<lambda>d. emit (''# x h   '' @ u_date d) d) q) (\<lambda>q.
        let q = upd_daq (\<lambda>d. d\<lparr>d_console := d_console d @ [u_progress (u_r (q_uio q)) d]\<rparr>) q
        in Inr (q\<lparr>q_uio := acq_rates (q_uio q)\<rparr>)))"

definition bl_field :: "nat \<Rightarrow> u32 \<Rightarrow> int" where
  "bl_field k wo = uint (drop_bit (18 - 9 * k) wo AND 0x1FF)"

definition acq_status :: "(acq \<Rightarrow> acq res) \<Rightarrow> daq_env \<Rightarrow> u32 \<Rightarrow> acq \<Rightarrow> acq res" where
  "acq_status press e wo q =
     (let k = drop_bit 27 wo
      in if k = 0x18 then on_file (emit (''# x f         '' @ show_nat (unat (wo AND 0x03FFFFFF)) @ '' '')) q
         else if k = 0x19 then
           bindE (on_file (emit (''# x r D2         '' @ show_nat (unat (wo AND 0xFFFF)) @ '' '')) q) (\<lambda>q.
           Inr (q\<lparr>q_uio := (q_uio q)\<lparr>u_ptD2 := wo AND 0xFFFF\<rparr>\<rparr>))
         else if k = 0x1A then
           bindE (on_file (emit (''# x r D1         '' @ show_nat (unat (wo AND 0xFFFF)) @ '' '')) q) (\<lambda>q.
           press (q\<lparr>q_uio := (q_uio q)\<lparr>u_ptD1 := wo AND 0xFFFF\<rparr>\<rparr>))
         else if k = 0x1B then acq_pps e wo q
         else if k = 0x1C then on_uio (u_gps wo) q
         else if k = 0x1F then
           Inr (q\<lparr>q_bl := map (\<lambda>k. f_of_int DOUBLE (2 * bl_field k wo)) [0, 1, 2]\<rparr>)
         else if k = 0x1E then
           bindE (fdiv DOUBLE (f_of_int DOUBLE (bl_field 0 wo)) (fdec 256 0)) (\<lambda>a.
           bindE (fdiv DOUBLE (f_of_int DOUBLE (bl_field 1 wo)) (fdec 256 0)) (\<lambda>b.
           bindE (fdiv DOUBLE (f_of_int DOUBLE (bl_field 2 wo)) (fdec 256 0)) (\<lambda>c.
           let q = q\<lparr>q_bl := [fadd DOUBLE (q_bl q ! 0) a, fadd DOUBLE (q_bl q ! 1) b, fadd DOUBLE (q_bl q ! 2) c]\<rparr>
           in on_file (emit (''# x b '' @ show_fix 4 (q_bl q ! 0) @ '' '' @ show_fix 4 (q_bl q ! 1) @ '' ''
                @ show_fix 4 (q_bl q ! 2))) q)))
         else on_file (emits [''# E @@@'', ''# E 3 - unknown word from FPGA: '' @ show_nat (unat k) @ '' ''
                             @ show_hex (unat k)]) q)"

definition acq_decode :: "(acq \<Rightarrow> acq res) \<Rightarrow> daq_env \<Rightarrow> acq \<Rightarrow> u32 \<Rightarrow> acq res" where
  "acq_decode press e q wo =
     (if drop_bit 30 wo = 0 then on_file (acq_sample wo) q
      else if drop_bit 30 wo = 1 then on_uio (acq_trigger wo) q
      else if drop_bit 30 wo = 2 then on_file (on_counter wo) q
      else acq_status press e wo q)"

section \<open>One call\<close>

definition pair16 :: "u8 list \<Rightarrow> nat \<Rightarrow> nat \<Rightarrow> u32" where
  "pair16 b i j = push_bit 8 (ucast (b ! i)) + ucast (b ! j)"

text \<open>The registers read at the start: constants of the sensor, thresholds and voltages.\<close>

definition load_settings :: "u8 list \<Rightarrow> uio \<Rightarrow> uio" where
  "load_settings b u =
     u\<lparr>u_pt := map (\<lambda>(i, j). pair16 b i j) [(19, 20), (21, 22), (23, 24), (25, 26), (27, 28), (30, 29), (32, 31)]
                 @ map (\<lambda>i. ucast (b ! i)) [33, 34, 35, 36],
       u_gf := map (\<lambda>(i, j). pair16 b i j) [(0, 1), (2, 3), (4, 5), (6, 7), (8, 9), (10, 11), (12, 13), (14, 15), (16, 17)]
                 @ [ucast (b ! 18)]\<rparr>"

definition acq_first_time :: "daq_env \<Rightarrow> u8 list option \<Rightarrow> acq \<Rightarrow> acq res" where
  \<comment> \<open>the list is what the 49 channels give, if reading them succeeds\<close>
  "acq_first_time e rgbPT q =
     (if \<not> fFirstTime (u_daq (q_uio q)) then Inr q
      else let g = (\<lambda>i. uint (gpsDate q ! i));
               q = upd_daq (\<lambda>d. d\<lparr>fileTime := now e, fileDate := gmtime (now e)\<rparr>) q;
               q = (if g 2 * 256 + g 3 = 0 then upd_daq (\<lambda>d. d\<lparr>falseGPS := True\<rparr>) q
                    else upd_daq (\<lambda>d. normalise (d\<lparr>fileDate := \<lparr>tm_sec = g 6, tm_min = g 5, tm_hour = g 4,
                           tm_mday = g 1, tm_mon = g 0 - 1, tm_year = g 2 * 256 + g 3 - 1900\<rparr>\<rparr>)) q)
           in bindE (if fhout (u_daq (q_uio q)) = StdOut then Inr q
                     else (case rgbPT of None \<Rightarrow> Inl (Exit 1)
                           | Some b \<Rightarrow> Inr (q\<lparr>q_uio := load_settings b (q_uio q)\<rparr>))) (\<lambda>q.
              bindE (NewFile e q) (\<lambda>q. Inr (upd_daq (\<lambda>d. d\<lparr>fFirstTime := False\<rparr>) q))))"

definition acq_read_buffer ::
  "(acq \<Rightarrow> acq res) \<Rightarrow> daq_env \<Rightarrow> int \<Rightarrow> int \<Rightarrow> u8 \<Rightarrow> u8 list option \<Rightarrow> (nat \<Rightarrow> u8) option \<Rightarrow> circ \<Rightarrow> acq \<Rightarrow> (int \<times> circ \<times> acq) res" where
  "acq_read_buffer press e wr clean idData rgbPT hw c q =
     (if clean = 0 \<and> idData AND 128 \<noteq> 128 then Inr (0, c, q)
      else let q = (if clean = 0 then q else q\<lparr>q_uio := (q_uio q)\<lparr>u_r := replicate MTD_TRG 0\<rparr>\<rparr>);
               q = upd_daq start_call q
           in bindE (acq_first_time e rgbPT q) (\<lambda>q.
              bindE (acqua_read wr clean idData hw c) (\<lambda>(r, ws, c).
              bindE (runE (acq_decode press e) q ws) (\<lambda>q. Inr (r, c, q)))))"

section \<open>Words that do not count\<close>

text \<open>The other statistics are 32-bit numbers throughout.\<close>

definition baselines_fit :: "daq \<Rightarrow> bool" where
  "baselines_fit d \<longleftrightarrow> in_i32 (mtd_cbl d) \<and> in_i32 (mtd_cdp d)
     \<and> (\<forall>n \<in> set (mtd_bl d). in_i32 n) \<and> (\<forall>n \<in> set (mtd_bl2 d). in_i32 n)"

definition same_clock :: "daq \<Rightarrow> daq \<Rightarrow> bool" where
  "same_clock d d' \<longleftrightarrow> falseGPS d' = falseGPS d \<and> fileDate d' = fileDate d \<and> fhout d' = fhout d
     \<and> mtd_seconds d' = mtd_seconds d \<and> (baselines_fit d \<longrightarrow> baselines_fit d')"

definition same_counts :: "acq \<Rightarrow> acq \<Rightarrow> bool" where
  "same_counts q q' \<longleftrightarrow> same_clock (u_daq (q_uio q)) (u_daq (q_uio q')) \<and> fhmtd q' = fhmtd q \<and> q_meta q' = q_meta q
     \<and> u_r (q_uio q') = u_r (q_uio q) \<and> u_rates (q_uio q') = u_rates (q_uio q) \<and> u_rates2 (q_uio q') = u_rates2 (q_uio q)"

definition calm :: "acq \<Rightarrow> acq res \<Rightarrow> bool" where
  "calm q r \<longleftrightarrow> (\<exists>q'. r = Inr q' \<and> same_counts q q')"

definition calm_daq :: "daq \<Rightarrow> daq res \<Rightarrow> bool" where
  "calm_daq d r \<longleftrightarrow> (\<exists>d'. r = Inr d' \<and> same_clock d d')"

named_theorems calm_rules "words that leave the clock and the rates alone"

lemma same_counts_refl [simp]: "same_counts q q"
  by (simp add: same_counts_def same_clock_def)

lemma calm_Inr [calm_rules]: "same_counts q q' \<Longrightarrow> calm q (Inr q')"
  by (simp add: calm_def)

lemma calm_bind [calm_rules]: "calm q m \<Longrightarrow> (\<And>q'. same_counts q q' \<Longrightarrow> calm q (f q')) \<Longrightarrow> calm q (bindE m f)"
  by (auto simp: calm_def)

lemma calm_if [calm_rules]: "(b \<Longrightarrow> calm q m) \<Longrightarrow> (\<not> b \<Longrightarrow> calm q m') \<Longrightarrow> calm q (if b then m else m')"
  by simp

lemma calm_flt [calm_rules]: "man y \<noteq> 0 \<Longrightarrow> (\<And>v. calm q (f v)) \<Longrightarrow> calm q (bindE (fdiv p x y) f)"
  by (simp add: fdiv_def Let_def)

lemma calm_file [calm_rules]:
  assumes "same_counts q q1" "calm_daq (u_daq (q_uio q1)) (f (u_daq (q_uio q1)))"
  shows "calm q (on_file f q1)"
  using assms by (auto simp: calm_def calm_daq_def on_file_def on_uio_def on_daq_def same_counts_def same_clock_def)

lemma calm_daq_Inr [calm_rules]: "same_clock d d' \<Longrightarrow> calm_daq d (Inr d')"
  by (simp add: calm_daq_def)

lemma calm_daq_emit [calm_rules]: "fhout d \<noteq> NoFile \<Longrightarrow> calm_daq d (emit l d)"
  by (simp add: calm_daq_def emit_open same_clock_def baselines_fit_def)

lemma calm_daq_emits [calm_rules]: "fhout d \<noteq> NoFile \<Longrightarrow> calm_daq d (emits ls d)"
  by (simp add: calm_daq_def emits_open same_clock_def baselines_fit_def)

lemma calm_sample [calm_rules]: "fhout d \<noteq> NoFile \<Longrightarrow> calm_daq d (acq_sample wo d)"
  by (simp add: calm_daq_def acq_sample_def emit_open same_clock_def Let_def baselines_fit_def)

lemma calm_counter [calm_rules]: "fhout d \<noteq> NoFile \<Longrightarrow> calm_daq d (on_counter wo d)"
  by (simp add: calm_daq_def on_counter_def emit_open same_clock_def Let_def baselines_fit_def)

lemma quarter_scale: "man (fdec 256 0) \<noteq> 0"
  by code_simp

definition same_uio :: "uio \<Rightarrow> uio \<Rightarrow> bool" where
  "same_uio u u' \<longleftrightarrow> same_clock (u_daq u) (u_daq u') \<and> u_r u' = u_r u \<and> u_rates u' = u_rates u \<and> u_rates2 u' = u_rates2 u"

definition calm_uio :: "uio \<Rightarrow> uio res \<Rightarrow> bool" where
  "calm_uio u r \<longleftrightarrow> (\<exists>u'. r = Inr u' \<and> same_uio u u')"

lemma calm_uio_Inr [calm_rules]: "same_uio u u' \<Longrightarrow> calm_uio u (Inr u')"
  by (simp add: calm_uio_def)

lemma calm_uio_if [calm_rules]: "(b \<Longrightarrow> calm_uio u m) \<Longrightarrow> (\<not> b \<Longrightarrow> calm_uio u m') \<Longrightarrow> calm_uio u (if b then m else m')"
  by simp

lemma calm_uio_flt [calm_rules]: "man y \<noteq> 0 \<Longrightarrow> (\<And>v. calm_uio u (f v)) \<Longrightarrow> calm_uio u (bindE (fdiv p x y) f)"
  by (simp add: fdiv_def Let_def)

lemma calm_uio_daq [calm_rules]: "same_uio u u1 \<Longrightarrow> calm_daq (u_daq u1) (f (u_daq u1)) \<Longrightarrow> calm_uio u (on_daq f u1)"
  by (auto simp: calm_uio_def calm_daq_def on_daq_def same_uio_def same_clock_def)

lemma calm_on_uio [calm_rules]: "same_counts q q1 \<Longrightarrow> calm_uio (q_uio q1) (f (q_uio q1)) \<Longrightarrow> calm q (on_uio f q1)"
  by (auto simp: calm_uio_def calm_def on_uio_def same_uio_def same_counts_def same_clock_def)

lemma calm_gps [calm_rules]: "fhout (u_daq u) \<noteq> NoFile \<Longrightarrow> calm_uio u (u_gps wo u)"
  unfolding u_gps_def Let_def
  by (intro calm_rules gps_scales) (simp_all add: same_uio_def same_clock_def baselines_fit_def)

text \<open>The word after which the pressure is calculated, by code that is not part of the repository.\<close>

definition is_pressure :: "u32 \<Rightarrow> bool" where "is_pressure wo \<longleftrightarrow> drop_bit 27 wo = 0x1A"

lemma calm_status:
  assumes "\<not> is_pressure wo" "fhout (u_daq (q_uio q)) \<noteq> NoFile" "drop_bit 27 wo \<noteq> 0x1B"
  shows "calm q (acq_status press e wo q)"
  unfolding acq_status_def Let_def if_not_P [OF assms(3)] if_not_P [OF assms(1) [unfolded is_pressure_def]] using assms(2)
  by (intro calm_rules quarter_scale) (auto simp: same_counts_def same_clock_def)

lemma calm_word:
  assumes "\<not> is_pressure wo" "fhout (u_daq (q_uio q)) \<noteq> NoFile" "drop_bit 27 wo \<noteq> 0x1B" "drop_bit 30 wo \<noteq> 1"
  shows "calm q (acq_decode press e q wo)"
  unfolding acq_decode_def if_not_P [OF assms(4)] using assms(2)
  by (intro calm_rules calm_status [OF assms(1,2,3)]) simp_all

section \<open>Words that count\<close>

definition is_second :: "u32 \<Rightarrow> bool" where "is_second wo \<longleftrightarrow> drop_bit 27 wo = 0x1B"

definition is_trigger :: "nat \<Rightarrow> u32 \<Rightarrow> bool" where
  "is_trigger k wo \<longleftrightarrow> drop_bit 30 wo = 1 \<and> unat (drop_bit 27 wo AND 0x7) = k"

text \<open>
  The specification of the rates of one condition, without bounds: the triggers of the seconds that are
  over, those of the second that runs, and the sum of the squares.
\<close>

definition spec_rate :: "nat \<Rightarrow> int \<times> int \<times> int \<Rightarrow> u32 \<Rightarrow> int \<times> int \<times> int" where
  "spec_rate k x wo =
     (case x of (n, r, n2) \<Rightarrow>
        if is_trigger k wo then (n, r + 1, n2) else if is_second wo then (n + r, 0, n2 + r * r) else x)"

definition rates_are :: "uio \<Rightarrow> (nat \<Rightarrow> int \<times> int \<times> int) \<Rightarrow> bool" where
  "rates_are u f \<longleftrightarrow> length (u_r u) = 8 \<and> length (u_rates u) = 8 \<and> length (u_rates2 u) = 8
     \<and> (\<forall>k < 8. case f k of (n, r, n2) \<Rightarrow> u_rates u ! k = to_i32 n \<and> u_r u ! k = to_i32 r \<and> u_rates2 u ! k = to_i32 n2)"

lemma to_i32_mod: "to_i32 a mod 4294967296 = a mod 4294967296"
  using mod_diff_left_eq [of "a + 2147483648" 4294967296 2147483648] by (simp add: to_i32_def)

lemma to_i32_ring: "to_i32 (to_i32 a + to_i32 b) = to_i32 (a + b)" "to_i32 (to_i32 a + to_i32 b * to_i32 b) = to_i32 (a + b * b)"
  "to_i32 (to_i32 a + 1) = to_i32 (a + 1)"
  by (auto intro!: to_i32_cong mod_add_cong mod_mult_cong simp: to_i32_mod)

lemma add_rates:
  assumes "length (u_r u) = L" "length (u_rates u) = L" "length (u_rates2 u) = L" "n \<le> L"
  defines "v \<equiv> foldl (\<lambda>u i. add_rate i u) u [0..<n]"
  shows "u_daq v = u_daq u \<and> length (u_r v) = L \<and> length (u_rates v) = L \<and> length (u_rates2 v) = L
    \<and> (\<forall>k < L. u_r v ! k = (if k < n then 0 else u_r u ! k)
        \<and> u_rates v ! k = (if k < n then to_i32 (u_rates u ! k + u_r u ! k) else u_rates u ! k)
        \<and> u_rates2 v ! k = (if k < n then to_i32 (u_rates2 u ! k + u_r u ! k * u_r u ! k) else u_rates2 u ! k))"
  unfolding v_def using assms(4)
proof (induction n)
  case 0
  then show ?case using assms(1-3) by simp
next
  case (Suc n)
  then show ?case by (auto simp: add_rate_def nth_list_update less_Suc_eq)
qed

lemma spec_second: "is_second wo \<Longrightarrow> \<not> is_trigger k wo"
  using second_is_status [of wo] by (auto simp: is_second_def is_trigger_def)

lemma rates_second:
  assumes "rates_are u f" "is_second wo"
  shows "rates_are (acq_rates u) (\<lambda>k. spec_rate k (f k) wo)" "u_daq (acq_rates u) = u_daq u"
proof -
  have l: "length (u_r u) = 8" "length (u_rates u) = 8" "length (u_rates2 u) = 8"
    using assms(1) by (simp_all add: rates_are_def)
  have "MTD_TRG \<le> 8" by (simp add: MTD_TRG_def)
  from add_rates [OF l this] have r: "u_daq (acq_rates u) = u_daq u"
    "length (u_r (acq_rates u)) = 8" "length (u_rates (acq_rates u)) = 8" "length (u_rates2 (acq_rates u)) = 8"
    "\<And>k. k < 8 \<Longrightarrow> u_r (acq_rates u) ! k = 0"
    "\<And>k. k < 8 \<Longrightarrow> u_rates (acq_rates u) ! k = to_i32 (u_rates u ! k + u_r u ! k)"
    "\<And>k. k < 8 \<Longrightarrow> u_rates2 (acq_rates u) ! k = to_i32 (u_rates2 u ! k + u_r u ! k * u_r u ! k)"
    by (simp_all only: acq_rates_def) (simp_all add: MTD_TRG_def)
  have v: "case f k of (n, r, n2) \<Rightarrow> u_rates u ! k = to_i32 n \<and> u_r u ! k = to_i32 r \<and> u_rates2 u ! k = to_i32 n2"
    if "k < 8" for k using assms(1) that by (simp add: rates_are_def)
  have z: "to_i32 0 = 0" by (simp add: to_i32_def)
  show "u_daq (acq_rates u) = u_daq u" by (rule r(1))
  have "case spec_rate k (f k) wo of (n, r, n2) \<Rightarrow> u_rates (acq_rates u) ! k = to_i32 n \<and> u_r (acq_rates u) ! k = to_i32 r
      \<and> u_rates2 (acq_rates u) ! k = to_i32 n2" if "k < 8" for k
    using v [OF that] r(5-7) [OF that] spec_second [OF assms(2), of k] assms(2)
    by (auto simp: spec_rate_def to_i32_ring z split: prod.splits)
  then show "rates_are (acq_rates u) (\<lambda>k. spec_rate k (f k) wo)"
    using r(2-4) by (simp add: rates_are_def)
qed

lemma rates_trigger:
  assumes "rates_are u f" "is_trigger k wo" "fhout (u_daq u) \<noteq> NoFile"
  obtains u' where "acq_trigger wo u = Inr u'" "rates_are u' (\<lambda>k. spec_rate k (f k) wo)" "same_clock (u_daq u) (u_daq u')"
proof -
  have k: "unat (drop_bit 27 wo AND 7) = k" "is_trigger j wo \<longleftrightarrow> j = k" "\<not> is_second wo" for j
    using assms(2) second_is_status [of wo] by (auto simp: is_trigger_def is_second_def)
  define l where "l = ''# t '' @ show_nat (unat (drop_bit 27 wo AND 0x7)) @ '' '' @ show_nat (unat (wo AND 0x7FFFFFF))"
  define u' where "u' = u\<lparr>u_r := (u_r u)[k := to_i32 (u_r u ! k + 1)],
    u_daq := (u_daq u)\<lparr>d_out := d_out (u_daq u) @ [(fhout (u_daq u), l)], mtd_iBin := 0\<rparr>\<rparr>"
  show thesis
  proof
    show "acq_trigger wo u = Inr u'"
      using assms(3) k(1) by (simp add: acq_trigger_def u_trigger_def emit_open on_daq_def u'_def Let_def l_def)
    show "same_clock (u_daq u) (u_daq u')" by (simp add: same_clock_def u'_def baselines_fit_def)
    show "rates_are u' (\<lambda>k. spec_rate k (f k) wo)"
      using assms(1) k by (auto simp: rates_are_def u'_def spec_rate_def nth_list_update to_i32_ring split: prod.splits)
  qed
qed

lemma rates_other: "rates_are u f \<Longrightarrow> \<not> is_second wo \<Longrightarrow> \<forall>k. \<not> is_trigger k wo \<Longrightarrow> rates_are u (\<lambda>k. spec_rate k (f k) wo)"
  by (auto simp: rates_are_def spec_rate_def)


section \<open>An hour of words\<close>

definition counting :: "acq \<Rightarrow> int \<Rightarrow> int \<Rightarrow> (nat \<Rightarrow> int \<times> int \<times> int) \<Rightarrow> bool" where
  "counting q t secs f \<longleftrightarrow> falseGPS (u_daq (q_uio q)) \<and> fileDate (u_daq (q_uio q)) = gmtime t
     \<and> fhout (u_daq (q_uio q)) \<noteq> NoFile \<and> mtd_seconds (u_daq (q_uio q)) = to_i32 secs \<and> rates_are (q_uio q) f
     \<and> baselines_fit (u_daq (q_uio q))"

lemma counting_second:
  assumes "counting q t secs f" "is_second wo" "in_i32 (t + 1)" "(t + 1) mod 3600 \<noteq> 0"
  shows "\<exists>q'. acq_decode press e q wo = Inr q' \<and> counting q' (t + 1) (secs + 1) (\<lambda>k. spec_rate k (f k) wo)
    \<and> fhmtd q' = fhmtd q \<and> q_meta q' = q_meta q"
proof -
  have w: "drop_bit 27 wo = 0x1B" "drop_bit 30 wo = 3"
    using assms(2) second_is_status [of wo] by (simp_all add: is_second_def)
  have c: "falseGPS (u_daq (q_uio q))" "fileDate (u_daq (q_uio q)) = gmtime t" "fhout (u_daq (q_uio q)) \<noteq> NoFile"
    "mtd_seconds (u_daq (q_uio q)) = to_i32 secs" "rates_are (q_uio q) f" "baselines_fit (u_daq (q_uio q))"
    using assms(1) by (simp_all add: counting_def)
  define d1 where "d1 = normalise (u_daq (q_uio q)\<lparr>fileDate := tick_sec (gmtime t)\<rparr>)"
  have d1: "fileDate d1 = gmtime (t + 1)" "falseGPS d1" "fhout d1 = fhout (u_daq (q_uio q))" "mtd_seconds d1 = to_i32 secs"
    using c assms(3) pc.tick [OF assms(3)] by (simp_all add: d1_def normalise_def Let_def)
  have clock: "acq_clock e wo q = Inr (upd_daq (\<lambda>_. d1) q)"
    using c(1,2) assms(4) new_hour_iff [of t] by (auto simp: acq_clock_def Let_def upd_daq_def d1_def tick_sec_def)
  define d2 where "d2 = normalise (d1\<lparr>mtd_seconds := to_i32 (mtd_seconds d1 + 1)\<rparr>)"
  have d2: "fileDate d2 = gmtime (t + 1)" "falseGPS d2" "fhout d2 = fhout (u_daq (q_uio q))" "mtd_seconds d2 = to_i32 (secs + 1)"
    using d1 assms(3) pc.settle [OF assms(3)] by (simp_all add: d2_def normalise_def Let_def to_i32_ring)
  define u where "u = (q_uio q)\<lparr>u_daq := d2\<lparr>d_out := d_out d2 @ [(fhout d2, ''# x h   '' @ u_date d2)],
      d_console := d_console d2 @ [u_progress (u_r (q_uio q)) (d2\<lparr>d_out := d_out d2 @ [(fhout d2, ''# x h   '' @ u_date d2)]\<rparr>)]\<rparr>\<rparr>"
  have "acq_pps e wo q = Inr (q\<lparr>q_uio := acq_rates u\<rparr>)"
    using clock c(3) d2(3) emit_open [of d2]
    by (simp add: acq_pps_def Let_def upd_daq_def on_file_def on_uio_def on_daq_def u_def flip: d2_def)
  then have "acq_decode press e q wo = Inr (q\<lparr>q_uio := acq_rates u\<rparr>)"
    using w by (simp add: acq_decode_def acq_status_def Let_def)
  moreover have "rates_are u f" using c(5) by (simp add: u_def rates_are_def)
  moreover have "fileDate (u_daq u) = gmtime (t + 1)" "falseGPS (u_daq u)" "fhout (u_daq u) \<noteq> NoFile"
    "mtd_seconds (u_daq u) = to_i32 (secs + 1)" "baselines_fit (u_daq u)"
    using d2 c(3,6) by (simp_all add: u_def) (simp add: baselines_fit_def d2_def d1_def normalise_def Let_def)
  ultimately show ?thesis
    using rates_second [OF _ assms(2), of u f] by (simp add: counting_def)
qed

lemma counting_calm: "counting q t secs f \<Longrightarrow> same_counts q q' \<Longrightarrow> counting q' t secs f"
  by (simp add: counting_def same_counts_def same_clock_def rates_are_def)

definition ticks :: "u32 \<Rightarrow> int" where "ticks wo = (if is_second wo then 1 else 0)"

lemma counting_word:
  assumes "\<not> is_pressure wo" "counting q t secs f" "is_second wo \<Longrightarrow> in_i32 (t + 1) \<and> (t + 1) mod 3600 \<noteq> 0"
  shows "\<exists>q'. acq_decode press e q wo = Inr q' \<and> counting q' (t + ticks wo) (secs + ticks wo) (\<lambda>k. spec_rate k (f k) wo)
    \<and> fhmtd q' = fhmtd q \<and> q_meta q' = q_meta q"
proof -
  have o: "fhout (u_daq (q_uio q)) \<noteq> NoFile" "rates_are (q_uio q) f" using assms(2) by (simp_all add: counting_def)
  consider "is_second wo" | "\<not> is_second wo" "drop_bit 30 wo = 1" | "\<not> is_second wo" "drop_bit 30 wo \<noteq> 1" by blast
  then show ?thesis
  proof cases
    case 1
    then show ?thesis using counting_second [OF assms(2) 1] assms(3) by (simp add: ticks_def)
  next
    case 2
    then have "is_trigger (unat (drop_bit 27 wo AND 7)) wo" by (simp add: is_trigger_def)
    from rates_trigger [OF o(2) this o(1)] obtain u' where u': "acq_trigger wo (q_uio q) = Inr u'"
      "rates_are u' (\<lambda>k. spec_rate k (f k) wo)" "same_clock (u_daq (q_uio q)) (u_daq u')" .
    then show ?thesis
      using 2 assms(2) by (simp add: acq_decode_def on_uio_def counting_def same_clock_def ticks_def)
  next
    case 3
    then obtain q' where "acq_decode press e q wo = Inr q'" "same_counts q q'"
      using calm_word [OF assms(1) o(1)] by (auto simp: calm_def is_second_def)
    moreover have "rates_are (q_uio q) (\<lambda>k. spec_rate k (f k) wo)"
      using 3 by (intro rates_other [OF o(2)]) (auto simp: is_trigger_def)
    ultimately show ?thesis
      using assms(2) 3(1) by (auto simp: counting_def same_counts_def same_clock_def rates_are_def ticks_def)
  qed
qed

definition spec_rates :: "nat \<Rightarrow> int \<times> int \<times> int \<Rightarrow> u32 list \<Rightarrow> int \<times> int \<times> int" where
  "spec_rates k = foldl (spec_rate k)"

definition seconds :: "u32 list \<Rightarrow> int" where "seconds ws = sum_list (map ticks ws)"

lemma seconds_nonneg: "0 \<le> seconds ws"
  by (induction ws) (simp_all add: seconds_def ticks_def)

lemma in_hour: "t mod 3600 + n < 3600 \<Longrightarrow> 1 \<le> n \<Longrightarrow> (t + 1) mod 3600 = t mod 3600 + 1" for t n :: int
proof -
  assume "t mod 3600 + n < 3600" "1 \<le> n"
  moreover have "0 \<le> t mod 3600" by simp
  ultimately have "(t mod 3600 + 1) mod 3600 = t mod 3600 + 1" by (intro mod_pos_pos_trivial) linarith+
  then show ?thesis by (simp add: mod_simps)
qed

lemma counting_words:
  assumes "\<forall>wo \<in> set ws. \<not> is_pressure wo" "counting q t secs f" "in_i32 t" "in_i32 (t + seconds ws)"
    "t mod 3600 + seconds ws < 3600"
  shows "\<exists>q'. runE (acq_decode press e) q ws = Inr q' \<and> counting q' (t + seconds ws) (secs + seconds ws) (\<lambda>k. spec_rates k (f k) ws)
    \<and> fhmtd q' = fhmtd q \<and> q_meta q' = q_meta q"
  using assms
proof (induction ws arbitrary: q t secs f)
  case Nil
  then show ?case by (simp add: seconds_def spec_rates_def)
next
  case (Cons wo ws)
  have s: "seconds (wo # ws) = ticks wo + seconds ws" by (simp add: seconds_def)
  have h: "is_second wo \<Longrightarrow> in_i32 (t + 1) \<and> (t + 1) mod 3600 = t mod 3600 + 1"
    using Cons.prems(3-5) s seconds_nonneg [of ws] in_hour [of t "1 + seconds ws"]
    by (auto simp: ticks_def in_i32_iff)
  moreover have "0 \<le> t mod 3600" by simp
  ultimately have "is_second wo \<Longrightarrow> in_i32 (t + 1) \<and> (t + 1) mod 3600 \<noteq> 0" by fastforce
  moreover have "\<not> is_pressure wo" using Cons.prems(1) by simp
  ultimately obtain q1 where q1: "acq_decode press e q wo = Inr q1"
    "counting q1 (t + ticks wo) (secs + ticks wo) (\<lambda>k. spec_rate k (f k) wo)" "fhmtd q1 = fhmtd q" "q_meta q1 = q_meta q"
    using counting_word [OF _ Cons.prems(2), of wo press e] by blast
  have "in_i32 (t + ticks wo)" "(t + ticks wo) mod 3600 + seconds ws < 3600"
    using h Cons.prems(3,5) s by (auto simp: ticks_def split: if_splits)
  then show ?case
    using Cons.IH [OF _ q1(2)] q1 Cons.prems(1,4) s by (auto simp: spec_rates_def add.assoc)
qed

section \<open>Closing the hour\<close>

lemma f_of_int_nonzero: "n \<noteq> 0 \<Longrightarrow> man (f_of_int DOUBLE n) \<noteq> 0"
proof
  assume n: "n \<noteq> 0" and z: "man (f_of_int DOUBLE n) = 0"
  have "\<bar>fval (f_of_int DOUBLE n) - real_of_int n / 1\<bar> \<le> \<bar>real_of_int n / 1\<bar> * 2 powi (- int 53)"
    using fround_error [of 1 53 n] by (simp add: f_of_int_def)
  moreover have "fval (f_of_int DOUBLE n) = 0" using z by (simp add: fval_def)
  ultimately have "\<bar>real_of_int n\<bar> * 1 \<le> \<bar>real_of_int n\<bar> * 2 powi (- 53)" by simp
  then show False using n by (simp add: power_int_minus field_simps)
qed

lemma quotient_close:
  assumes "in_i32 n" "in_i32 d" "d \<noteq> 0"
  obtains z where "quotient n d = Inr z" "close_to z (n / d)"
proof -
  have "fval (f_of_int DOUBLE n) = n" "fval (f_of_int DOUBLE d) = d"
    using assms(1,2) by (auto intro!: f_of_int_exact simp: in_i32_iff)
  then show ?thesis
    using fdiv_error [OF f_of_int_nonzero [OF assms(3)], of 53 "f_of_int DOUBLE n"] that
    by (auto simp: close_to_def quotient_def)
qed

lemma close_sign: "close_to z r \<Longrightarrow> (r < 0 \<longrightarrow> man z < 0) \<and> (0 \<le> r \<longrightarrow> 0 \<le> fval z)"
proof -
  assume "close_to z r"
  then have c: "\<bar>fval z - r\<bar> \<le> \<bar>r\<bar> * 2 powi (- 53)" by (simp add: close_to_def)
  have "\<bar>r\<bar> * 2 powi (- 53) \<le> \<bar>r\<bar> * (1 / 2)" by (intro mult_left_mono) (simp_all add: power_int_minus)
  then have "r < 0 \<Longrightarrow> fval z < 0" "0 \<le> r \<Longrightarrow> 0 \<le> fval z" using c by linarith+
  moreover have "0 \<le> man z \<Longrightarrow> 0 \<le> fval z" by (simp add: fval_def)
  ultimately show ?thesis by linarith
qed

lemma mean_dev_overflow:
  assumes "in_i32 n" "in_i32 n2" "in_i32 d" "d \<noteq> 0"
  obtains avg dev where "mean_dev d n n2 = Inr (avg, dev)" "close_to avg (n / d)" "0 < d \<Longrightarrow> n2 < 0 \<Longrightarrow> dev = None"
proof -
  obtain avg where a: "quotient n d = Inr avg" "close_to avg (n / d)" using quotient_close assms by metis
  obtain sq where s: "quotient n2 d = Inr sq" "close_to sq (n2 / d)" using quotient_close assms by metis
  have "fsqrt DOUBLE (fsub DOUBLE sq (fmul DOUBLE avg avg)) = None" if "0 < d" "n2 < 0"
  proof -
    have "man sq < 0" using close_sign [OF s(2)] that by (simp add: divide_neg_pos)
    then have "fval sq < 0" by (simp add: fval_def mult_neg_pos)
    moreover have "close_to (fmul DOUBLE avg avg) (fval avg * fval avg)"
      using fmul_error [of 53 avg avg] by (simp add: close_to_def)
    then have "0 \<le> fval (fmul DOUBLE avg avg)" using close_sign by simp
    ultimately have "fval sq - fval (fmul DOUBLE avg avg) < 0" by simp
    moreover have "close_to (fsub DOUBLE sq (fmul DOUBLE avg avg)) (fval sq - fval (fmul DOUBLE avg avg))"
      using fsub_error [of 53 sq "fmul DOUBLE avg avg"] by (simp add: close_to_def)
    ultimately have "man (fsub DOUBLE sq (fmul DOUBLE avg avg)) < 0" using close_sign by simp
    then show ?thesis by (simp add: fsqrt_def)
  qed
  then show ?thesis using that a s by (simp add: mean_dev_def)
qed

lemma metas_open: "fhmtd q \<noteq> NoFile \<Longrightarrow> metas ls q = Inr (q\<lparr>q_meta := q_meta q @ map (Pair (fhmtd q)) ls\<rparr>)"
  by (induction ls arbitrary: q) (simp_all add: metas_def meta_def)

lemma mean_devs_all:
  assumes "in_i32 d" "d \<noteq> 0" "\<forall>x \<in> set xs. in_i32 (fst x) \<and> in_i32 (snd x)"
  shows "\<exists>ys. mean_devs d xs = Inr ys \<and> length ys = length xs
    \<and> (\<forall>k < length xs. close_to (fst (ys ! k)) (real_of_int (fst (xs ! k)) / d) \<and> (0 < d \<longrightarrow> snd (xs ! k) < 0 \<longrightarrow> snd (ys ! k) = None))"
  using assms(3)
proof (induction xs)
  case Nil
  then show ?case by simp
next
  case (Cons x xs)
  obtain n n2 where x: "x = (n, n2)" by (cases x)
  obtain avg dev where a: "mean_dev d n n2 = Inr (avg, dev)" "close_to avg (n / d)" "0 < d \<Longrightarrow> n2 < 0 \<Longrightarrow> dev = None"
    using mean_dev_overflow [of n n2 d] assms(1,2) Cons.prems x by auto
  obtain ys where "mean_devs d xs = Inr ys" "length ys = length xs"
    "\<forall>k < length xs. close_to (fst (ys ! k)) (real_of_int (fst (xs ! k)) / d) \<and> (0 < d \<longrightarrow> snd (xs ! k) < 0 \<longrightarrow> snd (ys ! k) = None)"
    using Cons by auto
  then show ?case using a x by (intro exI [of _ "(avg, dev) # ys"]) (auto simp: nth_Cons split: nat.split)
qed

lemma statistics_total: "in_i32 d \<Longrightarrow> \<forall>n \<in> set ns. in_i32 n \<Longrightarrow> \<forall>n \<in> set n2s. in_i32 n \<Longrightarrow> \<exists>ys. statistics d ns n2s = Inr ys"
proof -
  assume a: "in_i32 d" "\<forall>n \<in> set ns. in_i32 n" "\<forall>n \<in> set n2s. in_i32 n"
  then have "\<forall>x \<in> set (zip ns n2s). in_i32 (fst x) \<and> in_i32 (snd x)"
    by (auto dest: set_zip_leftD set_zip_rightD)
  then show "\<exists>ys. statistics d ns n2s = Inr ys" using mean_devs_all [of d "zip ns n2s"] a by (auto simp: statistics_def)
qed

lemma stat_line_in:
  assumes "k < length xs" "1 \<le> k"
  shows "avg @ show_int0 2 (int (k + base)) @ ''='' @ show_lf (Some (fst (xs ! k))) \<in> set (stat_lines avg dev base xs)"
    "dev @ show_int0 2 (int (k + base)) @ ''='' @ show_lf (snd (xs ! k)) \<in> set (stat_lines avg dev base xs)"
  using assms by (auto simp: stat_lines_def)

lemma close_metadata_lines:
  assumes "counting q t secs f" "0 < secs" "secs < 2 ^ 31" "fhmtd q \<noteq> NoFile"
  shows "\<exists>q' rs ls. close_metadata q = Inr q' \<and> q_meta q' = q_meta q @ map (Pair (fhmtd q)) ls
    \<and> rates_are (q_uio q') (\<lambda>k. (0, fst (snd (f k)), 0)) \<and> mtd_seconds (u_daq (q_uio q')) = 0
    \<and> length rs = 8 \<and> set (stat_lines ''triggerRateAvg'' ''trigggerRateDev'' 0 rs) \<subseteq> set ls
    \<and> ''daqTime='' @ show_int secs \<in> set ls
    \<and> (\<forall>k < 8. close_to (fst (rs ! k)) (to_i32 (fst (f k)) / secs) \<and> (to_i32 (snd (snd (f k))) < 0 \<longrightarrow> snd (rs ! k) = None))"
proof -
  let ?u = "q_uio q" and ?d = "u_daq (q_uio q)"
  have s: "mtd_seconds ?d = secs" "in_i32 secs"
    using assms(1-3) to_i32_id [of secs] by (auto simp: counting_def in_i32_iff)
  have r: "length (u_rates ?u) = 8" "length (u_rates2 ?u) = 8"
    "\<And>k. k < 8 \<Longrightarrow> u_rates ?u ! k = to_i32 (fst (f k)) \<and> u_rates2 ?u ! k = to_i32 (snd (snd (f k)))"
    using assms(1) by (simp_all add: counting_def rates_are_def case_prod_beta)
  have i: "in_i32 (fst x) \<and> in_i32 (snd x)" if "x \<in> set (zip (u_rates ?u) (u_rates2 ?u))" for x
    using that r by (auto simp: set_zip)
  obtain rs where rs: "mean_devs secs (zip (u_rates ?u) (u_rates2 ?u)) = Inr rs" "length rs = 8"
    "\<forall>k < 8. close_to (fst (rs ! k)) (to_i32 (fst (f k)) / secs) \<and> (to_i32 (snd (snd (f k))) < 0 \<longrightarrow> snd (rs ! k) = None)"
    using mean_devs_all [of secs "zip (u_rates ?u) (u_rates2 ?u)"] s(2) assms(2) i r by auto
  have bl: "baselines_fit ?d" using assms(1) by (simp add: counting_def)
  obtain bs where bs: "statistics (mtd_cbl ?d) (mtd_bl ?d) (mtd_bl2 ?d) = Inr bs"
    using statistics_total [of "mtd_cbl ?d" "mtd_bl ?d" "mtd_bl2 ?d"] bl by (auto simp: baselines_fit_def)
  obtain c where c: "(if mtd_cbl ?d = 0 then Inr (f_of_int DOUBLE (- 1)) else quotient (mtd_cdp ?d) (mtd_cbl ?d)) = Inr c"
    using quotient_close [of "mtd_cdp ?d" "mtd_cbl ?d"] bl unfolding baselines_fit_def by metis
  define ls where "ls = stat_lines ''triggerRateAvg'' ''trigggerRateDev'' 0 rs @ stat_lines ''baselineAvg'' ''baselineDev'' 1 bs
    @ [''daqTime='' @ show_int secs, ''totalPulses='' @ show_int (mtd_cbl ?d), ''totalPulsesLost='' @ show_int (mtd_cdp ?d),
       ''fractionPulsesLost='' @ show_le c]"
  define q' where "q' = q\<lparr>q_meta := q_meta q @ map (Pair (fhmtd q)) ls,
    q_uio := ?u\<lparr>u_rates := replicate MTD_TRG 0, u_rates2 := replicate MTD_TRG 0,
      u_daq := ?d\<lparr>mtd_bl := replicate 3 0, mtd_bl2 := replicate 3 0, mtd_seconds := 0, mtd_cbl := 0, mtd_cdp := 0\<rparr>\<rparr>\<rparr>"
  have z: "to_i32 0 = 0" by (simp add: to_i32_def)
  have st: "statistics secs (u_rates ?u) (u_rates2 ?u) = Inr rs" using rs(1) assms(2) by (simp add: statistics_def)
  have "close_metadata q = Inr q'"
    unfolding close_metadata_def if_not_P [OF assms(4)] Let_def s(1) st bindE_Inr bs c metas_open [OF assms(4)]
    using assms(4) by (simp add: metas_open q'_def ls_def)
  moreover have "rates_are (q_uio q') (\<lambda>k. (0, fst (snd (f k)), 0))"
    using assms(1) by (simp add: q'_def counting_def rates_are_def MTD_TRG_def z case_prod_beta)
  ultimately show ?thesis
    using rs by (intro exI [of _ q'] exI [of _ rs] exI [of _ ls]) (auto simp: q'_def ls_def)
qed

lemma spec_rate_nonneg: "0 \<le> fst x \<and> 0 \<le> fst (snd x) \<Longrightarrow> 0 \<le> fst (spec_rates k x ws) \<and> 0 \<le> fst (snd (spec_rates k x ws))"
proof (induction ws arbitrary: x)
  case (Cons w ws)
  have "0 \<le> fst (spec_rate k x w) \<and> 0 \<le> fst (snd (spec_rate k x w))"
    using Cons.prems by (cases x) (simp add: spec_rate_def)
  then show ?case using Cons.IH by (simp add: spec_rates_def)
qed (simp add: spec_rates_def)

lemma to_i32_over: "2 ^ 31 \<le> n \<Longrightarrow> n < 2 ^ 32 \<Longrightarrow> to_i32 n < 0"
proof -
  assume n: "2 ^ 31 \<le> n" "n < 2 ^ 32"
  have "to_i32 n = to_i32 (n - 2 ^ 32)" by (intro to_i32_cong) simp
  also have "\<dots> = n - 2 ^ 32" using n by (intro to_i32_id) (simp add: in_i32_iff)
  finally show ?thesis using n by simp
qed

text \<open>
  C24. The metadata of an hour. With the simulated clock, which runs when there is no GPS receiver, and both files
  open, any words that stay within the hour are decoded, and when the file is closed its metadata says how many
  seconds there were and, for each of the conditions 1 to 7, the mean number of triggers per second to the last bit of the format, as long as there
  were fewer than \<open>2 ^ 31\<close>. The sum of the squares does not fit: where it is at least \<open>2 ^ 31\<close> and less than
  \<open>2 ^ 32\<close>, as at 773 triggers in each of 3599 seconds, the deviation is not a number. The triggers of the
  second that runs go to the next file. Words with the raw value \<open>D1\<close> of the sensor, after which the pressure is
  calculated, are left out: that calculation is not part of the repository.
\<close>

theorem metadata_of_an_hour:
  assumes "\<forall>wo \<in> set ws. \<not> is_pressure wo" "counting q t 0 (\<lambda>_. (0, 0, 0))" "fhmtd q \<noteq> NoFile" "in_i32 t" "in_i32 (t + seconds ws)"
    "t mod 3600 + seconds ws < 3600" "0 < seconds ws"
  shows "\<exists>q' q''. runE (acq_decode press e) q ws = Inr q' \<and> close_metadata q' = Inr q''
    \<and> (fhmtd q, ''daqTime='' @ show_int (seconds ws)) \<in> set (q_meta q'')
    \<and> (\<forall>k \<in> {1..7}. case spec_rates k (0, 0, 0) ws of (n, r, n2) \<Rightarrow>
        (n < 2 ^ 31 \<longrightarrow> (\<exists>avg. close_to avg (n / seconds ws)
           \<and> (fhmtd q, ''triggerRateAvg'' @ show_int0 2 (int k) @ ''='' @ show_fix 6 avg) \<in> set (q_meta q'')))
        \<and> (2 ^ 31 \<le> n2 \<and> n2 < 2 ^ 32 \<longrightarrow>
           (fhmtd q, ''trigggerRateDev'' @ show_int0 2 (int k) @ ''=nan'') \<in> set (q_meta q'')))
    \<and> rates_are (q_uio q'') (\<lambda>k. (0, fst (snd (spec_rates k (0, 0, 0) ws)), 0))"
proof -
  obtain q' where q': "runE (acq_decode press e) q ws = Inr q'" "counting q' (t + seconds ws) (seconds ws) (\<lambda>k. spec_rates k (0, 0, 0) ws)"
    "fhmtd q' = fhmtd q"
    using counting_words [OF assms(1,2,4-6), of press e] by auto
  have "seconds ws < 2 ^ 31" using assms(6) pos_mod_sign [of 3600 t] by simp
  from close_metadata_lines [OF q'(2) assms(7) this] q'(3) assms(3) obtain q'' rs ls where
    c: "close_metadata q' = Inr q''" "q_meta q'' = q_meta q' @ map (Pair (fhmtd q)) ls"
    "rates_are (q_uio q'') (\<lambda>k. (0, fst (snd (spec_rates k (0, 0, 0) ws)), 0))" "length rs = 8"
    "set (stat_lines ''triggerRateAvg'' ''trigggerRateDev'' 0 rs) \<subseteq> set ls" "''daqTime='' @ show_int (seconds ws) \<in> set ls"
    and r: "\<And>k. k < 8 \<Longrightarrow> close_to (fst (rs ! k)) (to_i32 (fst (spec_rates k (0, 0, 0) ws)) / seconds ws)
      \<and> (to_i32 (snd (snd (spec_rates k (0, 0, 0) ws))) < 0 \<longrightarrow> snd (rs ! k) = None)" by auto
  have "case spec_rates k (0, 0, 0) ws of (n, r, n2) \<Rightarrow>
        (n < 2 ^ 31 \<longrightarrow> (\<exists>avg. close_to avg (n / seconds ws)
           \<and> (fhmtd q, ''triggerRateAvg'' @ show_int0 2 (int k) @ ''='' @ show_fix 6 avg) \<in> set (q_meta q'')))
        \<and> (2 ^ 31 \<le> n2 \<and> n2 < 2 ^ 32 \<longrightarrow>
           (fhmtd q, ''trigggerRateDev'' @ show_int0 2 (int k) @ ''=nan'') \<in> set (q_meta q''))" if "k \<in> {1..7}" for k
  proof -
    obtain n s n2 where x: "spec_rates k (0, 0, 0) ws = (n, s, n2)" by (metis prod_cases3)
    have k: "k < length rs" "1 \<le> k" "k < 8" using that c(4) by auto
    have avg: "''triggerRateAvg'' @ show_int0 2 (int k) @ ''='' @ show_fix 6 (fst (rs ! k)) \<in> set ls"
      and dev: "''trigggerRateDev'' @ show_int0 2 (int k) @ ''='' @ show_lf (snd (rs ! k)) \<in> set ls"
      using stat_line_in [OF k(1,2), where avg = "''triggerRateAvg''" and dev = "''trigggerRateDev''" and base = 0] c(5)
      by (auto simp: show_lf_def)
    have "0 \<le> n" using spec_rate_nonneg [of "(0, 0, 0)" k ws] x by simp
    then have "n < 2 ^ 31 \<Longrightarrow> to_i32 n = n" by (intro to_i32_id) (simp add: in_i32_iff)
    then show ?thesis using r [OF k(3)] x avg dev c(2) to_i32_over [of n2] by (auto simp: show_lf_def)
  qed
  then show ?thesis using q'(1) c by auto
qed

text \<open>A steady rate: \<open>c\<close> triggers of condition 1 in each of \<open>n\<close> seconds.\<close>

definition steady :: "nat \<Rightarrow> nat \<Rightarrow> u32 list" where
  "steady n c = concat (replicate n (replicate c 0x48000000 @ [0xD8000000]))"

lemma steady_words: "is_trigger 1 0x48000000" "\<not> is_second 0x48000000" "is_second 0xD8000000" "\<not> is_trigger k 0xD8000000"
  by (simp_all add: is_trigger_def is_second_def)

lemma steady_no_pressure: "\<forall>wo \<in> set (steady n c). \<not> is_pressure wo"
  by (auto simp: steady_def is_pressure_def)

lemma seconds_append [simp]: "seconds (xs @ ys) = seconds xs + seconds ys"
  by (simp add: seconds_def)

lemma seconds_steady: "seconds (steady n c) = int n"
proof -
  have "seconds (replicate c 0x48000000) = 0" by (simp add: seconds_def ticks_def steady_words sum_list_replicate)
  then have "seconds (replicate c 0x48000000 @ [0xD8000000]) = 1" by (simp add: seconds_def ticks_def steady_words)
  then show ?thesis unfolding steady_def by (induction n) (simp_all add: seconds_def)
qed

lemma spec_steady: "spec_rates 1 (a, 0, b) (steady n c) = (a + int n * int c, 0, b + int n * (int c * int c))"
proof -
  have "spec_rates 1 (a, r, b) (replicate c 0x48000000) = (a, r + int c, b)" for a r b
    by (induction c arbitrary: r) (simp_all add: spec_rates_def spec_rate_def steady_words [simplified])
  then have "spec_rates 1 (a, 0, b) (replicate c 0x48000000 @ [0xD8000000]) = (a + int c, 0, b + int c * int c)" for a b
    by (simp add: spec_rates_def spec_rate_def steady_words [simplified])
  then show ?thesis
    unfolding steady_def by (induction n arbitrary: a b) (simp_all add: spec_rates_def algebra_simps)
qed

definition acq0 :: acq where
  "acq0 = \<lparr>q_uio = uio0\<lparr>u_daq := daq0\<lparr>fhout := DatFile ''x.dat''\<rparr>\<rparr>, fhmtd = DatFile ''x.mtd'', q_meta = [],
     q_bl = [Flt 0 0, Flt 0 0, Flt 0 0], gpsDate = replicate 7 0, configs_lines = []\<rparr>"

lemma acq0_counting: "counting acq0 0 0 (\<lambda>_. (0, 0, 0))"
  by (simp add: counting_def acq0_def uio0_def daq0_def rates_are_def baselines_fit_def to_i32_def in_i32_def nth_Cons')

theorem metadata_of_an_hour_witness:
  "\<exists>q' q''. runE (acq_decode Inr env0) acq0 (steady 3599 800) = Inr q' \<and> close_metadata q' = Inr q''
    \<and> (DatFile ''x.mtd'', ''daqTime='' @ show_int 3599) \<in> set (q_meta q'') \<and> (DatFile ''x.mtd'', ''trigggerRateDev01=nan'') \<in> set (q_meta q'')"
proof -
  have m: "fhmtd acq0 = DatFile ''x.mtd''" by (simp add: acq0_def)
  have r: "spec_rates 1 (0, 0, 0) (steady 3599 800) = (2879200, 0, 2303360000)" using spec_steady [of 0 0 3599 800] by simp
  have n: "show_int0 2 1 = ''01''" by code_simp
  have k: "(1 :: nat) \<in> {1..7}" by simp
  obtain q' q'' where q: "runE (acq_decode Inr env0) acq0 (steady 3599 800) = Inr q'" "close_metadata q' = Inr q''"
    "(fhmtd acq0, ''daqTime='' @ show_int (seconds (steady 3599 800))) \<in> set (q_meta q'')"
    "case spec_rates 1 (0, 0, 0) (steady 3599 800) of (n, r, n2) \<Rightarrow> 2 ^ 31 \<le> n2 \<and> n2 < 2 ^ 32 \<longrightarrow>
      (fhmtd acq0, ''trigggerRateDev'' @ show_int0 2 (int 1) @ ''=nan'') \<in> set (q_meta q'')"
    using metadata_of_an_hour [OF steady_no_pressure acq0_counting, of 3599 800 Inr env0] k
    unfolding seconds_steady m by (fastforce simp: in_i32_def)
  then show ?thesis unfolding seconds_steady m r by (auto simp: n)
qed

lemma NewFile_crashes:
  assumes "fhout (u_daq (q_uio q)) = StdOut" "d_toStdout (u_daq (q_uio q))" "fhmtd q = NoFile"
  shows "NewFile e q = Inl NullDeref"
  using assms by (simp add: NewFile_def on_file_def on_uio_def on_daq_def emits_open meta_def Let_def)

lemma first_time_crashes:
  assumes "d_toStdout (u_daq (q_uio q))" "fFirstTime (u_daq (q_uio q))" "fhmtd q = NoFile"
  shows "acq_first_time e rgbPT (upd_daq start_call q) = Inl NullDeref"
proof -
  let ?q = "upd_daq start_call q"
  have q: "fFirstTime (u_daq (q_uio ?q))" "fhout (u_daq (q_uio ?q)) = StdOut" "d_toStdout (u_daq (q_uio ?q))" "fhmtd ?q = NoFile"
    using assms by (simp_all add: upd_daq_def start_call_def)
  have u: "fhout (u_daq (q_uio (upd_daq f x))) = fhout (f (u_daq (q_uio x)))" "fhmtd (upd_daq f x) = fhmtd x"
    "d_toStdout (u_daq (q_uio (upd_daq f x))) = d_toStdout (f (u_daq (q_uio x)))" for f x
    by (simp_all add: upd_daq_def)
  have t: "d_toStdout (normalise d) = d_toStdout d" "fhout (normalise d) = fhout d" for d
    by (simp_all add: normalise_def Let_def)
  define q3 where "q3 = (if uint (gpsDate ?q ! 2) * 256 + uint (gpsDate ?q ! 3) = 0
     then upd_daq (\<lambda>d. d\<lparr>falseGPS := True\<rparr>) (upd_daq (\<lambda>d. d\<lparr>fileTime := now e, fileDate := gmtime (now e)\<rparr>) ?q)
     else upd_daq (\<lambda>d. normalise (d\<lparr>fileDate := \<lparr>tm_sec = uint (gpsDate ?q ! 6), tm_min = uint (gpsDate ?q ! 5), tm_hour = uint (gpsDate ?q ! 4),
        tm_mday = uint (gpsDate ?q ! 1), tm_mon = uint (gpsDate ?q ! 0) - 1,
        tm_year = uint (gpsDate ?q ! 2) * 256 + uint (gpsDate ?q ! 3) - 1900\<rparr>\<rparr>))
       (upd_daq (\<lambda>d. d\<lparr>fileTime := now e, fileDate := gmtime (now e)\<rparr>) ?q))"
  have q3: "fhout (u_daq (q_uio q3)) = StdOut" "d_toStdout (u_daq (q_uio q3))" "fhmtd q3 = NoFile"
    using q unfolding q3_def by (simp_all add: u t split del: if_split) (simp_all add: u t)
  have "acq_first_time e rgbPT ?q = bindE (if fhout (u_daq (q_uio q3)) = StdOut then Inr q3
                     else (case rgbPT of None \<Rightarrow> Inl (Exit 1)
                           | Some b \<Rightarrow> Inr (q3\<lparr>q_uio := load_settings b (q_uio q3)\<rparr>))) (\<lambda>q.
              bindE (NewFile e q) (\<lambda>q. Inr (upd_daq (\<lambda>d. d\<lparr>fFirstTime := False\<rparr>) q)))"
    unfolding acq_first_time_def Let_def q3_def using q(1) by simp
  then show ?thesis using q3 NewFile_crashes [OF q3] by simp
qed

text \<open>
  Acquisition to the terminal does not work: the file of metadata is opened only together with a data file,
  and the first call that reads a block writes the name of the machine to it, through a null
  pointer, whatever the bytes are.
\<close>

theorem terminal_crashes:
  assumes "d_toStdout (u_daq (q_uio q))" "fFirstTime (u_daq (q_uio q))" "fhmtd q = NoFile" "clean \<noteq> 0 \<or> idData AND 128 = 128"
  shows "acq_read_buffer press e wr clean idData rgbPT hw c q = Inl NullDeref"
  using assms(4) first_time_crashes [OF assms(1-3)]
    first_time_crashes [of "q\<lparr>q_uio := (q_uio q)\<lparr>u_r := replicate MTD_TRG 0\<rparr>\<rparr>" e rgbPT] assms(1-3)
  unfolding acq_read_buffer_def Let_def by (cases "clean = 0") simp_all

theorem terminal_crashes_witness:
  "acq_read_buffer Inr env0 1 0 128 None None circ0
     (acq0\<lparr>q_uio := uio0\<lparr>u_daq := daq0\<lparr>fFirstTime := True\<rparr>\<rparr>, fhmtd := NoFile\<rparr>) = Inl NullDeref"
  by (rule terminal_crashes) (simp_all add: uio0_def daq0_def)

end
