(* ===== verification/Clients.thy ===== *)
theory Clients
  imports MemAlloc Blink MyHandle
begin

text \<open>
  The programs that use the kernel modules, run over the models of these modules: the buffer test
  \<^verbatim>\<open>apps/dma/dma_driver/test.c\<close> over \<open>MemAlloc\<close>, the light application \<^verbatim>\<open>apps/dma/LKM/linux_blinkled_app.c\<close>
  over \<open>Blink\<close>, the interrupt test \<^verbatim>\<open>drivers/myhandle/test_handle.c\<close> over \<open>MyHandle\<close>; and the client of
  the TCP server, \<^verbatim>\<open>adc_test/client/adc-test-client_lnx.c\<close>. Most of them look at no result, so that what a
  module answers in an error reaches it again as an argument.
\<close>

section \<open>The buffer test\<close>

text \<open>
  A call through the C library: the results -4095 to -1 of a driver become -1, and a file that did not
  open gives -1 without reaching it. An argument is converted to \<^verbatim>\<open>unsigned long\<close>.
\<close>

definition libc_result :: "int \<Rightarrow> int" where
  "libc_result r = (if - 4095 \<le> r \<and> r \<le> - 1 then - 1 else r)"

definition dev_ioctl :: "int \<Rightarrow> nat \<Rightarrow> int \<Rightarrow> (nat \<times> u32) option \<Rightarrow> memalloc \<Rightarrow> (int \<times> memalloc) res" where
  "dev_ioctl fd cmd arg answer s =
     (if fd < 0 then Inr (- 1, s)
      else bindE (memAllocIoctl cmd (nat (to_u32 arg)) answer s) (\<lambda>(r, s). Inr (libc_result r, s)))"

definition dev_mmap :: "int \<Rightarrow> (nat option \<Rightarrow> u32 \<Rightarrow> nat \<Rightarrow> int) \<Rightarrow> nat \<Rightarrow> memalloc \<Rightarrow> int res" where
  "dev_mmap fd common sz s =
     (if fd < 0 then Inr (- 1) else memAllocMmap common (4096 * ((sz + 4095) div 4096)) s)"

definition BUF_SIZE :: int where "BUF_SIZE = 2048"

text \<open>What is done for each of the two buffers; the result is the number of the buffer.\<close>

definition client_buffer ::
  "int \<Rightarrow> (nat option \<Rightarrow> u32 \<Rightarrow> nat \<Rightarrow> int) \<Rightarrow> (nat \<times> u32) option \<Rightarrow> memalloc \<Rightarrow> (int \<times> memalloc) res" where
  "client_buffer fd common answer s =
     bindE (dev_ioctl fd MEMALLOC_RESERVE BUF_SIZE answer s) (\<lambda>(bufID, s).
     bindE (dev_ioctl fd MEMALLOC_GET_PHYSICAL bufID None s) (\<lambda>(_, s).
     bindE (dev_ioctl fd MEMALLOC_ACTIVATE_BUFFER bufID None s) (\<lambda>(_, s).
     bindE (dev_mmap fd common (nat BUF_SIZE) s) (\<lambda>_.
     bindE (dev_ioctl fd MEMALLOC_GET_VIRTUAL bufID None s) (\<lambda>(_, s). Inr (bufID, s))))))"

definition buffer_test ::
  "int \<Rightarrow> (nat option \<Rightarrow> u32 \<Rightarrow> nat \<Rightarrow> int) \<Rightarrow> (nat \<times> u32) option \<Rightarrow> (nat \<times> u32) option \<Rightarrow> memalloc \<Rightarrow> (int \<times> memalloc) res" where
  "buffer_test fd common a1 a2 s =
     bindE (client_buffer fd common a1 s) (\<lambda>(iBufID, s).
     bindE (client_buffer fd common a2 s) (\<lambda>(oBufID, s).
     bindE (dev_ioctl fd MEMALLOC_RELEASE iBufID None s) (\<lambda>(_, s).
     bindE (dev_ioctl fd MEMALLOC_RELEASE oBufID None s) (\<lambda>(_, s). Inr (0, s)))))"

text \<open>A failed reservation: the number -1 goes back to the module, which takes it for an index.\<close>

lemma reserve_fails:
  assumes "0 \<le> fd" "free_slot s = None \<or> answer = None"
  shows "client_buffer fd common answer s = Inl OutOfBounds"
proof -
  have f: "free_slot (printk l t) = free_slot t" for l t by (simp add: free_slot_def)
  obtain s' where "reserveBuffer (nat (to_u32 BUF_SIZE)) answer (printk (cmd_msg MEMALLOC_RESERVE (nat (to_u32 BUF_SIZE))) s) = (- 1, s')"
    using assms(2) by (cases "free_slot s") (auto simp: reserveBuffer_def f Let_def)
  then have "dev_ioctl fd MEMALLOC_RESERVE BUF_SIZE answer s = Inr (- 1, s')"
    using assms(1) by (simp add: dev_ioctl_def memAllocIoctl_def Let_def libc_result_def)
  moreover have "dev_ioctl fd MEMALLOC_GET_PHYSICAL (- 1) None s' = Inl OutOfBounds" for s'
    using assms(1) by (simp add: dev_ioctl_def memAllocIoctl_def memalloc_cmds memAllocGetPhysical_def BUFFER_MAX_NUMBER_def
        to_u32_def to_i32_def slot_at_def Let_def)
  ultimately show ?thesis by (auto simp: client_buffer_def)
qed

text \<open>A buffer that is handed out: the slot, its memory and the slot made the active one.\<close>

definition given :: "nat \<Rightarrow> nat \<Rightarrow> u32 \<Rightarrow> memalloc \<Rightarrow> memalloc \<Rightarrow> bool" where
  "given i a h s s' \<longleftrightarrow> pool_inv s' \<and> live s' = a # live s
     \<and> (\<exists>b. bufferInfoTable s' = (bufferInfoTable s)[i := b] \<and> b_active b = 1 \<and> b_addr b = Some a \<and> b_handle b = h)"

lemma reserve_gives:
  assumes "pool_inv s" "free_slot s = Some i" "a \<notin> set (live s)"
  shows "\<exists>s'. memAllocIoctl MEMALLOC_RESERVE sz (Some (a, h)) s = Inr (int i, s') \<and> given i a h s s'"
proof -
  have f: "free_slot (printk l s) = Some i" for l using assms(2) by (simp add: free_slot_def)
  define s1 where "s1 = printk (cmd_msg MEMALLOC_RESERVE sz) s"
  obtain s' where r: "reserveBuffer sz (Some (a, h)) s1 = (int i, s')" "live s' = a # live s"
    "bufferInfoTable s' = (bufferInfoTable s)[i := (bufferInfoTable s ! i)\<lparr>b_active := 1, b_addr := Some a, b_handle := h, b_size := to_i32 (int sz)\<rparr>]"
    using f by (simp add: s1_def reserveBuffer_def Let_def)
  have "pool_inv s'" using reserve_inv [of s1 "Some (a, h)" sz] r(1) assms(1,3) by (simp add: s1_def)
  then have "given i a h s s'"
    unfolding given_def using r(2,3) by (intro conjI exI [of _ "(bufferInfoTable s ! i)\<lparr>b_active := 1, b_addr := Some a, b_handle := h, b_size := to_i32 (int sz)\<rparr>"]) simp_all
  moreover have "memAllocIoctl MEMALLOC_RESERVE sz (Some (a, h)) s = Inr (int i, s')"
    using r(1) by (simp add: memAllocIoctl_def Let_def s1_def)
  ultimately show ?thesis by blast
qed

text \<open>What changes nothing but messages and the number of the active buffer.\<close>

definition same_pool :: "memalloc \<Rightarrow> memalloc \<Rightarrow> bool" where
  "same_pool s s' \<longleftrightarrow> bufferInfoTable s' = bufferInfoTable s \<and> live s' = live s"

lemma same_given: "given i a h s t \<Longrightarrow> same_pool t s' \<Longrightarrow> given i a h s s'"
  by (auto simp: given_def same_pool_def pool_inv_def)

lemma small_index: "i < 16 \<Longrightarrow> to_u32 (int i) = int i"
  by (simp add: to_u32_def)

lemma slot_in: "i < length (bufferInfoTable s) \<Longrightarrow> slot_at (int i) s = Inr (bufferInfoTable s ! i)"
  by (simp add: slot_at_def)

lemma asks:
  assumes "length (bufferInfoTable s) = 16" "i < 16" "b_active (bufferInfoTable s ! i) = 1" "0 \<le> fd"
  shows "\<exists>r s'. dev_ioctl fd MEMALLOC_GET_PHYSICAL (int i) None s = Inr (r, s') \<and> same_pool s s'"
    "\<exists>r s'. dev_ioctl fd MEMALLOC_ACTIVATE_BUFFER (int i) None s = Inr (r, s') \<and> same_pool s s' \<and> activeBufferID s' = int i"
    "\<exists>r s'. dev_ioctl fd MEMALLOC_GET_VIRTUAL (int i) None s = Inr (r, s') \<and> same_pool s s'"
  using assms
  by (simp_all add: dev_ioctl_def memAllocIoctl_def memalloc_cmds memAllocGetPhysical_def activateBuffer_def BUFFER_MAX_NUMBER_def
      small_index small_arg slot_in same_pool_def Let_def)

lemma client_buffer_gives:
  assumes "pool_inv s" "free_slot s = Some i" "a \<notin> set (live s)" "0 \<le> fd"
  shows "\<exists>s'. client_buffer fd common (Some (a, h)) s = Inr (int i, s') \<and> given i a h s s'"
proof -
  have i: "i < 16" using free_slot_SomeD [OF assms(2)] assms(1) by (simp add: pool_inv_def)
  obtain s1 where s1: "memAllocIoctl MEMALLOC_RESERVE 2048 (Some (a, h)) s = Inr (int i, s1)" "given i a h s s1"
    using reserve_gives [OF assms(1-3), of 2048 h] by blast
  have use: "length (bufferInfoTable t) = 16" "b_active (bufferInfoTable t ! i) = 1" "b_addr (bufferInfoTable t ! i) = Some a" "a \<in> set (live t)"
    if "given i a h s t" for t
    using that i assms(1) by (auto simp: given_def pool_inv_def)
  obtain r2 s2 where s2: "dev_ioctl fd MEMALLOC_GET_PHYSICAL (int i) None s1 = Inr (r2, s2)" "given i a h s s2"
    using asks(1) [OF use(1) [OF s1(2)] i use(2) [OF s1(2)] assms(4)] same_given [OF s1(2)] by blast
  obtain r3 s3 where s3: "dev_ioctl fd MEMALLOC_ACTIVATE_BUFFER (int i) None s2 = Inr (r3, s3)" "given i a h s s3" "activeBufferID s3 = int i"
    using asks(2) [OF use(1) [OF s2(2)] i use(2) [OF s2(2)] assms(4)] same_given [OF s2(2)] by blast
  obtain r4 s4 where s4: "dev_ioctl fd MEMALLOC_GET_VIRTUAL (int i) None s3 = Inr (r4, s4)" "given i a h s s4"
    using asks(3) [OF use(1) [OF s3(2)] i use(2) [OF s3(2)] assms(4)] same_given [OF s3(2)] by blast
  have "\<exists>m. dev_mmap fd common (nat BUF_SIZE) s3 = Inr m"
    using s3(3) use [OF s3(2)] i assms(4) by (simp add: dev_mmap_def memAllocMmap_def slot_in)
  moreover have "dev_ioctl fd MEMALLOC_RESERVE BUF_SIZE (Some (a, h)) s = Inr (int i, s1)"
    using s1(1) assms(4) by (simp add: dev_ioctl_def BUF_SIZE_def to_u32_def libc_result_def)
  ultimately show ?thesis using s2(1) s3(1) s4 by (auto simp: client_buffer_def)
qed

lemma releases:
  assumes "pool_inv s" "i < 16" "b_active (bufferInfoTable s ! i) = 1" "b_addr (bufferInfoTable s ! i) = Some a" "0 \<le> fd"
  shows "\<exists>s'. dev_ioctl fd MEMALLOC_RELEASE (int i) None s = Inr (0, s') \<and> pool_inv s' \<and> live s' = remove1 a (live s)
    \<and> bufferInfoTable s' = (bufferInfoTable s)[i := (bufferInfoTable s ! i)\<lparr>b_active := 0\<rparr>]"
proof -
  define s1 where "s1 = printk (release_msg (int i)) (printk (cmd_msg MEMALLOC_RELEASE i) s)"
  have s1: "pool_inv s1" "bufferInfoTable s1 = bufferInfoTable s" "live s1 = live s"
    using assms(1) by (simp_all add: s1_def)
  obtain L where L: "dma_free (Some a) (set_slot i ((bufferInfoTable s ! i)\<lparr>b_active := 0\<rparr>) s1)
      = Inr (set_slot i ((bufferInfoTable s ! i)\<lparr>b_active := 0\<rparr>) s1\<lparr>live := L\<rparr>)"
    "pool_inv (set_slot i ((bufferInfoTable s ! i)\<lparr>b_active := 0\<rparr>) s1\<lparr>live := L\<rparr>)"
    using drop_active [OF s1(1) assms(2)] s1(2) assms(3,4) by auto
  then have "L = remove1 a (live s)" using s1(3) by (auto simp: dma_free_def set_slot_def split: if_splits) (metis memalloc.ext_inject memalloc.surjective memalloc.update_convs(3))
  moreover have "slot_at (int i) s1 = Inr (bufferInfoTable s ! i)"
    using slot_at_in [OF s1(1) assms(2)] s1(2) by simp
  moreover have "memAllocIoctl MEMALLOC_RELEASE i None s
      = bindE (slot_at (int i) s1) (\<lambda>b. bindE (dma_free (b_addr b) (set_slot i (b\<lparr>b_active := 0\<rparr>) s1)) (\<lambda>s. Inr (0, s)))"
    using assms(2) by (simp add: memAllocIoctl_def memalloc_cmds releaseBuffer_def BUFFER_MAX_NUMBER_def small_arg s1_def Let_def)
  ultimately have "memAllocIoctl MEMALLOC_RELEASE i None s
      = Inr (0, set_slot i ((bufferInfoTable s ! i)\<lparr>b_active := 0\<rparr>) s1\<lparr>live := remove1 a (live s)\<rparr>)"
    using L(1) assms(4) by simp
  then show ?thesis
    using L(2) \<open>L = remove1 a (live s)\<close> assms(2,5) s1(2) by (simp add: dev_ioctl_def small_index libc_result_def)
qed

text \<open>The slots that are free, and what a buffer handed out makes of them.\<close>

definition free_slots :: "memalloc \<Rightarrow> nat set" where
  "free_slots s = {i. i < 16 \<and> b_active (bufferInfoTable s ! i) = 0}"

lemma free_slot_iff:
  assumes "length (bufferInfoTable s) = 16"
  shows "free_slot s = None \<longleftrightarrow> free_slots s = {}" "free_slot s = Some i \<Longrightarrow> i \<in> free_slots s"
  using assms free_slot_SomeD [of s i] by (auto simp: free_slot_def free_slots_def find_None_iff)

lemma given_free: "pool_inv s \<Longrightarrow> given i a h s s' \<Longrightarrow> i < 16 \<Longrightarrow> free_slots s' = free_slots s - {i}"
  by (auto simp: given_def free_slots_def pool_inv_def nth_list_update split: if_splits)

text \<open>
  The buffer test and the module: on a table that is in order, with a kernel that hands out fresh memory,
  the test either gets both its buffers, and then it ends, has given them back and left
  the table as it was; or a reservation fails, as there is no slot or no memory, and then the number -1
  that the test does not look at makes the module read in front of its table.
\<close>

theorem buffer_test_outcome:
  assumes "pool_inv s" "0 \<le> fd" "\<And>a h. a1 = Some (a, h) \<Longrightarrow> a \<notin> set (live s)"
    "\<And>b k. a2 = Some (b, k) \<Longrightarrow> b \<notin> set (live s) \<and> (\<forall>h. a1 \<noteq> Some (b, h))"
  shows "if 2 \<le> card (free_slots s) \<and> a1 \<noteq> None \<and> a2 \<noteq> None
    then \<exists>s'. buffer_test fd common a1 a2 s = Inr (0, s') \<and> pool_inv s' \<and> live s' = live s \<and> free_slots s' = free_slots s
    else buffer_test fd common a1 a2 s = Inl OutOfBounds"
proof (cases "free_slot s = None \<or> a1 = None")
  case True
  moreover have "\<not> (2 \<le> card (free_slots s) \<and> a1 \<noteq> None \<and> a2 \<noteq> None)"
    using True free_slot_iff(1) [of s] assms(1) by (auto simp: pool_inv_def)
  ultimately show ?thesis using reserve_fails [OF assms(2), of s a1 common] by (simp add: buffer_test_def)
next
  case False
  then obtain i a h where i: "free_slot s = Some i" "a1 = Some (a, h)" by auto
  then have "i \<in> free_slots s" using free_slot_iff(2) [of s i] assms(1) by (auto simp: pool_inv_def)
  then have "i < 16" by (simp add: free_slots_def)
  obtain s1 where s1: "client_buffer fd common a1 s = Inr (int i, s1)" "given i a h s s1"
    using client_buffer_gives [OF assms(1) i(1) _ assms(2)] assms(3) i(2) by blast
  have f1: "free_slots s1 = free_slots s - {i}" using given_free [OF assms(1) s1(2) \<open>i < 16\<close>] .
  have two: "2 \<le> card (free_slots s) \<longleftrightarrow> free_slots s1 \<noteq> {}"
  proof -
    have "finite (free_slots s)" by (simp add: free_slots_def)
    then have "card (free_slots s) = Suc (card (free_slots s1))" "finite (free_slots s1)"
      using card_Suc_Diff1 [OF _ \<open>i \<in> free_slots s\<close>] f1 by simp_all
    then show ?thesis by (auto simp: Suc_le_eq card_gt_0_iff numeral_2_eq_2)
  qed
  have p1: "pool_inv s1" "live s1 = a # live s" using s1(2) by (simp_all add: given_def)
  show ?thesis
  proof (cases "free_slot s1 = None \<or> a2 = None")
    case True
    then have "\<not> (2 \<le> card (free_slots s) \<and> a1 \<noteq> None \<and> a2 \<noteq> None)"
      using free_slot_iff(1) [of s1] p1(1) two by (auto simp: pool_inv_def)
    then show ?thesis using s1(1) reserve_fails [OF assms(2) True, of common] by (simp add: buffer_test_def)
  next
    case False
    then obtain j b k where j: "free_slot s1 = Some j" "a2 = Some (b, k)" by auto
    then have jf: "j \<in> free_slots s1" using free_slot_iff(2) [of s1 j] p1(1) by (auto simp: pool_inv_def)
    then have j16: "j < 16" "j \<noteq> i" using f1 by (auto simp: free_slots_def)
    have fresh: "b \<notin> set (live s1)" "a \<noteq> b" using assms(4) j(2) i(2) p1(2) by auto
    obtain s2 where s2: "client_buffer fd common a2 s1 = Inr (int j, s2)" "given j b k s1 s2"
      using client_buffer_gives [OF p1(1) j(1) fresh(1) assms(2)] j(2) by blast
    have p2: "pool_inv s2" "live s2 = b # a # live s" using s2(2) p1(2) by (simp_all add: given_def)
    have t: "b_active (bufferInfoTable s2 ! i) = 1" "b_addr (bufferInfoTable s2 ! i) = Some a"
      "b_active (bufferInfoTable s2 ! j) = 1" "b_addr (bufferInfoTable s2 ! j) = Some b"
      using s1(2) s2(2) assms(1) p1(1) j16 \<open>i < 16\<close> by (auto simp: given_def pool_inv_def)
    obtain s3 where s3: "dev_ioctl fd MEMALLOC_RELEASE (int i) None s2 = Inr (0, s3)" "pool_inv s3"
      "live s3 = remove1 a (live s2)" "bufferInfoTable s3 = (bufferInfoTable s2)[i := (bufferInfoTable s2 ! i)\<lparr>b_active := 0\<rparr>]"
      using releases [OF p2(1) \<open>i < 16\<close> t(1,2) assms(2)] by blast
    have t3: "b_active (bufferInfoTable s3 ! j) = 1" "b_addr (bufferInfoTable s3 ! j) = Some b"
      using s3(4) j16(2) t(3,4) by simp_all
    obtain s4 where s4: "dev_ioctl fd MEMALLOC_RELEASE (int j) None s3 = Inr (0, s4)" "pool_inv s4"
      "live s4 = remove1 b (live s3)" "bufferInfoTable s4 = (bufferInfoTable s3)[j := (bufferInfoTable s3 ! j)\<lparr>b_active := 0\<rparr>]"
      using releases [OF s3(2) j16(1) t3 assms(2)] by blast
    have "free_slots s4 = insert j (insert i (free_slots s2))"
      using s3(4) s4(4) p2(1) j16 \<open>i < 16\<close> by (auto simp: free_slots_def pool_inv_def nth_list_update split: if_splits)
    moreover have "free_slots s2 = free_slots s - {i} - {j}" using given_free [OF p1(1) s2(2) j16(1)] f1 by simp
    ultimately have "free_slots s4 = free_slots s" using \<open>i \<in> free_slots s\<close> jf f1 by auto
    moreover have "live s4 = live s" using s4(3) s3(3) p2(2) fresh(2) by simp
    moreover have "buffer_test fd common a1 a2 s = Inr (0, s4)"
      using s1(1) s2(1) s3(1) s4(1) by (simp add: buffer_test_def)
    ultimately show ?thesis using s4(2) two jf i(2) j(2) by auto
  qed
qed

theorem buffer_test_outcome_witness:
  "(\<exists>s'. buffer_test 3 (\<lambda>_ _ _. 0) (Some (7, 0x1F400000)) (Some (8, 0x1F401000)) memalloc0 = Inr (0, s') \<and> live s' = [])
    \<and> buffer_test 3 (\<lambda>_ _ _. 0) (Some (7, 0x1F400000)) None memalloc0 = Inl OutOfBounds"
proof -
  have p: "pool_inv memalloc0" by (simp add: pool_inv_def memalloc0_held owns_def) (simp add: memalloc0_def)
  have l: "live memalloc0 = []" by (simp add: memalloc0_def)
  have "free_slots memalloc0 = {..<16}" by (auto simp: free_slots_def memalloc0_def)
  then have c: "2 \<le> card (free_slots memalloc0)" by simp
  show ?thesis
    using buffer_test_outcome [OF p, of 3 "Some (7, 0x1F400000)" "Some (8, 0x1F401000)" "\<lambda>_ _ _. 0"]
      buffer_test_outcome [OF p, of 3 "Some (7, 0x1F400000)" None "\<lambda>_ _ _. 0"] c l
    by auto
qed

section \<open>The light application\<close>

text \<open>A command of the driver; a result below zero ends the program.\<close>

definition ioctl_LED :: "nat \<Rightarrow> blink \<Rightarrow> blink res" where
  "ioctl_LED cmd s = bindE (device_ioctl cmd s) (\<lambda>(r, s). if r < 0 then Inl (Exit (- 1)) else Inr s)"

definition menu :: "string list" where
  "menu = [''************************************************ '', ''Press '1' to Start Blink LED TEST '',
     ''Press '0' to Stop Blink LED TEST '', ''************************************************ '']"

definition frame_of :: "string \<Rightarrow> string list" where
  "frame_of l = [''################################ '', l, ''################################ '']"

text \<open>
  The loop over what \<^verbatim>\<open>scanf\<close> converts; where it converts nothing, at the end of the input for ever, \<^verbatim>\<open>Choice\<close>
  keeps its value. The program waits when the list is used up.
\<close>

fun choices :: "int option list \<Rightarrow> int \<Rightarrow> blink \<Rightarrow> string list \<Rightarrow> (string list \<times> blink) res" where
  "choices [] choice s out = Inl Blocked"
| "choices (x # xs) choice s out =
     (let choice = (case x of None \<Rightarrow> choice | Some v \<Rightarrow> v);
          out = out @ menu @ [''Choice  :: '' @ show_int choice @ '' '']
      in if choice = 1 then bindE (ioctl_LED IOCTL_ON_LED s) (\<lambda>s. choices xs choice s out)
         else if choice = 0 then bindE (ioctl_LED IOCTL_STOP_LED s) (\<lambda>s. choices xs choice s out)
         else Inr (out, s))"

definition blink_app :: "string \<Rightarrow> string \<Rightarrow> int \<Rightarrow> int option list \<Rightarrow> blink \<Rightarrow> (int \<times> string list \<times> blink) res" where
  \<comment> \<open>\<open>choice0\<close> is what the uninitialised variable holds\<close>
  "blink_app inode fil choice0 xs s =
     (case device_open fil s of (r, s) \<Rightarrow>
        if r < 0 then Inl (Exit (- 1))
        else bindE (choices xs choice0 s (frame_of ''      Blink LED Application  '')) (\<lambda>(out, s).
             Inr (0, out @ frame_of ''      Bye Blink LED Application  '', snd (device_release inode fil s))))"

text \<open>What the driver does with the two commands.\<close>

definition lit :: "int \<Rightarrow> u32" where "lit c = (if c = 1 then 1 else 0)"

definition same_counters :: "blink \<Rightarrow> blink \<Rightarrow> bool" where
  "same_counters s s' \<longleftrightarrow> Device_Open s' = Device_Open s \<and> module_refs s' = module_refs s"

lemma IOCTLs_differ: "IOCTL_STOP_LED \<noteq> IOCTL_ON_LED"
  by (simp add: IOCTL_ON_LED_def IOCTL_STOP_LED_def IOR_def)

lemma switches:
  assumes "mmio s \<noteq> None" "c = 0 \<or> c = 1"
  shows "\<exists>s'. ioctl_LED (if c = 1 then IOCTL_ON_LED else IOCTL_STOP_LED) s = Inr s' \<and> mmio s' = Some (lit c) \<and> same_counters s s'"
  using assms IOCTLs_differ
  by (auto simp: ioctl_LED_def device_ioctl_def set_blink_ctrl_def reset_blink_ctrl_def printk_b_def lit_def same_counters_def Let_def)

text \<open>A choice of 0 or 1, typed or repeated, goes on with the light switched.\<close>

lemma choice_step:
  assumes "mmio s \<noteq> None" "(case x of None \<Rightarrow> choice | Some v \<Rightarrow> v) = c" "c = 0 \<or> c = 1"
  shows "\<exists>s' out'. choices (x # xs) choice s out = choices xs c s' out' \<and> mmio s' = Some (lit c) \<and> same_counters s s'"
proof -
  obtain s' where s': "ioctl_LED (if c = 1 then IOCTL_ON_LED else IOCTL_STOP_LED) s = Inr s'" "mmio s' = Some (lit c)"
    "same_counters s s'" using switches [OF assms(1,3)] by blast
  then have "choices (x # xs) choice s out = choices xs c s' (out @ menu @ [''Choice  :: '' @ show_int c @ '' ''])"
    using assms(2,3) by (auto simp: Let_def)
  then show ?thesis using s'(2,3) by blast
qed

lemma choices_run:
  assumes "mmio s \<noteq> None" "set cs \<subseteq> {0, 1}"
  shows "\<exists>s' out'. choices (map Some cs @ ys) choice s out = choices ys (last (choice # cs)) s' out'
    \<and> mmio s' = (if cs = [] then mmio s else Some (lit (last cs))) \<and> same_counters s s'"
  using assms
proof (induction cs arbitrary: choice s out)
  case Nil
  then show ?case by (auto simp: same_counters_def)
next
  case (Cons c cs)
  obtain s1 out1 where s1: "choices (Some c # map Some cs @ ys) choice s out = choices (map Some cs @ ys) c s1 out1"
    "mmio s1 = Some (lit c)" "same_counters s s1"
    using choice_step [OF Cons.prems(1), where x = "Some c" and c = c and choice = choice and out = out] Cons.prems(2) by fastforce
  then obtain s2 out2 where s2: "choices (map Some cs @ ys) c s1 out1 = choices ys (last (c # cs)) s2 out2"
    "mmio s2 = (if cs = [] then mmio s1 else Some (lit (last cs)))" "same_counters s1 s2"
    using Cons.IH [of s1 c out1] Cons.prems(2) by auto
  show ?case
    using s1 s2 by (intro exI [of _ s2] exI [of _ out2]) (auto simp: same_counters_def)
qed

lemma choices_repeat:
  assumes "mmio s \<noteq> None" "c = 0 \<or> c = 1"
  shows "choices (replicate n None) c s out = Inl Blocked"
  using assms
proof (induction n arbitrary: s out)
  case (Suc n)
  obtain s' out' where "choices (None # replicate n None) c s out = choices (replicate n None) c s' out'" "mmio s' = Some (lit c)"
    using choice_step [OF Suc.prems(1), where x = None and c = c and choice = c and out = out] Suc.prems(2) by force
  then show ?case using Suc.IH [of s' out'] Suc.prems(2) by simp
qed simp

text \<open>
  The light application and the driver: on a device that nobody has open, the application follows what is
  typed until something else than 0 and 1 comes; then it ends, with the light as last chosen and the
  device free for others. While it is open to somebody, it gives up at once. But it ends only by a
  number: when the input ends after a choice, it repeats that choice for ever.
\<close>

theorem blink_app_outcome:
  assumes "mmio s \<noteq> None" "set cs \<subseteq> {0, 1}"
  shows "(Device_Open s = 0 \<and> v \<notin> {0, 1} \<longrightarrow>
      (\<exists>out s'. blink_app inode fil ch (map Some cs @ Some v # ys) s = Inr (0, out, s')
        \<and> mmio s' = (if cs = [] then mmio s else Some (lit (last cs))) \<and> open_check s' \<and> module_refs s' = module_refs s))
    \<and> (Device_Open s = 0 \<and> cs \<noteq> [] \<longrightarrow> blink_app inode fil ch (map Some cs @ replicate n None) s = Inl Blocked)
    \<and> (Device_Open s \<noteq> 0 \<longrightarrow> blink_app inode fil ch xs s = Inl (Exit (- 1)))"
proof (intro conjI impI)
  assume "Device_Open s \<noteq> 0"
  then show "blink_app inode fil ch xs s = Inl (Exit (- 1))"
    by (simp add: blink_app_def device_open_def open_check_def printk_b_def Let_def)
next
  define s0 where "s0 = open_take (printk_b (''device_open('' @ fil @ '')'') s)"
  assume "Device_Open s = 0 \<and> cs \<noteq> []"
  then have o: "device_open fil s = (0, s0)" "cs \<noteq> []"
    by (simp_all add: device_open_def open_check_def s0_def printk_b_def Let_def)
  have "mmio s0 \<noteq> None" using assms(1) by (simp add: s0_def open_take_def printk_b_def)
  then obtain s1 out1 where s1: "choices (map Some cs @ replicate n None) ch s0 (frame_of ''      Blink LED Application  '')
      = choices (replicate n None) (last (ch # cs)) s1 out1" "mmio s1 \<noteq> None"
    using choices_run [OF _ assms(2), of s0 "replicate n None" ch] o(2) by fastforce
  moreover have "last (ch # cs) = 0 \<or> last (ch # cs) = 1" using assms(2) last_in_set [OF o(2)] o(2) by fastforce
  ultimately show "blink_app inode fil ch (map Some cs @ replicate n None) s = Inl Blocked"
    using choices_repeat [OF s1(2)] o(1) by (simp add: blink_app_def)
next
  define s0 where "s0 = open_take (printk_b (''device_open('' @ fil @ '')'') s)"
  assume d: "Device_Open s = 0 \<and> v \<notin> {0, 1}"
  then have o: "device_open fil s = (0, s0)"
    by (simp add: device_open_def open_check_def s0_def printk_b_def Let_def)
  have s0: "mmio s0 = mmio s" "Device_Open s0 = 1" "module_refs s0 = module_refs s + 1"
    using d by (simp_all add: s0_def open_take_def printk_b_def small32)
  obtain s1 out1 where s1: "choices (map Some cs @ Some v # ys) ch s0 (frame_of ''      Blink LED Application  '')
      = choices (Some v # ys) (last (ch # cs)) s1 out1"
    "mmio s1 = (if cs = [] then mmio s else Some (lit (last cs)))" "same_counters s0 s1"
    using choices_run [of s0 cs "Some v # ys" ch "frame_of ''      Blink LED Application  ''"] assms s0(1) by auto
  have "\<exists>out. choices (Some v # ys) (last (ch # cs)) s1 out1 = Inr (out, s1)" using d by (simp add: Let_def)
  then obtain out where "blink_app inode fil ch (map Some cs @ Some v # ys) s
      = Inr (0, out @ frame_of ''      Bye Blink LED Application  '', snd (device_release inode fil s1))"
    using o s1(1) by (auto simp: blink_app_def)
  then show "\<exists>out s'. blink_app inode fil ch (map Some cs @ Some v # ys) s = Inr (0, out, s')
        \<and> mmio s' = (if cs = [] then mmio s else Some (lit (last cs))) \<and> open_check s' \<and> module_refs s' = module_refs s"
    using s1(2,3) s0 by (simp add: device_release_def open_check_def same_counters_def small32 printk_b_def)
qed

theorem blink_app_outcome_witness:
  "\<exists>out s'. blink_app ''i'' ''f'' 0 [Some 1, Some 0, Some 1, Some 7] blink0 = Inr (0, out, s') \<and> mmio s' = Some 1 \<and> open_check s'"
proof -
  have "mmio blink0 \<noteq> None" "Device_Open blink0 = 0" by (simp_all add: blink0_def)
  then show ?thesis using blink_app_outcome [of blink0 "[1, 0, 1]", where v = 7 and inode = "''i''" and fil = "''f''" and ch = 0 and ys = "[]" and n = 0]
    by (auto simp: lit_def)
qed

section \<open>The interrupt test\<close>

text \<open>
  Ten reads of one byte into a buffer of 100; between two reads interrupts come and others write to the
  device. The driver copies the whole message, however long the reader says its buffer is.
\<close>

datatype happening = Interrupt | Written string

definition happens :: "handle \<Rightarrow> happening \<Rightarrow> handle res" where
  "happens s h =
     (case h of Interrupt \<Rightarrow> xilaxitimer_isr s
      | Written b \<Rightarrow> bindE (gpio_write b (length b) s) (\<lambda>(_, s). Inr s))"

fun isr_reads :: "nat \<Rightarrow> happening list list \<Rightarrow> handle \<Rightarrow> (string list \<times> handle) res" where
  "isr_reads 0 hss s = Inr ([], s)"
| "isr_reads (Suc a) [] s = Inl Blocked"
| "isr_reads (Suc a) (hs # hss) s =
     bindE (runE happens s hs) (\<lambda>s.
     bindE (gpio_read (\<lambda>_. 0) 1 s) (\<lambda>(_, d, s).
     if 100 < length d then Inl OutOfBounds
     else bindE (isr_reads a hss s) (\<lambda>(out, s). Inr (''Interrupt handler'' # out, s))))"

lemma isr_reads_ten:
  "isr_reads 10 (hs # hss) s =
     bindE (runE happens s hs) (\<lambda>s.
     bindE (gpio_read (\<lambda>_. 0) 1 s) (\<lambda>(_, d, s).
     if 100 < length d then Inl OutOfBounds
     else bindE (isr_reads 9 hss s) (\<lambda>(out, s). Inr (''Interrupt handler'' # out, s))))"
  using isr_reads.simps(3) [of 9] by simp

definition thread_isr_test :: "int \<Rightarrow> happening list list \<Rightarrow> handle \<Rightarrow> (string list \<times> handle) res" where
  \<comment> \<open>a file that did not open makes each \<^verbatim>\<open>read\<close> return at once\<close>
  "thread_isr_test fd hss s =
     (if fd < 0 then Inr (replicate 10 ''Interrupt handler'', s)
      else bindE (isr_reads 10 hss (snd (gpio_open s))) (\<lambda>(out, s). Inr (out, snd (gpio_release s))))"

text \<open>The main thread does not wait for the other one: after its hundred lines the program ends.\<close>

definition test_handle_main :: "int \<times> string list" where
  "test_handle_main = (1, ''start'' # replicate 100 ''Waiting for an int...'')"

text \<open>A message that fits the reader's buffer, and happenings that leave it so.\<close>

definition fits_reader :: "handle \<Rightarrow> bool" where
  "fits_reader s \<longleftrightarrow> virt s \<and> size_of_message s \<le> 100"

definition short :: "happening \<Rightarrow> bool" where
  "short h \<longleftrightarrow> (case h of Interrupt \<Rightarrow> True | Written b \<Rightarrow> length (letters b (length b)) \<le> 100)"

lemma happens_ok:
  assumes "fits_reader s" "short h"
  shows "\<exists>s'. happens s h = Inr s' \<and> fits_reader s' \<and> x_flag s' = (if h = Interrupt then 1 else x_flag s)"
proof (cases h)
  case Interrupt
  then show ?thesis using isr_ok [of s] assms by (auto simp: happens_def fits_reader_def)
next
  case (Written b)
  then show ?thesis using assms by (simp add: happens_def gpio_write_def fits_reader_def short_def Let_def)
qed

lemma happenings_ok:
  assumes "fits_reader s" "list_all short hs"
  shows "\<exists>s'. runE happens s hs = Inr s' \<and> fits_reader s' \<and> x_flag s' = (if Interrupt \<in> set hs then 1 else x_flag s)"
  using assms
proof (induction hs arbitrary: s)
  case (Cons h hs)
  then obtain s1 where s1: "happens s h = Inr s1" "fits_reader s1" "x_flag s1 = (if h = Interrupt then 1 else x_flag s)"
    using happens_ok [of s h] by auto
  then show ?case using Cons.IH [of s1] Cons.prems(2) by auto
qed simp

lemma read_ok:
  assumes "fits_reader s" "x_flag s = 1"
  shows "\<exists>d s'. gpio_read (\<lambda>_. 0) 1 s = Inr (0, d, s') \<and> length d \<le> 100 \<and> fits_reader s' \<and> x_flag s' = 0"
  using assms by (simp add: gpio_read_def fits_reader_def min_le_iff_disj nat_le_iff Let_def)

lemma isr_reads_ok:
  assumes "fits_reader s" "length hss = n" "\<forall>hs \<in> set hss. Interrupt \<in> set hs \<and> list_all short hs"
  shows "\<exists>s'. isr_reads n hss s = Inr (replicate n ''Interrupt handler'', s') \<and> x_flag s' = (if n = 0 then x_flag s else 0)"
  using assms
proof (induction n arbitrary: hss s)
  case (Suc n)
  then obtain hs hss' where h: "hss = hs # hss'" by (cases hss) auto
  then obtain s1 where s1: "runE happens s hs = Inr s1" "fits_reader s1" "x_flag s1 = 1"
    using happenings_ok [OF Suc.prems(1), of hs] Suc.prems(3) by auto
  obtain d s2 where s2: "gpio_read (\<lambda>_. 0) 1 s1 = Inr (0, d, s2)" "length d \<le> 100" "fits_reader s2" "x_flag s2 = 0"
    using read_ok [OF s1(2,3)] by blast
  then show ?case using Suc.IH [of s2 hss'] Suc.prems(2,3) h s1(1) by auto
qed simp

text \<open>
  The interrupt test counts interrupts only as long as nobody writes much: when the device opens, every
  one of the ten waits sees an interrupt and what is written meanwhile has at most 100
  characters with its count, exactly ten lines come out. A longer message runs over the buffer of the test
  although it asked for one byte; and when the device does not open, the ten lines come out all the same.
\<close>

theorem interrupt_test_outcome:
  assumes "virt s" "size_of_message s \<le> 100"
  shows "(0 \<le> fd \<and> length hss = 10 \<and> (\<forall>hs \<in> set hss. Interrupt \<in> set hs \<and> list_all short hs) \<longrightarrow>
      (\<exists>s'. thread_isr_test fd hss s = Inr (replicate 10 ''Interrupt handler'', s')))
    \<and> (0 \<le> fd \<and> 100 < length (letters b (length b)) \<and> length (letters b (length b)) < 256 \<longrightarrow>
      thread_isr_test fd ([Written b, Interrupt] # hss) s = Inl OutOfBounds)
    \<and> (0 \<le> fd \<and> x_flag s = 0 \<and> list_all short hs \<and> Interrupt \<notin> set hs \<longrightarrow> thread_isr_test fd (hs # hss) s = Inl Blocked)
    \<and> (fd < 0 \<longrightarrow> thread_isr_test fd hss s = Inr (replicate 10 ''Interrupt handler'', s))"
proof -
  define s0 where "s0 = snd (gpio_open s)"
  have s0: "fits_reader s0" "virt s0" "x_flag s0 = x_flag s"
    using assms by (simp_all add: s0_def gpio_open_def fits_reader_def Let_def)
  have ten: "thread_isr_test fd (h # hs) s = bindE (isr_reads 10 (h # hs) s0) (\<lambda>(out, s). Inr (out, snd (gpio_release s)))"
    if "0 \<le> fd" for h hs
    using that by (simp add: thread_isr_test_def s0_def)
  have long: "thread_isr_test fd ([Written b, Interrupt] # hss) s = Inl OutOfBounds"
    if l: "0 \<le> fd" "100 < length (letters b (length b))" "length (letters b (length b)) < 256"
  proof -
    obtain s1 r where s1: "gpio_write b (length b) s0 = Inr (r, s1)" "virt s1" "message s1 = letters b (length b)"
      "size_of_message s1 = int (length (letters b (length b)))"
      using l(3) s0(2) by (simp add: gpio_write_def Let_def)
    obtain s2 where s2: "xilaxitimer_isr s1 = Inr s2" "x_flag s2 = 1" "message s2 = letters b (length b)"
      "size_of_message s2 = int (length (letters b (length b)))"
      using isr_ok [OF s1(2)] s1 by auto
    then show ?thesis using s1(1) l(2) ten [OF l(1)] by (simp add: isr_reads_ten happens_def gpio_read_def Let_def)
  qed
  have wait: "thread_isr_test fd (hs # hss) s = Inl Blocked" if w: "0 \<le> fd" "x_flag s = 0" "list_all short hs" "Interrupt \<notin> set hs"
  proof -
    obtain s1 where "runE happens s0 hs = Inr s1" "x_flag s1 = 0"
      using happenings_ok [OF s0(1) w(3)] w(2,4) s0(3) by auto
    then show ?thesis using ten [OF w(1)] by (simp add: isr_reads_ten gpio_read_def)
  qed
  have ok: "\<exists>s'. thread_isr_test fd hss s = Inr (replicate 10 ''Interrupt handler'', s')"
    if "0 \<le> fd" "length hss = 10" "\<forall>hs \<in> set hss. Interrupt \<in> set hs \<and> list_all short hs"
    using isr_reads_ok [OF s0(1) that(2,3)] that(1) by (auto simp: thread_isr_test_def s0_def)
  show ?thesis using long wait ok by (simp add: thread_isr_test_def)
qed

theorem interrupt_test_outcome_witness:
  "(\<exists>s'. thread_isr_test 3 (replicate 10 [Written ''hi'', Interrupt]) (handle0\<lparr>virt := True\<rparr>)
      = Inr (replicate 10 ''Interrupt handler'', s'))
    \<and> thread_isr_test 3 ([Written (replicate 95 CHR ''a''), Interrupt] # []) (handle0\<lparr>virt := True\<rparr>) = Inl OutOfBounds"
proof -
  let ?s = "handle0\<lparr>virt := True\<rparr>" and ?b = "replicate 95 CHR ''a''"
  have s: "virt ?s" "size_of_message ?s \<le> 100" by (simp_all add: handle0_def)
  have b: "short (Written ''hi'')" "100 < length (letters ?b (length ?b))" "length (letters ?b (length ?b)) < 256"
    by code_simp+
  then have "\<forall>hs \<in> set (replicate 10 [Written ''hi'', Interrupt]). Interrupt \<in> set hs \<and> list_all short hs"
    by (simp add: short_def)
  then show ?thesis
    using interrupt_test_outcome [OF s, of 3 "replicate 10 [Written ''hi'', Interrupt]" ?b "[]"]
      interrupt_test_outcome [OF s, of 3 "[]" ?b "[]"] b by (simp only: length_replicate simp_thms order_refl zero_le_numeral)
qed

section \<open>The client of the TCP server\<close>

text \<open>
  The samples that arrive are printed as if they were text: up to the first byte 0 of the buffer, whose
  last page is never written. Printing goes on past the buffer when there is none.
\<close>

definition NET_READ :: nat where "NET_READ = 255 * 4096"

definition c_text :: "u8 list \<Rightarrow> string res" where
  "c_text buf = (if 0 \<in> set buf then Inr (map (\<lambda>b. char_of (unat b)) (takeWhile (\<lambda>b. b \<noteq> 0) buf)) else Inl OutOfBounds)"

text \<open>The data of each \<^verbatim>\<open>read\<close>, none when the server has closed or the call fails.\<close>

fun net_prints :: "u8 list list \<Rightarrow> u8 list \<Rightarrow> string list res" where
  "net_prints [] buf = Inr []"
| "net_prints (d # ds) buf =
     (let d = take NET_READ d; buf = d @ drop (length d) buf
      in bindE (c_text buf) (\<lambda>l. bindE (net_prints ds buf) (\<lambda>ls. Inr (l # ls))))"

record net_env =
  ne_socket :: int
  ne_host :: bool
  ne_connect :: int

text \<open>The value it returns, if it does, and what it has printed.\<close>

definition net_client :: "string list \<Rightarrow> net_env \<Rightarrow> u8 list list \<Rightarrow> u8 list \<Rightarrow> (int option \<times> string list) res" where
  "net_client argv e ds buf =
     (if length argv < 3 then Inl (Exit 0)
      else if ne_socket e < 0 then Inl (Exit 0)
      else if \<not> ne_host e then Inl (Exit 0)
      else if ne_connect e < 0 then Inr (Some 1, [])
      else bindE (net_prints ds buf) (\<lambda>ls. Inr (None, ls)))"

lemma repeats: "c_text buf = Inr l \<Longrightarrow> net_prints (replicate n []) buf = Inr (replicate n l)"
  by (induction n) simp_all

text \<open>
  The client shows the samples up to the first byte 0 only, which every sample between 0 and 255
  brings; without one it appends what the buffer held before. And it does not notice the end of
  the connection: it prints the last data for ever.
\<close>

theorem client_shows_text:
  assumes "length argv = 3" "ne_socket e \<ge> 0" "ne_host e" "ne_connect e \<ge> 0" "length d \<le> NET_READ" "0 \<in> set (drop (length d) buf)"
  shows "\<exists>l. net_client argv e (d # replicate n []) buf = Inr (None, replicate (Suc n) l)
    \<and> (0 \<in> set d \<longrightarrow> l = map (\<lambda>b. char_of (unat b)) (takeWhile (\<lambda>b. b \<noteq> 0) d))
    \<and> (0 \<notin> set d \<longrightarrow> l = map (\<lambda>b. char_of (unat b)) (d @ takeWhile (\<lambda>b. b \<noteq> 0) (drop (length d) buf)))"
proof -
  define l where "l = map (\<lambda>b. char_of (unat b) :: char) (takeWhile (\<lambda>b. b \<noteq> 0) (d @ drop (length d) buf))"
  have c: "c_text (d @ drop (length d) buf) = Inr l" using assms(6) by (simp add: c_text_def l_def)
  have "net_prints (d # replicate n []) buf = Inr (replicate (Suc n) l)"
    using repeats [OF c] c assms(5) by simp
  moreover have "0 \<in> set d \<longrightarrow> takeWhile (\<lambda>b. b \<noteq> 0) (d @ drop (length d) buf) = takeWhile (\<lambda>b. b \<noteq> 0) d"
    by (auto intro: takeWhile_append1)
  moreover have "0 \<notin> set d \<longrightarrow> takeWhile (\<lambda>b. b \<noteq> 0) (d @ drop (length d) buf) = d @ takeWhile (\<lambda>b. b \<noteq> 0) (drop (length d) buf)"
    by (auto intro: takeWhile_append2)
  ultimately show ?thesis using assms(1-4) by (auto simp: net_client_def l_def intro!: exI [of _ l])
qed

theorem client_shows_text_witness:
  "net_client [''c'', ''h'', ''1001''] \<lparr>ne_socket = 3, ne_host = True, ne_connect = 0\<rparr> ([72, 105, 0, 1] # replicate 2 []) [1, 1, 1, 1, 0]
    = Inr (None, replicate 3 ''Hi'')"
proof -
  have h: "map (\<lambda>b. char_of (unat b)) (takeWhile (\<lambda>b. b \<noteq> 0) [72, 105, 0, 1 :: u8]) = ''Hi''" by code_simp
  show ?thesis
    using client_shows_text [of "[''c'', ''h'', ''1001'']" "\<lparr>ne_socket = 3, ne_host = True, ne_connect = 0\<rparr>" "[72, 105, 0, 1]"
        "[1, 1, 1, 1, 0]" 2] unfolding h by (simp add: NET_READ_def)
qed

end
