(* ===== verification/BramTest.thy ===== *)
theory BramTest
  imports TrigTest
begin

unbundle bit_operations_syntax

text \<open>
  The two programs of \<^verbatim>\<open>projects/trigger_test_bram\<close>: \<^verbatim>\<open>trigger_test2.c\<close> reads a block of memory of one page again
  and again while the hardware fills it, \<^verbatim>\<open>trigger_test.c\<close> takes one picture of the whole memory. State,
  registers and words are those of \<open>TrigTest\<close>.
\<close>

section \<open>Reading a page while it is filled\<close>

text \<open>Where reading begins and how many words are read, if the position asks for it.\<close>

definition b_window :: "int \<Rightarrow> int \<Rightarrow> (nat \<times> int) option" where
  "b_window lmt position =
     (if (lmt > 0 \<and> position > lmt) \<or> (lmt = 0 \<and> position < 512)
      then Some (if lmt > 0 then 0 else 2048, if lmt > 0 then position else position - 512)
      else None)"

definition b_start :: "cap \<Rightarrow> cap res" where
  "b_start s =
     bindE (update 4 0 (\<lambda>w. w AND NOT 2) s) (\<lambda>s.
     bindE (update 4 0 (\<lambda>w. w OR 2) s) (\<lambda>s.
     bindE (update 4 0 (\<lambda>w. w AND NOT 1) s) (\<lambda>s.
     update 4 0 (\<lambda>w. w OR 1) s)))"

definition ram_half :: "nat \<Rightarrow> cap \<Rightarrow> int res" where
  "ram_half a s = bindE (inside Ram a 2 s) (\<lambda>_. Inr (to_i16 (get_le 2 a (c_ram s))))"

definition halves_line :: "int \<Rightarrow> int \<Rightarrow> string" where
  "halves_line a b = pad 5 (show_int (sample_value a)) @ '' '' @ pad 5 (show_int (sample_value b))"

text \<open>The halves come from the offset on, the word from the beginning; a counter adds two lines.\<close>

definition b_decode :: "int \<Rightarrow> int \<Rightarrow> u32 \<Rightarrow> trig \<Rightarrow> trig" where
  "b_decode a b wo s =
     (if drop_bit 30 wo = 0 then t_line (halves_line a b) s
      else if drop_bit 30 wo = 2 then
        t_line (''# LLLL:    '' @ show_int (t_limit s))
          (t_line (''# PPPP:    '' @ show_int (the (t_position s))) (t_decode wo s))
      else t_decode wo s)"

definition b_step :: "nat \<Rightarrow> trig \<Rightarrow> nat \<Rightarrow> trig res" where
  "b_step offset s i =
     bindE (ram_half (offset + 4 * i) (t_cap s)) (\<lambda>a.
     bindE (ram_half (offset + 4 * i + 2) (t_cap s)) (\<lambda>b.
     bindE (ram_word (4 * i) (t_cap s)) (\<lambda>wo.
     Inr (b_decode a b wo (s\<lparr>t_read := t_read s @ [4 * i]\<rparr>)))))"

definition b_turn :: "trig \<Rightarrow> u32 \<times> (nat \<Rightarrow> u8) \<Rightarrow> trig res" where
  "b_turn s t =
     (let s = s\<lparr>t_cap := (t_cap s)\<lparr>c_ram := snd t\<rparr>\<rparr>
      in bindE (inside Sts 0 4 (t_cap s)) (\<lambda>_.
         let position = to_i32 (uint (fst t)); s = s\<lparr>t_position := Some position\<rparr>
         in case b_window (t_limit s) position of
              None \<Rightarrow> Inr s
            | Some (offset, lmt) \<Rightarrow> runE (b_step offset) (s\<lparr>t_limit := lmt\<rparr>) [0..<nat lmt]))"

text \<open>At the end the samples up to the last position are printed; it has no value when no turn was made.\<close>

definition b_finish :: "trig \<Rightarrow> trig res" where
  "b_finish s =
     (case t_position s of
        None \<Rightarrow> Inl OutOfBounds
      | Some position \<Rightarrow>
          let lmt = (if t_limit s > 0 then position else position - 512)
          in on_cap (\<lambda>c. runE print_sample c (map (\<lambda>i. 4 * i) [0..<nat lmt])) (s\<lparr>t_limit := lmt\<rparr>))"

text \<open>What both programs do first: the arguments, the file, the memory.\<close>

definition with_start :: "string list \<Rightarrow> bool \<Rightarrow> int \<Rightarrow> trig \<Rightarrow> (trig \<Rightarrow> (int \<times> trig) res) \<Rightarrow> (int \<times> trig) res" where
  "with_start argv fopened mfd s f =
     (let s = s\<lparr>t_cap := c_say (show_nat (length argv)) (t_cap s)\<rparr>
      in if length argv < 2 then Inl (Exit 1)
         else if \<not> fopened then Inl (Exit 1)
         else if mfd < 0 then Inr (1, s)
         else if length argv = 2 then Inl NullDeref
         else bindE (on_cap (thresholds (atoi (argv ! 2))) s) f)"

definition trigger_page :: "string list \<Rightarrow> bool \<Rightarrow> int \<Rightarrow> (u32 \<times> (nat \<Rightarrow> u8)) list \<Rightarrow> trig \<Rightarrow> (int \<times> trig) res" where
  "trigger_page argv fopened mfd turns s =
     with_start argv fopened mfd (s\<lparr>t_limit := 512\<rparr>) (\<lambda>s.
     bindE (on_cap b_start s) (\<lambda>s.
     bindE (runE b_turn s turns) (\<lambda>s.
     bindE (b_finish s) (\<lambda>s. Inr (0, s)))))"

section \<open>A picture of the whole memory\<close>

definition trigger_picture :: "string list \<Rightarrow> bool \<Rightarrow> int \<Rightarrow> trig \<Rightarrow> (int \<times> trig) res" where
  "trigger_picture argv fopened mfd s =
     with_start argv fopened mfd s (\<lambda>s.
     bindE (on_cap recorder_setup s) (\<lambda>s.
     bindE (runE t_step s (map (\<lambda>i. 4 * i) [0..<1024 * 1024])) (\<lambda>s. Inr (0, s))))"

section \<open>What the first program reads\<close>

lemma b_decode_keeps [simp]:
  "t_read (b_decode a b wo s) = t_read s" "t_limit (b_decode a b wo s) = t_limit s"
  "c_map (t_cap (b_decode a b wo s)) = c_map (t_cap s)"
  by (simp_all add: b_decode_def t_line_def)

lemma b_steps:
  assumes "c_map (t_cap s) Ram = Some sz" "\<forall>i \<in> set is'. 4 * i + 4 \<le> sz"
  shows "\<exists>s'. runE (b_step 0) s is' = Inr s' \<and> t_read s' = t_read s @ map (\<lambda>i. 4 * i) is' \<and> t_limit s' = t_limit s
    \<and> c_map (t_cap s') = c_map (t_cap s)"
  using assms
proof (induction is' arbitrary: s)
  case (Cons i is')
  then obtain s1 where s1: "b_step 0 s i = Inr s1" "t_read s1 = t_read s @ [4 * i]" "t_limit s1 = t_limit s"
    "c_map (t_cap s1) = c_map (t_cap s)"
    by (simp add: b_step_def ram_half_def ram_word_def inside_def)
  then show ?case using Cons.IH [of s1] Cons.prems by auto
qed auto

lemma b_steps_overrun:
  assumes "c_map (t_cap s) Ram = Some 4096" "1024 < n"
  shows "runE (b_step 0) s [0..<n] = Inl OutOfBounds"
proof -
  have "[0..<n] = [0..<1024] @ 1024 # [1025..<n]"
    using assms(2) upt_add_eq_append [of 0 1024 "n - 1024"] upt_conv_Cons [of 1024 n] by (simp del: upt_Suc upt_rec_numeral)
  moreover obtain s' where "runE (b_step 0) s [0..<1024] = Inr s'" "c_map (t_cap s') Ram = Some 4096"
    using b_steps [of s 4096 "[0..<1024]"] assms(1) by auto
  ultimately show ?thesis by (simp add: runE_append b_step_def ram_half_def inside_def del: upt_Suc upt_rec_numeral)
qed

text \<open>The positions that are larger than all before, beginning with \<open>m\<close>.\<close>

fun highs :: "int \<Rightarrow> int list \<Rightarrow> int list" where
  "highs m [] = []"
| "highs m (p # ps) = (if p > m then p # highs p ps else highs m ps)"

lemma highs_larger: "x \<in> set (highs m ps) \<Longrightarrow> m < x"
  by (induction ps arbitrary: m) (force split: if_splits)+

definition positions :: "(u32 \<times> (nat \<Rightarrow> u8)) list \<Rightarrow> int list" where
  "positions turns = map (\<lambda>t. to_i32 (uint (fst t))) turns"

text \<open>
  The page is read from its beginning each time the position is larger than ever before, and
  never otherwise: the words are not read once each, as the two halves in the code
  suggest, but as often as there are such positions behind them, the second half is never
  waited for, and after the largest position nothing is read any more, however often the hardware
  goes round. A position past the page of 1024 words makes the program read outside its mapping.
\<close>

theorem page_read_again:
  assumes "c_map (t_cap s) Ram = Some 4096" "c_map (t_cap s) Sts = Some 4096" "t_limit s > 0"
  shows "if \<forall>p \<in> set (highs (t_limit s) (positions turns)). p \<le> 1024
    then \<exists>s'. runE b_turn s turns = Inr s'
      \<and> t_read s' = t_read s @ concat (map (\<lambda>p. map (\<lambda>i. 4 * i) [0..<nat p]) (highs (t_limit s) (positions turns)))
      \<and> t_limit s' = last (t_limit s # highs (t_limit s) (positions turns))
    else runE b_turn s turns = Inl OutOfBounds"
  using assms
proof (induction turns arbitrary: s)
  case Nil
  then show ?case by (simp add: positions_def)
next
  case (Cons t turns)
  define p where "p = to_i32 (uint (fst t))"
  define s1 where "s1 = s\<lparr>t_cap := (t_cap s)\<lparr>c_ram := snd t\<rparr>, t_position := Some p\<rparr>"
  have s1: "t_read s1 = t_read s" "t_limit s1 = t_limit s" "c_map (t_cap s1) = c_map (t_cap s)"
    by (simp_all add: s1_def)
  have pos: "positions (t # turns) = p # positions turns" by (simp add: positions_def p_def)
  show ?case
  proof (cases "p > t_limit s")
    case False
    then have "b_turn s t = Inr s1"
      using Cons.prems by (simp add: b_turn_def b_window_def inside_def s1_def Let_def flip: p_def)
    then have r: "runE b_turn s (t # turns) = runE b_turn s1 turns" by simp
    have h: "highs (t_limit s) (positions (t # turns)) = highs (t_limit s1) (positions turns)"
      using False s1(2) by (simp add: pos)
    show ?thesis unfolding r h s1(2) using Cons.IH [of s1, unfolded s1] Cons.prems by blast
  next
    case True
    then have turn: "b_turn s t = runE (b_step 0) (s1\<lparr>t_limit := p\<rparr>) [0..<nat p]"
      using Cons.prems by (simp add: b_turn_def b_window_def inside_def s1_def Let_def flip: p_def)
    show ?thesis
    proof (cases "p \<le> 1024")
      case False
      then have "b_turn s t = Inl OutOfBounds"
        unfolding turn using Cons.prems(1) s1(3) by (intro b_steps_overrun) auto
      then show ?thesis using True False by (simp add: pos)
    next
      case small: True
      then have "\<forall>i \<in> set [0..<nat p]. 4 * i + 4 \<le> 4096" by auto
      then obtain s2 where s2: "b_turn s t = Inr s2" "t_read s2 = t_read s @ map (\<lambda>i. 4 * i) [0..<nat p]" "t_limit s2 = p"
        "c_map (t_cap s2) = c_map (t_cap s)"
        using b_steps [of "s1\<lparr>t_limit := p\<rparr>" 4096 "[0..<nat p]"] Cons.prems(1) s1 unfolding turn by auto
      have r: "runE b_turn s (t # turns) = runE b_turn s2 turns" using s2(1) by simp
      have h: "highs (t_limit s) (positions (t # turns)) = p # highs p (positions turns)"
        using True by (simp add: pos)
      have ih: "if \<forall>q \<in> set (highs p (positions turns)). q \<le> 1024
        then \<exists>s'. runE b_turn s2 turns = Inr s'
          \<and> t_read s' = t_read s2 @ concat (map (\<lambda>p. map (\<lambda>i. 4 * i) [0..<nat p]) (highs p (positions turns)))
          \<and> t_limit s' = last (p # highs p (positions turns))
        else runE b_turn s2 turns = Inl OutOfBounds"
        using Cons.IH [of s2] Cons.prems s2(3,4) True unfolding s2(3) by simp
      show ?thesis
        using ih s2(2) small unfolding r h
        by (cases "\<forall>q \<in> set (highs p (positions turns)). q \<le> 1024") (auto simp del: last.simps simp: last_ConsR)
    qed
  qed
qed

theorem page_read_again_witness:
  "\<exists>s'. runE b_turn \<lparr>t_cap = cap0 (mapped (\<lambda>_. True) 1) (\<lambda>_. 0) (\<lambda>_. 0) [], t_limit = 512, t_position = None,
      t_file = [], t_dp = 0, t_cdp = 0, t_cnt = 0, t_pnt = 0, t_read = []\<rparr> [(600, \<lambda>_. 0), (10, \<lambda>_. 0), (700, \<lambda>_. 0)] = Inr s'
    \<and> t_read s' = map (\<lambda>i. 4 * i) [0..<600] @ map (\<lambda>i. 4 * i) [0..<700] \<and> t_limit s' = 700"
proof -
  let ?s = "\<lparr>t_cap = cap0 (mapped (\<lambda>_. True) 1) (\<lambda>_. 0) (\<lambda>_. 0) [], t_limit = 512, t_position = None,
      t_file = [], t_dp = 0, t_cdp = 0, t_cnt = 0, t_pnt = 0, t_read = []\<rparr> :: trig"
  have s: "c_map (t_cap ?s) Ram = Some 4096" "c_map (t_cap ?s) Sts = Some 4096" "t_limit ?s > 0"
    by (simp_all add: cap0_def mapped_def)
  have h: "highs (t_limit ?s) (positions [(600, \<lambda>_. 0), (10, \<lambda>_. 0), (700, \<lambda>_. 0)]) = [600, 700]"
    by (simp add: positions_def to_i32_def)
  show ?thesis using page_read_again [OF s, of "[(600, \<lambda>_. 0), (10, \<lambda>_. 0), (700, \<lambda>_. 0)]"] unfolding h by simp
qed

section \<open>What the second program writes\<close>

text \<open>The lines of a word for the file and, for a word of no kind, for the terminal.\<close>

definition file_lines :: "u32 \<Rightarrow> string list" where
  "file_lines wo =
     (let k = drop_bit 30 wo
      in if k = 0 then [sample_line wo]
         else if k = 1 then [''# t '' @ show_nat (unat (drop_bit 27 wo AND 0x7)) @ '' '' @ show_nat (unat (wo AND 0x7FFFFFF))]
         else if k = 2 then [''# c '' @ show_int (uint (wo AND 0x3FFFFFFF))]
         else [])"

definition terminal_lines :: "u32 \<Rightarrow> string list" where
  "terminal_lines wo =
     (if drop_bit 30 wo \<in> {0, 1, 2} then []
      else [''# E @@@'', ''# E 3 - unknown word from FPGA: '' @ show_nat (unat (drop_bit 27 wo)) @ '' ''
            @ show_hex (unat (drop_bit 27 wo))])"

definition pulse_count :: "u32 \<Rightarrow> int \<Rightarrow> int" where
  "pulse_count wo n = (if drop_bit 30 wo = 2 then uint (wo AND 0x3FFFFFFF) else n)"

lemma t_decode_lines:
  "t_file (t_decode wo s) = t_file s @ file_lines wo"
  "t_cap (t_decode wo s) = (t_cap s)\<lparr>c_lines := c_lines (t_cap s) @ terminal_lines wo\<rparr>"
  "t_cnt (t_decode wo s) = pulse_count wo (t_cnt s)"
  by (simp_all add: t_decode_def file_lines_def terminal_lines_def pulse_count_def t_counter_def t_line_def c_say_def Let_def)

lemma t_steps_lines:
  assumes "c_map (t_cap s) Ram = Some sz" "\<forall>a \<in> set as. a + 4 \<le> sz"
    "ws = map (\<lambda>a. word_of_int (get_le 4 a (c_ram (t_cap s)))) as"
  shows "\<exists>s'. runE t_step s as = Inr s' \<and> t_file s' = t_file s @ concat (map file_lines ws)
    \<and> c_lines (t_cap s') = c_lines (t_cap s) @ concat (map terminal_lines ws)
    \<and> t_cnt s' = fold pulse_count ws (t_cnt s)"
  using assms
proof (induction as arbitrary: s ws)
  case (Cons a as)
  define wo :: u32 where "wo = word_of_int (get_le 4 a (c_ram (t_cap s)))"
  define s1 where "s1 = t_decode wo (s\<lparr>t_read := t_read s @ [a]\<rparr>)"
  have step: "t_step s a = Inr s1" using Cons.prems by (simp add: t_step_def ram_word_def inside_def s1_def wo_def)
  have s1: "t_file s1 = t_file s @ file_lines wo" "c_lines (t_cap s1) = c_lines (t_cap s) @ terminal_lines wo"
    "t_cnt s1 = pulse_count wo (t_cnt s)" "c_map (t_cap s1) = c_map (t_cap s)" "c_ram (t_cap s1) = c_ram (t_cap s)"
    by (simp_all add: s1_def t_decode_lines)
  show ?case
    using Cons.IH [of s1 "tl ws"] Cons.prems s1 step by (auto simp: wo_def)
qed simp

text \<open>
  One picture, word by word: the program writes for each of the 1048576 words of the memory, in their
  order, the line its two upper bits ask for, whatever the words before were; words of the fourth
  kind go to the terminal and leave no trace in the file. The last counter seen is kept, but the
  counted losses are never written.
\<close>

theorem picture_decodes:
  assumes "3 \<le> length argv" "0 \<le> mfd" "c_map (t_cap s) = mapped (\<lambda>_. True) 1024"
    "ws = map (\<lambda>i. word_of_int (get_le 4 (4 * i) (c_ram (t_cap s)))) [0..<1024 * 1024]"
  shows "\<exists>s'. trigger_picture argv True mfd s = Inr (0, s')
    \<and> t_file s' = t_file s @ concat (map file_lines ws)
    \<and> c_lines (t_cap s') = c_lines (t_cap s) @ show_nat (length argv) # concat (map terminal_lines ws)
    \<and> t_cnt s' = fold pulse_count ws (t_cnt s)"
proof -
  define c where "c = c_say (show_nat (length argv)) (t_cap s)"
  have c: "c_map c = mapped (\<lambda>_. True) 1024" "c_ram c = c_ram (t_cap s)" "c_lines c = c_lines (t_cap s) @ [show_nat (length argv)]"
    using assms(3) by (simp_all add: c_def c_say_def)
  obtain c1 where c1: "thresholds (atoi (argv ! 2)) c = Inr c1" "same_but_cfg c c1"
    using c(1) by (simp add: thresholds_def store_ok mapped_def same_but_cfg_def)
  obtain c2 where c2: "recorder_setup c1 = Inr c2" "same_but_cfg c1 c2"
    using setups_keep(1) [of c1] c c1(2) by (auto simp: mapped_def same_but_cfg_def)
  have c2': "c_map c2 Ram = Some (1024 * 4096)" "c_ram c2 = c_ram (t_cap s)" "c_lines c2 = c_lines c"
    using c c1(2) c2(2) by (simp_all add: same_but_cfg_def mapped_def)
  have small: "\<forall>a \<in> set (map (\<lambda>i. 4 * i) [0..<1024 * 1024]). a + 4 \<le> 1024 * (4096 :: nat)"
    by (auto simp del: upt.simps upt_rec_numeral)
  obtain s' where s': "runE t_step (s\<lparr>t_cap := c2\<rparr>) (map (\<lambda>i. 4 * i) [0..<1024 * 1024]) = Inr s'"
    "t_file s' = t_file s @ concat (map file_lines ws)" "c_lines (t_cap s') = c_lines c2 @ concat (map terminal_lines ws)"
    "t_cnt s' = fold pulse_count ws (t_cnt s)"
    using t_steps_lines [of "s\<lparr>t_cap := c2\<rparr>", OF _ small, of ws] c2' assms(4)
    by (auto simp: comp_def simp del: upt.simps upt_rec_numeral)
  have "trigger_picture argv True mfd s = Inr (0, s')"
    using assms(1,2) c1(1) c2(1) s'(1)
    by (simp add: trigger_picture_def with_start_def on_cap_def Let_def del: upt.simps upt_rec_numeral flip: c_def)
  then show ?thesis using s'(2-4) c2'(3) c(3) by simp
qed

theorem picture_decodes_witness:
  "\<exists>s' ws. trigger_picture [''t'', ''f'', ''300''] True 3 \<lparr>t_cap = cap0 (mapped (\<lambda>_. True) 1024) (\<lambda>_. 0) (\<lambda>_. 1) [], t_limit = 0,
      t_position = None, t_file = [], t_dp = 0, t_cdp = 0, t_cnt = 0, t_pnt = 0, t_read = []\<rparr> = Inr (0, s')
    \<and> length ws = 1048576 \<and> t_file s' = concat (map file_lines ws)"
proof -
  let ?s = "\<lparr>t_cap = cap0 (mapped (\<lambda>_. True) 1024) (\<lambda>_. 0) (\<lambda>_. 1) [], t_limit = 0,
      t_position = None, t_file = [], t_dp = 0, t_cdp = 0, t_cnt = 0, t_pnt = 0, t_read = []\<rparr> :: trig"
  define ws :: "u32 list" where "ws = map (\<lambda>i. word_of_int (get_le 4 (4 * i) (c_ram (t_cap ?s)))) [0..<1024 * 1024]"
  have l: "length ws = 1048576" by (simp add: ws_def del: upt.simps upt_rec_numeral)
  have s: "c_map (t_cap ?s) = mapped (\<lambda>_. True) 1024" by (simp add: cap0_def)
  show ?thesis
    using picture_decodes [of "[''t'', ''f'', ''300'']" 3 ?s, OF _ _ s ws_def] l by auto
qed

end
