(* ===== verification/DmaIrq.thy ===== *)
theory DmaIrq
  imports DmaRegs ZynqIO
begin

unbundle bit_operations_syntax

text \<open>
  The program \<^verbatim>\<open>apps/dma/dma_uio_test/DMA_UIO_test.c\<close>: fifty packets received by the DMA engine, each
  announced by an interrupt. The registers are those of \<open>DmaRegs\<close>: what the control and the status register
  will be read as are lists, and the program is blocked when it polls longer than its list. An
  interrupt is given by the first word of the packet in memory.
\<close>

section \<open>Constants and state\<close>

definition PACKET_BYTES :: u32 where "PACKET_BYTES = 1024"
definition DRAM_BUFFER_ADDR :: u32 where "DRAM_BUFFER_ADDR = 0x2f000000"
definition S2MM_DMACR :: nat where "S2MM_DMACR = 0x30"
definition S2MM_DMASR :: nat where "S2MM_DMASR = 0x34"
definition S2MM_DA :: nat where "S2MM_DA = 0x48"
definition S2MM_DMACR_CONFIG_RESET :: u32 where "S2MM_DMACR_CONFIG_RESET = 0x01015004"
definition S2MM_DMACR_CONFIG_STOP :: u32 where "S2MM_DMACR_CONFIG_STOP = 0x01015000"
definition S2MM_DMACR_CONFIG_RUN :: u32 where "S2MM_DMACR_CONFIG_RUN = 0x01015001"

record dma_irq =
  q_eng :: engine
  irq_count :: int
  reenabled :: nat

definition on_eng :: "(engine \<Rightarrow> engine res) \<Rightarrow> dma_irq \<Rightarrow> dma_irq res" where
  "on_eng f q = bindE (f (q_eng q)) (\<lambda>g. Inr (q\<lparr>q_eng := g\<rparr>))"

section \<open>Polling\<close>

function poll_reset :: "engine \<Rightarrow> engine res" where
  "poll_reset s = bindE (dma_get S2MM_DMACR s) (\<lambda>(v, s1). if v AND 4 = 4 then poll_reset s1 else Inr s1)"
  by auto
termination
proof (relation "measure (\<lambda>s. length (g_reads s (drop_bit 2 S2MM_DMACR)))", simp)
  fix s x v s1
  assume "dma_get S2MM_DMACR s = Inr x" "(v, s1) = x"
  then show "(s1, s) \<in> measure (\<lambda>s. length (g_reads s (drop_bit 2 S2MM_DMACR)))"
    by (auto simp: dma_get_def Let_def split: list.splits)
qed

declare poll_reset.simps [simp del]

definition hex_upper :: "u32 \<Rightarrow> string" where
  "hex_upper v = map (\<lambda>c. if 97 \<le> (of_char c :: nat) then char_of (of_char c - 32 :: nat) else c) (show_hex (unat v))"

definition say_register :: "string \<Rightarrow> nat \<Rightarrow> engine \<Rightarrow> engine res" where
  "say_register l off s = bindE (dma_get off s) (\<lambda>(v, s). Inr (g_say (l @ hex_upper v) s))"

text \<open>The two lines printed between two looks at the registers.\<close>

definition say_waiting :: "engine \<Rightarrow> engine res" where
  "say_waiting s = bindE (say_register ''DMA Control: '' S2MM_DMACR s) (say_register ''DMA Status : '' S2MM_DMASR)"

lemma dma_get_less:
  "dma_get off s = Inr (v, s') \<Longrightarrow> length (g_reads s' r) \<le> length (g_reads s r)"
  "dma_get off s = Inr (v, s') \<Longrightarrow> length (g_reads s' (drop_bit 2 off)) < length (g_reads s (drop_bit 2 off))"
  by (auto simp: dma_get_def Let_def split: list.splits)

lemma say_waiting_less: "say_waiting s = Inr s' \<Longrightarrow> length (g_reads s' r) \<le> length (g_reads s r)"
proof -
  assume "say_waiting s = Inr s'"
  then obtain v s1 w s2 where "dma_get S2MM_DMACR s = Inr (v, s1)" "g_reads s' = g_reads s2"
    "dma_get S2MM_DMASR (g_say (''DMA Control: '' @ hex_upper v) s1) = Inr (w, s2)"
    by (auto simp: say_waiting_def say_register_def g_say_def res_simps)
  then show ?thesis
    using dma_get_less(1) [of S2MM_DMACR s v s1 r]
      dma_get_less(1) [of S2MM_DMASR "g_say (''DMA Control: '' @ hex_upper v) s1" w s2 r] by simp
qed

text \<open>Waiting for the engine to run; the status is only looked at when the control register says so.\<close>

function poll_run :: "engine \<Rightarrow> engine res" where
  "poll_run s =
     bindE (dma_get S2MM_DMACR s) (\<lambda>(c, s1).
     if c AND 1 = 0 then bindE (say_waiting s1) poll_run
     else bindE (dma_get S2MM_DMASR s1) (\<lambda>(v, s2).
          if v AND 1 = 1 then bindE (say_waiting s2) poll_run else Inr s2))"
  by auto
termination
proof (relation "measure (\<lambda>s. length (g_reads s (drop_bit 2 S2MM_DMACR)))", simp)
  fix s x c s1 s2
  assume "dma_get S2MM_DMACR s = Inr x" "(c, s1) = x" "say_waiting s1 = Inr s2"
  then show "(s2, s) \<in> measure (\<lambda>s. length (g_reads s (drop_bit 2 S2MM_DMACR)))"
    using dma_get_less(2) [of S2MM_DMACR s c s1] say_waiting_less [of s1 s2 "drop_bit 2 S2MM_DMACR"] by simp
next
  fix s x c s1 y v s2 s3
  assume "dma_get S2MM_DMACR s = Inr x" "(c, s1) = x" "dma_get S2MM_DMASR s1 = Inr y" "(v, s2) = y" "say_waiting s2 = Inr s3"
  then show "(s3, s) \<in> measure (\<lambda>s. length (g_reads s (drop_bit 2 S2MM_DMACR)))"
    using dma_get_less(2) [of S2MM_DMACR s c s1] dma_get_less(1) [of S2MM_DMASR s1 v s2 "drop_bit 2 S2MM_DMACR"]
      say_waiting_less [of s2 s3 "drop_bit 2 S2MM_DMACR"] by simp
qed

declare poll_run.simps [simp del]

section \<open>An interrupt\<close>

text \<open>The errors named in the line; whether there was one is computed and not used.\<close>

definition irq_words :: "u32 \<Rightarrow> string" where
  "irq_words v =
     (if bit v 14 then ''!!Err_IRQ!! '' else '''') @
     (if bit v 10 then ''!!SGDecErr!! '' else '''') @
     (if bit v 9 then ''!!SGSlvErr!! '' else '''') @
     (if bit v 8 then ''!!SGIntErr!! '' else '''') @
     (if bit v 6 then ''!!DMADecErr!! '' else '''') @
     (if bit v 5 then ''!!DMASlvErr!! '' else '''') @
     (if bit v 4 then ''!!DMAIntErr!! '' else '''') @
     (if bit v 1 then ''Idle '' else '''') @
     (if bit v 0 then ''Halted '' else '''')"

definition irq_line :: "int \<Rightarrow> u32 \<Rightarrow> u32 \<Rightarrow> u32 \<Rightarrow> string" where
  "irq_line n st ctl dat =
     ''## INT, '' @ show_int n @ '' >> S2MM_DMASR: '' @ zeros 8 (show_hex (unat st)) @ '', S2MM_DMACR: ''
     @ zeros 8 (show_hex (unat ctl)) @ '', DATA: '' @ zeros 8 (show_hex (unat dat)) @ '' '' @ irq_words st"

definition start_transfer :: "engine \<Rightarrow> engine" where
  "start_transfer s = dma_set S2MM_LENGTH PACKET_BYTES (dma_set S2MM_DA DRAM_BUFFER_ADDR s)"

definition dma_interrupt :: "u32 \<Rightarrow> dma_irq \<Rightarrow> dma_irq res" where
  "dma_interrupt dat q =
     (let s = g_say ''##INTERUPT RECIEVED##'' (g_say ''##WAITING ON INTERRUPT##'' (q_eng q));
          n = to_i32 (irq_count q + 1)
      in bindE (dma_get S2MM_DMACR s) (\<lambda>(control, s).
         bindE (dma_get S2MM_DMASR s) (\<lambda>(st, s).
         let s = dma_set S2MM_DMASR (st OR 0x1000) (g_say (irq_line n st control dat) s);
             s = g_say ''##INTERUPT CLEARED##'' (start_transfer s)
         in Inr (q\<lparr>q_eng := s, irq_count := n, reenabled := reenabled q + 1\<rparr>))))"

fun irq_loop :: "u32 list \<Rightarrow> dma_irq \<Rightarrow> dma_irq res" where
  "irq_loop [] q = (if irq_count q < 50 then Inl Blocked else Inr q)"
| "irq_loop (d # ds) q = (if irq_count q < 50 then bindE (dma_interrupt d q) (irq_loop ds) else Inr q)"

section \<open>The program\<close>

text \<open>What the system answers: opening, size and mapping of the device, opening and mapping of the memory.\<close>

definition dma_init_run :: "engine \<Rightarrow> engine res" where
  "dma_init_run s =
     (let s = g_say ''Reset DMA ...'' (g_say ''<><><><>INIT DMA<><><><>'' s);
          s = g_say ''Wait for DMA Reset ...'' (dma_set S2MM_DMACR S2MM_DMACR_CONFIG_RESET s)
      in bindE (poll_reset s) (\<lambda>s.
         bindE (say_register ''DMA Status: '' S2MM_DMASR s) (\<lambda>s.
         bindE (say_register ''DMA Status: '' S2MM_DMASR (dma_set S2MM_DMASR 0xFFFFFFFF s)) (\<lambda>s.
         bindE (poll_run (dma_set S2MM_DMACR S2MM_DMACR_CONFIG_RUN (g_say ''Run DMA ...'' s))) (\<lambda>s.
         let s = dma_set S2MM_DA DRAM_BUFFER_ADDR (g_say ''Set Destination Address ...'' s)
         in Inr (dma_set S2MM_LENGTH PACKET_BYTES (g_say ''Set Transfer Length Address ...'' s)))))))"

definition dma_finish :: "engine \<Rightarrow> engine res" where
  "dma_finish s =
     (let s = dma_set S2MM_DMACR S2MM_DMACR_CONFIG_STOP (g_say ''Stop DMA ...'' s);
          s = dma_set S2MM_DMACR S2MM_DMACR_CONFIG_RESET (g_say ''Reset DMA ...'' s)
      in bindE (poll_reset (g_say ''Wait for DMA Reset ...'' s)) (\<lambda>s.
         Inr (g_say ''!!!FINISH !!!!'' (g_say ''Clean up ...'' s))))"

text \<open>The result of \<^verbatim>\<open>fscanf\<close> is not looked at: without a number the variable keeps what it held.\<close>

definition uio_size :: "string option \<Rightarrow> u32 \<Rightarrow> u32 res" where
  "uio_size content junk =
     (case content of None \<Rightarrow> Inl (Exit (- 1))
      | Some f \<Rightarrow> (case scan_size f of Inr (Some v) \<Rightarrow> Inr v | _ \<Rightarrow> Inr junk))"

definition dma_uio_main :: "map_env \<Rightarrow> int \<Rightarrow> bool \<Rightarrow> u32 list \<Rightarrow> dma_irq \<Rightarrow> (int \<times> dma_irq) res" where
  "dma_uio_main e fd_mem data_ok ds q =
     (let say = (\<lambda>l q. q\<lparr>q_eng := g_say l (q_eng q)\<rparr>); q = say ''Open /dev/uio0 ...'' q
      in if me_open e < 1 then Inr (- 1, say ''Unable to open UIO device file'' q)
      else bindE (uio_size (me_size e) (me_junk e)) (\<lambda>sz.
      let q = say (''Get memory size returned = 0x'' @ hex_upper sz) q
      in if \<not> me_mmap e then Inr (- 1, say ''!!!MMAP DMA  FAILED!!!'' q)
      else let q = say ''Open /dev/mem ...'' q
      in if fd_mem < 1 then Inr (- 1, say ''Unable to open /dev/mem for mapping DMA memory'' q)
      else if \<not> data_ok then Inr (- 1, say ''!!!MMAP DMA Data  FAILED!!!'' q)
      else bindE (on_eng dma_init_run q) (\<lambda>q.
           bindE (irq_loop ds q) (\<lambda>q.
           bindE (on_eng dma_finish q) (\<lambda>q. Inr (0, q))))))"

section \<open>What it waits for\<close>

lemma dmacr: "drop_bit 2 S2MM_DMACR = 12" "drop_bit 2 S2MM_DMASR = 13" "drop_bit 2 S2MM_DA = 18" "drop_bit 2 S2MM_LENGTH = 22"
  by (simp_all add: S2MM_DMACR_def S2MM_DMASR_def S2MM_DA_def S2MM_LENGTH_def drop_bit_eq_div)

lemma get_cons: "g_reads s (drop_bit 2 off) = v # vs \<Longrightarrow> dma_get off s = Inr (v, s\<lparr>g_reads := (g_reads s)(drop_bit 2 off := vs)\<rparr>)"
  by (simp add: dma_get_def)

lemma get_none: "g_reads s (drop_bit 2 off) = [] \<Longrightarrow> dma_get off s = Inl Blocked"
  by (simp add: dma_get_def)

lemma dma_set_sel [simp]: "g_reads (dma_set off v s) = g_reads s" "g_writes (dma_set off v s) = g_writes s @ [(drop_bit 2 off, v)]"
  by (simp_all add: dma_set_def)

text \<open>Waiting for the reset takes the readings up to the first one without bit 2.\<close>

lemma poll_reset_eq:
  "poll_reset s = (case dropWhile (\<lambda>v. v AND 4 = 4) (g_reads s 12) of [] \<Rightarrow> Inl Blocked
     | v # vs \<Rightarrow> Inr (s\<lparr>g_reads := (g_reads s)(12 := vs)\<rparr>))"
proof (induction "g_reads s 12" arbitrary: s)
  case Nil
  then show ?case by (subst poll_reset.simps) (simp add: get_none [unfolded dmacr, of s S2MM_DMACR, unfolded dmacr])
next
  case (Cons v vs)
  have g: "dma_get S2MM_DMACR s = Inr (v, s\<lparr>g_reads := (g_reads s)(12 := vs)\<rparr>)"
    using get_cons [of s S2MM_DMACR v vs] Cons.hyps(2) by (simp add: dmacr)
  have r: "g_reads s 12 = v # vs" using Cons.hyps(2) by simp
  show ?case
    using Cons.hyps(1) [of "s\<lparr>g_reads := (g_reads s)(12 := vs)\<rparr>"] r
    by (subst poll_reset.simps) (cases "v AND 4 = 4"; simp add: g cong: list.case_cong)
qed

lemma poll_run_now:
  assumes "g_reads s 12 = c # cs" "c AND 1 \<noteq> 0" "g_reads s 13 = v # vs" "v AND 1 \<noteq> 1"
  shows "poll_run s = Inr (s\<lparr>g_reads := (g_reads s)(12 := cs, 13 := vs)\<rparr>)"
  using get_cons [of s S2MM_DMACR c cs] get_cons [of "s\<lparr>g_reads := (g_reads s)(12 := cs)\<rparr>" S2MM_DMASR v vs] assms
  by (subst poll_run.simps) (simp add: dmacr)

section \<open>The loop over the interrupts\<close>

definition irq_writes :: "u32 \<Rightarrow> (nat \<times> u32) list" where
  "irq_writes st = [(13, st OR 0x1000), (18, DRAM_BUFFER_ADDR), (22, PACKET_BYTES)]"

lemma dma_interrupt_cons:
  assumes "g_reads (q_eng q) 12 = c # cs" "g_reads (q_eng q) 13 = st # sts"
  shows "\<exists>q'. dma_interrupt d q = Inr q' \<and> irq_count q' = to_i32 (irq_count q + 1) \<and> reenabled q' = reenabled q + 1
    \<and> g_reads (q_eng q') = (g_reads (q_eng q))(12 := cs, 13 := sts) \<and> g_writes (q_eng q') = g_writes (q_eng q) @ irq_writes st"
proof -
  define s where "s = g_say ''##INTERUPT RECIEVED##'' (g_say ''##WAITING ON INTERRUPT##'' (q_eng q))"
  have "g_reads s (drop_bit 2 S2MM_DMACR) = c # cs" using assms by (simp add: s_def dmacr)
  then have g: "dma_get S2MM_DMACR s = Inr (c, s\<lparr>g_reads := (g_reads s)(12 := cs)\<rparr>)"
    using get_cons [of s S2MM_DMACR c cs] by (simp add: dmacr)
  have "g_reads (s\<lparr>g_reads := (g_reads s)(12 := cs)\<rparr>) (drop_bit 2 S2MM_DMASR) = st # sts" using assms by (simp add: s_def dmacr)
  then have h: "dma_get S2MM_DMASR (s\<lparr>g_reads := (g_reads s)(12 := cs)\<rparr>)
      = Inr (st, s\<lparr>g_reads := (g_reads s)(12 := cs, 13 := sts)\<rparr>)"
    using get_cons [of "s\<lparr>g_reads := (g_reads s)(12 := cs)\<rparr>" S2MM_DMASR st sts] by (simp add: dmacr)
  show ?thesis
    using g h by (simp add: dma_interrupt_def start_transfer_def irq_writes_def dmacr Let_def flip: s_def) (simp add: s_def g_say_def)
qed

lemma dma_interrupt_blocks: "g_reads (q_eng q) 12 = [] \<or> g_reads (q_eng q) 13 = [] \<Longrightarrow> dma_interrupt d q = Inl Blocked"
  by (auto simp: dma_interrupt_def dma_get_def dmacr Let_def split: list.splits)

text \<open>The loop ends exactly when there are interrupts and readings enough, whatever they say.\<close>

lemma irq_loop_outcome:
  assumes "irq_count q = 50 - int n" "n \<le> 50"
  shows "if n \<le> length ds \<and> n \<le> length (g_reads (q_eng q) 12) \<and> n \<le> length (g_reads (q_eng q) 13)
    then \<exists>q'. irq_loop ds q = Inr q' \<and> irq_count q' = 50 \<and> reenabled q' = reenabled q + n
      \<and> g_reads (q_eng q') = (g_reads (q_eng q))(12 := drop n (g_reads (q_eng q) 12), 13 := drop n (g_reads (q_eng q) 13))
      \<and> g_writes (q_eng q') = g_writes (q_eng q) @ concat (map irq_writes (take n (g_reads (q_eng q) 13)))
    else irq_loop ds q = Inl Blocked"
  using assms
proof (induction n arbitrary: ds q)
  case 0
  then have "irq_loop ds q = Inr q" by (cases ds) simp_all
  then show ?case using 0 by simp
next
  case (Suc n)
  have less: "irq_count q < 50" using Suc.prems by simp
  show ?case
  proof (cases ds)
    case Nil
    then show ?thesis using less by simp
  next
    case (Cons d ds')
    show ?thesis
    proof (cases "g_reads (q_eng q) 12 = [] \<or> g_reads (q_eng q) 13 = []")
      case True
      then show ?thesis using Cons less dma_interrupt_blocks [OF True] by auto
    next
      case False
      then obtain c cs st sts where r: "g_reads (q_eng q) 12 = c # cs" "g_reads (q_eng q) 13 = st # sts"
        by (metis neq_Nil_conv)
      have n: "to_i32 (irq_count q + 1) = 50 - int n" using Suc.prems by (simp add: to_i32_id in_i32_iff)
      obtain q1 where q1: "dma_interrupt d q = Inr q1" "irq_count q1 = 50 - int n" "reenabled q1 = reenabled q + 1"
        "g_reads (q_eng q1) = (g_reads (q_eng q))(12 := cs, 13 := sts)" "g_writes (q_eng q1) = g_writes (q_eng q) @ irq_writes st"
        using dma_interrupt_cons [OF r, of d] n by auto
      then have "irq_loop ds q = irq_loop ds' q1" using Cons less by simp
      moreover have enough: "(Suc n \<le> length ds \<and> Suc n \<le> length (g_reads (q_eng q) 12) \<and> Suc n \<le> length (g_reads (q_eng q) 13))
          = (n \<le> length ds' \<and> n \<le> length cs \<and> n \<le> length sts)" using r Cons by simp
      moreover have "g_reads (q_eng q1) 12 = cs" "g_reads (q_eng q1) 13 = sts" using q1(4) by simp_all
      ultimately show ?thesis
        using Suc.IH [OF q1(2), of ds'] Suc.prems(2) q1(3-5) r unfolding enough
        by (cases "n \<le> length ds' \<and> n \<le> length cs \<and> n \<le> length sts") (auto simp: fun_eq_iff simp del: irq_loop.simps)
    qed
  qed
qed

section \<open>Start and end\<close>

text \<open>An engine that answers: it leaves reset, runs at once, and leaves reset again at the end.\<close>

definition answers :: "dma_irq \<Rightarrow> u32 list \<Rightarrow> bool" where
  "answers q sts \<longleftrightarrow> length sts = 50
     \<and> (\<exists>rs r c ctls fs f cs. g_reads (q_eng q) 12 = rs @ r # c # ctls @ fs @ f # cs \<and> length ctls = 50
        \<and> (\<forall>x \<in> set (rs @ fs). x AND 4 = 4) \<and> r AND 4 \<noteq> 4 \<and> f AND 4 \<noteq> 4 \<and> c AND 1 \<noteq> 0)
     \<and> (\<exists>s1 s2 v vs. g_reads (q_eng q) 13 = s1 # s2 # v # sts @ vs \<and> v AND 1 \<noteq> 1)"

definition setup_writes :: "(nat \<times> u32) list" where
  "setup_writes = [(12, S2MM_DMACR_CONFIG_RESET), (13, 0xFFFFFFFF), (12, S2MM_DMACR_CONFIG_RUN), (18, DRAM_BUFFER_ADDR), (22, PACKET_BYTES)]"

definition finish_writes :: "(nat \<times> u32) list" where
  "finish_writes = [(12, S2MM_DMACR_CONFIG_STOP), (12, S2MM_DMACR_CONFIG_RESET)]"

lemma say_register_cons:
  "g_reads s (drop_bit 2 off) = v # vs \<Longrightarrow>
    say_register l off s = Inr (g_say (l @ hex_upper v) (s\<lparr>g_reads := (g_reads s)(drop_bit 2 off := vs)\<rparr>))"
  by (simp add: say_register_def get_cons)

lemma dropWhile_found: "\<forall>x \<in> set rs. P x \<Longrightarrow> \<not> P r \<Longrightarrow> dropWhile P (rs @ r # xs) = r # xs"
  by (induction rs) auto

lemma init_run_ok:
  assumes "g_reads s 12 = rs @ r # c # cs" "\<forall>x \<in> set rs. x AND 4 = 4" "r AND 4 \<noteq> 4" "c AND 1 \<noteq> 0"
    "g_reads s 13 = s1 # s2 # v # vs" "v AND 1 \<noteq> 1"
  shows "\<exists>s'. dma_init_run s = Inr s' \<and> g_reads s' = (g_reads s)(12 := cs, 13 := vs) \<and> g_writes s' = g_writes s @ setup_writes"
proof -
  define t0 where "t0 = g_say ''Wait for DMA Reset ...'' (dma_set S2MM_DMACR S2MM_DMACR_CONFIG_RESET
    (g_say ''Reset DMA ...'' (g_say ''<><><><>INIT DMA<><><><>'' s)))"
  have t0: "g_reads t0 = g_reads s" "g_writes t0 = g_writes s @ [(12, S2MM_DMACR_CONFIG_RESET)]"
    by (simp_all add: t0_def dmacr)
  define t1 where "t1 = t0\<lparr>g_reads := (g_reads t0)(12 := c # cs)\<rparr>"
  have p1: "poll_reset t0 = Inr t1"
    using assms(1-3) t0(1) by (simp add: poll_reset_eq dropWhile_found t1_def)
  define t2 where "t2 = g_say (''DMA Status: '' @ hex_upper s1) (t1\<lparr>g_reads := (g_reads t1)(13 := s2 # v # vs)\<rparr>)"
  have p2: "say_register ''DMA Status: '' S2MM_DMASR t1 = Inr t2"
    using say_register_cons [of t1 S2MM_DMASR s1] assms(5) t0(1) by (simp add: t1_def t2_def dmacr)
  define t3 where "t3 = dma_set S2MM_DMASR 0xFFFFFFFF t2"
  define t4 where "t4 = g_say (''DMA Status: '' @ hex_upper s2) (t3\<lparr>g_reads := (g_reads t3)(13 := v # vs)\<rparr>)"
  have p3: "say_register ''DMA Status: '' S2MM_DMASR t3 = Inr t4"
    using say_register_cons [of t3 S2MM_DMASR s2] by (simp add: t2_def t3_def t4_def dmacr)
  define t5 where "t5 = dma_set S2MM_DMACR S2MM_DMACR_CONFIG_RUN (g_say ''Run DMA ...'' t4)"
  have t5: "g_reads t5 = (g_reads s)(12 := c # cs, 13 := v # vs)"
    "g_writes t5 = g_writes s @ [(12, S2MM_DMACR_CONFIG_RESET), (13, 0xFFFFFFFF), (12, S2MM_DMACR_CONFIG_RUN)]"
    using t0 by (simp_all add: t5_def t4_def t3_def t2_def t1_def dmacr)
  have "poll_run t5 = Inr (t5\<lparr>g_reads := (g_reads t5)(12 := cs, 13 := vs)\<rparr>)"
    using t5(1) assms(4,6) by (intro poll_run_now) simp_all
  then show ?thesis
    using p1 p2 p3 t5
    by (simp add: dma_init_run_def Let_def setup_writes_def dmacr flip: t0_def t3_def t5_def)
qed

lemma finish_ok:
  assumes "g_reads s 12 = fs @ f # cs" "\<forall>x \<in> set fs. x AND 4 = 4" "f AND 4 \<noteq> 4"
  shows "\<exists>s'. dma_finish s = Inr s' \<and> g_writes s' = g_writes s @ finish_writes"
  using assms by (simp add: dma_finish_def poll_reset_eq dropWhile_found dmacr finish_writes_def Let_def)

text \<open>The faults of the parts before the loop.\<close>

lemma blocked_get: "dma_get off s = Inl f \<Longrightarrow> f = Blocked"
  by (auto simp: dma_get_def Let_def split: list.splits)

lemma blocked_waiting: "say_waiting s = Inl f \<Longrightarrow> f = Blocked"
  by (auto simp: say_waiting_def say_register_def res_simps dest: blocked_get)

lemma blocked_poll_run: "poll_run s = Inl f \<Longrightarrow> f = Blocked"
proof (induction "length (g_reads s 12)" arbitrary: s rule: less_induct)
  case less
  have wait: "f = Blocked" if "bindE (say_waiting t) poll_run = Inl f" "length (g_reads t 12) < length (g_reads s 12)" for t
    using that less.hyps by (auto simp: res_simps dest: blocked_waiting) (meson le_less_trans say_waiting_less)
  show ?case
  proof (cases "dma_get S2MM_DMACR s")
    case (Inl g)
    then show ?thesis using less.prems blocked_get [OF Inl] by (subst (asm) poll_run.simps) simp
  next
    case (Inr x)
    obtain c t where x: "x = (c, t)" by (cases x)
    then have l: "length (g_reads t 12) < length (g_reads s 12)" using dma_get_less(2) [of S2MM_DMACR s c t] Inr by (simp add: dmacr)
    show ?thesis
    proof (cases "dma_get S2MM_DMASR t")
      case (Inl g)
      then show ?thesis
        using less.prems Inr x blocked_get [OF Inl] wait [OF _ l] by (subst (asm) poll_run.simps) (simp split: if_splits)
    next
      case (Inr y)
      obtain v u where y: "y = (v, u)" by (cases y)
      then have "length (g_reads u 12) < length (g_reads s 12)"
        using dma_get_less(1) [of S2MM_DMASR t v u 12] Inr l by simp
      then show ?thesis
        using less.prems \<open>dma_get S2MM_DMACR s = Inr x\<close> x Inr y wait [OF _ l] wait [of u]
        by (subst (asm) poll_run.simps) (simp split: if_splits)
    qed
  qed
qed

lemma blocked_init: "dma_init_run s = Inl f \<Longrightarrow> f = Blocked"
  by (auto simp: dma_init_run_def say_register_def poll_reset_eq res_simps Let_def split: list.splits
      dest: blocked_get blocked_poll_run)

text \<open>
  C40. Fifty packets, good or bad. When the devices open and the engine answers, the program takes exactly fifty
  interrupts and ends; at each it acknowledges the status it has read and starts the next transfer,
  whatever errors the status shows, a halted engine among them: the writes to the registers
  are those and no others. With fewer than fifty interrupts it waits for ever.
\<close>

theorem fifty_packets:
  assumes "1 \<le> me_open e" "uio_size (me_size e) (me_junk e) = Inr sz" "me_mmap e" "1 \<le> fd_mem" "irq_count q = 0"
  shows "(answers q sts \<and> 50 \<le> length ds \<longrightarrow>
      (\<exists>q'. dma_uio_main e fd_mem True ds q = Inr (0, q') \<and> irq_count q' = 50 \<and> reenabled q' = reenabled q + 50
        \<and> g_writes (q_eng q') = g_writes (q_eng q) @ setup_writes @ concat (map irq_writes sts) @ finish_writes))
    \<and> (length ds < 50 \<longrightarrow> dma_uio_main e fd_mem True ds q = Inl Blocked)"
proof -
  define q0 where "q0 = q\<lparr>q_eng := g_say ''Open /dev/mem ...'' (g_say (''Get memory size returned = 0x'' @ hex_upper sz)
    (g_say ''Open /dev/uio0 ...'' (q_eng q)))\<rparr>"
  have main: "dma_uio_main e fd_mem True ds q = bindE (on_eng dma_init_run q0) (\<lambda>q. bindE (irq_loop ds q) (\<lambda>q.
      bindE (on_eng dma_finish q) (\<lambda>q. Inr (0, q))))"
    using assms by (simp add: dma_uio_main_def q0_def Let_def)
  have q0: "g_reads (q_eng q0) = g_reads (q_eng q)" "g_writes (q_eng q0) = g_writes (q_eng q)" "irq_count q0 = 0" "reenabled q0 = reenabled q"
    using assms(5) by (simp_all add: q0_def)
  have short: "irq_loop ds q1 = Inl Blocked" if "irq_count q1 = 0" "length ds < 50" for q1
    using irq_loop_outcome [of q1 50 ds] that by simp
  have "\<exists>q'. dma_uio_main e fd_mem True ds q = Inr (0, q') \<and> irq_count q' = 50 \<and> reenabled q' = reenabled q + 50
        \<and> g_writes (q_eng q') = g_writes (q_eng q) @ setup_writes @ concat (map irq_writes sts) @ finish_writes"
    if many: "answers q sts" "50 \<le> length ds"
  proof -
    obtain rs r c ctls fs f cs s1 s2 v vs where a: "g_reads (q_eng q) 12 = rs @ r # c # ctls @ fs @ f # cs" "length ctls = 50"
      "\<forall>x \<in> set (rs @ fs). x AND 4 = 4" "r AND 4 \<noteq> 4" "f AND 4 \<noteq> 4" "c AND 1 \<noteq> 0"
      "g_reads (q_eng q) 13 = s1 # s2 # v # sts @ vs" "v AND 1 \<noteq> 1" "length sts = 50"
      using many(1) by (auto simp: answers_def)
    obtain t where t: "dma_init_run (q_eng q0) = Inr t" "g_reads t = (g_reads (q_eng q))(12 := ctls @ fs @ f # cs, 13 := sts @ vs)"
      "g_writes t = g_writes (q_eng q) @ setup_writes"
      using init_run_ok [of "q_eng q0" rs r c "ctls @ fs @ f # cs" s1 s2 v "sts @ vs"] a q0 by auto
    define q1 where "q1 = q0\<lparr>q_eng := t\<rparr>"
    have q1: "irq_count q1 = 0" "reenabled q1 = reenabled q" "q_eng q1 = t" using q0 by (simp_all add: q1_def)
    obtain q2 where q2: "irq_loop ds q1 = Inr q2" "irq_count q2 = 50" "reenabled q2 = reenabled q + 50"
      "g_reads (q_eng q2) 12 = fs @ f # cs" "g_writes (q_eng q2) = g_writes (q_eng q) @ setup_writes @ concat (map irq_writes sts)"
      using irq_loop_outcome [of q1 50 ds] q1 t many(2) a(2,9) by auto
    obtain u where u: "dma_finish (q_eng q2) = Inr u" "g_writes u = g_writes (q_eng q2) @ finish_writes"
      using finish_ok [OF q2(4)] a(3,5) by auto
    show ?thesis
      using t(1) q2 u by (simp add: main on_eng_def flip: q1_def)
  qed
  moreover have "dma_uio_main e fd_mem True ds q = Inl Blocked" if "length ds < 50"
  proof (cases "dma_init_run (q_eng q0)")
    case (Inl f)
    then show ?thesis using blocked_init [OF Inl] by (simp add: main on_eng_def)
  next
    case (Inr t)
    have "irq_loop ds (q0\<lparr>q_eng := t\<rparr>) = Inl Blocked" using short [of "q0\<lparr>q_eng := t\<rparr>"] q0(3) that by simp
    then show ?thesis using Inr by (simp add: main on_eng_def)
  qed
  ultimately show ?thesis by blast
qed

definition env_ok :: map_env where
  "env_ok = \<lparr>me_open = 3, me_size = Some ''0x00010000'', me_junk = 0, me_mmap = True\<rparr>"

definition halted_engine :: dma_irq where
  \<comment> \<open>the engine is halted with an error all the time after its start\<close>
  "halted_engine = \<lparr>q_eng = \<lparr>g_reads = (\<lambda>_. [])(12 := [4, 0, 1] @ replicate 50 1 @ [0], 13 := [0, 0, 0] @ replicate 50 0x4011),
     g_writes = [], g_lines = []\<rparr>, irq_count = 0, reenabled = 0\<rparr>"

theorem fifty_packets_witness:
  "\<exists>q'. dma_uio_main env_ok 4 True (replicate 50 0) halted_engine = Inr (0, q')
    \<and> g_writes (q_eng q') = setup_writes @ concat (map irq_writes (replicate 50 0x4011)) @ finish_writes"
proof -
  have m: "uio_size (me_size env_ok) (me_junk env_ok) = Inr 0x10000" unfolding env_ok_def by code_simp
  have e: "1 \<le> me_open env_ok" "me_mmap env_ok" "irq_count halted_engine = 0" "g_writes (q_eng halted_engine) = []"
    by (simp_all add: env_ok_def halted_engine_def)
  have r: "g_reads (q_eng halted_engine) 12 = [4] @ 0 # 1 # replicate 50 1 @ [] @ 0 # []"
    "g_reads (q_eng halted_engine) 13 = 0 # 0 # 0 # replicate 50 0x4011 @ []"
    by (simp_all add: halted_engine_def)
  have a: "answers halted_engine (replicate 50 0x4011)"
    unfolding answers_def r
    by (intro conjI exI [of _ "[4]"] exI [of _ "0 :: u32"] exI [of _ "1 :: u32"] exI [of _ "replicate 50 1"] exI [of _ "[]"])
       (rule length_replicate refl | simp)+
  have l: "50 \<le> length (replicate 50 (0 :: u32))" by (simp only: length_replicate)
  have "\<exists>q'. dma_uio_main env_ok 4 True (replicate 50 0) halted_engine = Inr (0, q') \<and> irq_count q' = 50
      \<and> reenabled q' = reenabled halted_engine + 50
      \<and> g_writes (q_eng q') = g_writes (q_eng halted_engine) @ setup_writes @ concat (map irq_writes (replicate 50 0x4011)) @ finish_writes"
    using fifty_packets [OF e(1) m e(2) _ e(3), of 4 "replicate 50 0x4011" "replicate 50 0"] a l by (simp only: simp_thms one_le_numeral)
  then show ?thesis unfolding e(4) append_Nil by blast
qed

end
