(* ===== verification/RegTests.thy ===== *)
theory RegTests
  imports Capture Daq DmaIrq
begin

unbundle bit_operations_syntax

text \<open>
  Small programs that set registers and print what they find: the histogram and counter tests
  \<^verbatim>\<open>histogram_test/uio_hist_test.c\<close> and \<^verbatim>\<open>bram_counter_test/uio_bram_counter.c\<close> and the converter test
  \<^verbatim>\<open>xadc_test/xadc_uio.c\<close> over the devices of \<open>ZynqIO\<close>; the timer test \<^verbatim>\<open>int_test3/int_test3.c\<close>,
  \<^verbatim>\<open>ramp_test/ramp_test.c\<close> and \<^verbatim>\<open>pwm_test/pwm_test.c\<close> over the mapped bytes of \<open>Capture\<close>.
\<close>

section \<open>Histogram and counter\<close>

definition CFG_CNTR_COUNT_OFFSET :: nat where "CFG_CNTR_COUNT_OFFSET = 0x4"
definition HIST_NSAMPLES_OFFSET :: nat where "HIST_NSAMPLES_OFFSET = 0x8"

definition hist_init_system :: "io \<Rightarrow> (int \<times> io) res" where
  "hist_init_system s =
     bindE (reset_gral (\<lambda>r. r AND NOT 1) s) (\<lambda>s.
     bindE (reset_gral (\<lambda>r. r AND NOT 2) s) (\<lambda>s.
     bindE (reset_gral (\<lambda>r. r AND NOT 3) s) (\<lambda>s.
     bindE (reset_gral (\<lambda>r. r AND NOT 4) s) (\<lambda>s.
     bindE (dev_write CFG CFG_CNTR_COUNT_OFFSET 16384 s) (\<lambda>s.
     bindE (dev_write CFG HIST_NSAMPLES_OFFSET 16384 s) (\<lambda>s.
     bindE (reset_gral (\<lambda>r. r OR 4) s) (\<lambda>s.
     bindE (reset_gral (\<lambda>r. r OR 3) s) (\<lambda>s.
     bindE (reset_gral (\<lambda>r. r OR 2) s) (\<lambda>s.
     bindE (reset_gral (\<lambda>r. r OR 1) s) (\<lambda>s.
     Inr (0, s)))))))))))"

definition bram_init_system :: "io \<Rightarrow> (int \<times> io) res" where
  "bram_init_system s =
     bindE (reset_gral (\<lambda>r. r AND NOT 1) s) (\<lambda>s.
     bindE (reset_gral (\<lambda>r. r AND NOT 3) s) (\<lambda>s.
     bindE (reset_gral (\<lambda>r. r AND NOT 4) s) (\<lambda>s.
     bindE (dev_write CFG CFG_CNTR_COUNT_OFFSET 1024 s) (\<lambda>s.
     bindE (dev_write CFG HIST_NSAMPLES_OFFSET 1024 s) (\<lambda>s.
     bindE (reset_gral (\<lambda>r. r OR 4) s) (\<lambda>s.
     bindE (reset_gral (\<lambda>r. r OR 3) s) (\<lambda>s.
     bindE (reset_gral (\<lambda>r. r OR 1) s) (\<lambda>s.
     Inr (0, s)))))))))"

definition hist_line :: "u32 \<Rightarrow> string" where
  "hist_line wo = pad 5 (show_int (half 0 wo)) @ '' '' @ pad 5 (show_int (half 1 wo))"

definition counter_line :: "u32 \<Rightarrow> string" where
  "counter_line wo = pad 5 (show_int (sint wo))"

text \<open>A word of the memory, printed; the loop counts bytes, so that 16384 of them are 4096 words.\<close>

definition print_word :: "(u32 \<Rightarrow> string) \<Rightarrow> io \<Rightarrow> nat \<Rightarrow> io res" where
  "print_word l s i = bindE (dev_read MEM i s) (\<lambda>wo. Inr (put_line (l wo) s))"

definition print_memory :: "(u32 \<Rightarrow> string) \<Rightarrow> io \<Rightarrow> io res" where
  "print_memory l s = runE (print_word l) s (map (\<lambda>k. 4 * k) [0..<4096])"

text \<open>Mapping the memory and the registers; that it worked is not looked at.\<close>

definition both_devices :: "int \<Rightarrow> bool \<Rightarrow> map_env \<Rightarrow> io \<Rightarrow> io res" where
  "both_devices mfd ok e s = bindE (mem_init mfd 4096 ok s) (\<lambda>(_, s). bindE (cfg_init e s) (\<lambda>(_, s). Inr s))"

definition hist_test :: "int \<Rightarrow> bool \<Rightarrow> map_env \<Rightarrow> io \<Rightarrow> (int \<times> io) res" where
  "hist_test mfd ok e s =
     bindE (both_devices mfd ok e s) (\<lambda>s.
     bindE (hist_init_system s) (\<lambda>(_, s).
     bindE (print_memory hist_line s) (\<lambda>s. Inr (0, s))))"

definition bram_counter :: "int \<Rightarrow> bool \<Rightarrow> map_env \<Rightarrow> io \<Rightarrow> (int \<times> io) res" where
  "bram_counter mfd ok e s =
     bindE (both_devices mfd ok e s) (\<lambda>s.
     bindE (bram_init_system s) (\<lambda>(_, s).
     bindE (print_memory counter_line s) (\<lambda>s. Inr (0, s))))"

text \<open>Two devices that a process has mapped.\<close>

definition two_mapped :: "io \<Rightarrow> bool" where
  "two_mapped s \<longleftrightarrow> (\<exists>n. io_map s CFG = Some n \<and> 4096 \<le> n) \<and> io_map s MEM = Some (2048 * 4096)"

lemma both_devices_ok:
  assumes "1 \<le> mfd" "1 \<le> me_open e" "me_size e = Some f" "scan_size f = Inr (Some sz)" "sz \<noteq> 0" "me_mmap e"
  shows "\<exists>s'. both_devices mfd True e s = Inr s' \<and> two_mapped s' \<and> io_reg s' = io_reg s \<and> io_out s' = io_out s \<and> io_log s' = io_log s"
proof -
  have "0 < unat sz" using assms(5) by (simp add: unat_gt_0)
  then have "4096 \<le> page_up (unat sz)" by (simp add: page_up_def div_le_mono Suc_leI)
  moreover have "page_up 8388608 = 2048 * 4096" by (simp add: page_up_def)
  ultimately show ?thesis
    using assms by (simp add: both_devices_def mem_init_def cfg_init_def uio_init_def get_memory_size_def mmap_dev_def
        cmul_def ck32_def in_i32_iff two_mapped_def Let_def)
qed

lemma cfg_ok:
  assumes "two_mapped s" "off mod 4 = 0" "off + 4 \<le> 4096"
  shows "dev_read CFG off s = Inr (peek CFG s off)" "dev_write CFG off v s = Inr (poke CFG s off v)"
  using assms by (auto simp: two_mapped_def dev_read_def dev_write_def accessible_def)

lemma two_mapped_poke [simp]: "two_mapped (poke b s off v) = two_mapped s"
  by (simp add: two_mapped_def)

lemma reset_two: "two_mapped s \<Longrightarrow> reset_gral f s = Inr (poke CFG s 0 (f (peek CFG s 0)))"
  by (simp add: reset_gral_def cfg_ok CFG_RESET_GRAL_OFFSET_def)

lemma print_memory_ok:
  assumes "two_mapped s"
  shows "\<exists>s'. print_memory l s = Inr s' \<and> io_out s' = io_out s @ map (\<lambda>k. l (peek MEM s (4 * k))) [0..<4096]
    \<and> io_reg s' = io_reg s \<and> io_log s' = io_log s"
proof -
  have "\<exists>s'. runE (print_word l) s (map (\<lambda>k. 4 * k) ks) = Inr s' \<and> io_out s' = io_out s @ map (\<lambda>k. l (peek MEM s (4 * k))) ks
      \<and> io_reg s' = io_reg s \<and> io_log s' = io_log s" if "\<forall>k \<in> set ks. k < 4096" "two_mapped s" for ks s
    using that
  proof (induction ks arbitrary: s)
    case (Cons k ks)
    then have "print_word l s (4 * k) = Inr (put_line (l (peek MEM s (4 * k))) s)"
      by (simp add: print_word_def dev_read_def accessible_def two_mapped_def)
    moreover have "two_mapped (put_line (l (peek MEM s (4 * k))) s)" using Cons.prems(2) by (simp add: two_mapped_def)
    ultimately show ?case using Cons.IH [of "put_line (l (peek MEM s (4 * k))) s"] Cons.prems(1) by simp
  qed simp
  then show ?thesis using assms by (simp add: print_memory_def del: upt.simps upt_rec_numeral)
qed

text \<open>The values the control register goes through.\<close>

definition control_log :: "u32 list \<Rightarrow> (bank \<times> nat \<times> u32) list" where
  "control_log vs = map (\<lambda>v. (CFG, 0, v)) vs"

lemma clear_then_set: "(w AND NOT a) OR a = w OR a" for w a :: u32
  by (auto simp: bit_eq_iff bit_simps)

lemma low_three: "(w AND - 8) OR 7 = w OR 7" for w :: u32
  using clear_then_set [of w 7] by simp

lemma hist_init_ok:
  assumes "two_mapped s" "r = peek CFG s 0"
  shows "\<exists>s'. hist_init_system s = Inr (0, s') \<and> two_mapped s' \<and> io_out s' = io_out s \<and> peek MEM s' = peek MEM s
    \<and> peek CFG s' = (peek CFG s)(0 := r OR 7, 4 := 16384, 8 := 16384)
    \<and> io_log s' = io_log s @ control_log [r AND NOT 1, r AND NOT 3, r AND NOT 3, r AND NOT 7]
        @ [(CFG, 4, 16384), (CFG, 8, 16384)] @ control_log [r AND NOT 7 OR 4, r OR 7, r OR 7, r OR 7]"
  using assms by (simp add: hist_init_system_def reset_two cfg_ok CFG_CNTR_COUNT_OFFSET_def HIST_NSAMPLES_OFFSET_def and.assoc or.assoc low_three
      control_log_def peek_poke_fun peek_poke_bank fun_upd_twist)

lemma bram_init_ok:
  assumes "two_mapped s" "r = peek CFG s 0"
  shows "\<exists>s'. bram_init_system s = Inr (0, s') \<and> two_mapped s' \<and> io_out s' = io_out s \<and> peek MEM s' = peek MEM s
    \<and> peek CFG s' = (peek CFG s)(0 := r OR 7, 4 := 1024, 8 := 1024)
    \<and> io_log s' = io_log s @ control_log [r AND NOT 1, r AND NOT 3, r AND NOT 7]
        @ [(CFG, 4, 1024), (CFG, 8, 1024)] @ control_log [r AND NOT 7 OR 4, r OR 7, r OR 7]"
  using assms by (simp add: bram_init_system_def reset_two cfg_ok CFG_CNTR_COUNT_OFFSET_def HIST_NSAMPLES_OFFSET_def and.assoc or.assoc low_three
      control_log_def peek_poke_fun peek_poke_bank fun_upd_twist)

text \<open>
  The histogram test and the counter test: when the devices map, they print 4096 words of the memory,
  whatever number of samples they asked for (16384 and 1024), set the two counts and leave the
  three modules running. The mask 3 for the reader of the memory is that of the other two modules together:
  clearing it repeats what was done, and setting it starts the counter and the histogram at once,
  before their own steps, which change nothing; in the counter test it starts the histogram, too, whose
  own step is commented out.
\<close>

theorem hist_test_outcome:
  assumes "1 \<le> mfd" "1 \<le> me_open e" "me_size e = Some f" "scan_size f = Inr (Some sz)" "sz \<noteq> 0" "me_mmap e"
    "r = peek CFG s 0"
  shows "(\<exists>s'. hist_test mfd True e s = Inr (0, s')
      \<and> io_out s' = io_out s @ map (\<lambda>k. hist_line (peek MEM s (4 * k))) [0..<4096]
      \<and> peek CFG s' = (peek CFG s)(0 := r OR 7, 4 := 16384, 8 := 16384)
      \<and> io_log s' = io_log s @ control_log [r AND NOT 1, r AND NOT 3, r AND NOT 3, r AND NOT 7]
          @ [(CFG, 4, 16384), (CFG, 8, 16384)] @ control_log [r AND NOT 7 OR 4, r OR 7, r OR 7, r OR 7])
    \<and> (\<exists>s'. bram_counter mfd True e s = Inr (0, s')
      \<and> io_out s' = io_out s @ map (\<lambda>k. counter_line (peek MEM s (4 * k))) [0..<4096]
      \<and> peek CFG s' = (peek CFG s)(0 := r OR 7, 4 := 1024, 8 := 1024)
      \<and> io_log s' = io_log s @ control_log [r AND NOT 1, r AND NOT 3, r AND NOT 7]
          @ [(CFG, 4, 1024), (CFG, 8, 1024)] @ control_log [r AND NOT 7 OR 4, r OR 7, r OR 7])"
proof -
  obtain s1 where s1: "both_devices mfd True e s = Inr s1" "two_mapped s1" "io_reg s1 = io_reg s" "io_out s1 = io_out s"
    "io_log s1 = io_log s" using both_devices_ok [OF assms(1-6)] by blast
  have p: "peek b s1 = peek b s" for b using s1(3) by (simp add: fun_eq_iff peek_def)
  obtain s2 where s2: "hist_init_system s1 = Inr (0, s2)" "two_mapped s2" "io_out s2 = io_out s1" "peek MEM s2 = peek MEM s"
    "peek CFG s2 = (peek CFG s)(0 := r OR 7, 4 := 16384, 8 := 16384)"
    "io_log s2 = io_log s1 @ control_log [r AND NOT 1, r AND NOT 3, r AND NOT 3, r AND NOT 7]
        @ [(CFG, 4, 16384), (CFG, 8, 16384)] @ control_log [r AND NOT 7 OR 4, r OR 7, r OR 7, r OR 7]"
    using hist_init_ok [OF s1(2), of r] assms(7) unfolding p by blast
  obtain s3 where s3: "print_memory hist_line s2 = Inr s3"
    "io_out s3 = io_out s2 @ map (\<lambda>k. hist_line (peek MEM s2 (4 * k))) [0..<4096]" "io_reg s3 = io_reg s2" "io_log s3 = io_log s2"
    using print_memory_ok [OF s2(2)] by blast
  obtain t2 where t2: "bram_init_system s1 = Inr (0, t2)" "two_mapped t2" "io_out t2 = io_out s1" "peek MEM t2 = peek MEM s"
    "peek CFG t2 = (peek CFG s)(0 := r OR 7, 4 := 1024, 8 := 1024)"
    "io_log t2 = io_log s1 @ control_log [r AND NOT 1, r AND NOT 3, r AND NOT 7]
        @ [(CFG, 4, 1024), (CFG, 8, 1024)] @ control_log [r AND NOT 7 OR 4, r OR 7, r OR 7]"
    using bram_init_ok [OF s1(2), of r] assms(7) unfolding p by blast
  obtain t3 where t3: "print_memory counter_line t2 = Inr t3"
    "io_out t3 = io_out t2 @ map (\<lambda>k. counter_line (peek MEM t2 (4 * k))) [0..<4096]" "io_reg t3 = io_reg t2" "io_log t3 = io_log t2"
    using print_memory_ok [OF t2(2)] by blast
  have r: "peek CFG s3 = peek CFG s2" "peek CFG t3 = peek CFG t2" using s3(3) t3(3) by (simp_all add: fun_eq_iff peek_def)
  have "hist_test mfd True e s = Inr (0, s3)" "bram_counter mfd True e s = Inr (0, t3)"
    using s1(1) s2(1) s3(1) t2(1) t3(1) by (simp_all add: hist_test_def bram_counter_def)
  moreover have "io_out s3 = io_out s @ map (\<lambda>k. hist_line (peek MEM s (4 * k))) [0..<4096]"
    "io_out t3 = io_out s @ map (\<lambda>k. counter_line (peek MEM s (4 * k))) [0..<4096]"
    unfolding s3(2) t3(2) s2(3,4) t2(3,4) s1(4) by (rule refl)+
  ultimately show ?thesis
    using s2(5,6) t2(5,6) s1(5) s3(4) t3(4) unfolding r [symmetric] by metis
qed

theorem hist_test_outcome_witness:
  "\<exists>s' t'. hist_test 3 True env_ok \<lparr>io_fd = \<lambda>_. 0, io_map = \<lambda>_. None, io_reg = \<lambda>_ _. 0, io_log = [], dev_size = 0, io_out = []\<rparr>
      = Inr (0, s') \<and> peek CFG s' 0 = 7
    \<and> bram_counter 3 True env_ok \<lparr>io_fd = \<lambda>_. 0, io_map = \<lambda>_. None, io_reg = \<lambda>_ _. 0, io_log = [], dev_size = 0, io_out = []\<rparr>
      = Inr (0, t') \<and> peek CFG t' 4 = 1024"
proof -
  let ?s = "\<lparr>io_fd = \<lambda>_. 0, io_map = \<lambda>_. None, io_reg = \<lambda>_ _. 0, io_log = [], dev_size = 0, io_out = []\<rparr> :: io"
  have e: "1 \<le> me_open env_ok" "me_size env_ok = Some ''0x00010000''" "me_mmap env_ok" by (simp_all add: env_ok_def)
  have z: "scan_size ''0x00010000'' = Inr (Some 0x10000)" by code_simp
  have r: "0 = peek CFG ?s 0" by (simp add: peek_def)
  have n: "(0x10000 :: u32) \<noteq> 0" by simp
  have m: "(1 :: int) \<le> 3" by simp
  obtain s' t' where st: "hist_test 3 True env_ok ?s = Inr (0, s')" "peek CFG s' = (peek CFG ?s)(0 := 0 OR 7, 4 := 16384, 8 := 16384)"
    "bram_counter 3 True env_ok ?s = Inr (0, t')" "peek CFG t' = (peek CFG ?s)(0 := 0 OR 7, 4 := 1024, 8 := 1024)"
    using hist_test_outcome [OF m e(1,2) z n e(3) r] by blast
  moreover have "peek CFG s' 0 = 7" "peek CFG t' 4 = 1024" unfolding st(2,4) by simp_all
  ultimately show ?thesis by blast
qed

section \<open>The analog inputs\<close>

definition XADC_TEMPERATURE_OFFSET :: nat where "XADC_TEMPERATURE_OFFSET = 0x200"
definition XADC_VPVN_OFFSET :: nat where "XADC_VPVN_OFFSET = 0x20C"
definition XADC_SPLYOFF_OFFSET :: nat where "XADC_SPLYOFF_OFFSET = 0x220"
definition XADC_RDIV_BOARD :: flt where "XADC_RDIV_BOARD = fdec 1798 3"

definition xadc_value :: "nat \<Rightarrow> io \<Rightarrow> int res" where
  "xadc_value off s = bindE (dev_read XADC off s) (\<lambda>v. Inr (to_i16 (uint v)))"

definition pin_line :: "string \<Rightarrow> int \<Rightarrow> string" where
  "pin_line pin v = ''The Voltage at pin '' @ pin @ '' is: ''
     @ show_fix 6 (fmul DOUBLE (fmul DOUBLE (f_of_int DOUBLE (cshr v 4)) XADC_CONV_VAL) XADC_RDIV_BOARD) @ '' V''"

definition say_pin :: "string \<Rightarrow> nat \<Rightarrow> io \<Rightarrow> io res" where
  "say_pin pin off s = bindE (xadc_value off s) (\<lambda>v. Inr (put_line (pin_line pin v) s))"

definition temp_c :: "int \<Rightarrow> flt res" where
  "temp_c v = bindE (fdiv DOUBLE (fmul DOUBLE (f_of_int DOUBLE (cshr v 4)) (fdec 503975 3)) (f_of_int DOUBLE 65536)) (\<lambda>q.
     Inr (fsub DOUBLE q (fdec 27315 2)))"

text \<open>The value shifted is an \<^verbatim>\<open>int\<close>, and so is its quotient.\<close>

definition vccint :: "int \<Rightarrow> flt res" where
  "vccint v = bindE (cdiv (cshr v 4) 4096) (\<lambda>q. Inr (fmul DOUBLE (f_of_int DOUBLE q) (fdec 3 0)))"

definition xadc_lines :: "io \<Rightarrow> io res" where
  "xadc_lines s =
     bindE (say_pin ''AI0'' XADC_AI0_OFFSET s) (\<lambda>s.
     bindE (say_pin ''AI1'' XADC_AI1_OFFSET s) (\<lambda>s.
     bindE (say_pin ''AI2'' XADC_AI2_OFFSET s) (\<lambda>s.
     bindE (say_pin ''AI3'' XADC_AI3_OFFSET s) (\<lambda>s.
     bindE (xadc_value XADC_TEMPERATURE_OFFSET s) (\<lambda>v.
     bindE (temp_c v) (\<lambda>c.
     let s = put_line (''The internal temperature is: '' @ show_fix 6 c @ '' degC'') s;
         s = put_line (''The internal temperature is: '' @ show_int (cshr v 4) @ '' degC'') s in
     bindE (xadc_value XADC_SPLYOFF_OFFSET s) (\<lambda>v.
     let s = put_line (''The supply coeff. offset is: '' @ zeros 4 (show_hex (unat (word_of_int v :: u32))) @ '' '') s in
     bindE (xadc_value XADC_VPVN_OFFSET s) (\<lambda>v.
     bindE (vccint v) (\<lambda>c.
     Inr (put_line (''The internal VCCINT is: '' @ show_fix 6 c @ '' V'') s))))))))))"

definition xadc_uio :: "map_env \<Rightarrow> io \<Rightarrow> (int \<times> io) res" where
  "xadc_uio e s =
     (let s = put_line ''INTC UIO int test.'' s
      in if me_open e < 1 then Inr (- 1, put_line ''Invalid UIO device file:/dev/uio3.'' s)
         else bindE (uio_size (me_size e) (me_junk e)) (\<lambda>sz.
              let s = mmap_dev XADC (me_mmap e) (s\<lparr>dev_size := sint sz\<rparr>)
              in if \<not> me_mmap e then Inr (- 1, put_line ''mmap call failure.'' s)
                 else bindE (xadc_lines s) (\<lambda>s. Inr (0, s))))"

lemma shifted: "- 2048 \<le> cshr (to_i16 x) 4" "cshr (to_i16 x) 4 \<le> 2047"
  using to_i16_range [of x] div_bounds [of 16 "to_i16 x"] by (simp_all add: cshr_def)

lemma small_quotient: "- 4096 < n \<Longrightarrow> n < 4096 \<Longrightarrow> cdiv n 4096 = Inr 0"
proof -
  assume n: "- 4096 < n" "n < 4096"
  then have "\<bar>n\<bar> div 4096 = 0" by (intro div_pos_pos_trivial) simp_all
  then have "n sdiv 4096 = 0" by (simp add: signed_divide_int_def)
  then show ?thesis by (simp add: cdiv_def ck32_def in_i32_def)
qed

lemma vccint_zero: "\<exists>c. vccint (to_i16 x) = Inr c \<and> show_fix 6 c = ''0.000000''"
proof -
  have "cdiv (cshr (to_i16 x) 4) 4096 = Inr 0" using shifted [of x] by (intro small_quotient) simp_all
  moreover have "fmul DOUBLE (f_of_int DOUBLE 0) x = Flt 0 0" for x by (simp add: fmul_def f_of_int_def fround_dy_def fround_def)
  moreover have "show_fix 6 (Flt 0 0) = ''0.000000''"
  proof -
    have "show_nat 0 = ''0''" "show_int0 6 0 = ''000000''" by code_simp+
    moreover have "fdigits 6 (Flt 0 0) = 0" by (simp add: fdigits_def rne_def p2_def)
    ultimately show ?thesis by (simp add: show_fix_def)
  qed
  ultimately show ?thesis by (simp add: vccint_def)
qed

lemma temp_constants: "fdec 503975 3 = Flt 8866021961734554 (- 44)" "fdec 27315 2 = Flt 4805305618032230 (- 44)"
  "f_of_int DOUBLE 65536 = Flt 4503599627370496 (- 36)"
  by code_simp+

lemma temp_vals: "fval (fdec 503975 3) = 8866021961734554 / 17592186044416" "fval (fdec 27315 2) = 4805305618032230 / 17592186044416"
  "man (f_of_int DOUBLE 65536) \<noteq> 0" "fval (f_of_int DOUBLE 65536) = 65536"
  by (simp_all add: temp_constants fval_def power_int_minus inverse_eq_divide)

text \<open>The reading is shifted by four and then divided as if it were not: nothing but the constant is left.\<close>

lemma temp_cold: "\<exists>t. temp_c (to_i16 x) = Inr t \<and> - 290 \<le> fval t \<and> fval t \<le> - 257"
proof -
  have eps: "0 < (2 :: real) powi - int DOUBLE" "(2 :: real) powi - int DOUBLE \<le> 1 / 1000000"
    by (simp_all add: power_int_minus inverse_eq_divide)
  let ?n = "cshr (to_i16 x) 4" and ?c = "fdec 503975 3"
  have n: "- 2048 \<le> real_of_int ?n" "real_of_int ?n \<le> 2047" using shifted [of x] by linarith+
  have nv: "fval (f_of_int DOUBLE ?n) = real_of_int ?n" using shifted [of x] by (intro f_of_int_exact) simp
  define p where "p = fmul DOUBLE (f_of_int DOUBLE ?n) ?c"
  have c: "503 \<le> fval ?c" "fval ?c \<le> 504" by (simp_all add: temp_vals)
  have "\<bar>real_of_int ?n * fval ?c\<bar> \<le> 2048 * 504"
    unfolding abs_mult using n c by (intro mult_mono) simp_all
  then have b: "\<bar>real_of_int ?n * fval ?c\<bar> \<le> 1032192" by simp
  have "\<bar>fval p - real_of_int ?n * fval ?c\<bar> \<le> 1032192 * 2 powi - int DOUBLE"
    using rel_error [OF fmul_error [of DOUBLE "f_of_int DOUBLE ?n" ?c] _ less_imp_le [OF eps(1)], of 1032192] b
    unfolding nv p_def by (simp only: simp_thms)
  then have pb: "\<bar>fval p\<bar> \<le> 1032194" using b eps(2) by linarith
  obtain q where q: "fdiv DOUBLE p (f_of_int DOUBLE 65536) = Inr q"
    "\<bar>fval q - fval p / 65536\<bar> \<le> \<bar>fval p / 65536\<bar> * 2 powi - int DOUBLE"
    using fdiv_error [OF temp_vals(3), of DOUBLE p] temp_vals(4) by metis
  have qb: "\<bar>fval p / 65536\<bar> \<le> 158 / 10" using pb by simp
  have "\<bar>fval q - fval p / 65536\<bar> \<le> 158 / 10 * 2 powi - int DOUBLE"
    by (rule rel_error [OF q(2) qb less_imp_le [OF eps(1)]])
  then have q1: "\<bar>fval q\<bar> \<le> 159 / 10" using qb eps(2) by linarith
  define t where "t = fsub DOUBLE q (fdec 27315 2)"
  have k: "273 \<le> fval (fdec 27315 2)" "fval (fdec 27315 2) \<le> 2732 / 10" by (simp_all add: temp_vals)
  have d: "\<bar>fval q - fval (fdec 27315 2)\<bar> \<le> 290" using q1 k by linarith
  have "\<bar>fval t - (fval q - fval (fdec 27315 2))\<bar> \<le> 290 * 2 powi - int DOUBLE"
    unfolding t_def by (rule rel_error [OF fsub_error d less_imp_le [OF eps(1)]])
  then have "- 290 \<le> fval t" "fval t \<le> - 257" using q1 k eps(2) by linarith+
  moreover have "temp_c (to_i16 x) = Inr t" using q(1) by (simp add: temp_c_def t_def p_def)
  ultimately show ?thesis by blast
qed

lemma xadc_value_ok:
  "io_map s XADC = Some n \<Longrightarrow> 4096 \<le> n \<Longrightarrow> off mod 4 = 0 \<Longrightarrow> off + 4 \<le> 4096 \<Longrightarrow>
    xadc_value off s = Inr (to_i16 (uint (peek XADC s off)))"
  by (simp add: xadc_value_def dev_read_def accessible_def)

lemma say_pin_ok:
  "io_map s XADC = Some n \<Longrightarrow> 4096 \<le> n \<Longrightarrow> off mod 4 = 0 \<Longrightarrow> off + 4 \<le> 4096 \<Longrightarrow>
    say_pin pin off s = Inr (put_line (pin_line pin (to_i16 (uint (peek XADC s off)))) s)"
  by (simp add: say_pin_def xadc_value_ok)

text \<open>
  The test of the analog inputs prints eight lines, and two of them say nothing about the chip: the
  temperature, shifted by four bits and then scaled as if it were not, comes out between -290 and
  -257 degrees whatever the sensor measures, and the supply voltage, divided as an integer, is always
  0.000000. (Its register is that of an external pin, too.)
\<close>

theorem xadc_test_outcome:
  assumes "1 \<le> me_open e" "uio_size (me_size e) (me_junk e) = Inr sz" "sz \<noteq> 0" "me_mmap e"
  shows "\<exists>s' t. xadc_uio e s = Inr (0, s') \<and> - 290 \<le> fval t \<and> fval t \<le> - 257
    \<and> (\<exists>l. io_out s' = io_out s @ [''INTC UIO int test.'',
        pin_line ''AI0'' (to_i16 (uint (peek XADC s XADC_AI0_OFFSET))), pin_line ''AI1'' (to_i16 (uint (peek XADC s XADC_AI1_OFFSET))),
        pin_line ''AI2'' (to_i16 (uint (peek XADC s XADC_AI2_OFFSET))), pin_line ''AI3'' (to_i16 (uint (peek XADC s XADC_AI3_OFFSET))),
        ''The internal temperature is: '' @ show_fix 6 t @ '' degC'',
        ''The internal temperature is: '' @ show_int (cshr (to_i16 (uint (peek XADC s XADC_TEMPERATURE_OFFSET))) 4) @ '' degC'',
        l, ''The internal VCCINT is: 0.000000 V''])"
proof -
  have "0 < unat sz" using assms(3) by (simp add: unat_gt_0)
  then have n: "4096 \<le> page_up (unat sz)" by (simp add: page_up_def div_le_mono Suc_leI)
  define s1 where "s1 = mmap_dev XADC True ((put_line ''INTC UIO int test.'' s)\<lparr>dev_size := sint sz\<rparr>)"
  have s1: "io_map s1 XADC = Some (page_up (unat sz))" "io_out s1 = io_out s @ [''INTC UIO int test.'']"
    by (simp_all add: s1_def mmap_dev_def)
  have pk: "peek XADC s1 off = peek XADC s off" for off by (simp add: s1_def mmap_dev_def peek_def)
  obtain t where t: "temp_c (to_i16 (uint (peek XADC s XADC_TEMPERATURE_OFFSET))) = Inr t" "- 290 \<le> fval t" "fval t \<le> - 257"
    using temp_cold by blast
  obtain c where c: "vccint (to_i16 (uint (peek XADC s XADC_VPVN_OFFSET))) = Inr c" "show_fix 6 c = ''0.000000''"
    using vccint_zero by blast
  have off: "XADC_AI0_OFFSET mod 4 = 0" "XADC_AI0_OFFSET + 4 \<le> 4096" "XADC_AI1_OFFSET mod 4 = 0" "XADC_AI1_OFFSET + 4 \<le> 4096"
    "XADC_AI2_OFFSET mod 4 = 0" "XADC_AI2_OFFSET + 4 \<le> 4096" "XADC_AI3_OFFSET mod 4 = 0" "XADC_AI3_OFFSET + 4 \<le> 4096"
    "XADC_TEMPERATURE_OFFSET mod 4 = 0" "XADC_TEMPERATURE_OFFSET + 4 \<le> 4096" "XADC_SPLYOFF_OFFSET mod 4 = 0"
    "XADC_SPLYOFF_OFFSET + 4 \<le> 4096" "XADC_VPVN_OFFSET mod 4 = 0" "XADC_VPVN_OFFSET + 4 \<le> 4096"
    by (simp_all add: sts_xadc_offsets XADC_TEMPERATURE_OFFSET_def XADC_SPLYOFF_OFFSET_def XADC_VPVN_OFFSET_def)
  have "xadc_uio e s = bindE (xadc_lines s1) (\<lambda>s. Inr (0, s))"
    using assms by (simp add: xadc_uio_def s1_def Let_def)
  then show ?thesis
    using s1 n off t c pk
    by (auto simp: xadc_lines_def say_pin_ok xadc_value_ok Let_def intro!: exI [of _ t])
qed

theorem xadc_test_outcome_witness:
  "\<exists>s'. xadc_uio env_ok \<lparr>io_fd = \<lambda>_. 0, io_map = \<lambda>_. None, io_reg = \<lambda>_ _. 0x9ABC, io_log = [], dev_size = 0, io_out = []\<rparr>
      = Inr (0, s') \<and> last (io_out s') = ''The internal VCCINT is: 0.000000 V''"
proof -
  have e: "1 \<le> me_open env_ok" "me_mmap env_ok" by (simp_all add: env_ok_def)
  have z: "uio_size (me_size env_ok) (me_junk env_ok) = Inr 0x10000" unfolding env_ok_def by code_simp
  have n: "(0x10000 :: u32) \<noteq> 0" by simp
  show ?thesis
    using xadc_test_outcome [OF e(1) z n e(2),
        of "\<lparr>io_fd = \<lambda>_. 0, io_map = \<lambda>_. None, io_reg = \<lambda>_ _. 0x9ABC, io_log = [], dev_size = 0, io_out = []\<rparr>"]
    by auto
qed

section \<open>The timer\<close>

text \<open>The base is a pointer to words, so that an offset in bytes counts words.\<close>

definition timer_write :: "nat \<Rightarrow> u32 \<Rightarrow> cap \<Rightarrow> cap res" where
  "timer_write off v = store 4 (4 * off) (uint v)"

definition timer_read :: "nat \<Rightarrow> cap \<Rightarrow> u32 res" where
  "timer_read off s = bindE (inside Cfg (4 * off) 4 s) (\<lambda>_. Inr (word_of_int (get_le 4 (4 * off) (c_cfg s))))"

definition TIMER_TCSR :: nat where "TIMER_TCSR = 0x0"
definition TIMER_TLR :: nat where "TIMER_TLR = 0x4"
definition TIMER_COUNT :: u32 where "TIMER_COUNT = 0xF8000000"
definition TIMER_LOAD_MASK :: u32 where "TIMER_LOAD_MASK = 0x00000020"
definition TIMER_ENABLE_INT_MASK :: u32 where "TIMER_ENABLE_INT_MASK = 0x00000040"
definition TIMER_AUTO_RELOAD_MASK :: u32 where "TIMER_AUTO_RELOAD_MASK = 0x00000010"
definition TIMER_ENABLE_TMR_MASK :: u32 where "TIMER_ENABLE_TMR_MASK = 0x00000080"

lemmas timer_defs = TIMER_TCSR_def TIMER_TLR_def TIMER_COUNT_def TIMER_LOAD_MASK_def TIMER_ENABLE_INT_MASK_def
  TIMER_AUTO_RELOAD_MASK_def TIMER_ENABLE_TMR_MASK_def

definition timer_line :: "string \<Rightarrow> u32 \<Rightarrow> string" where
  "timer_line l v = ''xilaxitimer_init: '' @ l @ '' 0x'' @ zeros 8 (hex_upper v)"

definition timer_test :: "int \<Rightarrow> cap \<Rightarrow> (int \<times> cap) res" where
  "timer_test fd s =
     (if fd < 0 then Inr (1, s)
      else bindE (timer_write TIMER_TLR TIMER_COUNT s) (\<lambda>s.
           bindE (timer_read TIMER_TLR s) (\<lambda>v.
           let s = c_say (timer_line ''Set timer count'' v) s in
           bindE (timer_write TIMER_TCSR TIMER_LOAD_MASK s) (\<lambda>s.
           bindE (timer_write TIMER_TCSR (TIMER_ENABLE_INT_MASK OR TIMER_AUTO_RELOAD_MASK) s) (\<lambda>s.
           bindE (timer_read TIMER_TCSR s) (\<lambda>v.
           bindE (timer_write TIMER_TCSR (v OR TIMER_ENABLE_TMR_MASK) s) (\<lambda>s.
           Inr (0, c_say (timer_line ''data leido'' v) s))))))))"

text \<open>
  The timer test starts the timer without its period: the load register at byte 4 keeps what it
  held, and the count goes to byte 16, where the second timer of the core has its control register;
  the line that is printed shows the count all the same, as it is read back from there.
\<close>

theorem timer_count_misplaced:
  assumes "0 \<le> fd" "c_map s Cfg = Some 4096"
  shows "\<exists>s'. timer_test fd s = Inr (0, s')
    \<and> get_le 4 4 (c_cfg s') = get_le 4 4 (c_cfg s) \<and> get_le 4 16 (c_cfg s') = 0xF8000000 \<and> get_le 4 0 (c_cfg s') = 0xD0
    \<and> c_lines s' = c_lines s @ [timer_line ''Set timer count'' 0xF8000000, timer_line ''data leido'' 0x50]"
proof -
  define m1 where "m1 = put_le 4 16 0xF8000000 (c_cfg s)"
  define m2 where "m2 = put_le 4 0 0x50 (put_le 4 0 0x20 m1)"
  have g1: "get_le 4 16 m1 = 0xF8000000" "get_le 4 4 m1 = get_le 4 4 (c_cfg s)"
    by (simp_all add: m1_def get_put_same get_put_other)
  have g2: "get_le 4 0 m2 = 0x50" "get_le 4 16 m2 = 0xF8000000" "get_le 4 4 m2 = get_le 4 4 (c_cfg s)"
    using g1 by (simp_all add: m2_def get_put_same get_put_other)
  have "timer_test fd s = Inr (0, s\<lparr>c_cfg := put_le 4 0 0xD0 m2,
      c_lines := c_lines s @ [timer_line ''Set timer count'' 0xF8000000, timer_line ''data leido'' 0x50]\<rparr>)"
    using assms g1(1) g2(1)
    by (simp add: timer_test_def timer_write_def timer_read_def timer_defs store_ok inside_def c_say_def Let_def m1_def m2_def)
  then show ?thesis using g2 by (simp add: get_put_same get_put_other)
qed

theorem timer_count_misplaced_witness:
  "\<exists>s'. timer_test 3 (cap0 (mapped (\<lambda>_. True) 1024) (\<lambda>_. 0) (\<lambda>_. 0) []) = Inr (0, s')
    \<and> get_le 4 4 (c_cfg s') = 0 \<and> get_le 4 16 (c_cfg s') = 0xF8000000"
proof -
  let ?s = "cap0 (mapped (\<lambda>_. True) 1024) (\<lambda>_. 0) (\<lambda>_. 0) []"
  have s: "c_map ?s Cfg = Some 4096" "get_le 4 4 (c_cfg ?s) = 0" by (simp_all add: cap0_def mapped_def get_le_def)
  show ?thesis using timer_count_misplaced [OF _ s(1), of 3] unfolding s(2) by auto
qed

section \<open>Ramp and pulse width\<close>

text \<open>The number of arguments is compared with one, so that a missing value is read all the same.\<close>

definition ramp_start :: "string list \<Rightarrow> int \<Rightarrow> cap \<Rightarrow> (cap \<Rightarrow> (int \<times> cap) res) \<Rightarrow> (int \<times> cap) res" where
  "ramp_start argv mfd s f =
     (let s = c_say (show_nat (length argv)) s
      in if length argv < 1 then Inl (Exit 1)
         else if mfd < 0 then Inr (1, s)
         else bindE (update 4 0 (\<lambda>w. w AND NOT 1) s) (\<lambda>s.
              bindE (update 4 0 (\<lambda>w. w OR 1) s) (\<lambda>s.
              if length argv = 1 then Inl NullDeref else f s)))"

definition ramp_test :: "string list \<Rightarrow> int \<Rightarrow> cap \<Rightarrow> (int \<times> cap) res" where
  "ramp_test argv mfd s =
     ramp_start argv mfd s (\<lambda>s. bindE (store 4 4 (atoi (argv ! 1)) s) (\<lambda>s. Inr (0, s)))"

definition pwm_test :: "string list \<Rightarrow> int \<Rightarrow> cap \<Rightarrow> (int \<times> cap) res" where
  "pwm_test argv mfd s =
     ramp_start argv mfd s (\<lambda>s. bindE (runE (\<lambda>s _. store 4 4 (atoi (argv ! 1)) s) s [0..<4]) (\<lambda>s. Inr (0, s)))"

lemma store_again: "store n a v s = Inr t \<Longrightarrow> store n a v t = Inr t"
  by (auto simp: store_def inside_def put_le_def res_simps fun_eq_iff split: option.splits)

lemma stores_again: "runE (\<lambda>s _. store n a v s) s (x # xs) = store n a v s"
proof (induction xs arbitrary: x)
  case Nil
  then show ?case by (cases "store n a v s") simp_all
next
  case (Cons y ys)
  then show ?case by (cases "store n a v s") (simp_all add: store_again)
qed

text \<open>The four equal writes of the second program leave what the one of the first leaves.\<close>

theorem pwm_is_ramp: "pwm_test argv mfd s = ramp_test argv mfd s"
proof -
  have "runE (\<lambda>s _. store 4 4 v s) t [0..<4] = store 4 4 v t" for v and t :: cap
    using stores_again [of 4 4 v t 0 "[1..<4]"] by (simp add: upt_rec)
  then show ?thesis by (simp only: pwm_test_def ramp_test_def)
qed

end
