(* ===== verification/IntcTests.thy ===== *)
theory IntcTests
  imports UioApp DmaIrq
begin

unbundle bit_operations_syntax

text \<open>
  Three programs that wait for interrupts through a UIO device: \<^verbatim>\<open>int_test2/uio_app.c\<close>, whose function for one
  interrupt is that of \<open>UioApp\<close>; \<^verbatim>\<open>int_test2/test.c\<close>; and \<^verbatim>\<open>int_test/int_test.c\<close> for the GPIO core. What the
  system and the hardware do in each round is given by a list; a program that goes on
  when the list is used up is blocked. The device is \<^verbatim>\<open>/dev/uio0\<close>, the space \<open>INTC\<close>.
\<close>

section \<open>Until the signal\<close>

definition XIL_AXI_INTC_SIE_OFFSET :: nat where "XIL_AXI_INTC_SIE_OFFSET = 0x10"
definition XIL_AXI_INTC_CIE_OFFSET :: nat where "XIL_AXI_INTC_CIE_OFFSET = 0x14"
definition XIL_AXI_INTC_IVR_OFFSET :: nat where "XIL_AXI_INTC_IVR_OFFSET = 0x18"
definition XIL_AXI_INTC_IMR_OFFSET :: nat where "XIL_AXI_INTC_IMR_OFFSET = 0x20"
definition XIL_AXI_INTC_ILR_OFFSET :: nat where "XIL_AXI_INTC_ILR_OFFSET = 0x24"
definition XIL_AXI_INTC_IVAR_OFFSET :: nat where "XIL_AXI_INTC_IVAR_OFFSET = 0x100"

lemmas intc_more = XIL_AXI_INTC_SIE_OFFSET_def XIL_AXI_INTC_CIE_OFFSET_def XIL_AXI_INTC_IVR_OFFSET_def
  XIL_AXI_INTC_IMR_OFFSET_def XIL_AXI_INTC_ILR_OFFSET_def XIL_AXI_INTC_IVAR_OFFSET_def

definition intc_enable :: "io \<Rightarrow> io res" where
  "intc_enable s =
     bindE (dev_write INTC XIL_AXI_INTC_IER_OFFSET 1 s) (\<lambda>s.
     dev_write INTC XIL_AXI_INTC_MER_OFFSET (XIL_AXI_INTC_MER_ME_MASK OR XIL_AXI_INTC_MER_HIE_MASK) s)"

text \<open>\<open>None\<close> is the signal, \<open>Some (v, info)\<close> a round with what \<^verbatim>\<open>read\<close> leaves in \<^verbatim>\<open>info\<close>.\<close>

fun intc_rounds :: "(irq \<times> u32) option list \<Rightarrow> io \<Rightarrow> io res" where
  "intc_rounds [] s = Inl Blocked"
| "intc_rounds (None # rs) s = Inr s"
| "intc_rounds (Some (v, info) # rs) s = bindE (u_wait_for_interrupt v info s) (\<lambda>(_, s). intc_rounds rs s)"

definition status_regs :: "(string \<times> nat) list" where
  "status_regs = [(''STS'', XIL_AXI_INTC_ISR_OFFSET), (''IPR'', XIL_AXI_INTC_IPR_OFFSET), (''IER'', XIL_AXI_INTC_IER_OFFSET),
     (''IAR'', XIL_AXI_INTC_IAR_OFFSET), (''SIE'', XIL_AXI_INTC_SIE_OFFSET), (''CIE'', XIL_AXI_INTC_CIE_OFFSET),
     (''IVR'', XIL_AXI_INTC_IVR_OFFSET), (''MER'', XIL_AXI_INTC_MER_OFFSET), (''IMR'', XIL_AXI_INTC_IMR_OFFSET),
     (''ILR'', XIL_AXI_INTC_ILR_OFFSET), (''IVAR'', XIL_AXI_INTC_IVAR_OFFSET)]"

text \<open>The values are printed in decimal behind \<^verbatim>\<open>0x\<close>.\<close>

definition say_status :: "io \<Rightarrow> string \<times> nat \<Rightarrow> io res" where
  "say_status s r =
     bindE (dev_read INTC (snd r) s) (\<lambda>v. Inr (put_line (fst r @ '': 0x'' @ show_int0 8 (sint v)) s))"

definition intc_test :: "map_env \<Rightarrow> (irq \<times> u32) option list \<Rightarrow> io \<Rightarrow> (int \<times> io) res" where
  "intc_test e rs s =
     (let s = put_line ''INTC UIO int test.'' s
      in if me_open e < 1 then Inr (- 1, put_line ''Invalid UIO device file:/dev/uio0.'' s)
         else bindE (uio_size (me_size e) (me_junk e)) (\<lambda>sz.
              let s = mmap_dev INTC (me_mmap e) (s\<lparr>dev_size := sint sz\<rparr>)
              in if \<not> me_mmap e then Inr (- 1, put_line ''mmap call failure.'' s)
                 else bindE (intc_enable s) (\<lambda>s.
                      bindE (intc_rounds rs s) (\<lambda>s.
                      bindE (runE say_status (put_line '''' (put_line '''' (put_line '''' s))) status_regs) (\<lambda>s.
                      Inr (0, s))))))"

section \<open>Until something fails\<close>

text \<open>The second program leaves its loop by \<^verbatim>\<open>exit\<close> only; what it has printed is kept with the fault.\<close>

fun poll_rounds :: "(irq \<times> u32) list \<Rightarrow> io \<Rightarrow> fault \<times> io" where
  "poll_rounds [] s = (Blocked, s)"
| "poll_rounds ((v, info) # rs) s =
     (if irq_write v \<noteq> 4 then (Exit 1, s)
      else let s = irq_hw v s
      in if 1 \<le> irq_poll v
         then poll_rounds rs (if irq_read v = 4 then put_line (''Interrupt #'' @ show_nat (unat info) @ ''!'') s else s)
         else (Exit 1, s))"

definition poll_test :: "map_env \<Rightarrow> (irq \<times> u32) list \<Rightarrow> io \<Rightarrow> (int + fault) \<times> io" where
  "poll_test e rs s =
     (if me_open e < 0 then (Inr (Exit 1), s)
      else case uio_size (me_size e) (me_junk e) of Inl f \<Rightarrow> (Inr f, s)
      | Inr sz \<Rightarrow>
          let s = mmap_dev INTC (me_mmap e) (s\<lparr>dev_size := sint sz\<rparr>)
          in if \<not> me_mmap e then (Inl (- 1), put_line ''mmap call failure.'' s)
             else case intc_enable s of Inl f \<Rightarrow> (Inr f, s)
             | Inr s \<Rightarrow> (case poll_rounds rs s of (f, s) \<Rightarrow> (Inr f, s)))"

section \<open>The GPIO core\<close>

definition GPIO_DATA2_OFFSET :: nat where "GPIO_DATA2_OFFSET = 0x08"
definition GPIO_TRI2_OFFSET :: nat where "GPIO_TRI2_OFFSET = 0x0C"
definition GPIO_GLOBAL_IRQ :: nat where "GPIO_GLOBAL_IRQ = 0x11C"
definition GPIO_IRQ_CONTROL :: nat where "GPIO_IRQ_CONTROL = 0x128"
definition GPIO_IRQ_STATUS :: nat where "GPIO_IRQ_STATUS = 0x120"

lemmas gpio_offsets = GPIO_DATA2_OFFSET_def GPIO_TRI2_OFFSET_def GPIO_GLOBAL_IRQ_def GPIO_IRQ_CONTROL_def GPIO_IRQ_STATUS_def

text \<open>The values written to the descriptor, which unmask the interrupt, are kept in order.\<close>

record gpio_irq =
  gq_io :: io
  gq_count :: u32
  gq_unmask :: "u32 list"

text \<open>
  One interrupt; \<^verbatim>\<open>read\<close> puts the number of interrupts into \<^verbatim>\<open>reenable\<close>, unless it fails. The result is cut to
  eight bits.
\<close>

definition gpio_wait :: "irq \<Rightarrow> u32 \<Rightarrow> gpio_irq \<Rightarrow> (int \<times> gpio_irq) res" where
  "gpio_wait v info q =
     (let s = put_line (''ret is : '' @ show_int (irq_poll v)) (irq_hw v (gq_io q)); r = to_u8 (irq_poll v)
      in if \<not> 1 \<le> irq_poll v then Inr (r, q\<lparr>gq_io := s\<rparr>)
         else let reenable = (if irq_read v = 4 then info else 1)
         in bindE (dev_read INTC GPIO_DATA2_OFFSET s) (\<lambda>value.
            let s = (if value AND 1 \<noteq> 0 then put_line ''Interrupt recieved'' s else s) in
            bindE (dev_read INTC GPIO_IRQ_STATUS s) (\<lambda>reg.
            bindE (if reg \<noteq> 0 then dev_write INTC GPIO_IRQ_STATUS 1 s else Inr s) (\<lambda>s.
            Inr (r, \<lparr>gq_io = s, gq_count = gq_count q + 1, gq_unmask = gq_unmask q @ [reenable]\<rparr>)))))"

fun gpio_rounds :: "(irq \<times> u32) list \<Rightarrow> gpio_irq \<Rightarrow> fault \<times> gpio_irq" where
  "gpio_rounds [] q = (Blocked, q)"
| "gpio_rounds ((v, info) # rs) q =
     (case gpio_wait v info q of Inl f \<Rightarrow> (f, q) | Inr (_, q) \<Rightarrow> gpio_rounds rs q)"

definition gpio_enable :: "io \<Rightarrow> io res" where
  "gpio_enable s =
     bindE (dev_write INTC GPIO_TRI2_OFFSET 1 s) (\<lambda>s.
     bindE (dev_write INTC GPIO_IRQ_CONTROL 2 s) (\<lambda>s.
     dev_write INTC GPIO_GLOBAL_IRQ 0x80000000 s))"

definition gpio_int_test :: "map_env \<Rightarrow> (irq \<times> u32) list \<Rightarrow> io \<Rightarrow> fault \<times> gpio_irq" where
  "gpio_int_test e rs s =
     (let q = (\<lambda>s. \<lparr>gq_io = s, gq_count = 0, gq_unmask = []\<rparr>)
      in if me_open e < 0 then (Exit 1, q s)
         else case uio_size (me_size e) (me_junk e) of Inl f \<Rightarrow> (f, q s)
         | Inr sz \<Rightarrow>
             let s = mmap_dev INTC (me_mmap e) (s\<lparr>dev_size := sint sz\<rparr>)
             in case gpio_enable s of Inl f \<Rightarrow> (f, q s) | Inr s \<Rightarrow> gpio_rounds rs (q s))"

section \<open>What they do\<close>

text \<open>Hardware that changes registers only, and a mapped device.\<close>

definition quiet :: "irq \<Rightarrow> bool" where
  "quiet v \<longleftrightarrow> (\<forall>s. io_map (irq_hw v s) = io_map s \<and> io_log (irq_hw v s) = io_log s \<and> io_out (irq_hw v s) = io_out s)"

definition intc_mapped :: "io \<Rightarrow> bool" where
  "intc_mapped s \<longleftrightarrow> (\<exists>n. io_map s INTC = Some n \<and> 4096 \<le> n)"

lemma intc_ok:
  assumes "intc_mapped s" "off mod 4 = 0" "off + 4 \<le> 4096"
  shows "dev_read INTC off s = Inr (peek INTC s off)" "dev_write INTC off v s = Inr (poke INTC s off v)"
  using assms by (auto simp: intc_mapped_def dev_read_def dev_write_def accessible_def)

lemma intc_mapped_sel [simp]: "intc_mapped (poke b s off v) = intc_mapped s" "intc_mapped (put_line l s) = intc_mapped s"
  by (simp_all add: intc_mapped_def)

lemma quiet_mapped: "quiet v \<Longrightarrow> intc_mapped (irq_hw v s) = intc_mapped s"
  by (simp add: quiet_def intc_mapped_def)

lemma mmap_intc:
  assumes "sz \<noteq> 0"
  shows "intc_mapped (mmap_dev INTC True (s\<lparr>dev_size := sint (sz :: u32)\<rparr>))"
proof -
  have "0 < unat sz" using assms by (simp add: unat_gt_0)
  then show ?thesis by (simp add: intc_mapped_def mmap_dev_def page_up_def div_le_mono Suc_leI)
qed

definition enable_log :: "(bank \<times> nat \<times> u32) list" where
  "enable_log = [(INTC, XIL_AXI_INTC_IER_OFFSET, 1), (INTC, XIL_AXI_INTC_MER_OFFSET, 3)]"

lemma intc_enable_ok:
  assumes "intc_mapped s"
  shows "\<exists>s'. intc_enable s = Inr s' \<and> intc_mapped s' \<and> io_log s' = io_log s @ enable_log \<and> io_out s' = io_out s"
  using assms by (simp add: intc_enable_def intc_ok intc_offsets enable_log_def)

text \<open>A round in which the system does as it should, and whether the interrupt is then pending.\<close>

definition good_round :: "(irq \<Rightarrow> bool) \<Rightarrow> irq \<Rightarrow> bool" where
  "good_round pd v \<longleftrightarrow> irq_write v = 4 \<and> (1 \<le> irq_poll v \<longrightarrow> irq_read v = 4) \<and> quiet v
     \<and> (\<forall>s. (peek INTC (irq_hw v s) XIL_AXI_INTC_IPR_OFFSET AND 1 \<noteq> 0) = pd v)"

definition taken :: "(irq \<Rightarrow> bool) \<Rightarrow> irq \<Rightarrow> bool" where
  "taken pd v \<longleftrightarrow> 1 \<le> irq_poll v \<and> pd v"

definition round_lines :: "(irq \<Rightarrow> bool) \<Rightarrow> irq \<times> u32 \<Rightarrow> string list" where
  "round_lines pd r = (''ret is : '' @ show_int (irq_poll (fst r)))
     # (if taken pd (fst r) then [''Interrupt #'' @ show_nat (unat (snd r)) @ ''!''] else [])"

lemma wait_ok:
  assumes "good_round pd v" "intc_mapped s"
  shows "\<exists>s'. u_wait_for_interrupt v info s = Inr (irq_poll v, s') \<and> intc_mapped s'
    \<and> io_out s' = io_out s @ round_lines pd (v, info)
    \<and> io_log s' = io_log s @ (if taken pd v then [(INTC, XIL_AXI_INTC_IAR_OFFSET, 1)] else [])"
proof -
  have g: "irq_write v = 4" "1 \<le> irq_poll v \<Longrightarrow> irq_read v = 4" "quiet v"
    "(peek INTC (irq_hw v s) XIL_AXI_INTC_IPR_OFFSET AND 1 \<noteq> 0) = pd v"
    using assms(1) by (simp_all add: good_round_def)
  have q: "intc_mapped (irq_hw v s)" "io_log (irq_hw v s) = io_log s" "io_out (irq_hw v s) = io_out s"
    using g(3) assms(2) quiet_mapped [OF g(3)] by (simp_all add: quiet_def)
  have off: "XIL_AXI_INTC_IPR_OFFSET mod 4 = 0" "XIL_AXI_INTC_IPR_OFFSET + 4 \<le> 4096"
    "XIL_AXI_INTC_IAR_OFFSET mod 4 = 0" "XIL_AXI_INTC_IAR_OFFSET + 4 \<le> 4096" by (simp_all add: intc_offsets)
  show ?thesis
    using g(1,2,4) q off by (auto simp: u_wait_for_interrupt_def intc_ok round_lines_def taken_def Let_def)
qed

lemma intc_rounds_ok:
  assumes "\<forall>r \<in> set vs. good_round pd (fst r)" "intc_mapped s"
  shows "\<exists>s'. intc_rounds (map Some vs @ None # rs) s = Inr s' \<and> intc_mapped s'
    \<and> io_out s' = io_out s @ concat (map (round_lines pd) vs)
    \<and> io_log s' = io_log s @ replicate (length (filter (\<lambda>r. taken pd (fst r)) vs)) (INTC, XIL_AXI_INTC_IAR_OFFSET, 1)"
  using assms
proof (induction vs arbitrary: s)
  case (Cons r vs)
  obtain v info where r: "r = (v, info)" by (cases r)
  obtain s1 where s1: "u_wait_for_interrupt v info s = Inr (irq_poll v, s1)" "intc_mapped s1"
    "io_out s1 = io_out s @ round_lines pd (v, info)"
    "io_log s1 = io_log s @ (if taken pd v then [(INTC, XIL_AXI_INTC_IAR_OFFSET, 1)] else [])"
    using wait_ok [of pd v s info] Cons.prems r by auto
  show ?case using Cons.IH [of s1] Cons.prems(1) s1 r by auto
qed simp

lemma say_status_ok:
  assumes "intc_mapped s" "\<forall>r \<in> set rg. snd r mod 4 = 0 \<and> snd r + 4 \<le> 4096"
  shows "\<exists>s' ls. runE say_status s rg = Inr s' \<and> io_out s' = io_out s @ ls \<and> length ls = length rg \<and> io_log s' = io_log s"
  using assms
proof (induction rg arbitrary: s)
  case (Cons r rg)
  define s1 where "s1 = put_line (fst r @ '': 0x'' @ show_int0 8 (sint (peek INTC s (snd r)))) s"
  have "say_status s r = Inr s1" using Cons.prems by (simp add: say_status_def intc_ok s1_def)
  moreover obtain s' ls where "runE say_status s1 rg = Inr s'" "io_out s' = io_out s1 @ ls" "length ls = length rg" "io_log s' = io_log s1"
    using Cons.IH [of s1] Cons.prems by (auto simp: s1_def)
  ultimately show ?case by (simp add: s1_def)
qed simp

lemma status_regs_in: "\<forall>r \<in> set status_regs. snd r mod 4 = 0 \<and> snd r + 4 \<le> 4096"
  by (simp add: status_regs_def intc_offsets intc_more)

text \<open>
  The interrupt program acknowledges what it reports: up to the signal it writes to the acknowledge register
  once for each round in which the system reports an interrupt that is pending in the controller,
  and prints one line for it; rounds that time out and interrupts that are not pending leave the device alone.
  Without the signal it never ends; when a round cannot unmask the interrupt, the program exits.
\<close>

theorem interrupts_acknowledged:
  assumes "1 \<le> me_open e" "uio_size (me_size e) (me_junk e) = Inr sz" "sz \<noteq> 0" "me_mmap e"
    "\<forall>r \<in> set vs. good_round pd (fst r)"
  shows "(\<exists>s' ls. intc_test e (map Some vs @ None # rs) s = Inr (0, s')
      \<and> io_log s' = io_log s @ enable_log
          @ replicate (length (filter (\<lambda>r. taken pd (fst r)) vs)) (INTC, XIL_AXI_INTC_IAR_OFFSET, 1)
      \<and> io_out s' = io_out s @ [''INTC UIO int test.''] @ concat (map (round_lines pd) vs) @ ['''', '''', ''''] @ ls \<and> length ls = 11)
    \<and> intc_test e (map Some vs) s = Inl Blocked
    \<and> (irq_write w \<noteq> 4 \<longrightarrow> intc_test e (map Some vs @ Some (w, i) # rs) s = Inl (Exit 1))"
proof -
  define s0 where "s0 = mmap_dev INTC True ((put_line ''INTC UIO int test.'' s)\<lparr>dev_size := sint sz\<rparr>)"
  have s0: "intc_mapped s0" "io_log s0 = io_log s" "io_out s0 = io_out s @ [''INTC UIO int test.'']"
    unfolding s0_def by (rule mmap_intc [OF assms(3)]) (simp_all add: mmap_dev_def)
  obtain s1 where s1: "intc_enable s0 = Inr s1" "intc_mapped s1" "io_log s1 = io_log s @ enable_log" "io_out s1 = io_out s0"
    using intc_enable_ok [OF s0(1)] s0(2) by auto
  have main: "intc_test e rr s = bindE (intc_rounds rr s1) (\<lambda>s.
      bindE (runE say_status (put_line '''' (put_line '''' (put_line '''' s))) status_regs) (\<lambda>s. Inr (0, s)))" for rr
    using assms(1,2,4) s1(1) by (simp add: intc_test_def s0_def Let_def)
  obtain s2 where s2: "intc_rounds (map Some vs @ None # rs) s1 = Inr s2" "intc_mapped s2"
    "io_out s2 = io_out s1 @ concat (map (round_lines pd) vs)"
    "io_log s2 = io_log s1 @ replicate (length (filter (\<lambda>r. taken pd (fst r)) vs)) (INTC, XIL_AXI_INTC_IAR_OFFSET, 1)"
    using intc_rounds_ok [OF assms(5) s1(2), of rs] by blast
  obtain s3 ls where s3: "runE say_status (put_line '''' (put_line '''' (put_line '''' s2))) status_regs = Inr s3"
    "io_out s3 = io_out s2 @ ['''', '''', ''''] @ ls" "length ls = 11" "io_log s3 = io_log s2"
    using say_status_ok [OF _ status_regs_in, of "put_line '''' (put_line '''' (put_line '''' s2))"] s2(2)
    by (auto simp: status_regs_def)
  have rounds: "intc_rounds (map Some vs @ rr) t = bindE (intc_rounds (map Some vs @ [None]) t) (intc_rounds rr)" for rr t
  proof (induction vs arbitrary: t)
    case (Cons r vs)
    obtain v info where "r = (v, info)" by (cases r)
    then show ?case using Cons by (simp add: bindE_assoc split_def)
  qed simp
  obtain s4 where s4: "intc_rounds (map Some vs @ [None]) s1 = Inr s4" using intc_rounds_ok [OF assms(5) s1(2), of "[]"] by auto
  have "intc_test e (map Some vs) s = Inl Blocked"
    using rounds [of "[]" s1] s4 by (simp add: main)
  moreover have "irq_write w \<noteq> 4 \<Longrightarrow> intc_test e (map Some vs @ Some (w, i) # rs) s = Inl (Exit 1)"
    using rounds [of "Some (w, i) # rs" s1] s4 by (simp add: main u_wait_for_interrupt_def)
  moreover have "intc_test e (map Some vs @ None # rs) s = Inr (0, s3)" using s2(1) s3(1) by (simp add: main)
  moreover have "io_log s3 = io_log s @ enable_log
      @ replicate (length (filter (\<lambda>r. taken pd (fst r)) vs)) (INTC, XIL_AXI_INTC_IAR_OFFSET, 1)"
    using s3(4) s2(4) s1(3) by simp
  moreover have "io_out s3 = io_out s @ [''INTC UIO int test.''] @ concat (map (round_lines pd) vs) @ ['''', '''', ''''] @ ls"
    using s3(2) s2(3) s1(4) s0(3) by simp
  ultimately show ?thesis using s3(3) by blast
qed

text \<open>Witness data: an interrupt, a time-out, an interrupt that is not pending.\<close>

definition round_of :: "int \<Rightarrow> u32 \<Rightarrow> irq" where
  "round_of n w = \<lparr>irq_write = 4, irq_hw = (\<lambda>s. s\<lparr>io_reg := (\<lambda>_ _. w)\<rparr>), irq_poll = n, irq_read = 4\<rparr>"

lemma good_round_of: "good_round (\<lambda>v. peek INTC (irq_hw v s0) XIL_AXI_INTC_IPR_OFFSET AND 1 \<noteq> 0) (round_of n w)"
  by (simp add: good_round_def quiet_def round_of_def peek_def)

definition io_none :: io where
  "io_none = \<lparr>io_fd = \<lambda>_. 0, io_map = \<lambda>_. None, io_reg = \<lambda>_ _. 0, io_log = [], dev_size = 0, io_out = []\<rparr>"

theorem interrupts_acknowledged_witness:
  "\<exists>s'. intc_test env_ok [Some (round_of 1 1, 7), Some (round_of 0 1, 0), Some (round_of 1 2, 8), None] io_none = Inr (0, s')
    \<and> io_log s' = enable_log @ [(INTC, XIL_AXI_INTC_IAR_OFFSET, 1)]"
proof -
  let ?vs = "[(round_of 1 1, 7), (round_of 0 1, 0), (round_of 1 2, 8)]"
  let ?pd = "\<lambda>v. peek INTC (irq_hw v io_none) XIL_AXI_INTC_IPR_OFFSET AND 1 \<noteq> 0"
  have e: "1 \<le> me_open env_ok" "me_mmap env_ok" by (simp_all add: env_ok_def)
  have z: "uio_size (me_size env_ok) (me_junk env_ok) = Inr 0x10000" unfolding env_ok_def by code_simp
  have n: "(0x10000 :: u32) \<noteq> 0" by simp
  have g: "\<forall>r \<in> set ?vs. good_round ?pd (fst r)" by (simp add: good_round_of)
  have c: "filter (\<lambda>r. taken ?pd (fst r)) ?vs = [(round_of 1 1, 7)]"
    by (simp add: taken_def round_of_def peek_def)
  show ?thesis
    using interrupts_acknowledged [OF e(1) z n e(2) g, of "[]" io_none] unfolding c by (auto simp: io_none_def)
qed

section \<open>The program that does not acknowledge\<close>

definition fine_round :: "irq \<Rightarrow> bool" where
  "fine_round v \<longleftrightarrow> irq_write v = 4 \<and> 1 \<le> irq_poll v \<and> quiet v"

lemma poll_rounds_fine:
  "\<forall>r \<in> set vs. fine_round (fst r) \<Longrightarrow>
    \<exists>s'. poll_rounds (vs @ rs) s = poll_rounds rs s' \<and> io_log s' = io_log s \<and> io_map s' = io_map s"
proof (induction vs arbitrary: s)
  case (Cons r vs)
  obtain v info where r: "r = (v, info)" by (cases r)
  define s1 where "s1 = (if irq_read v = 4 then put_line (''Interrupt #'' @ show_nat (unat info) @ ''!'') (irq_hw v s) else irq_hw v s)"
  have "poll_rounds ((r # vs) @ rs) s = poll_rounds (vs @ rs) s1" "io_log s1 = io_log s" "io_map s1 = io_map s"
    using Cons.prems r by (simp_all add: fine_round_def quiet_def s1_def Let_def)
  then show ?case using Cons.IH [of s1] Cons.prems by simp
qed auto

text \<open>
  The short interrupt program never acknowledges: whatever happens, the only registers it writes are
  the two that enable the controller. Once the device is mapped it ends by an exit with failure
  only, in the first round that cannot unmask the interrupt or sees none for a tenth of a second.
\<close>

theorem poll_test_outcome:
  assumes "0 \<le> me_open e" "uio_size (me_size e) (me_junk e) = Inr sz" "sz \<noteq> 0" "me_mmap e"
    "\<forall>r \<in> set vs. fine_round (fst r)" "quiet w" "irq_write w \<noteq> 4 \<or> irq_poll w < 1"
  shows "fst (poll_test e (vs @ (w, i) # rs) s) = Inr (Exit 1) \<and> fst (poll_test e vs s) = Inr Blocked
    \<and> io_log (snd (poll_test e (vs @ (w, i) # rs) s)) = io_log s @ enable_log"
proof -
  define s0 where "s0 = mmap_dev INTC True (s\<lparr>dev_size := sint sz\<rparr>)"
  have s0: "intc_mapped s0" "io_log s0 = io_log s"
    unfolding s0_def using mmap_intc [OF assms(3)] by (simp_all add: mmap_dev_def)
  obtain s1 where s1: "intc_enable s0 = Inr s1" "io_log s1 = io_log s @ enable_log"
    using intc_enable_ok [OF s0(1)] s0(2) by auto
  have main: "poll_test e rr s = (case poll_rounds rr s1 of (f, s) \<Rightarrow> (Inr f, s))" for rr
    using assms(1,2,4) s1(1) by (simp add: poll_test_def s0_def Let_def)
  obtain s2 where s2: "poll_rounds (vs @ (w, i) # rs) s1 = poll_rounds ((w, i) # rs) s2" "io_log s2 = io_log s1"
    using poll_rounds_fine [OF assms(5)] by blast
  obtain s3 where s3: "poll_rounds (vs @ []) s1 = poll_rounds [] s3" using poll_rounds_fine [OF assms(5)] by blast
  have "io_log (irq_hw w s2) = io_log s2" using assms(6) by (simp add: quiet_def)
  then show ?thesis using s2 s3 s1(2) assms(7) by (auto simp: main Let_def)
qed

theorem poll_test_outcome_witness:
  "fst (poll_test env_ok [(round_of 1 1, 7), (round_of 0 1, 0)] io_none) = Inr (Exit 1)"
proof -
  have e: "0 \<le> me_open env_ok" "me_mmap env_ok" by (simp_all add: env_ok_def)
  have z: "uio_size (me_size env_ok) (me_junk env_ok) = Inr 0x10000" unfolding env_ok_def by code_simp
  have n: "(0x10000 :: u32) \<noteq> 0" by simp
  have v: "\<forall>r \<in> set [(round_of 1 1, 7 :: u32)]. fine_round (fst r)" "quiet (round_of 0 1)" "irq_write (round_of 0 1) \<noteq> 4 \<or> irq_poll (round_of 0 1) < 1"
    by (simp_all add: fine_round_def quiet_def round_of_def)
  show ?thesis using poll_test_outcome [OF e(1) z n e(2) v, of 0 "[]" io_none] by simp
qed

section \<open>The GPIO program\<close>

definition reports :: "(irq \<times> u32) list \<Rightarrow> nat" where
  "reports rs = length (filter (\<lambda>r. 1 \<le> irq_poll (fst r)) rs)"

lemma gpio_wait_ok:
  assumes "quiet v" "intc_mapped (gq_io q)"
  shows "\<exists>q' ws. gpio_wait v info q = Inr (to_u8 (irq_poll v), q') \<and> intc_mapped (gq_io q')
    \<and> io_log (gq_io q') = io_log (gq_io q) @ ws \<and> set ws \<subseteq> {(INTC, GPIO_IRQ_STATUS, 1)}
    \<and> gq_unmask q' = gq_unmask q @ (if 1 \<le> irq_poll v then [if irq_read v = 4 then info else 1] else [])"
proof -
  define s where "s = put_line (''ret is : '' @ show_int (irq_poll v)) (irq_hw v (gq_io q))"
  have s: "intc_mapped s" "io_log s = io_log (gq_io q)"
    using assms quiet_mapped [OF assms(1)] by (simp_all add: s_def quiet_def)
  define s1 where "s1 = (if peek INTC s GPIO_DATA2_OFFSET AND 1 \<noteq> 0 then put_line ''Interrupt recieved'' s else s)"
  have s1: "intc_mapped s1" "io_log s1 = io_log s" using s by (simp_all add: s1_def)
  define s2 where "s2 = (if peek INTC s1 GPIO_IRQ_STATUS \<noteq> 0 then poke INTC s1 GPIO_IRQ_STATUS 1 else s1)"
  have s2: "intc_mapped s2" "io_log s2 = io_log s @ (if peek INTC s1 GPIO_IRQ_STATUS \<noteq> 0 then [(INTC, GPIO_IRQ_STATUS, 1)] else [])"
    using s1 by (simp_all add: s2_def)
  show ?thesis
  proof (cases "1 \<le> irq_poll v")
    case False
    then have "gpio_wait v info q = Inr (to_u8 (irq_poll v), q\<lparr>gq_io := s\<rparr>)" by (simp add: gpio_wait_def s_def Let_def)
    then show ?thesis using s False by auto
  next
    case True
    have r1: "dev_read INTC GPIO_DATA2_OFFSET s = Inr (peek INTC s GPIO_DATA2_OFFSET)" using intc_ok [OF s(1)] by (simp add: gpio_offsets)
    have r2: "dev_read INTC GPIO_IRQ_STATUS s1 = Inr (peek INTC s1 GPIO_IRQ_STATUS)"
      "(if peek INTC s1 GPIO_IRQ_STATUS \<noteq> 0 then dev_write INTC GPIO_IRQ_STATUS 1 s1 else Inr s1) = Inr s2"
      using intc_ok [OF s1(1)] by (simp_all add: gpio_offsets s2_def)
    have "gpio_wait v info q = Inr (to_u8 (irq_poll v), \<lparr>gq_io = s2, gq_count = gq_count q + 1,
        gq_unmask = gq_unmask q @ [if irq_read v = 4 then info else 1]\<rparr>)"
      unfolding gpio_wait_def Let_def s_def [symmetric] r1 bindE_Inr s1_def [symmetric] r2 using True by simp
    then show ?thesis using s2 s(2) True by auto
  qed
qed

text \<open>
  The GPIO program unmasks the interrupt once per interrupt the system reports, with the number that
  was read, so that it relies on that number not being 0; it never unmasks it at the start. It enables the
  interrupt of the second channel, but what it clears, whenever it clears anything, is the first channel.
\<close>

theorem gpio_clears_wrong_channel:
  assumes "0 \<le> me_open e" "uio_size (me_size e) (me_junk e) = Inr sz" "sz \<noteq> 0" "me_mmap e"
    "\<forall>r \<in> set rs. quiet (fst r)"
  shows "\<exists>q ws. gpio_int_test e rs s = (Blocked, q)
    \<and> io_log (gq_io q) = io_log s @ [(INTC, GPIO_TRI2_OFFSET, 1), (INTC, GPIO_IRQ_CONTROL, 2), (INTC, GPIO_GLOBAL_IRQ, 0x80000000)] @ ws
    \<and> set ws \<subseteq> {(INTC, GPIO_IRQ_STATUS, 1)} \<and> length (gq_unmask q) = reports rs
    \<and> set (gq_unmask q) \<subseteq> insert 1 (snd ` set rs)"
proof -
  define s0 where "s0 = mmap_dev INTC True (s\<lparr>dev_size := sint sz\<rparr>)"
  have s0: "intc_mapped s0" "io_log s0 = io_log s"
    unfolding s0_def using mmap_intc [OF assms(3)] by (simp_all add: mmap_dev_def)
  obtain s1 where s1: "gpio_enable s0 = Inr s1" "intc_mapped s1" "io_log s1
      = io_log s @ [(INTC, GPIO_TRI2_OFFSET, 1), (INTC, GPIO_IRQ_CONTROL, 2), (INTC, GPIO_GLOBAL_IRQ, 0x80000000)]"
    using s0 by (simp add: gpio_enable_def intc_ok gpio_offsets)
  have rounds: "\<exists>q' ws. gpio_rounds rs q = (Blocked, q') \<and> io_log (gq_io q') = io_log (gq_io q) @ ws \<and> set ws \<subseteq> {(INTC, GPIO_IRQ_STATUS, 1)}
      \<and> length (gq_unmask q') = length (gq_unmask q) + reports rs \<and> set (gq_unmask q') \<subseteq> insert 1 (set (gq_unmask q) \<union> snd ` set rs)"
    if "\<forall>r \<in> set rs. quiet (fst r)" "intc_mapped (gq_io q)" for rs and q
    using that
  proof (induction rs arbitrary: q)
    case (Cons r rs)
    obtain v info where r: "r = (v, info)" by (cases r)
    obtain q1 ws where q1: "gpio_wait v info q = Inr (to_u8 (irq_poll v), q1)" "intc_mapped (gq_io q1)"
      "io_log (gq_io q1) = io_log (gq_io q) @ ws" "set ws \<subseteq> {(INTC, GPIO_IRQ_STATUS, 1)}"
      "gq_unmask q1 = gq_unmask q @ (if 1 \<le> irq_poll v then [if irq_read v = 4 then info else 1] else [])"
      using gpio_wait_ok [of v q info] Cons.prems r by auto
    obtain q2 ws' where q2: "gpio_rounds rs q1 = (Blocked, q2)" "io_log (gq_io q2) = io_log (gq_io q1) @ ws'"
      "set ws' \<subseteq> {(INTC, GPIO_IRQ_STATUS, 1)}" "length (gq_unmask q2) = length (gq_unmask q1) + reports rs"
      "set (gq_unmask q2) \<subseteq> insert 1 (set (gq_unmask q1) \<union> snd ` set rs)"
      using Cons.IH [of q1] Cons.prems q1(2) by auto
    have "set (gq_unmask q1) \<subseteq> insert 1 (insert info (set (gq_unmask q)))" using q1(5) by auto
    then have "set (gq_unmask q2) \<subseteq> insert 1 (set (gq_unmask q) \<union> snd ` set (r # rs))" using q2(5) r by auto
    moreover have "length (gq_unmask q2) = length (gq_unmask q) + reports (r # rs)"
      using q2(4) q1(5) r by (simp add: reports_def)
    ultimately show ?case
      using q1(1,3,4) q2(1-3) r by (intro exI [of _ q2] exI [of _ "ws @ ws'"]) simp
  qed (auto simp: reports_def)
  have "gpio_int_test e rs s = gpio_rounds rs \<lparr>gq_io = s1, gq_count = 0, gq_unmask = []\<rparr>"
    using assms(1,2,4) s1(1) by (simp add: gpio_int_test_def s0_def Let_def)
  then show ?thesis using rounds [OF assms(5), of "\<lparr>gq_io = s1, gq_count = 0, gq_unmask = []\<rparr>"] s1(2,3) by auto
qed

theorem gpio_clears_wrong_channel_witness:
  "\<exists>q. gpio_int_test env_ok [(round_of 1 1, 7), (round_of 0 1, 0)] io_none = (Blocked, q) \<and> length (gq_unmask q) = 1"
proof -
  have e: "0 \<le> me_open env_ok" "me_mmap env_ok" by (simp_all add: env_ok_def)
  have z: "uio_size (me_size env_ok) (me_junk env_ok) = Inr 0x10000" unfolding env_ok_def by code_simp
  have n: "(0x10000 :: u32) \<noteq> 0" by simp
  have v: "\<forall>r \<in> set [(round_of 1 1, 7 :: u32), (round_of 0 1, 0)]. quiet (fst r)" "reports [(round_of 1 1, 7), (round_of 0 1, 0)] = 1"
    by (simp_all add: quiet_def round_of_def reports_def)
  show ?thesis using gpio_clears_wrong_channel [OF e(1) z n e(2) v(1), of io_none] unfolding v(2) by blast
qed

end
