(* ===== verification/DmaCapture.thy ===== *)
theory DmaCapture
  imports DmaRegs
begin

unbundle bit_operations_syntax

text \<open>
  Three programs that receive one block by the DMA engine and print it: \<^verbatim>\<open>projects/dma_lago/dma_test.c\<close>,
  \<^verbatim>\<open>dma_test/dma_test.c\<close> and \<^verbatim>\<open>counter_dma/dma_test.c\<close>, written like the program of \<open>DmaRegs\<close>, whose registers
  and functions they share, for the receiving channel alone. What differs is where they map
  the destination and how much they print. The memory is given by its physical addresses, as it is when the
  block has arrived; unmapping succeeds.
\<close>

section \<open>The programs\<close>

definition S2MM_TARGET :: nat where "S2MM_TARGET = 0x0f000000"

definition capture_program :: "u32 \<Rightarrow> engine \<Rightarrow> engine res" where
  "capture_program len s =
     bindE (dma_s2mm_status (dma_set S2MM_CONTROL_REGISTER 4 (g_say ''Resetting DMA'' s))) (\<lambda>s.
     bindE (dma_s2mm_status (dma_set S2MM_CONTROL_REGISTER 0 (g_say ''Halting DMA'' s))) (\<lambda>s.
     bindE (dma_s2mm_status (dma_set S2MM_DESTINATION_ADDRESS (of_nat S2MM_TARGET) (g_say ''Writing destination address'' s))) (\<lambda>s.
     bindE (dma_s2mm_status (dma_set S2MM_CONTROL_REGISTER 0xf001
       (g_say ''Starting S2MM channel with all interrupts masked...'' s))) (\<lambda>s.
     dma_s2mm_status (dma_set S2MM_LENGTH len (g_say ''Writing S2MM transfer length...'' s))))))"

text \<open>The number of bytes is taken for the number of samples, of four bytes each.\<close>

definition dump_samples :: "(nat \<Rightarrow> u8) \<Rightarrow> nat \<Rightarrow> string list" where
  "dump_samples p byte_count = map (\<lambda>i. sample_text p (4 * i)) [0..<byte_count]"

definition dump_bytes :: "(nat \<Rightarrow> u8) \<Rightarrow> nat \<Rightarrow> string list" where
  "dump_bytes p byte_count = [memdump p byte_count]"

definition say_block :: "string list \<Rightarrow> engine \<Rightarrow> engine" where
  "say_block ls s = s\<lparr>g_lines := g_lines s @ (case ls of [] \<Rightarrow> [] | l # ls \<Rightarrow> (''Destination memory block: '' @ l) # ls)\<rparr>"

definition dma_capture ::
  "nat \<Rightarrow> nat \<Rightarrow> ((nat \<Rightarrow> u8) \<Rightarrow> nat \<Rightarrow> string list) \<Rightarrow> bool \<Rightarrow> (nat \<Rightarrow> u8) \<Rightarrow> engine \<Rightarrow> engine res" where
  "dma_capture dest len dump maps_ok phys s =
     (if \<not> maps_ok then Inl OutOfBounds
      else bindE (capture_program (of_nat len) s) (\<lambda>s.
           bindE (dma_s2mm_sync (g_say ''Waiting for S2MM sychronization...'' s)) (\<lambda>s.
           Inr (say_block (dump (\<lambda>a. phys (dest + a)) len) s))))"

definition lago_dma :: "bool \<Rightarrow> (nat \<Rightarrow> u8) \<Rightarrow> engine \<Rightarrow> engine res" where
  "lago_dma = dma_capture 0x0f000000 4096 dump_samples"

definition test_dma :: "bool \<Rightarrow> (nat \<Rightarrow> u8) \<Rightarrow> engine \<Rightarrow> engine res" where
  "test_dma = dma_capture 0x0f00000 4096 dump_samples"

definition counter_dma :: "bool \<Rightarrow> (nat \<Rightarrow> u8) \<Rightarrow> engine \<Rightarrow> engine res" where
  "counter_dma = dma_capture 0x1E000000 1024 dump_bytes"

section \<open>What they print\<close>

text \<open>The memory after a block of \<open>n\<close> bytes has arrived at the address the engine was given.\<close>

definition deliver :: "nat \<Rightarrow> (nat \<Rightarrow> u8) \<Rightarrow> (nat \<Rightarrow> u8) \<Rightarrow> nat \<Rightarrow> u8" where
  "deliver n d phys = (\<lambda>a. if S2MM_TARGET \<le> a \<and> a < S2MM_TARGET + n then d (a - S2MM_TARGET) else phys a)"

lemma sample_text_eq: "(\<And>k. k < 4 \<Longrightarrow> m (a + k) = m' (b + k)) \<Longrightarrow> sample_text m a = sample_text m' b"
proof -
  assume eq: "\<And>k. k < 4 \<Longrightarrow> m (a + k) = m' (b + k)"
  have "get_le 2 a m = get_le 2 b m'" unfolding get_le_def by (rule sum.cong) (simp_all add: eq)
  moreover have "get_le 2 (a + 2) m = get_le 2 (b + 2) m'"
    unfolding get_le_def
  proof (rule sum.cong)
    fix i :: nat assume "i \<in> {..<2}"
    then show "uint (m (a + 2 + i)) * 256 ^ i = uint (m' (b + 2 + i)) * 256 ^ i" using eq [of "2 + i"] by (simp add: add.assoc)
  qed simp
  ultimately show ?thesis by (simp add: sample_text_def)
qed

lemma dump_delivered:
  assumes "dest + 16384 \<le> S2MM_TARGET \<or> S2MM_TARGET + n \<le> dest"
  shows "dump_samples (\<lambda>a. deliver n d phys (dest + a)) 4096 = dump_samples (\<lambda>a. phys (dest + a)) 4096"
  unfolding dump_samples_def
proof (rule map_cong)
  fix i assume "i \<in> set [0..<4096]"
  then have "i < 4096" by simp
  then show "sample_text (\<lambda>a. deliver n d phys (dest + a)) (4 * i) = sample_text (\<lambda>a. phys (dest + a)) (4 * i)"
    using assms by (intro sample_text_eq) (auto simp: deliver_def)
qed simp

lemma bytes_delivered:
  assumes "S2MM_TARGET + n \<le> dest"
  shows "dump_bytes (\<lambda>a. deliver n d phys (dest + a)) k = dump_bytes (\<lambda>a. phys (dest + a)) k"
  using assms by (simp add: dump_bytes_def deliver_def)

lemma capture_cong: "dump (\<lambda>a. p (dest + a)) len = dump (\<lambda>a. p' (dest + a)) len \<Longrightarrow>
    dma_capture dest len dump ok p s = dma_capture dest len dump ok p' s"
  by (simp add: dma_capture_def)

definition capture_writes :: "u32 \<Rightarrow> (nat \<times> u32) list" where
  "capture_writes len = [(12, 4), (12, 0), (18, 0x0f000000), (12, 0xf001), (22, len)]"

lemma capture_program_ok:
  assumes "5 \<le> length (g_reads s 13)"
  shows "\<exists>s'. capture_program len s = Inr s' \<and> g_reads s' 13 = drop 5 (g_reads s 13) \<and> g_reads s' 1 = g_reads s 1
    \<and> g_writes s' = g_writes s @ capture_writes len"
  using assms by (auto simp: capture_program_def status_eq dma_set_def capture_writes_def S2MM_TARGET_def drop_bit_eq_div
      S2MM_CONTROL_REGISTER_def S2MM_DESTINATION_ADDRESS_def S2MM_LENGTH_def split: list.splits)

lemma capture_returns:
  assumes "5 \<le> length rs" "polled (drop 5 rs) ms = Some ab"
  shows "\<exists>s'. dma_capture dest len dump True phys (engine0 rs ms) = Inr s' \<and> g_writes s' = capture_writes (of_nat len)
    \<and> (\<exists>before. s' = say_block (dump (\<lambda>a. phys (dest + a)) len) before)"
proof -
  obtain s1 where s1: "capture_program (of_nat len) (engine0 rs ms) = Inr s1" "g_reads s1 13 = drop 5 rs" "g_reads s1 1 = ms"
    "g_writes s1 = capture_writes (of_nat len)"
    using capture_program_ok [of "engine0 rs ms" "of_nat len"] assms(1) unfolding engine0_def by auto
  obtain s2 where "dma_s2mm_sync (g_say ''Waiting for S2MM sychronization...'' s1) = Inr s2" "g_writes s2 = capture_writes (of_nat len)"
    using sync_polled(2) [of "g_say ''Waiting for S2MM sychronization...'' s1"] s1 assms(2) by (cases ab) auto
  then show ?thesis using s1(1) by (auto simp: dma_capture_def say_block_def)
qed

text \<open>
  What the three programs print of a block that has arrived. The first one prints the block and three
  times as much behind it, the number of bytes being taken for one of samples. The other two tell the engine
  the same address but have mapped their destination elsewhere: whatever arrives, what they print is
  the same as if nothing had arrived.
\<close>

theorem captured_block_shown:
  assumes "5 \<le> length rs" "polled (drop 5 rs) ms = Some ab"
  shows "(\<exists>s' before. lago_dma True (deliver 4096 d phys) (engine0 rs ms) = Inr s' \<and> g_writes s' = capture_writes 4096
      \<and> s' = say_block (map (\<lambda>i. sample_text d (4 * i)) [0..<1024]
          @ map (\<lambda>i. sample_text phys (S2MM_TARGET + 4 * i)) [1024..<4096]) before)
    \<and> test_dma ok (deliver 4096 d phys) s = test_dma ok phys s
    \<and> counter_dma ok (deliver 1024 d phys) s = counter_dma ok phys s"
proof -
  let ?p = "\<lambda>a. deliver 4096 d phys (0x0f000000 + a)"
  have "[0..<1024 + 3072] = [0..<1024] @ [1024..<1024 + (3072 :: nat)]" by (rule upt_add_eq_append) simp
  then have "[0..<4096] = [0..<1024] @ [1024..<4096 :: nat]" by (simp only: numeral_plus_numeral semiring_norm)
  moreover have "map (\<lambda>i. sample_text ?p (4 * i)) [0..<1024] = map (\<lambda>i. sample_text d (4 * i)) [0..<1024]"
  proof (rule map_cong)
    fix i assume "i \<in> set [0..<1024]"
    then have "i < 1024" by (simp only: set_upt atLeastLessThan_iff)
    then show "sample_text ?p (4 * i) = sample_text d (4 * i)"
      by (intro sample_text_eq) (simp add: deliver_def S2MM_TARGET_def)
  qed (rule refl)
  moreover have "map (\<lambda>i. sample_text ?p (4 * i)) [1024..<4096] = map (\<lambda>i. sample_text phys (S2MM_TARGET + 4 * i)) [1024..<4096]"
  proof (rule map_cong)
    fix i assume "i \<in> set [1024..<4096]"
    then have "1024 \<le> i" by (simp only: set_upt atLeastLessThan_iff)
    then show "sample_text ?p (4 * i) = sample_text phys (S2MM_TARGET + 4 * i)"
      by (intro sample_text_eq) (simp add: deliver_def S2MM_TARGET_def add.assoc)
  qed (rule refl)
  ultimately have "dump_samples ?p 4096 = map (\<lambda>i. sample_text d (4 * i)) [0..<1024]
      @ map (\<lambda>i. sample_text phys (S2MM_TARGET + 4 * i)) [1024..<4096]"
    by (simp only: dump_samples_def map_append)
  moreover have "test_dma ok (deliver 4096 d phys) s = test_dma ok phys s"
    unfolding test_dma_def by (rule capture_cong, rule dump_delivered) (simp add: S2MM_TARGET_def)
  moreover have "counter_dma ok (deliver 1024 d phys) s = counter_dma ok phys s"
    unfolding counter_dma_def by (rule capture_cong, rule bytes_delivered) (simp add: S2MM_TARGET_def)
  ultimately show ?thesis
    using capture_returns [OF assms, of "0x0f000000" 4096 dump_samples "deliver 4096 d phys"]
    unfolding lago_dma_def by (simp only: of_nat_numeral) blast
qed

definition six_done :: "u32 list" where
  "six_done = [0x1002, 0x1002, 0x1002, 0x1002, 0x1002, 0x1002]"

theorem captured_block_shown_witness:
  "(\<exists>s'. lago_dma True (deliver 4096 (\<lambda>_. 7) (\<lambda>_. 0)) (engine0 six_done []) = Inr s')
    \<and> test_dma True (deliver 4096 (\<lambda>_. 7) (\<lambda>_. 0)) (engine0 six_done []) = test_dma True (\<lambda>_. 0) (engine0 six_done [])"
proof -
  have r: "5 \<le> length six_done" "polled (drop 5 six_done) [] = Some ([], [])"
    by (simp_all add: six_done_def transfer_done_def push_bit_eq_mult)
  show ?thesis
    using captured_block_shown [OF r, of "\<lambda>_. 7" "\<lambda>_. 0" True "engine0 six_done []"] by blast
qed

end
