(* ===== verification/Older.thy ===== *)
theory Older
  imports LagoMain Versions
begin

unbundle bit_operations_syntax

text \<open>
  The programs of versions 1.0 and 1.1, \<^verbatim>\<open>projects/lago_v1_0/src/lago.c\<close> and \<^verbatim>\<open>projects/lago_v1_1/src/lago.c\<close>.
  Where they differ from version 1.2 the version is an argument: the registers and the calibration
  of the high voltages, the lines about voltages in the data file and on the terminal, and three
  lines of the header. Everything else they share with version 1.2 and is taken from its model. The
  theorems say that with version 1.2 as the argument this is the program of \<open>LagoMain\<close>, and that all three
  write the same data.
\<close>

section \<open>What the version decides\<close>

datatype version = V10 | V11 | V12

definition ver_reg :: "version \<Rightarrow> nat \<Rightarrow> nat \<Rightarrow> nat" where
  "ver_reg v old new = (if v = V10 then old else new)"

definition ver_header_text :: "version \<Rightarrow> string list" where
  "ver_header_text v =
     (if v = V10 then take 11 header_text @ take 3 (drop 13 header_text) @ drop 17 header_text
      else header_text)"

text \<open>The high voltage that belongs to a register, in the header of a file.\<close>

definition ver_hv_of_dac :: "version \<Rightarrow> u32 \<Rightarrow> flt" where
  "ver_hv_of_dac v d =
     (if v = V10 then fadd FLOAT (fmul FLOAT v10_gain_a (f_of_int FLOAT (uint d))) v10_gain_b else hv_of_dac d)"

text \<open>The high voltage that belongs to a voltage at the converter.\<close>

definition ver_hv :: "version \<Rightarrow> flt \<Rightarrow> flt res" where
  "ver_hv v x =
     (if v = V12 then bindE hv_scale (\<lambda>k. Inr (fmul DOUBLE x k)) else fdiv DOUBLE x (fdec 31949 7))"

section \<open>The data file\<close>

definition ver_new_file :: "version \<Rightarrow> daq_env \<Rightarrow> io \<Rightarrow> daq \<Rightarrow> daq res" where
  "ver_new_file v e s d =
     (let d = (if \<not> d_toStdout d then open_file e d else d)
      in bindE (emits (ver_header_text v) d) (\<lambda>d.
         bindE (dev_read CFG CFG_TRLVL_1_OFFSET s) (\<lambda>t1.
         bindE (emit (''# x c T1 '' @ show_d t1) d) (\<lambda>d.
         bindE (dev_read CFG CFG_TRLVL_2_OFFSET s) (\<lambda>t2.
         bindE (emit (''# x c T2 '' @ show_d t2) d) (\<lambda>d.
         bindE (dev_read CFG (ver_reg v V10_CFG_HV1_OFFSET CFG_HV1_OFFSET) s) (\<lambda>h1.
         bindE (emit (''# x c HV1 '' @ show_fix 1 (ver_hv_of_dac v h1) @ '' mV'') d) (\<lambda>d.
         bindE (dev_read CFG (ver_reg v V10_CFG_HV2_OFFSET CFG_HV2_OFFSET) s) (\<lambda>h2.
         bindE (emit (''# x c HV2 '' @ show_fix 1 (ver_hv_of_dac v h2) @ '' mV'') d) (\<lambda>d.
         bindE (dev_read CFG CFG_TR_SCAL_A_OFFSET s) (\<lambda>sa.
         bindE (emit (''# x c SC1 '' @ show_d sa) d) (\<lambda>d.
         bindE (dev_read CFG CFG_TR_SCAL_B_OFFSET s) (\<lambda>sb.
         emits ([''# x c SC2 '' @ show_d sb,
                 ''# # This file was started on '' @ hostname e,
                 ''# # Machine local time was '' @ local_time e]
                @ (if falseGPS d then [''# # WARNING, there is no GPS, using PC time''] else [])
                @ [''# #'']) d)))))))))))))"

definition ver_pps_clock :: "version \<Rightarrow> daq_env \<Rightarrow> io \<Rightarrow> u32 \<Rightarrow> daq \<Rightarrow> daq res" where
  "ver_pps_clock v e s wo d =
     (if falseGPS d then
        let d = d\<lparr>fileDate := (fileDate d)\<lparr>tm_sec := tm_sec (fileDate d) + 1\<rparr>\<rparr>
        in if tm_sec (fileDate d) = 60 \<and> tm_min (fileDate d) = 59
           then (if \<not> d_toStdout d then ver_new_file v e s d else Inr d)
           else Inr (normalise d)
      else
        let h = uint (drop_bit 16 wo AND 0xFF)
        in bindE
             (if to_u32 (tm_hour (fileDate d)) \<noteq> h then
                let d = (if to_u32 (tm_hour (fileDate d)) > h
                         then d\<lparr>fileDate := (fileDate d)\<lparr>tm_mday := tm_mday (fileDate d) + 1\<rparr>\<rparr> else d);
                    d = d\<lparr>fileDate := (fileDate d)\<lparr>tm_hour := h\<rparr>\<rparr>
                in if \<not> d_toStdout d then ver_new_file v e s d else Inr d
              else Inr d)
             (\<lambda>d. Inr (d\<lparr>fileDate := (fileDate d)\<lparr>tm_hour := h,
                           tm_min := uint (drop_bit 8 wo AND 0xFF), tm_sec := uint (wo AND 0xFF)\<rparr>\<rparr>)))"

text \<open>Version 1.0 does not write the high voltages.\<close>

definition ver_voltages :: "version \<Rightarrow> io \<Rightarrow> daq \<Rightarrow> daq res" where
  "ver_voltages v s d =
     (if v = V10 then Inr d
      else bindE (get_voltage XADC_AI2_OFFSET s) (\<lambda>v2.
           bindE (ver_hv v v2) (\<lambda>h2.
           bindE (get_voltage XADC_AI3_OFFSET s) (\<lambda>v3.
           bindE (ver_hv v v3) (\<lambda>h3.
           emit (''# x v '' @ show_fix 1 h2 @ '' '' @ show_fix 1 h3) d)))))"

definition ver_on_pps :: "version \<Rightarrow> daq_env \<Rightarrow> io \<Rightarrow> u32 \<Rightarrow> daq \<Rightarrow> daq res" where
  "ver_on_pps v e s wo d =
     bindE (ver_pps_clock v e s wo d) (\<lambda>d.
     let d = normalise (d\<lparr>mtd_seconds := to_i32 (mtd_seconds d + 1)\<rparr>)
     in bindE (emit (time_line wo d) d) (\<lambda>d.
        bindE (ver_voltages v s d) (\<lambda>d.
        bindE (get_temp_AD592 XADC_AI0_OFFSET s) (\<lambda>a0.
        bindE (get_temp_AD592 XADC_AI1_OFFSET s) (\<lambda>a1.
        bindE (emit (''# p '' @ show_int (to_u32 (hack d)) @ '' '' @ show_fix 1 a0 @ '' '' @ show_fix 1 a1)
                 (d\<lparr>hack := to_i32 (hack d + 1)\<rparr>)) (\<lambda>d.
        Inr (d\<lparr>d_console := d_console d
                 @ (if hack d smod 60 = 0 then [[]] else [])
                 @ [''rates '' @ pad 5 (show_int (rate1 d)) @ '' '' @ pad 5 (show_int (rate2 d))
                    @ '', PPS '' @ show_int (to_u32 (hack d)) @ ''        '' @ [CR]]\<rparr>)))))))"

definition ver_decode_word :: "version \<Rightarrow> daq_env \<Rightarrow> io \<Rightarrow> u32 \<Rightarrow> daq \<Rightarrow> daq res" where
  "ver_decode_word v e s wo d =
     (if drop_bit 27 wo = 0x1B then ver_on_pps v e s wo d else decode_word e s wo d)"

definition ver_first_time :: "version \<Rightarrow> daq_env \<Rightarrow> io \<Rightarrow> daq \<Rightarrow> daq res" where
  "ver_first_time v e s d =
     (if \<not> fFirstTime d then Inr d
      else bindE (dev_read CFG CFG_RESET_GRAL_OFFSET s) (\<lambda>g.
        let d = d\<lparr>fileTime := now e, fileDate := gmtime (now e)\<rparr>;
            d = (if drop_bit 4 g AND 1 = 1 then d\<lparr>falseGPS := True\<rparr>
                 else normalise (d\<lparr>fileDate := \<lparr>tm_sec = 55, tm_min = 55, tm_hour = 10, tm_mday = 29,
                                                 tm_mon = 8, tm_year = 2018\<rparr>\<rparr>))
        in bindE (ver_new_file v e s d) (\<lambda>d. Inr (d\<lparr>fFirstTime := False\<rparr>))))"

function ver_read_words :: "version \<Rightarrow> daq_env \<Rightarrow> io \<Rightarrow> int \<Rightarrow> int \<Rightarrow> ring \<Rightarrow> daq \<Rightarrow> (ring \<times> daq) res" where
  "ver_read_words v e s i readend q d =
     (if i < readend then
        bindE (dev_read MEM (nat i) s) (\<lambda>wo.
        bindE (ver_decode_word v e s wo d) (\<lambda>d.
        ver_read_words v e s (i + 4) readend (q\<lparr>current := i\<rparr>) d))
      else Inr (q, d))"
  by pat_completeness auto
termination by (relation "measure (\<lambda>(_, _, _, i, r, _). nat (r - i))") auto

declare ver_read_words.simps [simp del]

definition ver_read_buffer :: "version \<Rightarrow> daq_env \<Rightarrow> io \<Rightarrow> int \<Rightarrow> ring \<Rightarrow> daq \<Rightarrow> (int \<times> ring \<times> daq) res" where
  "ver_read_buffer v e s position q d =
     bindE (ver_first_time v e s (start_call d)) (\<lambda>d.
         bindE (cmul position 8) (\<lambda>pos.
         let q = (if current q = limit q - 4 then q\<lparr>current := - 4\<rparr> else q);
             (readinit, readend) = read_window (limit q) (current q) pos
         in bindE (if current q \<noteq> pos then ver_read_words v e s readinit readend q d else Inr (q, d)) (\<lambda>(q, d).
            Inr (1, q, d))))"

section \<open>The command line and the program\<close>

definition ver_cfg_reg_of :: "version \<Rightarrow> string \<Rightarrow> nat option" where
  "ver_cfg_reg_of v r =
     (if r = ''hv1'' \<or> r = ''ov1'' then Some (ver_reg v V10_CFG_HV1_OFFSET CFG_HV1_OFFSET)
      else if r = ''hv2'' \<or> r = ''ov2'' then Some (ver_reg v V10_CFG_HV2_OFFSET CFG_HV2_OFFSET)
      else if r = ''ov3'' then Some (ver_reg v V10_CFG_HV3_OFFSET CFG_HV3_OFFSET)
      else if r = ''ov4'' then Some (ver_reg v V10_CFG_HV4_OFFSET CFG_HV4_OFFSET)
      else cfg_reg_of r)"

definition ver_parse_set :: "version \<Rightarrow> string list \<Rightarrow> params \<Rightarrow> (int \<times> params) res" where
  "ver_parse_set v argv p =
     bindE (arg_at argv 2) (\<lambda>a2.
     let p = p\<lparr>charReg := StrcpyS (charReg p) MAXCHRLEN a2\<rparr>
     in case ver_cfg_reg_of v (charReg p) of None \<Rightarrow> Inr (0, p)
        | Some off \<Rightarrow>
            let p = p\<lparr>reg_off := off\<rparr>
            in bindE (arg_at argv 3) (\<lambda>a3.
               let p = p\<lparr>charRegValue := StrcpyS (charRegValue p) 16 a3\<rparr>
               in if is_voltage (charReg p)
                  then (if atoi (charRegValue p) > 2500 then Inl (Exit 1)
                        else Inr (1, p\<lparr>fRegValue := True\<rparr>))
                  else Inr (1, p)))"

definition ver_parse_rest :: "version \<Rightarrow> string list \<Rightarrow> params \<Rightarrow> (int \<times> params) res" where
  "ver_parse_rest v argv p =
     (if \<not> fReadReg p \<and> \<not> fWriteReg p \<and> fSetCfgReg p then ver_parse_set v argv p else parse_rest argv p)"

definition ver_parse_param :: "version \<Rightarrow> string list \<Rightarrow> params \<Rightarrow> (int \<times> params) res" where
  "ver_parse_param v argv p =
     (let p = clear_flags p
      in if length argv < 2 then Inr (0, p)
         else case parse_action (p\<lparr>charAction := StrcpyS (charAction p) MAXCHRLEN (argv ! 1)\<rparr>) of
                (Some r, p) \<Rightarrow> Inr (r, p)
              | (None, p) \<Rightarrow> ver_parse_rest v argv p)"

definition ver_init_system :: "version \<Rightarrow> io \<Rightarrow> (int \<times> io) res" where
  "ver_init_system v = (if v = V10 then v10_init_system else init_system)"

definition ver_first_access :: "version \<Rightarrow> world \<Rightarrow> io \<Rightarrow> io res" where
  "ver_first_access v w s =
     bindE (dev_read CFG CFG_RESET_GRAL_OFFSET s) (\<lambda>g.
     if g \<noteq> 0 then Inr s
     else bindE (ver_init_system v (put_line ''Initializing registers...'' s)) (\<lambda>(_, s).
          if w_thread w \<noteq> 0 then Inl (Exit 1)
          else bindE (enable_interrupt s) (\<lambda>(_, s). Inr s)))"

definition ver_channel :: "version \<Rightarrow> string \<Rightarrow> flt \<Rightarrow> string res" where
  "ver_channel v ch c =
     (if v = V10 then Inr (''Voltage '' @ ch @ '': '' @ show_fix 3 c)
      else bindE (ver_hv v c) (\<lambda>h. Inr (''Voltage '' @ ch @ '': '' @ show_fix 3 c @ '' V ('' @ show_fix 1 h @ '' V)'')))"

definition ver_print_xadc :: "version \<Rightarrow> io \<Rightarrow> io res" where
  "ver_print_xadc v s =
     bindE (get_voltage XADC_AI0_OFFSET s) (\<lambda>c1.
     bindE (get_voltage XADC_AI1_OFFSET s) (\<lambda>c2.
     bindE (get_voltage XADC_AI2_OFFSET s) (\<lambda>c3.
     bindE (ver_channel v ''CH3'' c3) (\<lambda>l3.
     bindE (get_voltage XADC_AI3_OFFSET s) (\<lambda>c4.
     bindE (ver_channel v ''CH4'' c4) (\<lambda>l4.
     bindE (get_temp_AD592 XADC_AI0_OFFSET s) (\<lambda>t1.
     bindE (get_temp_AD592 XADC_AI1_OFFSET s) (\<lambda>t2.
     Inr (foldl (\<lambda>s l. put_line l s) s
       [''Reading XADC channels...'',
        ''Voltage CH1: '' @ show_fix 3 c1,
        ''Voltage CH2: '' @ show_fix 3 c2,
        l3, l4,
        ''Base temperature CH1: '' @ show_fix 1 t1 @ '' '' @ [CHR 0xC2, CHR 0xBA] @ ''C'',
        ''Base temperature CH2: '' @ show_fix 1 t2 @ '' '' @ [CHR 0xC2, CHR 0xBA] @ ''C''])))))))))"

fun ver_daq_loop ::
  "version \<Rightarrow> daq_env \<Rightarrow> irq option list \<Rightarrow> int \<Rightarrow> io \<Rightarrow> ring \<Rightarrow> daq \<Rightarrow> (int \<times> io \<times> ring \<times> daq) res" where
  "ver_daq_loop v e [] position s q d = Inl Blocked"
| "ver_daq_loop v e (None # rs) position s q d = Inr (position, s, q, d)"
| "ver_daq_loop v e (Some i # rs) position s q d =
     bindE (wait_for_interrupt i s position) (\<lambda>(ret, s, position).
     bindE (ver_read_buffer v e s position q d) (\<lambda>(_, q, d).
     ver_daq_loop v e rs position s q d))"

definition ver_acquire ::
  "version \<Rightarrow> daq_env \<Rightarrow> irq option list \<Rightarrow> int \<Rightarrow> io \<Rightarrow> daq \<Rightarrow> (int \<times> io \<times> ring \<times> daq) res" where
  "ver_acquire v e rs position s d =
     bindE (start_daq s) (\<lambda>s.
     bindE (ver_daq_loop v e rs position s ring0 d) (\<lambda>(position, s, q, d).
     bindE (stop_daq s) (\<lambda>s.
     Inr (position, s, q, d))))"

definition ver_run_action :: "version \<Rightarrow> world \<Rightarrow> params \<Rightarrow> io \<Rightarrow> daq \<Rightarrow> (io \<times> daq) res" where
  "ver_run_action v w p s d =
     (if fReadReg p then bindE (rd_reg_value (n_dev p) (reg_off p) s) (\<lambda>(_, s). Inr (s, d))
      else if fWriteReg p then bindE (wr_reg_value (n_dev p) (reg_off p) (reg_val p) s) (\<lambda>(_, s). Inr (s, d))
      else if fSetCfgReg p then
        (if fRegValue p
         then bindE ((if v = V10 then v10_set_voltage else set_voltage) (reg_off p) (atoi (charRegValue p)) s) (\<lambda>s. Inr (s, d))
         else bindE (wr_reg_value 1 (reg_off p) (word_of_int (atoi (charRegValue p))) s) (\<lambda>(_, s). Inr (s, d)))
      else if fGetCfgStatus p then
        bindE ((if v = V10 then v10_rd_cfg_status else rd_cfg_status) s) (\<lambda>(_, s). Inr (s, d))
      else if fGetPT p then print_pt w s d
      else if fGetGPS p then bindE (print_gps w s) (\<lambda>s. Inr (s, d))
      else if fInitSystem p then
        bindE (ver_init_system v (put_line ''Initializing registers...'' s)) (\<lambda>(_, s). Inr (s, d))
      else if fGetXADC p then bindE (ver_print_xadc v s) (\<lambda>s. Inr (s, d))
      else if fToFile p \<or> fToStdout p then
        bindE (ver_acquire v (w_daq w) (w_rounds w) 0 s
                 (d\<lparr>d_toStdout := fToStdout p, d_charFile := charFile p\<rparr>)) (\<lambda>(_, s, _, d). Inr (s, d))
      else Inr (s, d))"

definition ver_main ::
  "version \<Rightarrow> world \<Rightarrow> string list \<Rightarrow> params \<Rightarrow> io \<Rightarrow> daq \<Rightarrow> (int \<times> (io \<times> int list) \<times> daq) res" where
  "ver_main v w argv p0 s d =
     bindE (bmp180_init (w_bmp w) (w_fresh w) 0x77 ''/dev/i2c-0'' (d_i2c d)) (\<lambda>(b, i).
     bindE (bmp180_dump_eprom b) (\<lambda>_.
     bindE (bmp180_set_oss 1 b) (\<lambda>b.
     let d = d\<lparr>d_bmp := b, d_i2c := i\<rparr>
     in bindE (ver_parse_param v argv p0) (\<lambda>(ok, p).
        if ok = 0 then
          bindE (arg_at argv 0) (\<lambda>prog.
          Inr (1, (s\<lparr>io_out := io_out s @ p_out p @ show_usage prog p\<rparr>, []), d))
        else
          bindE (init_devices w s) (\<lambda>s.
          bindE (ver_first_access v w s) (\<lambda>s.
          bindE (ver_run_action v w p s d) (\<lambda>(s, d).
          Inr (0, close_devices s, d))))))))"

text \<open>The two programs, and those of their functions that differ.\<close>

definition v10_new_file :: "daq_env \<Rightarrow> io \<Rightarrow> daq \<Rightarrow> daq res" where "v10_new_file = ver_new_file V10"
definition v10_header_text :: "string list" where "v10_header_text = ver_header_text V10"
definition v10_on_pps :: "daq_env \<Rightarrow> io \<Rightarrow> u32 \<Rightarrow> daq \<Rightarrow> daq res" where "v10_on_pps = ver_on_pps V10"
definition v10_print_xadc :: "io \<Rightarrow> io res" where "v10_print_xadc = ver_print_xadc V10"
definition v10_acquire :: "daq_env \<Rightarrow> irq option list \<Rightarrow> int \<Rightarrow> io \<Rightarrow> daq \<Rightarrow> (int \<times> io \<times> ring \<times> daq) res" where
  "v10_acquire = ver_acquire V10"
definition v10_read_buffer :: "daq_env \<Rightarrow> io \<Rightarrow> int \<Rightarrow> ring \<Rightarrow> daq \<Rightarrow> (int \<times> ring \<times> daq) res" where
  "v10_read_buffer = ver_read_buffer V10"
definition v10_parse_param :: "string list \<Rightarrow> params \<Rightarrow> (int \<times> params) res" where "v10_parse_param = ver_parse_param V10"
definition v10_main :: "world \<Rightarrow> string list \<Rightarrow> params \<Rightarrow> io \<Rightarrow> daq \<Rightarrow> (int \<times> (io \<times> int list) \<times> daq) res" where
  "v10_main = ver_main V10"
definition v11_main :: "world \<Rightarrow> string list \<Rightarrow> params \<Rightarrow> io \<Rightarrow> daq \<Rightarrow> (int \<times> (io \<times> int list) \<times> daq) res" where
  "v11_main = ver_main V11"

section \<open>With version 1.2 it is the program of version 1.2\<close>

lemma ver_new_file_V12: "ver_new_file V12 = new_file"
  by (intro ext) (simp add: ver_new_file_def new_file_def ver_header_text_def ver_reg_def ver_hv_of_dac_def)

lemma ver_voltages_V12:
  "ver_voltages V12 s d = bindE hv_scale (\<lambda>k. bindE (get_voltage XADC_AI2_OFFSET s) (\<lambda>v2.
     bindE (get_voltage XADC_AI3_OFFSET s) (\<lambda>v3.
     emit (''# x v '' @ show_fix 1 (fmul DOUBLE v2 k) @ '' '' @ show_fix 1 (fmul DOUBLE v3 k)) d)))"
proof -
  obtain k where k: "hv_scale = Inr k" using hv_scale_defined by blast
  show ?thesis unfolding ver_voltages_def ver_hv_def k by simp
qed

lemma ver_decode_V12: "ver_decode_word V12 = decode_word"
proof (intro ext)
  fix e s wo d
  have "ver_pps_clock V12 e s wo d = pps_clock e s wo d"
    unfolding ver_pps_clock_def pps_clock_def ver_new_file_V12 by (rule refl)
  then have "ver_on_pps V12 e s wo d = on_pps e s wo d"
    by (simp add: ver_on_pps_def on_pps_def ver_voltages_V12 bindE_assoc Let_def)
  moreover have "drop_bit 27 wo = 0x1B \<Longrightarrow> decode_word e s wo d = on_pps e s wo d"
  proof -
    assume *: "drop_bit 27 wo = 0x1B"
    have "drop_bit 30 wo = drop_bit 3 (drop_bit 27 wo)" by simp
    then have "drop_bit 30 wo = 3" unfolding * by simp
    then show ?thesis using * by (simp add: decode_word_def on_status_def)
  qed
  ultimately show "ver_decode_word V12 e s wo d = decode_word e s wo d" by (simp add: ver_decode_word_def)
qed

lemma ver_read_words_V12: "ver_read_words V12 e s i readend q d = read_words e s i readend q d"
proof (induction e s i readend q d rule: read_words.induct)
  case (1 e s i readend q d)
  then have *: "(if i < readend then bindE (dev_read MEM (nat i) s) (\<lambda>wo. bindE (decode_word e s wo d) (\<lambda>d.
        ver_read_words V12 e s (i + 4) readend (q\<lparr>current := i\<rparr>) d)) else Inr (q, d))
      = (if i < readend then bindE (dev_read MEM (nat i) s) (\<lambda>wo. bindE (decode_word e s wo d) (\<lambda>d.
        read_words e s (i + 4) readend (q\<lparr>current := i\<rparr>) d)) else Inr (q, d))"
    by (simp cong: bindE_cong)
  show ?case
    unfolding ver_read_words.simps [of V12 e s i] read_words.simps [of e s i] ver_decode_V12 by (rule *)
qed

lemma ver_read_buffer_V12: "ver_read_buffer V12 e s position q d = read_buffer e s position q d"
  unfolding ver_read_buffer_def read_buffer_def ver_read_words_V12 ver_first_time_def first_time_def ver_new_file_V12
  by (rule refl)

lemma ver_daq_loop_V12: "ver_daq_loop V12 e rs position s q d = daq_loop e rs position s q d"
  by (induction e rs position s q d rule: daq_loop.induct) (auto simp: ver_read_buffer_V12 bindE_def split: sum.splits)

lemma ver_parse_V12: "ver_parse_param V12 = parse_param"
proof (intro ext)
  fix argv p
  have "ver_cfg_reg_of V12 = cfg_reg_of" by (intro ext) (auto simp: ver_cfg_reg_of_def cfg_reg_of_def ver_reg_def)
  then have r: "ver_parse_rest V12 = parse_rest"
    by (intro ext) (simp add: ver_parse_rest_def parse_rest_def ver_parse_set_def parse_set_def)
  show "ver_parse_param V12 argv p = parse_param argv p" unfolding ver_parse_param_def parse_param_def r by (rule refl)
qed

lemma ver_xadc_V12: "ver_print_xadc V12 s = print_xadc s"
proof -
  obtain k where k: "hv_scale = Inr k" using hv_scale_defined by blast
  show ?thesis unfolding ver_print_xadc_def print_xadc_def ver_channel_def ver_hv_def k by simp
qed

text \<open>With version 1.2 as its argument the program with versions is the program of version 1.2.\<close>

theorem versions_meet: "ver_main V12 = lago_main"
proof (intro ext)
  fix w argv p0 s d
  have i: "ver_init_system V12 = init_system" by (simp add: ver_init_system_def)
  have a: "ver_first_access V12 = first_access"
    by (intro ext) (simp add: ver_first_access_def first_access_def i cong: bindE_cong if_cong)
  have q: "ver_acquire V12 = acquire" by (intro ext) (simp add: ver_acquire_def acquire_def ver_daq_loop_V12)
  have b: "ver_run_action V12 = run_action"
    unfolding ver_run_action_def run_action_def i ver_xadc_V12 q by (intro ext) simp
  show "ver_main V12 w argv p0 s d = lago_main w argv p0 s d"
    unfolding ver_main_def lago_main_def a b ver_parse_V12 by (rule refl)
qed

section \<open>All versions write the same data\<close>

text \<open>The lines that depend on the version: the voltages, those set and those measured, and three of the header.\<close>

definition version_line :: "string \<Rightarrow> bool" where
  "version_line l \<longleftrightarrow> take 6 l = ''# x v '' \<or> take 8 l = ''# x c HV''
     \<or> l \<in> {header_text ! 11, header_text ! 12, header_text ! 16}"

definition data_lines :: "(stream \<times> string) list \<Rightarrow> (stream \<times> string) list" where
  "data_lines out = [x \<leftarrow> out. \<not> version_line (snd x)]"

definition same_data :: "daq \<Rightarrow> daq \<Rightarrow> bool" where
  "same_data d d' \<longleftrightarrow> (\<exists>out. d' = d\<lparr>d_out := out\<rparr> \<and> data_lines out = data_lines (d_out d))"

fun agree :: "('a \<Rightarrow> 'a \<Rightarrow> bool) \<Rightarrow> 'a res \<Rightarrow> 'a res \<Rightarrow> bool" where
  "agree R (Inl e) (Inl e') \<longleftrightarrow> e = e'"
| "agree R (Inr x) (Inr x') \<longleftrightarrow> R x x'"
| "agree R _ _ \<longleftrightarrow> False"

named_theorems agree_rules "steps of two versions that agree"

lemma agree_Inr [agree_rules]: "R x x' \<Longrightarrow> agree R (Inr x) (Inr x')"
  by simp

lemma agree_bindE_eq:
  "agree R m m' \<Longrightarrow> (\<And>x x'. m = Inr x \<Longrightarrow> m' = Inr x' \<Longrightarrow> R x x' \<Longrightarrow> agree S (f x) (f' x'))
    \<Longrightarrow> agree S (bindE m f) (bindE m' f')"
  by (cases m; cases m') auto

lemma agree_bindE: "agree R m m' \<Longrightarrow> (\<And>x x'. R x x' \<Longrightarrow> agree S (f x) (f' x')) \<Longrightarrow> agree S (bindE m f) (bindE m' f')"
  by (rule agree_bindE_eq)

lemma agree_bind [agree_rules]:
  "agree same_data m m' \<Longrightarrow> (\<And>d d'. same_data d d' \<Longrightarrow> agree S (f d) (f' d')) \<Longrightarrow> agree S (bindE m f) (bindE m' f')"
  by (rule agree_bindE)

lemma agree_same: "(\<And>x. m = Inr x \<Longrightarrow> agree S (f x) (f' x)) \<Longrightarrow> agree S (bindE m f) (bindE m f')"
  by (cases m) auto

lemma agree_word [agree_rules]: "(\<And>x. agree S (f x) (f' x)) \<Longrightarrow> agree S (bindE m f) (bindE m f')" for m :: "u32 res"
  by (rule agree_same)

lemma agree_flt [agree_rules]: "(\<And>x. agree S (f x) (f' x)) \<Longrightarrow> agree S (bindE m f) (bindE m f')" for m :: "flt res"
  by (rule agree_same)

lemma agree_if [agree_rules]:
  "b = b' \<Longrightarrow> (b \<Longrightarrow> agree S m n) \<Longrightarrow> (\<not> b \<Longrightarrow> agree S m' n') \<Longrightarrow> agree S (if b then m else m') (if b' then n else n')"
  by simp

lemma same_data_fields:
  "same_data d d' \<longleftrightarrow> data_lines (d_out d') = data_lines (d_out d)
     \<and> d_i2c d' = d_i2c d \<and> d_bmp d' = d_bmp d \<and> fhout d' = fhout d \<and> d_console d' = d_console d
     \<and> d_toStdout d' = d_toStdout d \<and> d_charFile d' = d_charFile d \<and> charCurrentFile d' = charCurrentFile d \<and> charCurrentMetaData d' = charCurrentMetaData d
     \<and> fileTime d' = fileTime d \<and> fileDate d' = fileDate d \<and> falseGPS d' = falseGPS d \<and> fFirstTime d' = fFirstTime d
     \<and> mtd_seconds d' = mtd_seconds d \<and> mtd_bl d' = mtd_bl d \<and> mtd_bl2 d' = mtd_bl2 d \<and> mtd_iBin d' = mtd_iBin d
     \<and> mtd_cbl d' = mtd_cbl d \<and> mtd_dp d' = mtd_dp d \<and> mtd_cdp d' = mtd_cdp d \<and> mtd_pulse_cnt d' = mtd_pulse_cnt d
     \<and> mtd_pulse_pnt d' = mtd_pulse_pnt d \<and> rates_trig d' = rates_trig d \<and> rate1 d' = rate1 d \<and> rate2 d' = rate2 d
     \<and> hack d' = hack d \<and> gps_lat d' = gps_lat d \<and> gps_lon d' = gps_lon d \<and> gps_alt d' = gps_alt d
     \<and> g_data d' = g_data d"
  unfolding same_data_def by (cases d; cases d') auto

lemma same_data_refl [simp]: "same_data d d"
  by (auto simp: same_data_def intro: exI [of _ "d_out d"])

lemma same_data_sel:
  assumes "same_data d d'"
  shows "fhout d' = fhout d" "d_toStdout d' = d_toStdout d" "falseGPS d' = falseGPS d" "fFirstTime d' = fFirstTime d"
    "fileDate d' = fileDate d"
  using assms by (auto simp: same_data_def)

lemma data_lines_append [simp]: "data_lines (xs @ ys) = data_lines xs @ data_lines ys"
  by (simp add: data_lines_def)

lemma same_data_append:
  assumes "same_data d d'" "data_lines ls = data_lines ls'"
  shows "same_data (d\<lparr>d_out := d_out d @ ls\<rparr>) (d'\<lparr>d_out := d_out d' @ ls'\<rparr>)"
  using assms by (auto simp: same_data_def)

lemma agree_emit [agree_rules]:
  assumes "same_data d d'" "l = l' \<or> version_line l \<and> version_line l'"
  shows "agree same_data (emit l d) (emit l' d')"
proof -
  have "data_lines [(fhout d, l)] = data_lines [(fhout d, l')]" using assms(2) by (auto simp: data_lines_def)
  then show ?thesis using assms(1) same_data_sel [OF assms(1)] by (auto simp: emit_def intro: same_data_append)
qed

lemma agree_emits [agree_rules]:
  assumes "same_data d d'" "[l \<leftarrow> ls. \<not> version_line l] = [l \<leftarrow> ls'. \<not> version_line l]" "ls = [] \<longleftrightarrow> ls' = []"
  shows "agree same_data (emits ls d) (emits ls' d')"
proof (cases "fhout d = NoFile")
  case True
  then show ?thesis
    using assms same_data_sel(1) [OF assms(1)] by (cases ls; cases ls') (auto simp: emits_def emit_def)
next
  case False
  have "data_lines (map (Pair f) ls) = data_lines (map (Pair f) ls')" for f
    using arg_cong [OF assms(2), of "map (Pair f)"] by (simp add: data_lines_def filter_map comp_def)
  then show ?thesis
    using False assms(1) same_data_sel(1) [OF assms(1)] by (simp add: emits_open same_data_append)
qed

lemma agree_with_bmp [agree_rules]:
  assumes "same_data d d'" "\<And>v d1 d1'. same_data d1 d1' \<Longrightarrow> agree S (f v d1) (f' v d1')"
  shows "agree S (bindE (with_bmp g d) (\<lambda>(v, d). f v d)) (bindE (with_bmp g d') (\<lambda>(v, d). f' v d))"
proof -
  obtain out where d': "d' = d\<lparr>d_out := out\<rparr>" "data_lines out = data_lines (d_out d)"
    using assms(1) by (auto simp: same_data_def)
  have "agree (\<lambda>x y. fst x = fst y \<and> same_data (snd x) (snd y)) (with_bmp g d) (with_bmp g d')"
    using d' by (auto simp: with_bmp_def same_data_fields bindE_def split: option.splits sum.splits)
  then show ?thesis by (rule agree_bindE) (auto simp: assms(2))
qed

lemma split_header:
  assumes "17 \<le> length h"
  shows "h = take 11 h @ [h ! 11, h ! 12] @ take 3 (drop 13 h) @ [h ! 16] @ drop 17 h"
proof -
  have "drop 11 h = h ! 11 # h ! 12 # drop 13 h"
    using Cons_nth_drop_Suc [of 11 h] Cons_nth_drop_Suc [of 12 h] assms by simp
  moreover have "drop 13 h = take 3 (drop 13 h) @ drop 16 h" using append_take_drop_id [of 3 "drop 13 h"] by simp
  moreover have "drop 16 h = h ! 16 # drop 17 h" using Cons_nth_drop_Suc [of 16 h] assms by simp
  ultimately have "drop 11 h = [h ! 11, h ! 12] @ take 3 (drop 13 h) @ [h ! 16] @ drop 17 h" by simp
  then show ?thesis using append_take_drop_id [of 11 h] by simp
qed

lemma header_filter: "[l \<leftarrow> ver_header_text v. \<not> version_line l] = [l \<leftarrow> header_text. \<not> version_line l]"
proof -
  let ?f = "filter (\<lambda>l. \<not> version_line l)"
  let ?h = header_text
  have hid: "?f [?h ! 11, ?h ! 12] = []" "?f [?h ! 16] = []" by (simp_all add: version_line_def)
  have "17 \<le> length ?h" by (simp add: header_text_def)
  then have "?f ?h = ?f (take 11 ?h @ [?h ! 11, ?h ! 12] @ take 3 (drop 13 ?h) @ [?h ! 16] @ drop 17 ?h)"
    by (intro arg_cong [of _ _ ?f] split_header)
  also have "\<dots> = ?f (take 11 ?h @ take 3 (drop 13 ?h) @ drop 17 ?h)" by (simp only: filter_append hid append_Nil)
  finally show ?thesis by (simp only: ver_header_text_def split: if_split) simp
qed

lemma header_hidden: "[l \<leftarrow> ver_header_text v. \<not> version_line l] = [l \<leftarrow> ver_header_text v'. \<not> version_line l]"
  by (simp only: header_filter)

lemma hv_line: "version_line (''# x c HV1 '' @ r)" "version_line (''# x c HV2 '' @ r)" "version_line (''# x v '' @ r)"
  unfolding version_line_def by simp_all

lemma agree_new_file [agree_rules]:
  assumes "io_ready s" "same_data d d'"
  shows "agree same_data (ver_new_file v e s d) (ver_new_file v' e s d')"
proof -
  have o: "same_data (open_file e d) (open_file e d')"
    using assms(2) by (simp add: open_file_def normalise_def file_stem_def same_data_fields Let_def)
  have n: "ver_header_text v \<noteq> []" for v by (simp add: ver_header_text_def header_text_def)
  have r: "\<exists>w. dev_read CFG (ver_reg v V10_CFG_HV1_OFFSET CFG_HV1_OFFSET) s = Inr w"
    "\<exists>w. dev_read CFG (ver_reg v V10_CFG_HV2_OFFSET CFG_HV2_OFFSET) s = Inr w" for v
    using assms(1) by (simp_all add: ver_reg_def io_simps cfg_offsets v10_offsets)
  obtain h1 h1' h2 h2' where r: "dev_read CFG (ver_reg v V10_CFG_HV1_OFFSET CFG_HV1_OFFSET) s = Inr h1"
    "dev_read CFG (ver_reg v' V10_CFG_HV1_OFFSET CFG_HV1_OFFSET) s = Inr h1'"
    "dev_read CFG (ver_reg v V10_CFG_HV2_OFFSET CFG_HV2_OFFSET) s = Inr h2"
    "dev_read CFG (ver_reg v' V10_CFG_HV2_OFFSET CFG_HV2_OFFSET) s = Inr h2'"
    using r by metis
  show ?thesis
    unfolding ver_new_file_def Let_def r bindE_Inr
    by (intro agree_rules header_hidden disjI1 [OF refl] disjI2 [OF conjI] hv_line)
      (simp_all add: same_data_sel [OF assms(2)] o assms(2) n same_data_sel)
qed

lemma agree_pps_clock [agree_rules]:
  assumes "io_ready s" "same_data d d'"
  shows "agree same_data (ver_pps_clock v e s wo d) (ver_pps_clock v' e s wo d')"
  unfolding ver_pps_clock_def Let_def
  by (intro agree_rules assms(1)) (use assms(2) in \<open>auto simp: same_data_fields normalise_def Let_def split: if_split_asm\<close>)

text \<open>The voltages add lines that depend on the version to a file that is open, and nothing else.\<close>

lemma ver_hv_defined: "\<exists>y. ver_hv v x = Inr y"
proof -
  have "man (fdec 31949 7) \<noteq> 0" by code_simp
  then have "\<exists>y. fdiv DOUBLE x (fdec 31949 7) = Inr y" by (simp add: fdiv_def Let_def)
  moreover obtain k where k: "hv_scale = Inr k" using hv_scale_defined by blast
  ultimately show ?thesis unfolding ver_hv_def k by simp
qed

lemma voltages_hidden:
  assumes "io_ready s" "fhout d \<noteq> NoFile"
  shows "\<exists>ls. ver_voltages v s d = Inr (d\<lparr>d_out := d_out d @ ls\<rparr>) \<and> data_lines ls = []"
proof (cases "v = V10")
  case False
  obtain v2 v3 h2 h3 where *: "get_voltage XADC_AI2_OFFSET s = Inr v2" "ver_hv v v2 = Inr h2"
    "get_voltage XADC_AI3_OFFSET s = Inr v3" "ver_hv v v3 = Inr h3"
    using get_voltage_ready [OF assms(1), of XADC_AI2_OFFSET] get_voltage_ready [OF assms(1), of XADC_AI3_OFFSET] ver_hv_defined
    by (fastforce simp: sts_xadc_offsets)
  show ?thesis
    using False unfolding ver_voltages_def * bindE_Inr emit_open [OF assms(2)]
    using hv_line(3) by (auto simp: data_lines_def)
qed (auto simp: ver_voltages_def data_lines_def intro: exI [of _ "[]"])

lemma agree_voltages:
  assumes "io_ready s" "same_data d d'" "fhout d \<noteq> NoFile"
  shows "agree same_data (ver_voltages v s d) (ver_voltages v' s d')"
proof -
  have "fhout d' \<noteq> NoFile" using assms(2,3) by (simp add: same_data_sel)
  then show ?thesis
    using voltages_hidden [OF assms(1,3), of v] voltages_hidden [OF assms(1), of d' v'] same_data_append [OF assms(2)] by fastforce
qed

lemma agree_emit_open:
  assumes "same_data d d'" "l = l'"
    and "\<And>d1 d1'. same_data d1 d1' \<Longrightarrow> fhout d1 \<noteq> NoFile \<Longrightarrow> agree S (f d1) (f' d1')"
  shows "agree S (bindE (emit l d) f) (bindE (emit l' d') f')"
proof (cases "fhout d = NoFile")
  case True
  then show ?thesis using same_data_sel(1) [OF assms(1)] by (simp add: emit_def)
next
  case False
  have "same_data (d\<lparr>d_out := d_out d @ [(fhout d, l)]\<rparr>) (d'\<lparr>d_out := d_out d' @ [(fhout d', l')]\<rparr>)"
    using assms(1,2) same_data_sel(1) [OF assms(1)] by (intro same_data_append) simp_all
  then show ?thesis using False same_data_sel(1) [OF assms(1)] assms(3) by (simp add: emit_open)
qed

lemma agree_on_pps:
  assumes "io_ready s" "same_data d d'"
  shows "agree same_data (ver_on_pps v e s wo d) (ver_on_pps v' e s wo d')"
  unfolding ver_on_pps_def Let_def
  by (intro agree_bind agree_pps_clock assms agree_emit_open agree_voltages agree_flt agree_emit agree_Inr disjI1)
    (simp_all add: same_data_fields normalise_def time_line_def Let_def)

text \<open>Every other word is decoded by the same function, which does not look at what has been written.\<close>

lemma agree_words [agree_rules]:
  assumes "same_data d d'"
  shows "agree same_data (on_sample wo d) (on_sample wo d')" "agree same_data (on_trigger wo d) (on_trigger wo d')"
    "agree same_data (on_counter wo d) (on_counter wo d')" "agree same_data (on_gps wo d) (on_gps wo d')"
proof -
  show "agree same_data (on_sample wo d) (on_sample wo d')"
    unfolding on_sample_def Let_def
    by (intro agree_bind agree_emit agree_Inr assms disjI1 [OF refl]) (simp add: same_data_fields)
  show "agree same_data (on_trigger wo d) (on_trigger wo d')"
    unfolding on_trigger_def Let_def
    by (intro agree_bind agree_emit agree_Inr assms disjI1 [OF refl]) (simp add: same_data_fields)
  show "agree same_data (on_counter wo d) (on_counter wo d')"
    unfolding on_counter_def Let_def
    by (intro agree_emit disjI1 [OF refl]) (use assms in \<open>simp add: same_data_fields\<close>)
  show "agree same_data (on_gps wo d) (on_gps wo d')"
    unfolding on_gps_def Let_def
    by (intro agree_if agree_flt agree_emit agree_Inr refl) (use assms in \<open>simp_all add: same_data_fields\<close>)
qed

lemma agree_status:
  assumes "same_data d d'" "drop_bit 27 wo \<noteq> 0x1B"
  shows "agree same_data (on_status e s wo d) (on_status e s wo d')"
  unfolding on_status_def Let_def
  by (intro agree_if agree_bind agree_words agree_with_bmp agree_flt agree_emit agree_emits agree_Inr assms(1) refl disjI1 [OF refl])
    (use assms in \<open>simp_all add: same_data_fields\<close>)

lemma agree_decode:
  assumes "io_ready s" "same_data d d'"
  shows "agree same_data (ver_decode_word v e s wo d) (ver_decode_word v' e s wo d')"
proof (cases "drop_bit 27 wo = 0x1B")
  case True
  then show ?thesis by (simp add: ver_decode_word_def agree_on_pps [OF assms])
next
  case False
  then show ?thesis
    by (simp add: ver_decode_word_def decode_word_def agree_words [OF assms(2)] agree_status [OF assms(2)])
qed

section \<open>Whole runs\<close>

fun same_ring :: "ring \<times> daq \<Rightarrow> ring \<times> daq \<Rightarrow> bool" where
  "same_ring (q, d) (q', d') \<longleftrightarrow> q = q' \<and> same_data d d'"

fun same_run :: "int \<times> io \<times> ring \<times> daq \<Rightarrow> int \<times> io \<times> ring \<times> daq \<Rightarrow> bool" where
  "same_run (p, s, q, d) (p', s', q', d') \<longleftrightarrow> p = p' \<and> s = s' \<and> q = q' \<and> same_data d d'"

lemma agree_read_words:
  assumes "io_ready s" "same_data d d'"
  shows "agree same_ring (ver_read_words v e s i readend q d) (ver_read_words v' e s i readend q d')"
  using assms
proof (induction v e s i readend q d arbitrary: d' rule: ver_read_words.induct)
  case (1 v e s i readend q d)
  have "agree same_ring (bindE (ver_decode_word v e s wo d) (ver_read_words v e s (i + 4) readend (q\<lparr>current := i\<rparr>)))
      (bindE (ver_decode_word v' e s wo d') (ver_read_words v' e s (i + 4) readend (q\<lparr>current := i\<rparr>)))"
    if w: "i < readend" "dev_read MEM (nat i) s = Inr wo" for wo
    using agree_decode [OF "1.prems", of v e wo v'] "1.IH" [OF w _ "1.prems"(1)]
    by (cases "ver_decode_word v e s wo d"; cases "ver_decode_word v' e s wo d'") auto
  then show ?case
    using "1.prems"(2)
    by (subst (1 2) ver_read_words.simps) (auto intro: agree_same)
qed

lemma agree_first_time:
  assumes "io_ready s" "same_data d d'"
  shows "agree same_data (ver_first_time v e s d) (ver_first_time v' e s d')"
  unfolding ver_first_time_def Let_def
  by (intro agree_if agree_word agree_bind agree_new_file agree_Inr assms)
    (use assms(2) in \<open>auto simp: same_data_fields normalise_def Let_def\<close>)

fun same_call :: "int \<times> ring \<times> daq \<Rightarrow> int \<times> ring \<times> daq \<Rightarrow> bool" where
  "same_call (r, q, d) (r', q', d') \<longleftrightarrow> r = r' \<and> q = q' \<and> same_data d d'"

lemma agree_read_buffer:
  assumes "io_ready s" "same_data d d'"
  shows "agree same_call (ver_read_buffer v e s position q d) (ver_read_buffer v' e s position q d')"
proof -
  have c: "same_data (start_call d) (start_call d')" using assms(2) by (simp add: start_call_def same_data_fields)
  have w: "agree same_call
      (bindE (if b then ver_read_words v e s i r q1 d1 else Inr (q1, d1)) (\<lambda>(q, d). Inr (1, q, d)))
      (bindE (if b then ver_read_words v' e s i r q1 d1' else Inr (q1, d1')) (\<lambda>(q, d). Inr (1, q, d)))"
    if "same_data d1 d1'" for b i r q1 d1 d1'
    using that agree_read_words [OF assms(1) that]
    by (intro agree_bindE [of same_ring]) (auto split: prod.splits)
  show ?thesis
    unfolding ver_read_buffer_def Let_def
  proof (rule agree_bind [OF agree_first_time [OF assms(1) c]], rule agree_same)
    fix d1 d1' pos assume s: "same_data d1 d1'"
    let ?q = "if current q = limit q - 4 then q\<lparr>current := - 4\<rparr> else q"
    show "agree same_call
        (case read_window (limit ?q) (current ?q) pos of (readinit, readend) \<Rightarrow>
           bindE (if current ?q \<noteq> pos then ver_read_words v e s readinit readend ?q d1 else Inr (?q, d1)) (\<lambda>(q, d). Inr (1, q, d)))
        (case read_window (limit ?q) (current ?q) pos of (readinit, readend) \<Rightarrow>
           bindE (if current ?q \<noteq> pos then ver_read_words v' e s readinit readend ?q d1' else Inr (?q, d1')) (\<lambda>(q, d). Inr (1, q, d)))"
      by (cases "read_window (limit ?q) (current ?q) pos") (simp only: prod.case w [OF s])
  qed
qed

lemma wait_ready:
  assumes "wait_for_interrupt i s p = Inr (ret, s', p')" "io_ready (irq_hw i s)"
  shows "io_ready s'"
  using assms by (auto simp: wait_for_interrupt_def res_simps Let_def io_simps intc_offsets split: if_splits)

lemma agree_daq_loop:
  assumes "io_ready s" "\<And>i s. Some i \<in> set rs \<Longrightarrow> io_ready s \<Longrightarrow> io_ready (irq_hw i s)" "same_data d d'"
  shows "agree same_run (ver_daq_loop v e rs p s q d) (ver_daq_loop v' e rs p s q d')"
  using assms
proof (induction v e rs p s q d arbitrary: d' rule: ver_daq_loop.induct)
  case (3 v e i rs p s q d)
  have "agree same_run (bindE (ver_read_buffer v e s1 p1 q d) (\<lambda>(_, q, d). ver_daq_loop v e rs p1 s1 q d))
      (bindE (ver_read_buffer v' e s1 p1 q d') (\<lambda>(_, q, d). ver_daq_loop v' e rs p1 s1 q d))"
    if w: "wait_for_interrupt i s p = Inr (ret, s1, p1)" for ret s1 p1
  proof -
    have s1: "io_ready s1" using wait_ready [OF w] "3.prems"(1,2) by simp
    show ?thesis
    proof (rule agree_bindE_eq [OF agree_read_buffer [OF s1 "3.prems"(3)]])
      fix x x' assume m: "ver_read_buffer v e s1 p1 q d = Inr x" and "same_call x x'"
      from this(2) obtain r q1 d1 d1' where x: "x = (r, q1, d1)" "x' = (r, q1, d1')" "same_data d1 d1'"
        by (cases x; cases x') auto
      have "agree same_run (ver_daq_loop v e rs p1 s1 q1 d1) (ver_daq_loop v' e rs p1 s1 q1 d1')"
        using "3.IH" [OF w refl refl m] s1 "3.prems"(2) x by auto
      then show "agree same_run (case x of (_, q, d) \<Rightarrow> ver_daq_loop v e rs p1 s1 q d)
          (case x' of (_, q, d) \<Rightarrow> ver_daq_loop v' e rs p1 s1 q d)" by (simp add: x)
    qed
  qed
  then show ?case by (auto intro: agree_same)
qed simp_all

text \<open>
  C8. The versions write the same data. Whatever the hardware does between the calls, as long as it leaves
  the devices mapped, two runs of an acquisition by different versions end the same way: with the same
  fault, or with the same registers, the same position and the same state of the program, and with
  the same lines in the same files but for those about voltages and the three lines of the header that
  version 1.0 does not have.
\<close>

theorem versions_same_data:
  assumes "io_ready s" "\<And>i s. Some i \<in> set rs \<Longrightarrow> io_ready s \<Longrightarrow> io_ready (irq_hw i s)"
  shows "agree same_run (ver_acquire v e rs p s d) (acquire e rs p s d)"
proof -
  have v: "acquire e rs p s d = ver_acquire V12 e rs p s d"
    unfolding ver_acquire_def acquire_def ver_daq_loop_V12 by (rule refl)
  obtain s1 where s1: "start_daq s = Inr s1" "io_ready s1"
    using start_daq_ready [OF assms(1)] assms(1) by (auto simp: io_ready_def)
  have "agree same_run (ver_daq_loop v e rs p s1 ring0 d) (ver_daq_loop V12 e rs p s1 ring0 d)"
    using assms(2) by (intro agree_daq_loop s1 same_data_refl) auto
  then show ?thesis
    unfolding v ver_acquire_def s1 bindE_Inr
    by (rule agree_bindE) (auto intro!: agree_same)
qed

theorem versions_same_data_witness:
  "agree same_run (ver_acquire V10 env0 (rounds 2097152 (\<lambda>_. 0xD8000000) 0 [2]) 0 io_ring daq0)
     (acquire env0 (rounds 2097152 (\<lambda>_. 0xD8000000) 0 [2]) 0 io_ring daq0)"
proof -
  have "io_ready io_ring" by (simp add: io_ready_def io_ring_def io0_def)
  moreover have "io_ready (irq_hw i s)"
    if "Some i \<in> set (rounds 2097152 (\<lambda>_. 0xD8000000) 0 [2])" "io_ready s" for i s
    using that by (auto simp: full_round_def io_ready_def hw_writes_facts(1))
  ultimately show ?thesis by (rule versions_same_data)
qed

section \<open>The voltage that is shown\<close>

text \<open>
  C20. Versions 1.1 and 1.2 disagree about the high voltage: for the same positive reading of the converter the
  value that version 1.2 computes is more than twice and less than 2.1 times that of version 1.1, the rounding of the
  computations included, the constant of one divider having been replaced by the product of two. The values
  are those before they are printed with one digit after the point.
\<close>

theorem versions_disagree_on_voltage:
  assumes "0 < fval x"
  shows "\<exists>a b. ver_hv V11 x = Inr a \<and> ver_hv V12 x = Inr b \<and> 2 * fval a < fval b \<and> fval b < 21 / 10 * fval a"
proof -
  have c: "fdec 31949 7 = Flt 7366937830136831 (- 61)" "hv_scale = Inr (Flt 5632708779575967 (- 43))"
    unfolding hv_scale_def by code_simp+
  have e: "(2 :: real) powi (- int DOUBLE) \<le> 1 / 1000" by (simp add: power_int_minus)
  let ?x = "fval x" and ?k = "fval (Flt 5632708779575967 (- 43))" and ?r = "fval (Flt 7366937830136831 (- 61))"
  obtain a where a: "fdiv DOUBLE x (fdec 31949 7) = Inr a" "\<bar>fval a - ?x / ?r\<bar> \<le> \<bar>?x / ?r\<bar> * 2 powi (- int DOUBLE)"
    using fdiv_error [of "fdec 31949 7" DOUBLE x] unfolding c by auto
  define b where "b = fmul DOUBLE x (Flt 5632708779575967 (- 43))"
  have b: "\<bar>fval b - ?x * ?k\<bar> \<le> \<bar>?x * ?k\<bar> * 2 powi (- int DOUBLE)" unfolding b_def by (rule fmul_error)
  have k: "640 \<le> ?k" "?k \<le> 641" "312 * ?r \<le> 1" "1 \<le> 314 * ?r" "0 < ?r"
    by (simp_all add: fval_def power_int_minus inverse_eq_divide)
  have yz: "?x * 640 \<le> ?x * ?k" "?x * ?k \<le> ?x * 641" "?x * 312 \<le> ?x / ?r" "?x / ?r \<le> ?x * 314"
    using mult_left_mono [OF k(3), of ?x] mult_left_mono [OF k(4), of ?x] k assms by (simp_all add: mult_left_mono field_simps)
  have near: "\<bar>f - y\<bar> \<le> y * (1 / 1000)" if "\<bar>f - y\<bar> \<le> \<bar>y\<bar> * 2 powi (- int DOUBLE)" "0 < y" for f y :: real
    using that mult_left_mono [OF e, of "\<bar>y\<bar>"] by simp
  have p: "0 < ?x * ?k" "0 < ?x / ?r" using k assms by simp_all
  have "2 * f < g \<and> g < 21 / 10 * f"
    if "\<bar>g - y\<bar> \<le> y * (1 / 1000)" "\<bar>f - z\<bar> \<le> z * (1 / 1000)" "?x * 640 \<le> y" "y \<le> ?x * 641" "?x * 312 \<le> z" "z \<le> ?x * 314"
    for f g y z :: real
  proof -
    have "999 * y \<le> 1000 * g" "1000 * g \<le> 1001 * y" "999 * z \<le> 1000 * f" "1000 * f \<le> 1001 * z"
      using abs_le_D1 [OF that(1)] abs_le_D2 [OF that(1)] abs_le_D1 [OF that(2)] abs_le_D2 [OF that(2)] by linarith+
    then have "2 * f < g" "g < 21 / 10 * f" using that(3-6) assms by linarith+
    then show ?thesis ..
  qed
  then have "2 * fval a < fval b \<and> fval b < 21 / 10 * fval a" using near [OF b p(1)] near [OF a(2) p(2)] yz by blast
  moreover have "ver_hv V11 x = Inr a" "ver_hv V12 x = Inr b" using a(1) by (simp_all add: ver_hv_def c(2) b_def)
  ultimately show ?thesis by blast
qed

theorem versions_disagree_on_voltage_witness:
  "\<exists>a b. ver_hv V11 (Flt 3 (- 1)) = Inr a \<and> ver_hv V12 (Flt 3 (- 1)) = Inr b \<and> 2 * fval a < fval b"
proof -
  have "0 < fval (Flt 3 (- 1))" by (simp add: fval_def)
  then show ?thesis using versions_disagree_on_voltage [of "Flt 3 (- 1)"] by blast
qed

end
