(* ===== verification/Threads.thy ===== *)
theory Threads
  imports LagoMain
begin

unbundle bit_operations_syntax

text \<open>
  The thread that \<^verbatim>\<open>main\<close> of \<^verbatim>\<open>lago.c\<close> starts at the first access, \<^verbatim>\<open>thread_isr_not_gps\<close>, at work beside the
  acquisition. Both call \<^verbatim>\<open>wait_for_interrupt\<close> on the same device file and store into the same global
  \<^verbatim>\<open>position\<close>. Each system call, register access and store is one step, and the steps of the two, of the
  writer in the hardware and of its interrupts come in any order.

  Of the device file the model uses what its documentation says: writing 1 lets the next interrupt
  through, which shuts it again; the file counts interrupts; polling tells whether the count has changed since
  the last reading, and waits a second for it; reading waits until it has, for ever. Writing and reading
  transfer four bytes. A signal is handled by one of the threads: if it is polling, the poll returns -1; a
  read goes on when the handler returns, as \<^verbatim>\<open>signal\<close> installs it.
\<close>

section \<open>Two threads\<close>

text \<open>
  Where a thread is inside \<^verbatim>\<open>wait_for_interrupt\<close>: before a step, or after the last one with the result.
  \<open>Ended\<close>: the acquisition has left its loop.
\<close>

datatype pc = Unmask | Polling | Taking | Checking | Acknowledge | Fetching | Storing int | Returned int | Ended

datatype who = Main | Isr

record race =
  rc_io :: io
  rc_on :: bool
  rc_event :: nat
  rc_seen :: nat
  rc_position :: int
  rc_pc :: "who \<Rightarrow> pc"
  rc_ring :: ring
  rc_daq :: daq
  rc_written :: nat
  rc_stop :: bool

definition goto :: "who \<Rightarrow> pc \<Rightarrow> race \<Rightarrow> race" where
  "goto t p s = s\<lparr>rc_pc := (rc_pc s)(t := p)\<rparr>"

definition wait_step :: "who \<Rightarrow> race \<Rightarrow> race res" where
  "wait_step t s =
     (case rc_pc s t of
        Unmask \<Rightarrow> Inr (goto t Polling (s\<lparr>rc_on := True\<rparr>))
      | Polling \<Rightarrow> Inr (goto t (if rc_event s = rc_seen s then Returned 0 else Taking) s)
      | Taking \<Rightarrow> (if rc_event s = rc_seen s then Inl Blocked
                   else Inr (goto t Checking (s\<lparr>rc_seen := rc_event s\<rparr>)))
      | Checking \<Rightarrow> bindE (dev_read INTC XIL_AXI_INTC_IPR_OFFSET (rc_io s)) (\<lambda>value.
          Inr (goto t (if value AND 1 \<noteq> 0 then Acknowledge else Returned 1) s))
      | Acknowledge \<Rightarrow> bindE (dev_write INTC XIL_AXI_INTC_IAR_OFFSET 1 (rc_io s)) (\<lambda>io.
          Inr (goto t Fetching (s\<lparr>rc_io := io\<rparr>)))
      | Fetching \<Rightarrow> bindE (dev_read STS STS_STATUS_OFFSET (rc_io s)) (\<lambda>p.
          Inr (goto t (Storing (sint p)) s))
      | Storing p \<Rightarrow> Inr (goto t (Returned 1) (s\<lparr>rc_position := p\<rparr>))
      | Returned r \<Rightarrow> Inr s
      | Ended \<Rightarrow> Inr s)"

text \<open>
  After its return the thread starts again; the acquisition reads the buffer and looks at \<^verbatim>\<open>interrupted\<close> first.
\<close>

definition act :: "daq_env \<Rightarrow> who \<Rightarrow> race \<Rightarrow> race res" where
  "act e t s =
     (case rc_pc s t of
        Returned r \<Rightarrow>
          (if t = Isr then Inr (goto t Unmask s)
           else bindE (read_buffer e (rc_io s) (rc_position s) (rc_ring s) (rc_daq s)) (\<lambda>(_, q, d).
                Inr (goto t (if rc_stop s then Ended else Unmask) (s\<lparr>rc_ring := q, rc_daq := d\<rparr>))))
      | _ \<Rightarrow> wait_step t s)"

text \<open>The writer goes on to word \<open>W\<close> and asks for an interrupt; the controller takes an acknowledged one back.\<close>

definition hardware :: "nat \<Rightarrow> (nat \<Rightarrow> u32) \<Rightarrow> nat \<Rightarrow> race \<Rightarrow> race" where
  "hardware N w W s =
     (let s = s\<lparr>rc_io := hw_writes N w (rc_written s) W (rc_io s), rc_written := W\<rparr>
      in if rc_on s then s\<lparr>rc_event := Suc (rc_event s), rc_on := False\<rparr> else s)"

text \<open>The signal that ends the program, handled by thread \<open>t\<close>.\<close>

definition signal_handler :: "who \<Rightarrow> race \<Rightarrow> race" where
  "signal_handler t s =
     (if rc_pc s t = Polling then goto t (Returned (- 1)) (s\<lparr>rc_stop := True\<rparr>) else s\<lparr>rc_stop := True\<rparr>)"

inductive race_step :: "daq_env \<Rightarrow> nat \<Rightarrow> (nat \<Rightarrow> u32) \<Rightarrow> race \<Rightarrow> race \<Rightarrow> bool" for e N w where
  acts: "act e t s = Inr s' \<Longrightarrow> race_step e N w s s'"
| writes: "even W \<Longrightarrow> rc_written s \<le> W \<Longrightarrow> race_step e N w s (hardware N w W s)"
| settles: "race_step e N w s (s\<lparr>rc_io := poke INTC (rc_io s) XIL_AXI_INTC_IPR_OFFSET 0\<rparr>)"
| stops: "race_step e N w s (signal_handler t s)"

lemma goto_sel [simp]:
  "rc_io (goto t p s) = rc_io s" "rc_on (goto t p s) = rc_on s" "rc_event (goto t p s) = rc_event s"
  "rc_seen (goto t p s) = rc_seen s" "rc_position (goto t p s) = rc_position s" "rc_ring (goto t p s) = rc_ring s"
  "rc_daq (goto t p s) = rc_daq s" "rc_written (goto t p s) = rc_written s" "rc_stop (goto t p s) = rc_stop s"
  "rc_pc (goto t p s) = (rc_pc s)(t := p)"
  by (simp_all add: goto_def)

section \<open>A thread alone\<close>

text \<open>The steps of one thread, one after the other, until it returns.\<close>

fun finish_wait :: "nat \<Rightarrow> who \<Rightarrow> race \<Rightarrow> race res" where
  "finish_wait 0 t s = Inr s"
| "finish_wait (Suc n) t s = bindE (wait_step t s) (finish_wait n t)"

lemma finish_returned: "rc_pc s t = Returned r \<Longrightarrow> finish_wait n t s = Inr s"
  by (induction n) (simp_all add: wait_step_def)

lemma pending_bit: "(v :: u32) AND 1 = 0 \<longleftrightarrow> \<not> bit v 0"
  by (simp add: and_one_eq mod_2_eq_odd bit_0)

lemma irq_offsets:
  "XIL_AXI_INTC_IPR_OFFSET mod 4 = 0" "XIL_AXI_INTC_IPR_OFFSET + 4 \<le> 4096" "XIL_AXI_INTC_IAR_OFFSET mod 4 = 0"
  "XIL_AXI_INTC_IAR_OFFSET + 4 \<le> 4096" "STS_STATUS_OFFSET mod 4 = 0" "STS_STATUS_OFFSET + 4 \<le> 4096"
  by (simp_all add: intc_offsets sts_xadc_offsets)

lemma irq_access:
  assumes "io_ready s"
  shows "dev_read INTC XIL_AXI_INTC_IPR_OFFSET s = Inr (peek INTC s XIL_AXI_INTC_IPR_OFFSET)"
    "dev_write INTC XIL_AXI_INTC_IAR_OFFSET 1 s = Inr (poke INTC s XIL_AXI_INTC_IAR_OFFSET 1)"
    "dev_read STS STS_STATUS_OFFSET (poke INTC s XIL_AXI_INTC_IAR_OFFSET 1) = Inr (peek STS s STS_STATUS_OFFSET)"
  using assms irq_offsets by (simp_all add: dev_read_ready dev_write_ready peek_poke_bank)

text \<open>
  C4. What a call of \<^verbatim>\<open>wait_for_interrupt\<close> does with mapped registers, whatever the system answers: a write
  of another size, or a read of another size after the poll, ends the program; when the poll finds nothing its result is
  returned and the call changes nothing; with an interrupt it is acknowledged by writing 1 to the controller, and the position becomes the status register, but
  only if bit 0 of the pending register is set. The steps of an undisturbed thread, from the write to the
  return, do the same, and the count of interrupts it has seen is the current one.
\<close>

theorem wait_alone:
  assumes "io_ready (rc_io s)" "rc_pc s t = Unmask" "io_ready (irq_hw v i)"
  shows "finish_wait 7 t s = Inr (
      if rc_event s = rc_seen s then goto t (Returned 0) (s\<lparr>rc_on := True\<rparr>)
      else if bit (peek INTC (rc_io s) XIL_AXI_INTC_IPR_OFFSET) 0 then
        goto t (Returned 1) (s\<lparr>rc_on := True, rc_seen := rc_event s,
          rc_io := poke INTC (rc_io s) XIL_AXI_INTC_IAR_OFFSET 1,
          rc_position := sint (peek STS (rc_io s) STS_STATUS_OFFSET)\<rparr>)
      else goto t (Returned 1) (s\<lparr>rc_on := True, rc_seen := rc_event s\<rparr>))
    \<and> wait_for_interrupt v i pos =
      (if irq_write v \<noteq> 4 then Inl (Exit 1)
       else if irq_poll v < 1 then Inr (irq_poll v, irq_hw v i, pos)
       else if irq_read v \<noteq> 4 then Inl (Exit 1)
       else if bit (peek INTC (irq_hw v i) XIL_AXI_INTC_IPR_OFFSET) 0 then
         Inr (irq_poll v, poke INTC (irq_hw v i) XIL_AXI_INTC_IAR_OFFSET 1,
              sint (peek STS (irq_hw v i) STS_STATUS_OFFSET))
       else Inr (irq_poll v, irq_hw v i, pos))"
proof (rule conjI)
  show "finish_wait 7 t s = Inr (
      if rc_event s = rc_seen s then goto t (Returned 0) (s\<lparr>rc_on := True\<rparr>)
      else if bit (peek INTC (rc_io s) XIL_AXI_INTC_IPR_OFFSET) 0 then
        goto t (Returned 1) (s\<lparr>rc_on := True, rc_seen := rc_event s,
          rc_io := poke INTC (rc_io s) XIL_AXI_INTC_IAR_OFFSET 1,
          rc_position := sint (peek STS (rc_io s) STS_STATUS_OFFSET)\<rparr>)
      else goto t (Returned 1) (s\<lparr>rc_on := True, rc_seen := rc_event s\<rparr>))"
    using assms(2) irq_access [OF assms(1)]
    by (auto simp: eval_nat_numeral wait_step_def pending_bit goto_def split: if_splits)
  show "wait_for_interrupt v i pos =
      (if irq_write v \<noteq> 4 then Inl (Exit 1)
       else if irq_poll v < 1 then Inr (irq_poll v, irq_hw v i, pos)
       else if irq_read v \<noteq> 4 then Inl (Exit 1)
       else if bit (peek INTC (irq_hw v i) XIL_AXI_INTC_IPR_OFFSET) 0 then
         Inr (irq_poll v, poke INTC (irq_hw v i) XIL_AXI_INTC_IAR_OFFSET 1,
              sint (peek STS (irq_hw v i) STS_STATUS_OFFSET))
       else Inr (irq_poll v, irq_hw v i, pos))"
    using irq_access [OF assms(3)] by (simp add: wait_for_interrupt_def Let_def pending_bit)
qed

text \<open>An interrupt at position 20, seen by a thread and by a call; without one the old position stays.\<close>

theorem wait_alone_witness:
  "let io = raise_irq 20 io0; s = \<lparr>rc_io = io, rc_on = False, rc_event = 1, rc_seen = 0, rc_position = 9,
      rc_pc = \<lambda>_. Unmask, rc_ring = ring0, rc_daq = daq0, rc_written = 0, rc_stop = False\<rparr>
   in finish_wait 7 Main s = Inr (goto Main (Returned 1) (s\<lparr>rc_on := True, rc_seen := 1,
          rc_io := poke INTC io XIL_AXI_INTC_IAR_OFFSET 1, rc_position := 20\<rparr>))
     \<and> wait_for_interrupt \<lparr>irq_write = 4, irq_hw = raise_irq 20, irq_poll = 1, irq_read = 4\<rparr> io0 9
        = Inr (1, poke INTC io XIL_AXI_INTC_IAR_OFFSET 1, 20)
     \<and> finish_wait 7 Isr (s\<lparr>rc_seen := 1\<rparr>) = Inr (goto Isr (Returned 0) (s\<lparr>rc_seen := 1, rc_on := True\<rparr>))"
proof -
  let ?io = "raise_irq 20 io0"
  let ?s = "\<lparr>rc_io = ?io, rc_on = False, rc_event = 1, rc_seen = 0, rc_position = 9,
      rc_pc = \<lambda>_. Unmask, rc_ring = ring0, rc_daq = daq0, rc_written = 0, rc_stop = False\<rparr>"
  let ?v = "\<lparr>irq_write = 4, irq_hw = raise_irq 20, irq_poll = 1, irq_read = 4\<rparr>"
  have r: "io_ready ?io" by (simp add: io_ready_def raise_irq_def io0_def)
  have p: "peek INTC ?io XIL_AXI_INTC_IPR_OFFSET = 1" "peek STS ?io STS_STATUS_OFFSET = 20"
    by (simp_all add: raise_irq_def peek_def)
  show ?thesis
    using wait_alone [of ?s Main ?v io0 9] wait_alone [of "?s\<lparr>rc_seen := 1\<rparr>" Isr ?v io0 9] r p
    by (simp add: Let_def)
qed

section \<open>What the position is\<close>

definition writer_at :: "nat \<Rightarrow> nat \<Rightarrow> int" where
  "writer_at N W = int (W mod N div 2)"

definition race_inv :: "nat \<Rightarrow> (nat \<Rightarrow> u32) \<Rightarrow> race \<Rightarrow> bool" where
  "race_inv N w s \<longleftrightarrow> even (rc_written s) \<and> ring_holds N w (rc_written s) (rc_io s)
     \<and> sint (peek STS (rc_io s) STS_STATUS_OFFSET) = writer_at N (rc_written s) \<and> rc_seen s \<le> rc_event s"

lemma peek_sts:
  assumes "0 < N" "4 * N < 2 ^ 31"
  shows "sint (of_nat (W mod N div 2) :: u32) = writer_at N W"
proof -
  have "W mod N < N" using assms(1) by simp
  then have "in_i32 (int (W mod N div 2))" using assms(2) by (simp add: in_i32_iff)
  then show ?thesis using to_i32_sint [of "int (W mod N div 2)"] by (simp add: to_i32_id writer_at_def)
qed

lemma hardware_sel [simp]:
  "rc_io (hardware N w W s) = hw_writes N w (rc_written s) W (rc_io s)" "rc_written (hardware N w W s) = W"
  "rc_position (hardware N w W s) = rc_position s" "rc_pc (hardware N w W s) = rc_pc s"
  "rc_seen (hardware N w W s) = rc_seen s" "rc_event s \<le> rc_event (hardware N w W s)"
  "rc_ring (hardware N w W s) = rc_ring s" "rc_daq (hardware N w W s) = rc_daq s"
  by (simp_all add: hardware_def Let_def)

lemma signal_handler_sel [simp]:
  "rc_io (signal_handler t s) = rc_io s" "rc_written (signal_handler t s) = rc_written s"
  "rc_position (signal_handler t s) = rc_position s" "rc_event (signal_handler t s) = rc_event s"
  "rc_seen (signal_handler t s) = rc_seen s" "rc_stop (signal_handler t s)"
  "rc_pc (signal_handler t s) = (if rc_pc s t = Polling then (rc_pc s)(t := Returned (- 1)) else rc_pc s)"
  by (simp_all add: signal_handler_def)

lemma hardware_inv:
  assumes "0 < N" "4 * N < 2 ^ 31" "race_inv N w s" "even W" "rc_written s \<le> W"
  shows "race_inv N w (hardware N w W s)"
proof -
  have "ring_holds N w W (rc_io (hardware N w W s))"
    using hw_writes_facts(5) [OF _ assms(1,5), of w "rc_io s"] assms(3) by (simp add: race_inv_def)
  moreover have "rc_seen s \<le> rc_event (hardware N w W s)"
    using assms(3) hardware_sel(6) [of s N w W] by (simp add: race_inv_def del: hardware_sel(6))
  ultimately show ?thesis
    using assms(3,4) peek_sts [OF assms(1,2), of W] by (simp add: race_inv_def hw_writes_facts)
qed

lemma poke_intc_inv: "race_inv N w s \<Longrightarrow> race_inv N w (s\<lparr>rc_io := poke INTC (rc_io s) off v\<rparr>)"
  by (simp add: race_inv_def ring_holds_def peek_poke_bank)

text \<open>What a step of a thread may change: its place, the position it holds, and nothing of the writer.\<close>

lemma dev_results:
  "dev_read b off s = Inr v \<Longrightarrow> v = peek b s off" "dev_write b off v s = Inr s' \<Longrightarrow> s' = poke b s off v"
  by (simp_all add: dev_read_def dev_write_def split: if_splits)

lemma act_inv:
  assumes "race_inv N w s" "act e t s = Inr s'"
  shows "race_inv N w s'"
  using assms
  by (cases "rc_pc s t")
    (auto simp: act_def wait_step_def res_simps race_inv_def ring_holds_def peek_poke_bank dest!: dev_results split: if_splits)

lemma act_elsewhere: "act e t s = Inr s' \<Longrightarrow> t' \<noteq> t \<Longrightarrow> rc_pc s' t' = rc_pc s t'"
  by (cases "rc_pc s t") (auto simp: act_def wait_step_def res_simps split: if_splits)

lemma act_storing:
  assumes "act e t s = Inr s'"
  shows "rc_pc s' t = Storing p \<Longrightarrow> rc_pc s t = Fetching \<and> p = sint (peek STS (rc_io s) STS_STATUS_OFFSET)"
    "rc_pc s t = Storing p \<Longrightarrow> rc_pc s' t = Returned 1 \<and> rc_position s' = p"
    "(\<And>p. rc_pc s t \<noteq> Storing p) \<Longrightarrow> rc_position s' = rc_position s"
  using assms
  by (cases "rc_pc s t"; auto simp: act_def wait_step_def res_simps dest!: dev_results split: if_splits)+

lemma race_step_inv:
  assumes "race_step e N w s s'" "race_inv N w s" "0 < N" "4 * N < 2 ^ 31"
  shows "race_inv N w s'"
  using assms(1)
proof (cases rule: race_step.cases)
  case (stops t)
  then show ?thesis using assms(2) by (simp add: race_inv_def)
qed (use hardware_inv [OF assms(3,4,2)] act_inv [OF assms(2)] poke_intc_inv [OF assms(2)] in auto)

text \<open>A value that a thread holds was read from the register when the thread took it.\<close>

lemma step_holds:
  assumes "race_step e N w s s'" "rc_pc s' t = Storing p"
  shows "rc_pc s t = Storing p \<or> rc_pc s t = Fetching \<and> p = sint (peek STS (rc_io s) STS_STATUS_OFFSET)"
  using assms(1)
proof (cases rule: race_step.cases)
  case (acts t')
  then show ?thesis using assms(2) act_elsewhere [of e t' s s' t] act_storing(1) [of e t s s' p] by (cases "t = t'") auto
qed (use assms(2) in \<open>auto split: if_splits\<close>)

text \<open>The position changes when a thread stores the value it holds, and only then.\<close>

lemma step_position:
  assumes "race_step e N w s s'"
  shows "(\<exists>t. rc_pc s t = Storing (rc_position s') \<and> rc_pc s' t = Returned 1)
    \<or> rc_position s' = rc_position s \<and> (\<forall>t p. rc_pc s t = Storing p \<longrightarrow> rc_pc s' t = Storing p)"
  using assms
proof (cases rule: race_step.cases)
  case (acts t)
  show ?thesis
  proof (cases "\<exists>p. rc_pc s t = Storing p")
    case True
    then show ?thesis using act_storing(2) [OF acts] by blast
  next
    case False
    then show ?thesis using act_storing(3) [OF acts] act_elsewhere [OF acts] by metis
  qed
qed auto

text \<open>A run is the list of its states.\<close>

inductive race_run :: "daq_env \<Rightarrow> nat \<Rightarrow> (nat \<Rightarrow> u32) \<Rightarrow> race list \<Rightarrow> bool" for e N w where
  starts: "race_run e N w [s]"
| goes_on: "race_run e N w xs \<Longrightarrow> race_step e N w (last xs) s \<Longrightarrow> race_run e N w (xs @ [s])"

definition stores :: "race list \<Rightarrow> nat \<Rightarrow> who \<Rightarrow> bool" where
  "stores xs j t \<longleftrightarrow> Suc j < length xs \<and> (\<exists>p. rc_pc (xs ! j) t = Storing p) \<and> (\<forall>p. rc_pc (xs ! Suc j) t \<noteq> Storing p)"

text \<open>At time \<open>i\<close> thread \<open>t\<close> reads the register, and holds the value up to time \<open>j\<close>.\<close>

definition fetched :: "race list \<Rightarrow> nat \<Rightarrow> nat \<Rightarrow> who \<Rightarrow> int \<Rightarrow> bool" where
  "fetched xs i j t p \<longleftrightarrow> i < j \<and> j < length xs \<and> rc_pc (xs ! i) t = Fetching
     \<and> p = sint (peek STS (rc_io (xs ! i)) STS_STATUS_OFFSET) \<and> (\<forall>k. i < k \<and> k \<le> j \<longrightarrow> rc_pc (xs ! k) t = Storing p)"

lemma fetched_append: "fetched xs i j t p \<Longrightarrow> fetched (xs @ ys) i j t p"
  by (auto simp: fetched_def nth_append)

lemma stores_append: "Suc j < length xs \<Longrightarrow> stores (xs @ ys) j t = stores xs j t"
  by (auto simp: stores_def nth_append)

lemma stores_less: "stores xs j t \<Longrightarrow> Suc j < length xs"
  by (simp add: stores_def)

lemma race_run_nonempty: "race_run e N w xs \<Longrightarrow> xs \<noteq> []"
  by (induction rule: race_run.induct) auto

lemma race_run_inv:
  assumes "race_run e N w xs" "race_inv N w (hd xs)" "0 < N" "4 * N < 2 ^ 31"
  shows "\<forall>s \<in> set xs. race_inv N w s"
  using assms(1,2)
proof (induction rule: race_run.induct)
  case (goes_on xs s)
  then have "\<forall>s \<in> set xs. race_inv N w s" and ne: "xs \<noteq> []" using race_run_nonempty by auto
  then show ?case using race_step_inv [OF goes_on.hyps(2) _ assms(3,4)] last_in_set [OF ne] by auto
qed simp

lemma holding_was_fetched:
  assumes "race_run e N w xs" "\<And>t p. rc_pc (hd xs) t \<noteq> Storing p" "rc_pc (last xs) t = Storing p"
  shows "\<exists>i. fetched xs i (length xs - 1) t p"
  using assms
proof (induction rule: race_run.induct)
  case (goes_on xs s)
  define n where "n = length xs - 1"
  have ne: "xs \<noteq> []" using goes_on.hyps(1) by (rule race_run_nonempty)
  then have n: "length xs = Suc n" "last xs = xs ! n" "n < length xs" by (simp_all add: n_def last_conv_nth)
  have hd: "\<And>t p. rc_pc (hd xs) t \<noteq> Storing p" using goes_on.prems(1) ne by simp
  have s: "rc_pc s t = Storing p" using goes_on.prems(2) by simp
  from step_holds [OF goes_on.hyps(2) s] show ?case
  proof
    assume "rc_pc (last xs) t = Storing p"
    then obtain i where "fetched xs i n t p" using goes_on.IH [OF hd] n_def by blast
    then have "fetched (xs @ [s]) i (Suc n) t p" using s n by (auto simp: fetched_def nth_append le_Suc_eq)
    then show ?thesis using n by auto
  next
    assume "rc_pc (last xs) t = Fetching \<and> p = sint (peek STS (rc_io (last xs)) STS_STATUS_OFFSET)"
    then have "fetched (xs @ [s]) n (Suc n) t p" using s n by (auto simp: fetched_def nth_append le_Suc_eq)
    then show ?thesis using n by auto
  qed
qed simp

text \<open>The position is what the last store has stored.\<close>

definition last_store :: "race list \<Rightarrow> nat \<Rightarrow> who \<Rightarrow> int \<Rightarrow> bool" where
  "last_store xs j t p \<longleftrightarrow> stores xs j t \<and> rc_pc (xs ! j) t = Storing p \<and> (\<forall>k t'. j < k \<longrightarrow> \<not> stores xs k t')"

lemma position_stored:
  assumes "race_run e N w xs" "\<And>t p. rc_pc (hd xs) t \<noteq> Storing p"
  shows "(\<forall>j t. \<not> stores xs j t) \<and> rc_position (last xs) = rc_position (hd xs)
    \<or> (\<exists>i j t. fetched xs i j t (rc_position (last xs)) \<and> last_store xs j t (rc_position (last xs)))"
  using assms
proof (induction rule: race_run.induct)
  case (starts s)
  then show ?case by (simp add: stores_def)
next
  case (goes_on xs s)
  define n where "n = length xs - 1"
  have ne: "xs \<noteq> []" using goes_on.hyps(1) by (rule race_run_nonempty)
  then have n: "length xs = Suc n" "last xs = xs ! n" "n < length xs" by (simp_all add: n_def last_conv_nth)
  have hd: "\<And>t p. rc_pc (hd xs) t \<noteq> Storing p" using goes_on.prems ne by simp
  have old: "stores (xs @ [s]) k t = stores xs k t" if "k \<noteq> n" for k t
    using that n stores_append [of k xs "[s]" t] by (auto simp: stores_def)
  have new: "\<not> stores xs n t" for t using n by (simp add: stores_def)
  from step_position [OF goes_on.hyps(2)] show ?case
  proof
    assume "\<exists>t. rc_pc (last xs) t = Storing (rc_position s) \<and> rc_pc s t = Returned 1"
    then obtain t where t: "rc_pc (last xs) t = Storing (rc_position s)" "rc_pc s t = Returned 1" by blast
    then obtain i where "fetched xs i n t (rc_position s)"
      using holding_was_fetched [OF goes_on.hyps(1) hd] n_def by blast
    moreover have "last_store (xs @ [s]) n t (rc_position s)"
      using t n by (auto simp: last_store_def stores_def nth_append)
    ultimately show ?thesis using fetched_append by fastforce
  next
    assume same: "rc_position s = rc_position (last xs)
      \<and> (\<forall>t p. rc_pc (last xs) t = Storing p \<longrightarrow> rc_pc s t = Storing p)"
    then have "\<not> stores (xs @ [s]) n t" for t using n by (auto simp: stores_def nth_append)
    then have st: "stores (xs @ [s]) k t = stores xs k t" for k t using old new by (cases "k = n") auto
    have last: "last_store (xs @ [s]) j t p" if "last_store xs j t p" for j t p
      using that stores_less [of xs j t] n st by (auto simp: last_store_def nth_append)
    from goes_on.IH [OF hd] show ?thesis
    proof
      assume "(\<forall>j t. \<not> stores xs j t) \<and> rc_position (last xs) = rc_position (hd xs)"
      then show ?thesis using st same ne by auto
    next
      assume "\<exists>i j t. fetched xs i j t (rc_position (last xs)) \<and> last_store xs j t (rc_position (last xs))"
      then show ?thesis using same last fetched_append by fastforce
    qed
  qed
qed

section \<open>What may go wrong\<close>

text \<open>A schedule, and what it leads to.\<close>

datatype turn = Turn who | Writer nat

fun replay :: "daq_env \<Rightarrow> nat \<Rightarrow> (nat \<Rightarrow> u32) \<Rightarrow> turn list \<Rightarrow> race \<Rightarrow> race res" where
  "replay e N w [] s = Inr s"
| "replay e N w (Turn t # ts) s = bindE (act e t s) (replay e N w ts)"
| "replay e N w (Writer W # ts) s = replay e N w ts (hardware N w W s)"

fun writers_ok :: "nat \<Rightarrow> turn list \<Rightarrow> bool" where
  "writers_ok W [] \<longleftrightarrow> True"
| "writers_ok W (Turn t # ts) \<longleftrightarrow> writers_ok W ts"
| "writers_ok W (Writer W' # ts) \<longleftrightarrow> even W' \<and> W \<le> W' \<and> writers_ok W' ts"

lemma act_written: "act e t s = Inr s' \<Longrightarrow> rc_written s' = rc_written s"
  by (auto simp: act_def wait_step_def res_simps split: pc.splits if_splits)

lemma irq_facts:
  assumes "io_ready s"
  shows "dev_read INTC XIL_AXI_INTC_IPR_OFFSET (hw_writes N w W W' s) = Inr 1"
    "dev_write INTC XIL_AXI_INTC_IAR_OFFSET 1 (hw_writes N w W W' s) = Inr (poke INTC (hw_writes N w W W' s) XIL_AXI_INTC_IAR_OFFSET 1)"
    "dev_read STS STS_STATUS_OFFSET (poke INTC (hw_writes N w W W' s) XIL_AXI_INTC_IAR_OFFSET 1) = Inr (of_nat (W' mod N div 2))"
    "io_ready (poke INTC (hw_writes N w W W' s) XIL_AXI_INTC_IAR_OFFSET 1)"
proof -
  have r: "io_ready (hw_writes N w W W' s)" using assms by (simp add: io_ready_def hw_writes_facts)
  show "dev_read INTC XIL_AXI_INTC_IPR_OFFSET (hw_writes N w W W' s) = Inr 1"
    "dev_write INTC XIL_AXI_INTC_IAR_OFFSET 1 (hw_writes N w W W' s) = Inr (poke INTC (hw_writes N w W W' s) XIL_AXI_INTC_IAR_OFFSET 1)"
    "dev_read STS STS_STATUS_OFFSET (poke INTC (hw_writes N w W W' s) XIL_AXI_INTC_IAR_OFFSET 1) = Inr (of_nat (W' mod N div 2))"
    "io_ready (poke INTC (hw_writes N w W W' s) XIL_AXI_INTC_IAR_OFFSET 1)"
    using r irq_offsets by (simp_all add: dev_read_ready dev_write_ready hw_writes_facts peek_poke_bank)
qed

text \<open>A blocked acquisition stays where it is, and the interrupts seen are those that came.\<close>

lemma step_blocked:
  assumes "race_step e N w s s'" "rc_pc s Main = Taking" "rc_seen s = rc_event s"
  shows "rc_event s \<le> rc_event s' \<and> (rc_event s' = rc_event s \<longrightarrow> rc_pc s' Main = Taking \<and> rc_seen s' = rc_event s')"
  using assms(1)
proof (cases rule: race_step.cases)
  case (acts t)
  then show ?thesis using assms(2,3)
    by (cases "rc_pc s t"; cases t) (auto simp: act_def wait_step_def res_simps split: if_splits)
next
  case (writes W)
  then show ?thesis using assms(2,3) by (simp add: hardware_def Let_def)
qed (use assms(2,3) in auto)

lemma step_event:
  assumes "race_step e N w s s'"
  shows "rc_event s \<le> rc_event s'"
  using assms
proof (cases rule: race_step.cases)
  case (acts t)
  then show ?thesis by (cases "rc_pc s t") (auto simp: act_def wait_step_def res_simps split: if_splits)
qed auto

lemma blocked_stays:
  assumes "(race_step e N w)\<^sup>*\<^sup>* s s'" "rc_pc s Main = Taking" "rc_seen s = rc_event s" "rc_event s' = rc_event s"
  shows "rc_pc s' Main = Taking \<and> rc_seen s' = rc_event s'"
proof -
  have "rc_event s \<le> rc_event s' \<and> (rc_event s' = rc_event s \<longrightarrow> rc_pc s' Main = Taking \<and> rc_seen s' = rc_event s')"
    using assms(1)
  proof (induction rule: rtranclp_induct)
    case (step s1 s2)
    then show ?case using step_event [OF step.hyps(2)] step_blocked [OF step.hyps(2)] by auto
  qed (use assms(2,3) in simp)
  then show ?thesis using assms(4) by blast
qed

lemma replay_reaches: "replay e N w ts s = Inr s' \<Longrightarrow> writers_ok (rc_written s) ts \<Longrightarrow> (race_step e N w)\<^sup>*\<^sup>* s s'"
proof (induction e N w ts s rule: replay.induct)
  case (2 e N w t ts s)
  then show ?case
    by (auto simp: res_simps act_written dest: race_step.acts intro: converse_rtranclp_into_rtranclp)
next
  case (3 e N w W ts s)
  then have "(race_step e N w)\<^sup>*\<^sup>* (hardware N w W s) s'" by simp
  moreover have "race_step e N w s (hardware N w W s)" using "3.prems"(2) by (intro race_step.writes) auto
  ultimately show ?case by (rule converse_rtranclp_into_rtranclp [rotated])
qed simp

text \<open>The states along a schedule.\<close>

fun trail :: "daq_env \<Rightarrow> nat \<Rightarrow> (nat \<Rightarrow> u32) \<Rightarrow> turn list \<Rightarrow> race \<Rightarrow> race list" where
  "trail e N w [] s = [s]"
| "trail e N w (Turn t # ts) s = s # (case act e t s of Inl f \<Rightarrow> [] | Inr s' \<Rightarrow> trail e N w ts s')"
| "trail e N w (Writer W # ts) s = s # trail e N w ts (hardware N w W s)"

lemma trail_run:
  assumes "race_run e N w (xs @ [s])" "writers_ok (rc_written s) ts"
  shows "race_run e N w (xs @ trail e N w ts s) \<and> hd (xs @ trail e N w ts s) = hd (xs @ [s])"
  using assms
proof (induction e N w ts s arbitrary: xs rule: trail.induct)
  case (2 e N w t ts s)
  show ?case
  proof (cases "act e t s")
    case (Inr s')
    have "race_run e N w ((xs @ [s]) @ [s'])" using "2.prems"(1) Inr by (intro race_run.goes_on [OF "2.prems"(1)]) (auto intro: race_step.acts)
    then show ?thesis using "2.IH" [OF Inr, of "xs @ [s]"] "2.prems"(2) Inr act_written [OF Inr] by (simp add: hd_append)
  qed (use "2.prems" in simp)
next
  case (3 e N w W ts s)
  have "race_run e N w ((xs @ [s]) @ [hardware N w W s])"
    using "3.prems"(2) by (intro race_run.goes_on [OF "3.prems"(1)]) (auto intro: race_step.writes)
  then show ?case using "3.IH" [of "xs @ [s]"] "3.prems"(2) by (simp add: hd_append)
qed simp

lemma trail_last: "replay e N w ts s = Inr s' \<Longrightarrow> last (trail e N w ts s) = s'"
proof (induction e N w ts s rule: trail.induct)
  case (2 e N w t ts s)
  have "trail e N w ts s1 \<noteq> []" for s1 by (induction e N w ts s1 rule: trail.induct) simp_all
  then show ?case using 2 by (auto simp: res_simps)
next
  case (3 e N w W ts s)
  have "trail e N w ts s1 \<noteq> []" for s1 by (induction e N w ts s1 rule: trail.induct) simp_all
  then show ?case using 3 by simp
qed simp

definition race0 :: "io \<Rightarrow> ring \<Rightarrow> daq \<Rightarrow> nat \<Rightarrow> race" where
  "race0 io q d W = \<lparr>rc_io = io, rc_on = False, rc_event = 0, rc_seen = 0, rc_position = 0, rc_pc = \<lambda>_. Unmask,
     rc_ring = q, rc_daq = d, rc_written = W, rc_stop = False\<rparr>"

text \<open>
  C5. Where the position comes from, in every run of the two threads, the writer and its interrupts from the
  start, when the status register shows the place of the writer: as long as no thread has stored one it is the initial zero; after that it is what the status register
  held, that is the place of the writer then, when one of the threads read it at an earlier time \<open>i\<close>; that thread
  kept the value until it stored it at time \<open>j\<close>, and nobody has stored since. The words of the last lap are in the
  ring. Between \<open>i\<close> and \<open>j\<close> the other thread may have read and stored a newer one: see the next theorem.
\<close>

theorem position_reported:
  assumes "race_run e N w xs" "hd xs = race0 io q d W" "even W" "ring_holds N w W io"
    and "peek STS io STS_STATUS_OFFSET = of_nat (W mod N div 2)" "0 < N" "4 * N < 2 ^ 31"
  shows "ring_holds N w (rc_written (last xs)) (rc_io (last xs))
    \<and> ((\<forall>j t. \<not> stores xs j t) \<and> rc_position (last xs) = 0
       \<or> (\<exists>i j t. i < j \<and> Suc j < length xs
            \<and> rc_pc (xs ! i) t = Fetching
            \<and> rc_position (last xs) = sint (peek STS (rc_io (xs ! i)) STS_STATUS_OFFSET)
            \<and> rc_position (last xs) = int (rc_written (xs ! i) mod N div 2)
            \<and> (\<forall>k. i < k \<and> k \<le> j \<longrightarrow> rc_pc (xs ! k) t = Storing (rc_position (last xs)))
            \<and> stores xs j t \<and> (\<forall>k t'. j < k \<longrightarrow> \<not> stores xs k t')))"
proof -
  let ?p = "rc_position (last xs)"
  have inv: "race_inv N w (hd xs)"
    using assms(3-5) peek_sts [OF assms(6,7), of W] by (simp add: assms(2) race_inv_def race0_def)
  have all: "\<forall>s \<in> set xs. race_inv N w s" by (rule race_run_inv [OF assms(1) inv assms(6,7)])
  then have "ring_holds N w (rc_written (last xs)) (rc_io (last xs))"
    using race_run_nonempty [OF assms(1)] by (simp add: race_inv_def)
  moreover have "\<And>t p. rc_pc (hd xs) t \<noteq> Storing p" "rc_position (hd xs) = 0" by (simp_all add: assms(2) race0_def)
  then have "(\<forall>j t. \<not> stores xs j t) \<and> ?p = 0 \<or> (\<exists>i j t. fetched xs i j t ?p \<and> last_store xs j t ?p)"
    using position_stored [OF assms(1)] by metis
  moreover have "i < j \<and> Suc j < length xs \<and> rc_pc (xs ! i) t = Fetching
      \<and> ?p = sint (peek STS (rc_io (xs ! i)) STS_STATUS_OFFSET) \<and> ?p = int (rc_written (xs ! i) mod N div 2)
      \<and> (\<forall>k. i < k \<and> k \<le> j \<longrightarrow> rc_pc (xs ! k) t = Storing ?p)
      \<and> stores xs j t \<and> (\<forall>k t'. j < k \<longrightarrow> \<not> stores xs k t')"
    if "fetched xs i j t ?p" "last_store xs j t ?p" for i j t
  proof -
    have "xs ! i \<in> set xs" using that(1) by (simp add: fetched_def)
    then have "race_inv N w (xs ! i)" using all by blast
    then show ?thesis using that stores_less [of xs j t]
      by (simp add: fetched_def last_store_def race_inv_def writer_at_def)
  qed
  ultimately show ?thesis by meson
qed

text \<open>
  C7. The acquisition can wait without the second's limit of its poll: both threads see the same interrupt when
  they poll, the other one takes it, and the reading of the acquisition blocks. Whatever happens then, it goes on
  blocking as long as no further interrupt comes, and also after the signal that is to end the program: the loop is
  not left, as \<^verbatim>\<open>interrupted\<close> is only looked at between the calls.
\<close>

theorem poll_then_hang:
  assumes "even W"
  shows "\<exists>s'. (race_step e N w)\<^sup>*\<^sup>* (race0 io q d W) s' \<and> rc_pc s' Main = Taking \<and> act e Main s' = Inl Blocked
    \<and> (\<forall>s''. (race_step e N w)\<^sup>*\<^sup>* s' s'' \<and> rc_event s'' = rc_event s'
          \<longrightarrow> rc_pc s'' Main = Taking \<and> act e Main s'' = Inl Blocked)
    \<and> (\<exists>s''. race_step e N w s' s'' \<and> rc_event s'' = rc_event s' \<and> rc_stop s'')"
proof -
  let ?ts = "[Turn Isr, Turn Main, Writer (W + 2), Turn Isr, Turn Main, Turn Isr]"
  obtain s' where s': "replay e N w ?ts (race0 io q d W) = Inr s'" "rc_pc s' Main = Taking" "rc_seen s' = rc_event s'"
    by (simp add: race0_def act_def wait_step_def hardware_def goto_def Let_def)
  have stuck: "rc_pc s'' Main = Taking \<and> act e Main s'' = Inl Blocked"
    if "(race_step e N w)\<^sup>*\<^sup>* s' s''" "rc_event s'' = rc_event s'" for s''
  proof -
    have "rc_pc s'' Main = Taking \<and> rc_seen s'' = rc_event s''" using blocked_stays [OF that(1)] s'(2,3) that(2) by simp
    then show ?thesis by (simp add: act_def wait_step_def)
  qed
  moreover have "race_step e N w s' (signal_handler Main s')" by (rule race_step.stops)
  ultimately show ?thesis using replay_reaches [OF s'(1)] assms
    by (intro exI [of _ s']) (auto simp: race0_def intro!: exI [of _ "signal_handler Main s'"])
qed

theorem poll_then_hang_witness:
  "\<exists>s'. (race_step env0 8 (\<lambda>_. 0))\<^sup>*\<^sup>* (race0 io0 ring0 daq0 0) s'
     \<and> (\<exists>s''. (race_step env0 8 (\<lambda>_. 0))\<^sup>*\<^sup>* s' s'' \<and> rc_stop s'' \<and> rc_pc s'' Main = Taking \<and> act env0 Main s'' = Inl Blocked)"
proof -
  have "even (0 :: nat)" by simp
  from poll_then_hang [OF this, of env0 8 "\<lambda>_. 0" io0 ring0 daq0]
  obtain s' s'' where "(race_step env0 8 (\<lambda>_. 0))\<^sup>*\<^sup>* (race0 io0 ring0 daq0 0) s'" "race_step env0 8 (\<lambda>_. 0) s' s''"
    "rc_event s'' = rc_event s'" "rc_stop s''"
    "\<forall>s''. (race_step env0 8 (\<lambda>_. 0))\<^sup>*\<^sup>* s' s'' \<and> rc_event s'' = rc_event s'
      \<longrightarrow> rc_pc s'' Main = Taking \<and> act env0 Main s'' = Inl Blocked"
    by blast
  then show ?thesis by (intro exI [of _ s'] exI [of _ s''] conjI) auto
qed

lemma one_interrupt:
  assumes "io_ready io"
  shows "\<exists>s'. replay e N w [Turn t, Writer W', Turn t, Turn t, Turn t, Turn t, Turn t, Turn t] (race0 io q d W) = Inr s'
    \<and> rc_position s' = sint (of_nat (W' mod N div 2) :: u32)"
proof -
  define io1 where "io1 = hw_writes N w W W' io"
  note f = irq_facts [OF assms, of N w W W', folded io1_def]
  show ?thesis by (simp add: race0_def act_def wait_step_def hardware_def goto_def Let_def f flip: io1_def)
qed

text \<open>A run in which the acquisition stores position 1 after an interrupt.\<close>

theorem position_reported_witness:
  "\<exists>xs i j. race_run env0 8 (\<lambda>_. 0) xs \<and> hd xs = race0 (io0\<lparr>io_reg := \<lambda>_ _. 0\<rparr>) ring0 daq0 0
     \<and> rc_position (last xs) = 1 \<and> i < j \<and> Suc j < length xs \<and> (\<exists>t. rc_pc (xs ! i) t = Fetching)
     \<and> sint (peek STS (rc_io (xs ! i)) STS_STATUS_OFFSET) = 1"
proof -
  let ?s = "race0 (io0\<lparr>io_reg := \<lambda>_ _. 0\<rparr>) ring0 daq0 0"
  let ?ts = "[Turn Main, Writer 2, Turn Main, Turn Main, Turn Main, Turn Main, Turn Main, Turn Main]"
  define xs where "xs = trail env0 8 (\<lambda>_. 0) ?ts ?s"
  have run: "race_run env0 8 (\<lambda>_. 0) xs" "hd xs = ?s"
    using trail_run [of env0 8 "\<lambda>_. 0" "[]" ?s ?ts] race_run.starts [of env0 8 "\<lambda>_. 0" ?s]
    unfolding xs_def append_Nil by (simp_all add: race0_def del: trail.simps)
  have r: "io_ready (io0\<lparr>io_reg := \<lambda>_ _. 0\<rparr>)" by (simp add: io_ready_def io0_def)
  obtain s' where "replay env0 8 (\<lambda>_. 0) ?ts ?s = Inr s'" "rc_position s' = 1"
    using one_interrupt [OF r, of env0 8 "\<lambda>_. 0" Main 2 ring0 daq0 0] by (elim exE conjE) simp
  then have pos: "rc_position (last xs) = 1" using trail_last unfolding xs_def by metis
  have "ring_holds 8 (\<lambda>_. 0) 0 (io0\<lparr>io_reg := \<lambda>_ _. 0\<rparr>)" "peek STS (io0\<lparr>io_reg := \<lambda>_ _. 0\<rparr>) STS_STATUS_OFFSET = of_nat (0 mod 8 div 2)"
    by (simp_all add: ring_holds_def peek_def)
  from position_reported [OF run _ this] show ?thesis using pos run by auto
qed

text \<open>Reading on after the position has gone back: from the next word to the end of the ring.\<close>

lemma stale_call:
  assumes N: "0 < N" and q: "at_word N W q" "W mod N + 2 \<le> N" "2 \<le> W mod N"
    and mem: "ring_holds N w W s" "io_map s MEM = Some n" "4 * N \<le> n" "N \<le> W"
    and p: "p * 8 = 4 * int (W mod N) - 8" "in_i32 (p * 8)" and d: "\<not> fFirstTime d" "start_call d = d"
  shows "\<exists>q'. read_buffer e s p q d
    = bindE (decode_all e s (map w [W - N..<W - W mod N]) d) (\<lambda>d'. Inr (1, q', d'))"
proof -
  define a where "a = W mod N"
  have a: "2 \<le> a" "a < N" "a + 2 \<le> N" using q N by (simp_all add: a_def)
  have cur: "current q = 4 * int a - 4" "limit q = 4 * int N" using q(1) a by (auto simp: at_word_def a_def)
  have win: "read_window (limit q) (current q) (p * 8) = (4 * int a, 4 * int (a + (N - a)))"
    using cur p(1) a by (simp add: read_window_def a_def)
  have W: "W = N * (W div N) + a" "0 < W div N" using mem(4) N by (simp_all add: a_def div_greater_zero_iff)
  have cell: "dev_read MEM (4 * (a + j)) s = Inr (w (W - N + j))" if "j < N - a" for j
  proof -
    have "(W - N + j) mod N = a + j"
    proof -
      obtain k where "W div N = Suc k" using W(2) by (cases "W div N") auto
      then have "W - N + j = (a + j) + N * k" using W(1) by simp
      then have "(W - N + j) mod N = (a + j) mod N" by (simp only: mod_mult_self2)
      then show ?thesis using that by simp
    qed
    moreover have "W - N + j < W" "W \<le> W - N + j + N" using that mem(4) by simp_all
    ultimately have "peek MEM s (4 * (a + j)) = w (W - N + j)" using mem(1) unfolding ring_holds_def by metis
    then show ?thesis using mem(2,3) that by (simp add: dev_read_def accessible_def)
  qed
  have "map (\<lambda>j. w (W - N + j)) [0..<N - a] = map w [W - N..<W - a]"
    using mem(4) a by (intro nth_equalityI) simp_all
  then have r: "read_words e s (4 * int a) (4 * int (a + (N - a))) q d
      = bindE (decode_all e s (map w [W - N..<W - a]) d) (\<lambda>d. Inr (q\<lparr>current := 4 * int (a + (N - a)) - 4\<rparr>, d))"
    using read_words_run [of "N - a" a s "\<lambda>j. w (W - N + j)" e q d] cell a by simp
  have "current q \<noteq> limit q - 4" "current q \<noteq> p * 8" using cur p(1) a by (simp_all add: a_def)
  then have "read_buffer e s p q d
      = bindE (decode_all e s (map w [W - N..<W - a]) d) (\<lambda>d'. Inr (1, q\<lparr>current := 4 * int (a + (N - a)) - 4\<rparr>, d'))"
    using p(2) d win r by (simp add: read_buffer_def first_time_def cmul_def bindE_assoc)
  then show ?thesis by (auto simp: a_def)
qed

lemma irq_regs: "same_regs s (poke INTC (hw_writes N w W W' s) XIL_AXI_INTC_IAR_OFFSET 1)"
proof (rule same_regsI)
  show "peek CFG (poke INTC (hw_writes N w W W' s) XIL_AXI_INTC_IAR_OFFSET 1) = peek CFG s"
    by (simp add: peek_poke_bank) (simp add: peek_def [abs_def] hw_writes_facts)
  show "peek XADC (poke INTC (hw_writes N w W W' s) XIL_AXI_INTC_IAR_OFFSET 1) = peek XADC s"
    by (simp add: peek_poke_bank) (simp add: peek_def [abs_def] hw_writes_facts)
qed (simp add: hw_writes_facts)

text \<open>
  C6. The acquisition can write old words again. There is a schedule of two interrupts after which the thread
  stores the first position when the acquisition has already read up to the second one: its next
  poll passes without an interrupt, and the call that follows takes the writer to be behind, reads on to
  the end of the ring, and decodes as new what was read one lap ago.
\<close>

theorem position_goes_back:
  assumes fits: "ring_fits N io" "io_ready io" "ring_holds N w W io"
    and W: "even W" "N \<le> W" "W mod N + 6 \<le> N" and q: "at_word N W q"
    and d: "\<not> fFirstTime d" "start_call d = d" "decode_all e io (map w [W..<W + 4]) d = Inr d'"
  shows "\<exists>s'. (race_step e N w)\<^sup>*\<^sup>* (race0 io q d W) s' \<and> rc_written s' = W + 4 \<and> rc_daq s' = d'
    \<and> rc_pc s' Main = Returned 0
    \<and> (\<exists>q''. act e Main s' = bindE (decode_all e io (map w [W + 4 - N..<W - W mod N]) d')
          (\<lambda>d. Inr (goto Main Unmask (s'\<lparr>rc_ring := q'', rc_daq := d\<rparr>))))"
proof -
  obtain n where N: "even N" "0 < N" "4 * N < 2 ^ 31" "io_map io MEM = Some n" "4 * N \<le> n"
    using fits(1) by (auto simp: ring_fits_def)
  have m: "(W + k) mod N = W mod N + k" if "k < 6" for k
    using mod_add_left_eq [of W N k] W(3) that by simp
  obtain W1 W2 where W12: "W1 = W + 2" "W2 = W + 4" by blast
  define io1 where "io1 = poke INTC (hw_writes N w W W1 io) XIL_AXI_INTC_IAR_OFFSET 1"
  define io2 where "io2 = poke INTC (hw_writes N w W1 W2 io1) XIL_AXI_INTC_IAR_OFFSET 1"
  note f1 = irq_facts [OF fits(2), of N w W W1, folded io1_def]
  note f2 = irq_facts [OF f1(4), of N w W1 W2, folded io2_def]
  note steps = act_def wait_step_def hardware_def goto_def Let_def
  define s1 where "s1 = \<lparr>rc_io = io1, rc_on = False, rc_event = 1, rc_seen = 1, rc_position = 0,
     rc_pc = (\<lambda>_. Unmask)(Isr := Storing (writer_at N W1)), rc_ring = q, rc_daq = d, rc_written = W1, rc_stop = False\<rparr>"
  have 1: "replay e N w [Turn Isr, Writer W1, Turn Isr, Turn Isr, Turn Isr, Turn Isr, Turn Isr] (race0 io q d W) = Inr s1"
    by (simp add: race0_def steps f1 peek_sts [OF N(2,3)] s1_def)
  define s2 where "s2 = s1\<lparr>rc_io := io2, rc_event := 2, rc_seen := 2, rc_position := writer_at N W2,
     rc_pc := (\<lambda>_. Unmask)(Isr := Storing (writer_at N W1), Main := Returned 1), rc_written := W2\<rparr>"
  have 2: "replay e N w [Turn Main, Writer W2, Turn Main, Turn Main, Turn Main, Turn Main, Turn Main, Turn Main] s1 = Inr s2"
    by (simp add: steps f2 peek_sts [OF N(2,3)] s1_def s2_def fun_upd_twist)
  have even: "even (V mod N)" "writer_at N V * 8 = 4 * int (V mod N)" "in_i32 (writer_at N V * 8)" if "even V" for V
  proof -
    show *: "even (V mod N)" using N(1) that by (simp add: dvd_mod)
    have "V mod N < N" using N(2) by simp
    then show "writer_at N V * 8 = 4 * int (V mod N)" "in_i32 (writer_at N V * 8)"
      using * N(3) by (auto simp: writer_at_def in_i32_iff elim!: evenE)
  qed
  have W12e: "even W1" "even W2" "W1 mod N = W mod N + 2" "W2 mod N = W mod N + 4" using W(1) m [of 2] m [of 4] by (simp_all add: W12)
  have map2: "io_map io2 MEM = Some n" using N(4) by (simp add: io1_def io2_def hw_writes_facts)
  have "ring_holds N w W1 io1"
    using hw_writes_facts(5) [OF fits(3) N(2), of W1] by (simp add: io1_def W12(1) ring_holds_def)
  then have mem2: "ring_holds N w W2 io2"
    using hw_writes_facts(5) [OF _ N(2), of w W1 io1 W2] by (simp add: io2_def W12 ring_holds_def)
  have regs: "decode_all e io2 = decode_all e io"
    using decode_all_regs [OF irq_regs [of io1 N w W1 W2, folded io2_def], of e]
      decode_all_regs [OF irq_regs [of io N w W W1, folded io1_def], of e] by simp
  have next2: "next_read N W W2 = W2" using W12e(4) by (simp add: next_read_def W12(2))
  obtain q1 where q1: "at_word N W2 q1" "read_buffer e io2 (writer_at N W2) q d = Inr (1, q1, d')"
    using read_buffer_call [OF N(2) _ _ q mem2 map2 N(5) even(2,3) [OF W12e(2)] d(1), of e] d(2,3) W(3) W12(2)
    unfolding next2 regs by auto
  have d': "\<not> fFirstTime d'" "start_call d' = d'"
    using decode_all_keeps [OF d(3)] start_call_keeps d(1,2) by (auto simp: keeps_def)
  obtain q2 where q2: "read_buffer e io2 (writer_at N W1) q1 d'
      = bindE (decode_all e io2 (map w [W2 - N..<W2 - W2 mod N]) d') (\<lambda>d. Inr (1, q2, d))"
    using stale_call [OF N(2) q1(1) _ _ mem2 map2 N(5) _ _ even(3) [OF W12e(1)] d', of e] even(2) [OF W12e(1)] W12e(3,4) W(2,3) W12(2)
    by auto
  define s3 where "s3 = s2\<lparr>rc_on := True, rc_position := writer_at N W1, rc_ring := q1, rc_daq := d',
     rc_pc := (\<lambda>_. Unmask)(Isr := Returned 1, Main := Returned 0)\<rparr>"
  have 3: "replay e N w [Turn Main, Turn Main, Turn Isr, Turn Main] s2 = Inr s3"
    by (simp add: steps q1(2) s1_def s2_def s3_def fun_upd_twist)
  have "(race_step e N w)\<^sup>*\<^sup>* (race0 io q d W) s1" "(race_step e N w)\<^sup>*\<^sup>* s1 s2" "(race_step e N w)\<^sup>*\<^sup>* s2 s3"
    using replay_reaches [OF 1] replay_reaches [OF 2] replay_reaches [OF 3] W12e(1,2) W12 by (simp_all add: race0_def s1_def)
  then have "(race_step e N w)\<^sup>*\<^sup>* (race0 io q d W) s3" by simp
  moreover have "act e Main s3 = bindE (decode_all e io (map w [W + 4 - N..<W - W mod N]) d')
      (\<lambda>d. Inr (goto Main Unmask (s3\<lparr>rc_ring := q2, rc_daq := d\<rparr>)))"
    using q2 W12e(4) by (simp add: act_def s3_def s2_def s1_def regs bindE_assoc W12(2))
  ultimately show ?thesis by (intro exI [of _ s3]) (auto simp: s3_def s2_def s1_def W12(2))
qed

theorem position_goes_back_witness:
  "\<exists>s' d' q. (race_step env0 8 (\<lambda>_. 0x40000007))\<^sup>*\<^sup>* (race0 io0 q daq0 8) s' \<and> rc_daq s' = d' \<and> rc_pc s' Main = Returned 0
     \<and> (\<exists>q''. act env0 Main s' = bindE (decode_all env0 io0 [0x40000007, 0x40000007, 0x40000007, 0x40000007] d')
          (\<lambda>d. Inr (goto Main Unmask (s'\<lparr>rc_ring := q'', rc_daq := d\<rparr>))))"
proof -
  let ?w = "\<lambda>_ :: nat. 0x40000007 :: u32" and ?q = "\<lparr>current = 28, limit = 32\<rparr>"
  have "ring_fits 8 io0" "io_ready io0" "ring_holds 8 ?w 8 io0" "at_word 8 8 ?q"
    by (simp_all add: ring_fits_def io_ready_def ring_holds_def at_word_def io0_def peek_def)
  moreover obtain d' where "decode_all env0 io0 (map ?w [8..<8 + 4]) daq0 = Inr d'"
    by (simp add: decode_all_def upt_rec decode_word_def on_trigger_def emit_def daq0_def Let_def)
  moreover have "map ?w [8 + 4 - 8..<8 - 8 mod 8] = [0x40000007, 0x40000007, 0x40000007, 0x40000007]" by (simp add: upt_rec)
  ultimately show ?thesis
    using position_goes_back [of 8 io0 ?w 8 ?q daq0 env0] daq0_ready by fastforce
qed

end
