(* ===== verification/AcquaArgs.thy ===== *)
theory AcquaArgs
  imports AcquaFile
begin

unbundle bit_operations_syntax

text \<open>
  The commands of the earlier acquisition program, \<^verbatim>\<open>projects/lago_test/lago.c\<close>, and of the copy of its command line
  in \<^verbatim>\<open>apps/lago/lago.c\<close>: \<^verbatim>\<open>parse_param\<close>, the status command over the registers of the board, reading of the
  configuration file and what the alarm does. The state of the parser is that of version 1.2 under the
  older names: \<^verbatim>\<open>fGetReg\<close>, \<^verbatim>\<open>fPutReg\<close>, \<^verbatim>\<open>fGetRegSet\<close>, \<^verbatim>\<open>fPutRegSet\<close> are \<open>fReadReg\<close>, \<open>fWriteReg\<close>, \<open>fGetCfgStatus\<close>, \<open>fSetCfgReg\<close>, and
  \<^verbatim>\<open>scAction\<close>, \<^verbatim>\<open>scReg\<close>, \<^verbatim>\<open>scFile\<close>, \<^verbatim>\<open>scCount\<close>, \<^verbatim>\<open>scData\<close> are \<open>charAction\<close>, \<open>charReg\<close>, \<open>charFile\<close>, \<open>charCount\<close>, \<open>charRegValue\<close>.
  The board is behind the library of the USB interface, whose reading of a register is an argument.
\<close>

section \<open>The command line\<close>

definition acqua_action :: "params \<Rightarrow> int option \<times> params" where
  "acqua_action p =
     (if charAction p = ''-r'' then (None, p\<lparr>fReadReg := True\<rparr>)
      else if charAction p = ''-p'' then (None, p\<lparr>fWriteReg := True\<rparr>)
      else if charAction p = ''-a'' then (Some 1, p\<lparr>fGetCfgStatus := True\<rparr>)
      else if charAction p = ''-v'' then (Some 0, p\<lparr>fshowversion := True\<rparr>)
      else if charAction p = ''-s'' then (None, p\<lparr>fSetCfgReg := True\<rparr>)
      else if charAction p = ''-f'' then (None, p\<lparr>fToFile := True\<rparr>)
      else if charAction p = ''-o'' then (Some 1, p\<lparr>fToStdout := True\<rparr>)
      else if charAction p = ''-t'' then (Some 1, p\<lparr>fGetPT := True\<rparr>)
      else if charAction p = ''-g'' then (Some 1, p\<lparr>fGetGPS := True\<rparr>)
      else (Some 0, p))"

text \<open>The characters of the register's number are stored over the first ones of \<^verbatim>\<open>scRegister\<close>.\<close>

definition acqua_reg_of :: "string \<Rightarrow> string option" where
  "acqua_reg_of r =
     (if r = ''t1'' then Some ''1''
      else if r = ''t2'' then Some ''3''
      else if r = ''t3'' then Some ''5''
      else if r = ''st1'' then Some ''7''
      else if r = ''st2'' then Some ''9''
      else if r = ''st3'' then Some ''11''
      else if r = ''hv1'' then Some ''13''
      else if r = ''hv2'' then Some ''15''
      else if r = ''hv3'' then Some ''17''
      else if r = ''tm'' then Some ''19''
      else None)"

definition acqua_parse_set :: "string list \<Rightarrow> params \<Rightarrow> (int \<times> params) res" where
  "acqua_parse_set argv p =
     bindE (arg_at argv 2) (\<lambda>a2.
     let p = p\<lparr>charReg := StrcpyS (charReg p) MAXCHRLEN a2\<rparr>
     in case acqua_reg_of (charReg p) of None \<Rightarrow> Inr (0, p)
        | Some r \<Rightarrow>
            let p = p\<lparr>scRegister := r @ drop (length r) (scRegister p)\<rparr>
            in bindE (arg_at argv 3) (\<lambda>a3.
               let p = p\<lparr>charRegValue := StrcpyS (charRegValue p) 16 a3\<rparr>
               in if take 2 (charReg p) = ''hv'' \<and> atoi (charRegValue p) > 4000 then Inl (Exit 1)
                  else Inr (1, p\<lparr>fData := True\<rparr>)))"

definition acqua_parse_rest :: "string list \<Rightarrow> params \<Rightarrow> (int \<times> params) res" where
  "acqua_parse_rest argv p =
     (if fSetCfgReg p then acqua_parse_set argv p
      else if fToFile p then parse_file argv p
      else bindE (arg_at argv 2) (\<lambda>a2.
           Inr (parse_options argv 3 (p\<lparr>scRegister := StrcpyS (scRegister p) MAXCHRLEN a2\<rparr>))))"

definition acqua_parse_param :: "string list \<Rightarrow> params \<Rightarrow> (int \<times> params) res" where
  "acqua_parse_param argv p =
     (let p = clear_flags p
      in if length argv < 2 then Inr (0, p)
         else case acqua_action (p\<lparr>charAction := StrcpyS (charAction p) MAXCHRLEN (argv ! 1)\<rparr>) of
                (Some v, p) \<Rightarrow> Inr (v, p)
              | (None, p) \<Rightarrow> acqua_parse_rest argv p)"

definition acqua_usage :: "string \<Rightarrow> string list \<Rightarrow> string list" where
  "acqua_usage progname extra =
     [[], tabs 1 ''The LAGO ACQUA suite'',
      tabs 1 ''Data acquisition system for the LAGO BRC electronic'',
      tabs 1 ''(c) 2012-Today, The LAGO Project, http://lagoproject.org'',
      tabs 1 ''(c) 2012, LabDPR, http://labdpr.cab.cnea.gov.ar'',
      [], tabs 1 ''The LAGO Project, lago@lagoproject.org'',
      [], tabs 1 ''DPR Lab. 2012'',
      tabs 1 ''H. Arnaldi, lharnaldi@gmail.com - H. Asorey, asoreyh@gmail.com'',
      tabs 1 (''LAGO v'' @ show_int 2 @ ''r'' @ show_int 0 @ '' comms soft''), [],
      ''Usage: '' @ progname @ '' <action> <register> <value> [options]'',
      [], tabs 1 ''Actions:'']
     @ extra
     @ [tabs 1 (''-a'' @ tabs 4 ''Get all registers status''),
      tabs 1 (''-s'' @ tabs 4 ''Set registers''),
      tabs 1 (''-f'' @ tabs 4 ''Start DAQ and save data to file''),
      tabs 1 (''-o'' @ tabs 4 ''Start DAQ and send data to stdout''),
      tabs 1 (''-g'' @ tabs 4 ''Get GPS data''),
      tabs 1 (''-t'' @ tabs 4 ''Get Pressure and Temperature data''),
      tabs 1 (''-v'' @ tabs 4 ''Show DAQ version''),
      [], tabs 1 ''Registers:'',
      tabs 1 (''t1, t2, t3'' @ tabs 3 ''Specify triggers 1, 2 and 3''),
      tabs 1 (''hv1, hv2, hv3'' @ tabs 3 ''Specify high voltages ...''),
      tabs 1 (''tm'' @ tabs 4 ''Specify Time Mode for GPS Receiver (0 - UTC, 1 - GPS)''),
      [], tabs 1 ''Options:'',
      tabs 1 (''-f <filename>'' @ tabs 3 ''Specify file name''),
      tabs 1 (''-c <# bytes>'' @ tabs 3 ''Number of bytes to read/write''),
      tabs 1 (''-b <byte>'' @ tabs 3 ''Value to load into register''), [], []]"

definition acqua_show_usage :: "string \<Rightarrow> params \<Rightarrow> string list" where
  "acqua_show_usage progname p =
     (if fshowversion p
      then [''LAGO ACQUA BRC v'' @ show_int 2 @ ''r'' @ show_int 0 @ '' data v'' @ show_int DATAVERSION]
      else acqua_usage progname [])"

section \<open>The copy of the command line\<close>

text \<open>It knows two more actions: loading a file into the logic and looking for its programming interface.\<close>

record suite_args =
  s_par :: params
  fXsvfFile :: bool
  fScanJTAG :: bool

definition suite_action :: "suite_args \<Rightarrow> int option \<times> suite_args" where
  "suite_action s =
     (if charAction (s_par s) = ''-x'' then (None, s\<lparr>fXsvfFile := True\<rparr>)
      else if charAction (s_par s) = ''-j'' then (Some 1, s\<lparr>fScanJTAG := True\<rparr>)
      else case acqua_action (s_par s) of (r, p) \<Rightarrow> (r, s\<lparr>s_par := p\<rparr>))"

definition suite_rest :: "string list \<Rightarrow> suite_args \<Rightarrow> (int \<times> suite_args) res" where
  "suite_rest argv s =
     (if \<not> fSetCfgReg (s_par s) \<and> \<not> fToFile (s_par s) \<and> fXsvfFile s then
        (if 2 < length argv
         then Inr (1, s\<lparr>s_par := (s_par s)\<lparr>charFile := StrcpyS (charFile (s_par s)) 127 (argv ! 2)\<rparr>\<rparr>)
         else Inr (0, s))
      else bindE (acqua_parse_rest argv (s_par s)) (\<lambda>(v, p). Inr (v, s\<lparr>s_par := p\<rparr>)))"

definition FParseParamSync :: "string list \<Rightarrow> suite_args \<Rightarrow> (int \<times> suite_args) res" where
  "FParseParamSync argv s =
     (let p = clear_flags (s_par s); s = s\<lparr>s_par := p, fXsvfFile := False, fScanJTAG := False\<rparr>
      in if length argv < 2 then Inr (0, s)
         else case suite_action (s\<lparr>s_par := p\<lparr>charAction := StrcpyS (charAction p) MAXCHRLEN (argv ! 1)\<rparr>\<rparr>) of
                (Some v, s) \<Rightarrow> Inr (v, s)
              | (None, s) \<Rightarrow> suite_rest argv s)"

definition suite_show_usage :: "string \<Rightarrow> suite_args \<Rightarrow> string list" where
  "suite_show_usage progname s =
     (if fshowversion (s_par s) then acqua_show_usage progname (s_par s)
      else acqua_usage progname [tabs 1 (''-x'' @ tabs 4 ''Specify .xsvf file to load into FPGA'')])"

section \<open>Status, configuration and alarm\<close>

text \<open>The bytes of the registers, one after the other, until one cannot be read.\<close>

fun read_status :: "(nat \<Rightarrow> u8 option) \<Rightarrow> nat list \<Rightarrow> u8 list option" where
  "read_status rd [] = Some []"
| "read_status rd (a # as) =
     (case rd a of None \<Rightarrow> None | Some b \<Rightarrow> map_option ((#) b) (read_status rd as))"

definition pair_value :: "u8 list \<Rightarrow> nat \<Rightarrow> int" where
  "pair_value b i = uint (b ! i) * 256 + uint (b ! (i + 1))"

definition status_lines :: "u8 list \<Rightarrow> string list" where
  "status_lines b =
     [''#Trigger Level Ch1 = '' @ show_int (pair_value b 0),
      ''#Trigger Level Ch2 = '' @ show_int (pair_value b 2),
      ''#Trigger Level Ch3 = '' @ show_int (pair_value b 4),
      ''#High Voltage 1    = '' @ show_int (pair_value b 18),
      ''#High Voltage 2    = '' @ show_int (pair_value b 20),
      ''#High Voltage 3    = '' @ show_int (pair_value b 22),
      (if b ! 24 = 0 then ''#GPS Time Mode     = UTC'' else ''#GPS Time Mode     = GPS''),
      [], ''Status from registers complete!'']"

text \<open>What is printed, and the status the program exits with unless the function returns.\<close>

definition DoGetRegSetSync :: "(nat \<Rightarrow> u8 option) \<Rightarrow> string list \<times> int option" where
  "DoGetRegSetSync rd =
     (case read_status rd [1..<26] of
        None \<Rightarrow> ([''flWriteChannel failed''], Some 1)
      | Some b \<Rightarrow> (status_lines b, None))"

text \<open>The configuration file, \<^verbatim>\<open>lago-configs\<close>: its lines that are neither empty nor comments.\<close>

fun config_line :: "string \<Rightarrow> acq \<Rightarrow> acq" where
  "config_line [] q = q"
| "config_line (c # cs) q = (if c = CHR ''#'' then q else q\<lparr>configs_lines := configs_lines q @ [c # cs]\<rparr>)"

definition read_configs :: "string list option \<Rightarrow> acq \<Rightarrow> acq res" where
  "read_configs cfg q =
     (case cfg of None \<Rightarrow> Inl (Exit 1) | Some ls \<Rightarrow> Inr (fold config_line ls q))"

text \<open>The alarm writes two lines and exits: the state in which it does, or the null access.\<close>

definition handler :: "acq \<Rightarrow> acq res" where
  "handler q = on_file (emits [''# E @@@'',
     ''# E 1 - Spend 2 seconds without answer from USB at '' @ show_int (fileTime (u_daq (q_uio q))) @ '', resetting'']) q"

lemma read_configs_lines:
  "read_configs (Some ls) q = Inr (q\<lparr>configs_lines := configs_lines q @ [l \<leftarrow> ls. l \<noteq> [] \<and> hd l \<noteq> CHR ''#'']\<rparr>)"
proof -
  have "fold config_line ls q = q\<lparr>configs_lines := configs_lines q @ [l \<leftarrow> ls. l \<noteq> [] \<and> hd l \<noteq> CHR ''#'']\<rparr>"
  proof (induction ls arbitrary: q)
    case (Cons l ls)
    then show ?case by (cases l) simp_all
  qed simp
  then show ?thesis by (simp add: read_configs_def)
qed

section \<open>The parsers\<close>

lemma acqua_reg_short: "acqua_reg_of r = Some n \<Longrightarrow> length r \<le> 3 \<and> length n \<le> 2 \<and> n \<noteq> []"
  by (auto simp: acqua_reg_of_def split: if_splits)

lemma over_fits: "length r \<le> 2 \<Longrightarrow> n < MAXCHRLEN \<Longrightarrow> length r + (n - length r) < MAXCHRLEN"
  by (simp add: MAXCHRLEN_def)

lemma short_copy: "length w \<le> 3 \<Longrightarrow> StrcpyS d MAXCHRLEN a = w \<longleftrightarrow> a = w"
  by (auto simp: StrcpyS_def MAXCHRLEN_def min_def split: if_splits)

lemma acqua_set_fits: "params_fit p \<Longrightarrow> outcome_fits (acqua_parse_set argv p)"
  unfolding acqua_parse_set_def Let_def
  by (intro fit_rules) (auto simp: params_fit_def over_fits dest!: acqua_reg_short)

lemma acqua_rest_fits: "params_fit p \<Longrightarrow> outcome_fits (acqua_parse_rest argv p)"
  unfolding acqua_parse_rest_def
  by (intro fit_rules acqua_set_fits parse_file_fits parse_options_fits) (auto simp: params_fit_def)

lemma acqua_action_fits: "params_fit p \<Longrightarrow> fst (acqua_action p) \<in> {None, Some 0, Some 1} \<and> params_fit (snd (acqua_action p))"
  by (simp add: acqua_action_def params_fit_def MAXCHRLEN_def)

lemma acqua_parse_param_fits:
  assumes "params_fit p"
  shows "outcome_fits (acqua_parse_param argv p)"
proof -
  define q where "q = clear_flags p\<lparr>charAction := StrcpyS (charAction (clear_flags p)) MAXCHRLEN (argv ! 1)\<rparr>"
  have c: "params_fit (clear_flags p)" "params_fit q"
    using assms by (simp_all add: params_fit_def clear_flags_def q_def)
  obtain r q' where a: "acqua_action q = (r, q')" by (cases "acqua_action q")
  then have "r \<in> {None, Some 0, Some 1}" "params_fit q'" using acqua_action_fits [OF c(2)] by simp_all
  then show ?thesis
    unfolding acqua_parse_param_def Let_def q_def [symmetric] a prod.case
    using c(1) by (intro fit_rules acqua_rest_fits) auto
qed

text \<open>
  The two parsers agree. But for the two actions that only the copy knows, it accepts the same command lines
  with the same settings, rejects the same and stops at the same.
\<close>

theorem suite_parser_agrees:
  assumes "1 < length argv \<Longrightarrow> argv ! 1 \<noteq> ''-x'' \<and> argv ! 1 \<noteq> ''-j''"
  shows "FParseParamSync argv s =
    bindE (acqua_parse_param argv (s_par s)) (\<lambda>(v, p). Inr (v, s\<lparr>fXsvfFile := False, fScanJTAG := False, s_par := p\<rparr>))"
proof (cases "length argv < 2")
  case True
  then show ?thesis by (simp add: FParseParamSync_def acqua_parse_param_def Let_def)
next
  case False
  let ?s = "s\<lparr>fXsvfFile := False, fScanJTAG := False\<rparr>"
  define q where "q = clear_flags (s_par s)\<lparr>charAction := StrcpyS (charAction (clear_flags (s_par s))) MAXCHRLEN (argv ! 1)\<rparr>"
  have "charAction q \<noteq> ''-x''" "charAction q \<noteq> ''-j''"
    using False assms by (simp_all add: q_def short_copy)
  moreover obtain r p where a: "acqua_action q = (r, p)" by (cases "acqua_action q")
  ultimately have "suite_action (?s\<lparr>s_par := q\<rparr>) = (r, ?s\<lparr>s_par := p\<rparr>)" by (simp add: suite_action_def)
  moreover have "suite_rest argv (?s\<lparr>s_par := p\<rparr>) = bindE (acqua_parse_rest argv p) (\<lambda>(v, p). Inr (v, ?s\<lparr>s_par := p\<rparr>))"
    by (simp add: suite_rest_def)
  moreover have "FParseParamSync argv s = (case suite_action (?s\<lparr>s_par := q\<rparr>) of
      (Some v, s) \<Rightarrow> Inr (v, s) | (None, s) \<Rightarrow> suite_rest argv s)"
    using False by (simp add: FParseParamSync_def Let_def q_def)
  moreover have "acqua_parse_param argv (s_par s) = (case r of Some v \<Rightarrow> Inr (v, p) | None \<Rightarrow> acqua_parse_rest argv p)"
    using False a by (simp add: acqua_parse_param_def Let_def q_def)
  ultimately show ?thesis by (cases r) simp_all
qed

section \<open>What the status shows\<close>

lemma read_status_all: "(\<And>a. a \<in> set as \<Longrightarrow> rd a \<noteq> None) \<Longrightarrow> read_status rd as = Some (map (\<lambda>a. the (rd a)) as)"
  by (induction as) (auto split: option.split)

definition register_pair :: "(nat \<Rightarrow> u8 option) \<Rightarrow> nat \<Rightarrow> string" where
  "register_pair rd k = show_int (uint (the (rd k)) * 256 + uint (the (rd (k + 1))))"

lemma status_all:
  assumes "\<forall>k. 1 \<le> k \<and> k \<le> 25 \<longrightarrow> rd k \<noteq> None"
  shows "DoGetRegSetSync rd =
    ([''#Trigger Level Ch1 = '' @ register_pair rd 1, ''#Trigger Level Ch2 = '' @ register_pair rd 3,
      ''#Trigger Level Ch3 = '' @ register_pair rd 5, ''#High Voltage 1    = '' @ register_pair rd 19,
      ''#High Voltage 2    = '' @ register_pair rd 21, ''#High Voltage 3    = '' @ register_pair rd 23,
      (if the (rd 25) = 0 then ''#GPS Time Mode     = UTC'' else ''#GPS Time Mode     = GPS''),
      [], ''Status from registers complete!''], None)"
proof -
  have "read_status rd [1..<26] = Some (map (\<lambda>a. the (rd a)) [1..<26])" using assms by (intro read_status_all) auto
  moreover have "pair_value (map (\<lambda>a. the (rd a)) [1..<26]) i = uint (the (rd (i + 1))) * 256 + uint (the (rd (i + 2)))"
    if "i < 24" for i
    using that by (simp add: pair_value_def del: upt.simps)
  ultimately show ?thesis
    by (simp add: DoGetRegSetSync_def status_lines_def register_pair_def del: upt.simps)
qed

text \<open>A command line that both parsers accept.\<close>

lemma parse_hv_2300:
  "\<exists>p'. acqua_parse_param [''lago'', ''-s'', ''hv1'', ''2300''] params0 = Inr (1, p')"
proof -
  have "atoi ''2300'' = 2300" by code_simp
  then show ?thesis
    by (simp add: acqua_parse_param_def acqua_action_def acqua_parse_rest_def acqua_parse_set_def clear_flags_def
        arg_at_def Let_def StrcpyS_def MAXCHRLEN_def acqua_reg_of_def)
qed

theorem suite_parser_agrees_witness:
  "\<exists>s'. FParseParamSync [''lago'', ''-s'', ''hv1'', ''2300'']
    \<lparr>s_par = params0, fXsvfFile = False, fScanJTAG = False\<rparr> = Inr (1, s')"
proof -
  obtain p' where "acqua_parse_param [''lago'', ''-s'', ''hv1'', ''2300''] params0 = Inr (1, p')" using parse_hv_2300 by blast
  then show ?thesis
    using suite_parser_agrees [of "[''lago'', ''-s'', ''hv1'', ''2300'']" "\<lparr>s_par = params0, fXsvfFile = False, fScanJTAG = False\<rparr>"]
    by simp
qed

end
