(* ===== verification/HandleRace.thy ===== *)
theory HandleRace
  imports MyHandle
begin

text \<open>
  Several readers of \<^verbatim>\<open>drivers/myhandle/myhandle.c\<close> at once. \<^verbatim>\<open>dev_read\<close> waits until the flag is set and takes it back in
  the next statement, without a lock: between the two, other readers, writers and interrupts come in any
  order. The call of \<open>MyHandle\<close> is both steps in a row.
\<close>

section \<open>A call in two steps\<close>

text \<open>What \<^verbatim>\<open>dev_read\<close> does behind \<^verbatim>\<open>wait_event\<close>: its value, what is copied, and the state.\<close>

definition after_wait :: "(string \<Rightarrow> int) \<Rightarrow> handle \<Rightarrow> int \<times> string \<times> handle" where
  "after_wait copy s =
     (let s = s\<lparr>x_flag := 0\<rparr>; data = take (nat (size_of_message s)) (message s); error_count = copy data
      in if error_count = 0 then
           (0, data, note_msg (''gpioChar: Sent '' @ show_int (size_of_message s) @ '' characters to the user'')
                       (s\<lparr>size_of_message := 0\<rparr>))
         else (- 14, data, note_msg (''gpioChar: Failed to send '' @ show_int error_count @ '' characters to the user'') s))"

lemma gpio_read_in_two: "gpio_read copy len s = (if x_flag s = 0 then Inl Blocked else Inr (after_wait copy s))"
  by (simp add: gpio_read_def after_wait_def Let_def)

text \<open>
  The device and those who use it: the readers that have left \<^verbatim>\<open>wait_event\<close>, what each call that came back was
  handed, in order, and the number of interrupts. \<open>sh_broken\<close>: a call has written past the message, or the
  interrupt handler has read through an address that is not mapped; what the kernel does then is not known, and no
  step follows.
\<close>

record sharing =
  sh_dev :: handle
  sh_woken :: "nat \<Rightarrow> bool"
  sh_got :: "(nat \<times> string) list"
  sh_irqs :: nat
  sh_broken :: bool

inductive shared_step :: "sharing \<Rightarrow> sharing \<Rightarrow> bool" where
  sh_open: "\<not> sh_broken s \<Longrightarrow> gpio_open (sh_dev s) = (r, d) \<Longrightarrow> shared_step s (s\<lparr>sh_dev := d\<rparr>)"
| sh_write: "\<not> sh_broken s \<Longrightarrow> gpio_write buffer len (sh_dev s) = Inr (r, d) \<Longrightarrow> shared_step s (s\<lparr>sh_dev := d\<rparr>)"
| sh_overrun: "\<not> sh_broken s \<Longrightarrow> gpio_write buffer len (sh_dev s) = Inl f \<Longrightarrow> shared_step s (s\<lparr>sh_broken := True\<rparr>)"
| sh_release: "\<not> sh_broken s \<Longrightarrow> gpio_release (sh_dev s) = (r, d) \<Longrightarrow> shared_step s (s\<lparr>sh_dev := d\<rparr>)"
| sh_interrupt: "\<not> sh_broken s \<Longrightarrow> xilaxitimer_isr (sh_dev s) = Inr d \<Longrightarrow>
    shared_step s (s\<lparr>sh_dev := d, sh_irqs := Suc (sh_irqs s)\<rparr>)"
| sh_unmapped: "\<not> sh_broken s \<Longrightarrow> xilaxitimer_isr (sh_dev s) = Inl f \<Longrightarrow> shared_step s (s\<lparr>sh_broken := True\<rparr>)"
| sh_wakes: "\<not> sh_broken s \<Longrightarrow> x_flag (sh_dev s) \<noteq> 0 \<Longrightarrow> shared_step s (s\<lparr>sh_woken := (sh_woken s)(p := True)\<rparr>)"
| sh_reads: "\<not> sh_broken s \<Longrightarrow> sh_woken s p \<Longrightarrow> after_wait copy (sh_dev s) = (r, data, d) \<Longrightarrow>
    shared_step s (s\<lparr>sh_dev := d, sh_woken := (sh_woken s)(p := False), sh_got := sh_got s @ [(p, data)]\<rparr>)"

definition reads_of :: "nat \<Rightarrow> sharing \<Rightarrow> nat" where
  "reads_of p s = length [x \<leftarrow> sh_got s. fst x = p]"

section \<open>Each reader alone\<close>

text \<open>A reader that is through, or may go through, has an interrupt that it has not used.\<close>

definition sharing_inv :: "sharing \<Rightarrow> bool" where
  "sharing_inv s \<longleftrightarrow>
     (\<forall>p. reads_of p s + (if sh_woken s p \<or> x_flag (sh_dev s) \<noteq> 0 then 1 else 0) \<le> sh_irqs s)
     \<and> 0 \<le> size_of_message (sh_dev s) \<and> size_of_message (sh_dev s) \<le> int (length (message (sh_dev s)))
     \<and> length (message (sh_dev s)) < 256"

lemma after_wait_sel:
  assumes "after_wait copy s = (r, data, d)"
  shows "x_flag d = 0" "message d = message s" "size_of_message d = 0 \<or> size_of_message d = size_of_message s"
  using assms by (auto simp: after_wait_def Let_def split: if_splits)

lemma file_call_sel:
  "gpio_open s = (r, d) \<Longrightarrow> x_flag d = x_flag s \<and> message d = message s \<and> size_of_message d = size_of_message s"
  "gpio_release s = (r, d) \<Longrightarrow> x_flag d = x_flag s \<and> message d = message s \<and> size_of_message d = size_of_message s"
  "gpio_write buffer len s = Inr (v, d) \<Longrightarrow> x_flag d = x_flag s \<and> size_of_message d = int (length (message d)) \<and> length (message d) < 256"
  by (auto simp: gpio_open_def gpio_release_def gpio_write_def Let_def split: if_splits)

lemma sharing_inv_call:
  "sharing_inv s \<Longrightarrow> x_flag d = x_flag (sh_dev s) \<Longrightarrow> 0 \<le> size_of_message d \<Longrightarrow>
    size_of_message d \<le> int (length (message d)) \<Longrightarrow> length (message d) < 256 \<Longrightarrow> sharing_inv (s\<lparr>sh_dev := d\<rparr>)"
  by (simp add: sharing_inv_def reads_of_def)

lemma sharing_inv_wakes: "sharing_inv s \<Longrightarrow> x_flag (sh_dev s) \<noteq> 0 \<Longrightarrow> sharing_inv (s\<lparr>sh_woken := (sh_woken s)(p := True)\<rparr>)"
  by (simp add: sharing_inv_def reads_of_def)

lemma sharing_inv_broken: "sharing_inv s \<Longrightarrow> sharing_inv (s\<lparr>sh_broken := True\<rparr>)"
  by (simp add: sharing_inv_def reads_of_def)

lemma sharing_inv_sizes:
  "sharing_inv s \<Longrightarrow> 0 \<le> size_of_message (sh_dev s) \<and> size_of_message (sh_dev s) \<le> int (length (message (sh_dev s)))
    \<and> length (message (sh_dev s)) < 256"
  by (simp add: sharing_inv_def)

lemma sharing_inv_step: "shared_step s s' \<Longrightarrow> sharing_inv s \<Longrightarrow> sharing_inv s'"
proof (induction rule: shared_step.induct)
  case (sh_reads s p copy r data d)
  have "reads_of q (s\<lparr>sh_dev := d, sh_woken := (sh_woken s)(p := False), sh_got := sh_got s @ [(p, data)]\<rparr>)
      = reads_of q s + (if q = p then 1 else 0)" for q
    by (simp add: reads_of_def)
  then show ?case
    using sh_reads(2,4) after_wait_sel [OF sh_reads(3)] by (auto simp: sharing_inv_def split: if_splits)
next
  case (sh_interrupt s d)
  have "reads_of p s \<le> sh_irqs s" for p
    using sh_interrupt(3) by (auto simp: sharing_inv_def dest: spec [of _ p])
  then show ?case
    using sh_interrupt(3) isr_keeps [OF sh_interrupt(2)] by (auto simp: sharing_inv_def reads_of_def)
qed (auto intro!: sharing_inv_call sharing_inv_wakes sharing_inv_broken dest: sharing_inv_sizes dest!: file_call_sel)

text \<open>
  C32. A reader never gets ahead of the interrupts. However many there are, and whatever comes between the end of
  its waiting and its taking back the flag, none has come back from more reads than there were
  interrupts; together they have from at most so many for each of them. The length of the message stays within the
  buffer until a call overruns it or a handler reads an address that is not mapped: a text that needs 256 characters or more, with the number of letters that is
  appended, is not refused in any state but written past the message.
\<close>

theorem readers_follow_interrupts:
  assumes "shared_step\<^sup>*\<^sup>* \<lparr>sh_dev = d, sh_woken = (\<lambda>_. False), sh_got = [], sh_irqs = 0, sh_broken = False\<rparr> s"
    and "x_flag d = 0" and "size_of_message d = 0" and "length (message d) < 256"
  shows "reads_of p s \<le> sh_irqs s \<and> (\<Sum>p \<in> R. reads_of p s) \<le> card R * sh_irqs s
    \<and> (\<not> sh_broken s \<longrightarrow> 0 \<le> size_of_message (sh_dev s) \<and> size_of_message (sh_dev s) < 256
        \<and> (256 \<le> length (letters buffer len) \<longrightarrow> gpio_write buffer len (sh_dev s) = Inl OutOfBounds
             \<and> shared_step s (s\<lparr>sh_broken := True\<rparr>)))"
proof -
  have "sharing_inv \<lparr>sh_dev = d, sh_woken = (\<lambda>_. False), sh_got = [], sh_irqs = 0, sh_broken = False\<rparr>"
    using assms(2-4) by (simp add: sharing_inv_def reads_of_def)
  with assms(1) have inv: "sharing_inv s" by (induction rule: rtranclp_induct) (auto intro: sharing_inv_step)
  have each: "reads_of q s \<le> sh_irqs s" for q
    using inv by (auto simp: sharing_inv_def dest: spec [of _ q])
  moreover have "(\<Sum>p \<in> R. reads_of p s) \<le> of_nat (card R) * sh_irqs s" by (rule sum_bounded_above) (rule each)
  moreover have long: "gpio_write buffer len (sh_dev s) = Inl OutOfBounds" if "256 \<le> length (letters buffer len)"
    using that by (simp add: gpio_write_def)
  ultimately show ?thesis using inv shared_step.sh_overrun [OF _ long] by (simp add: sharing_inv_def)
qed

section \<open>Two readers\<close>

text \<open>
  C33. One interrupt can let two readers through. When both have left their waiting before the first takes back the
  flag, the first is handed the message and the second, at the same interrupt, nothing.
\<close>

theorem one_interrupt_two_readers:
  assumes "virt d" and "p \<noteq> q"
  shows "\<exists>s. shared_step\<^sup>*\<^sup>* \<lparr>sh_dev = d, sh_woken = (\<lambda>_. False), sh_got = [], sh_irqs = 0, sh_broken = False\<rparr> s
    \<and> sh_irqs s = 1 \<and> \<not> sh_broken s \<and> sh_got s = [(p, take (nat (size_of_message d)) (message d)), (q, [])]"
proof -
  let ?s0 = "\<lparr>sh_dev = d, sh_woken = (\<lambda>_. False), sh_got = [], sh_irqs = 0, sh_broken = False\<rparr>"
  obtain d1 where d1: "xilaxitimer_isr d = Inr d1" "x_flag d1 = 1" "message d1 = message d" "size_of_message d1 = size_of_message d"
    using isr_ok [OF assms(1)] by blast
  let ?s1 = "?s0\<lparr>sh_dev := d1, sh_irqs := Suc 0\<rparr>"
  let ?s2 = "?s1\<lparr>sh_woken := (sh_woken ?s1)(p := True)\<rparr>"
  let ?s3 = "?s2\<lparr>sh_woken := (sh_woken ?s2)(q := True)\<rparr>"
  obtain d2 where d2: "after_wait (\<lambda>_. 0) d1 = (0, take (nat (size_of_message d)) (message d), d2)" "size_of_message d2 = 0"
    using d1 by (simp add: after_wait_def Let_def)
  let ?s4 = "?s3\<lparr>sh_dev := d2, sh_woken := (sh_woken ?s3)(p := False),
    sh_got := sh_got ?s3 @ [(p, take (nat (size_of_message d)) (message d))]\<rparr>"
  obtain d3 where d3: "after_wait (\<lambda>_. 0) d2 = (0, [], d3)"
    using d2(2) by (simp add: after_wait_def Let_def)
  let ?s5 = "?s4\<lparr>sh_dev := d3, sh_woken := (sh_woken ?s4)(q := False), sh_got := sh_got ?s4 @ [(q, [])]\<rparr>"
  have "shared_step ?s0 ?s1" using shared_step.sh_interrupt [of ?s0 d1] d1(1) by simp
  moreover have "shared_step ?s1 ?s2" "shared_step ?s2 ?s3" using d1(2) by (intro shared_step.sh_wakes; simp)+
  moreover have "shared_step ?s3 ?s4" using d2(1) by (intro shared_step.sh_reads) simp_all
  moreover have "shared_step ?s4 ?s5" using d3 assms(2) by (intro shared_step.sh_reads) simp_all
  ultimately have "shared_step\<^sup>*\<^sup>* ?s0 ?s5" by (meson converse_rtranclp_into_rtranclp rtranclp.rtrancl_refl)
  then show ?thesis by (intro exI [of _ ?s5]) simp
qed

theorem one_interrupt_two_readers_witness:
  "\<exists>s. shared_step\<^sup>*\<^sup>* \<lparr>sh_dev = handle0\<lparr>virt := True, message := ''go'', size_of_message := 2\<rparr>,
        sh_woken = (\<lambda>_. False), sh_got = [], sh_irqs = 0, sh_broken = False\<rparr> s
    \<and> sh_irqs s = 1 \<and> \<not> sh_broken s \<and> sh_got s = [(0, ''go''), (1, [])]"
  using one_interrupt_two_readers [of "handle0\<lparr>virt := True, message := ''go'', size_of_message := 2\<rparr>" 0 1] by simp

theorem readers_follow_interrupts_witness:
  "\<exists>s. sh_irqs s = 1 \<and> sh_got s = [(7, [])] \<and> reads_of 7 s \<le> sh_irqs s \<and> size_of_message (sh_dev s) < 256
    \<and> (\<exists>s'. shared_step s s' \<and> sh_broken s')"
proof -
  let ?d = "handle0\<lparr>virt := True\<rparr>"
  let ?s0 = "\<lparr>sh_dev = ?d, sh_woken = (\<lambda>_. False), sh_got = [], sh_irqs = 0, sh_broken = False\<rparr>"
  obtain d1 where d1: "xilaxitimer_isr ?d = Inr d1" "x_flag d1 = 1" "size_of_message d1 = 0"
    using isr_ok [of ?d] by (auto simp: handle0_def)
  obtain d2 where d2: "after_wait (\<lambda>_. 0) d1 = (0, [], d2)"
    using d1 by (simp add: after_wait_def Let_def)
  let ?s1 = "?s0\<lparr>sh_dev := d1, sh_irqs := Suc 0\<rparr>"
  let ?s2 = "?s1\<lparr>sh_woken := (sh_woken ?s1)(7 := True)\<rparr>"
  let ?s3 = "?s2\<lparr>sh_dev := d2, sh_woken := (sh_woken ?s2)(7 := False), sh_got := sh_got ?s2 @ [(7, [])]\<rparr>"
  have "shared_step ?s0 ?s1" using shared_step.sh_interrupt [of ?s0 d1] d1(1) by simp
  moreover have "shared_step ?s1 ?s2" using d1(2) by (intro shared_step.sh_wakes) simp_all
  moreover have "shared_step ?s2 ?s3" using d2 by (intro shared_step.sh_reads) simp_all
  ultimately have "shared_step\<^sup>*\<^sup>* ?s0 ?s3" by (meson converse_rtranclp_into_rtranclp rtranclp.rtrancl_refl)
  from readers_follow_interrupts [OF this, of 7 "{7}" "replicate 250 CHR ''a''" 250] have "reads_of 7 ?s3 \<le> sh_irqs ?s3 \<and> size_of_message (sh_dev ?s3) < 256
      \<and> shared_step ?s3 (?s3\<lparr>sh_broken := True\<rparr>)"
    by (simp add: handle0_def letters_def)
  then show ?thesis by (intro exI [of _ ?s3]) (simp, intro exI conjI, (elim conjE, assumption), simp)
qed

end
