(* ===== verification/Spec2Isabelle.thy ===== *)
theory Spec2Isabelle
  imports LagoMain MemAlloc Hello MyHandle Streaming Capture Versions AxiDma Blink DmaRegs AcquaFile
    Clients BramTest RegTests IntcTests DmaCapture Older Threads AcquaArgs HandleRace
begin

text \<open>
  A verification library for the programs and drivers of the LAGO data acquisition system, a
  cosmic-ray station on a Zynq board: programmable logic samples the detectors and writes words
  into a ring of memory, C programs set its registers, read the ring and write data files.

  \<^bold>\<open>Parts of the system and where they are modelled\<close>

  The acquisition program, \<^verbatim>\<open>src/projects/lago_v1_2/src\<close>, with the call graph
  main - read_buffer - (registers, clock, sensor, GPS):

  \<^item> \<open>Registers\<close>, \<open>ZynqIO\<close>: \<^verbatim>\<open>zynq_io.c\<close>. The state \<open>io\<close> has five banks (interrupt controller,
    configuration, status, XADC, memory), whether each is open and mapped, and a log of the
    writes. A read or write of a bank that is not mapped is a null access. \<open>ZynqIO\<close> has the
    operations on top: registers by number, high voltage to converter value and back, the
    set-up, the memory size, interrupts.
  \<^item> \<open>Uart\<close>, \<open>Nmea\<close>, \<open>Gps\<close>: \<^verbatim>\<open>uart_rp.c\<close>, \<^verbatim>\<open>nmea_rp.c\<close>, \<^verbatim>\<open>gps_rp.c\<close>. The serial line is the list of
    results its reads will give; the loop for a fix ends with \<open>Blocked\<close> when they run out.
  \<^item> \<open>Bmp180\<close>: \<^verbatim>\<open>bmp180.c\<close>. The I2C bus is a list of answers, each by register and size. The arithmetic is that of C, with
    overflow, shifts of negative numbers and divisions by zero checked.
  \<^item> \<open>Params\<close>: the command line of \<^verbatim>\<open>lago.c\<close> (parse_param, StrcpyS, show_usage).
  \<^item> \<open>Daq\<close>, \<open>Readout\<close>, \<open>DaqTime\<close>: new_file and read_buffer of \<^verbatim>\<open>lago.c\<close>; \<open>Daq\<close> has the definitions,
    one for each kind of word the hardware sends, \<open>Readout\<close> the ring, \<open>DaqTime\<close> the files and
    their times.
  \<^item> \<open>LagoMain\<close>: main of \<^verbatim>\<open>lago.c\<close> with every action, wait_for_interrupt and the interrupt threads. An
    acquisition is driven by an explicit list of interrupts, each with what the hardware did to
    the registers meanwhile.
  \<^item> \<open>Threads\<close>: the acquisition and the thread that \<^verbatim>\<open>main\<close> starts, \<^verbatim>\<open>thread_isr_not_gps\<close>, as a step
    relation: both are inside \<^verbatim>\<open>wait_for_interrupt\<close>, on the same device file and the same \<^verbatim>\<open>position\<close>, with the
    writer in the hardware, its interrupts and the signal that ends the program as further steps.
  \<^item> \<open>ParamType\<close>: the type of the command-line parser, shared with that of the predecessor.
  \<^item> \<open>Versions\<close>, \<open>Older\<close>: versions 1.0 and 1.1, \<^verbatim>\<open>src/projects/lago_v1_0\<close> and \<^verbatim>\<open>lago_v1_1\<close>. \<open>Versions\<close> has the
    registers of \<^verbatim>\<open>zynq_io.c\<close>, \<open>Older\<close> the programs: definitions with the version as an argument, the parts
    that no version changes being those of version 1.2.

  Its predecessors, under \<^verbatim>\<open>src/projects\<close>:

  \<^item> \<open>TrigTest\<close>: \<^verbatim>\<open>trigger_test/trigger_test.c\<close>, which reads the memory half by half and decodes three
    kinds of words. Its decision which half to read is used by the next one, too.
  \<^item> \<open>UioApp\<close>: \<^verbatim>\<open>lago_test/uio_app.c\<close>, the whole program. Its state is the acquisition state of version
    1.2 and the globals that only it has; the clock, the counters and the files are those of \<open>Daq\<close>.
  \<^item> \<open>Acqua\<close>, \<open>AcquaFile\<close>: \<^verbatim>\<open>lago_test/lago.c\<close>, read_buffer and NewFile: \<open>Acqua\<close> takes words out of a circular
    buffer of bytes, \<open>AcquaFile\<close> writes them and the metadata, over the state of \<open>UioApp\<close>. \<open>AcquaArgs\<close>: its command
    line, status, configuration file and alarm, and the copy of the command line in \<^verbatim>\<open>apps/lago/lago.c\<close>.
  \<^item> \<open>BramTest\<close>: \<^verbatim>\<open>trigger_test_bram\<close>, two programs that read a page and the whole memory, over \<open>TrigTest\<close>.

  Kernel modules:

  \<^item> \<open>MemAlloc\<close>: \<^verbatim>\<open>apps/dma/dma_driver/memalloc.c\<close>, buffers for a program by number.
  \<^item> \<open>MyHandle\<close>: \<^verbatim>\<open>drivers/myhandle/myhandle.c\<close>, a device whose reader waits for a timer interrupt;
    \<open>HandleRace\<close>: several readers, each call in two steps with interrupts between them.
  \<^item> \<open>AxiDma\<close>: \<^verbatim>\<open>projects/dma_loopback/axidma.c\<close>, a test of a DMA loop at loading time.
  \<^item> \<open>Blink\<close>: \<^verbatim>\<open>apps/dma/LKM/blink.c\<close>, a light that one process at a time may switch.
  \<^item> \<open>Clients\<close>: the programs that use them, \<^verbatim>\<open>dma_driver/test.c\<close>, \<^verbatim>\<open>linux_blinkled_app.c\<close> and
    \<^verbatim>\<open>test_handle.c\<close>, each run over the model of its module, and the client of the streaming server.

  Programs for the converters and the DMA engine:

  \<^item> \<open>Passthrough\<close>, \<open>AdcDac\<close>, \<open>Hello\<close>: \<^verbatim>\<open>apps/dma/sw\<close>, a DMA driver, the two converters over it and the
    demonstration that copies frames from one to the other.
  \<^item> \<open>Streaming\<close>: \<^verbatim>\<open>adc_test/server/adc-test-server.c\<close> and \<^verbatim>\<open>dac_player/adc-recorder.c\<close>, two processes, a
    pipe and the hardware, as a step relation.
  \<^item> \<open>Capture\<close>: \<^verbatim>\<open>adc_recorder\<close>, \<^verbatim>\<open>adc_recorder_trigger\<close> and \<^verbatim>\<open>dac_player/dac-player.c\<close>, which map registers
    and sample memory as bytes.
  \<^item> \<open>DmaRegs\<close>: \<^verbatim>\<open>projects/dma_loopback/dma_test.c\<close>, the engine programmed by its registers. \<open>DmaIrq\<close>:
    \<^verbatim>\<open>apps/dma/dma_uio_test/DMA_UIO_test.c\<close>, which starts the next transfer at each interrupt. \<open>DmaCapture\<close>:
    \<^verbatim>\<open>dma_lago\<close>, \<^verbatim>\<open>dma_test\<close> and \<^verbatim>\<open>counter_dma\<close>, which print one block.
  \<^item> \<open>RegTests\<close>: \<^verbatim>\<open>histogram_test\<close>, \<^verbatim>\<open>bram_counter_test/uio_bram_counter.c\<close>, \<^verbatim>\<open>xadc_test/xadc_uio.c\<close>,
    \<^verbatim>\<open>int_test3\<close>, \<^verbatim>\<open>ramp_test\<close> and \<^verbatim>\<open>pwm_test\<close>, small programs over the registers of \<open>ZynqIO\<close> and the
    mapped bytes of \<open>Capture\<close>. \<open>IntcTests\<close>: \<^verbatim>\<open>int_test2\<close> and \<^verbatim>\<open>int_test\<close>, which wait for interrupts.

  Shared: \<open>Prelude\<close> (faults, error monad, words), \<open>CArith\<close> (C integer arithmetic), \<open>CFloat\<close>
  (float and double with correct rounding), \<open>CStrings\<close> (strings, scanning and printing of
  numbers), \<open>CTime\<close> (the calendar of the C library).

  \<^bold>\<open>How the code is represented\<close>

  Each function is a definition of the same name; its result is \<open>'a res\<close>, a fault or a value,
  where the fault says how a C program stops without returning: a null or foreign access, an
  undefined arithmetic operation, a use after free, \<^verbatim>\<open>exit\<close>, or waiting for ever (\<open>Blocked\<close>) on the
  input given. Devices that answer (serial line, I2C bus, status registers, kernel calls) are
  arguments: lists of answers where the code asks repeatedly, so that loops are recursive on them
  and need no fuel, and each loop has a theorem that says for which answers it ends.

  Interfaces are locales: \<open>regbank\<close> (a register file; interpreted as \<open>bus\<close>), \<open>clock\<close> (a calendar
  that can be advanced; \<open>pc\<close>), \<open>slot_table\<close> (the buffer table of the kernel module; \<open>buf\<close>),
  \<open>frame_port\<close> (a converter with a frame length; \<open>rcv\<close> and \<open>snd\<close>), \<open>consumer\<close> (the parent process
  behind the pipe; \<open>net\<close> and \<open>disk\<close>).

  \<^bold>\<open>What is proved\<close>

  \<^item> Acquisition: read_buffer refines an abstract reader that counts words, no word is lost,
    repeated or reordered as long as the hardware is less than a lap ahead, and main composes
    the calls to a whole run, from leaving reset to the signal that ends it; no other thread is running.
  \<^item> Threads: what one call does for every answer, in one piece and in steps; the position is what one of the
    threads read from the status register and stored last, but it may go back, after which old words are
    written again, and the acquisition may block until a further interrupt, also when it is to end.
  \<^item> Versions: with version 1.2 as its argument the program with versions is the program above; all of them
    write the same data, and they compute different voltages.
  \<^item> Predecessors: the circular buffer refines a queue of bytes, positions survive their coding in six
    words, the means in the metadata are those of the words that came; and where they fail: the
    windows of the memory, the index of the rates, the test for the receiver, the alignment, the squares.
  \<^item> Devices: the registers after the set-up, the error of the high voltage, the recovery of the
    sensor's coefficients, its temperature formula without overflow, and the position from GPS
    sentences with its rounding error; a damaged sentence is rejected unless the damage is a zero character.
  \<^item> Command line: an accepted one selects one action with all its limits respected; the parser keeps every
    string within its buffer whatever the arguments are, and those it does not return from are known exactly.
  \<^item> Kernel modules: invariants of their tables and counters over every order of operations, and
    what the missing checks allow.
  \<^item> Converters, streaming and recording: frames have the size asked for, data arrives in order
    and unchanged, and when loops end.
  \<^item> Test programs: their outcome for every answer of the system, composed with the module they
    call where it is modelled, and what they show of the data that arrives.
  \<^item> Where the code does not do what it means to, a theorem says so for the code as it is: the line
    buffer of the serial port, the parsers on short sentences, the missing sensor, the buffer
    number past the table, the halves that get out of step, the overrun, the transfers that are
    not waited for, the races in opening a device and in
    waiting for its interrupt.

  \<^bold>\<open>Bounds\<close>

  Machine integers have their width throughout. Floating-point values have unbounded exponents:
  the programs stay within a few powers of ten. The theorems about the ring hold for every ring of
  an even number of words whose size in bytes is less than 2 to the 31, so that no position
  computed from it overflows. Characters are unsigned, as on ARM.

  \<^bold>\<open>Not modelled\<close>

  \<^item> The interleaving of \<^verbatim>\<open>thread_isr\<close> with main, as the line that would start it is a comment; that of
    an interrupt handler with what a call does to a message once its waiting is over.
  \<^item> The vendor's library under \<^verbatim>\<open>apps/dma/sw\<close>, the kernel and the C library's input and output: their
    results are parameters.
  \<^item> In \<open>Streaming\<close>, mapping and pipe succeed and the signal reaches the parent only.
  \<^item> In \<^verbatim>\<open>lago_test/lago.c\<close> main and the functions that set a register, which are not there: the file does not
    compile as it stands, and the calculation of pressure and temperature is not in the repository.
  \<^item> The histogram program \<^verbatim>\<open>bram_counter_test/src/histo.c\<close>, which does not compile either: \<^verbatim>\<open>main\<close> has an \<^verbatim>\<open>else\<close>
    without its \<^verbatim>\<open>if\<close>, variables are not declared, the offset of a trigger register is not defined, and
    functions it calls are commented out.
  \<^item> Small test programs that do not compile or use variables before they are set
    (\<^verbatim>\<open>dma_lauri/dma_test_h.c\<close>, \<^verbatim>\<open>otro_dma.c\<close>, \<^verbatim>\<open>dma_fft.c\<close>, \<^verbatim>\<open>dma_xadc.c\<close>, \<^verbatim>\<open>zynq_dma.c\<close>), and copies:
    \<^verbatim>\<open>lockin_amp.c\<close> and \<^verbatim>\<open>adpll_test.c\<close> are \<^verbatim>\<open>adc-recorder.c\<close>, \<^verbatim>\<open>user_code.c\<close> is \<^verbatim>\<open>test_handle.c\<close>,
    and \<^verbatim>\<open>apps/dma/dma_test/dma_test.c\<close> is that of \<^verbatim>\<open>dma_loopback\<close> with samples printed instead of bytes.
  \<^item> Code of others: the vendor's headers and examples, the kernel patches, VHDL and Tcl.
\<close>

end
